(* ===== verification/Prelude.thy ===== *)
theory Prelude
  imports Main "HOL-Library.Sublist"
begin

text \<open>
  What every component of the library shares: the fact collections, the error values of the
  Go code, the result type of an operation that changes a state and may fail, the time and
  duration arithmetic of Go's \<open>time\<close> package, and lemmas on lists used as tables.

  A Go function \<open>func f(...) (T, error)\<close> that writes through a store is modelled as
  \<open>'s \<Rightarrow> (error + 'a) \<times> 's\<close>: the new state comes back on the error path too, because a
  Go function that returns an error may have written before it failed.
\<close>

named_theorems table_simps \<open>rewrites for rows selected, updated and deleted in a table\<close>
named_theorems op_defs \<open>definitions of the operations of a component\<close>

section \<open>Errors\<close>

text \<open>
  The sentinels of \<open>porte.go\<close> and \<open>magiclink.go\<close>, and the values an \<open>error\<close> takes: a
  sentinel, an application error of the \<open>tronc\<close> package (a code, a message and the cause it
  wraps), an error made by \<open>fmt.Errorf\<close> with \<open>%w\<close>, one made without it, a database
  statement that did not run and a constraint the database refused.
\<close>

datatype sentinel =
    ErrNotFound | ErrWrongPassword | ErrEmailTaken | ErrRegistrationClosed | ErrWeakPassword
  | ErrInvalidEmail | ErrLocalLoginDisabled | ErrNoPassword | ErrPasswordSet | ErrCodeConsumed
  | ErrMagicLinkInvalid | ErrTokenUnreadable

datatype code =
    InvalidArgument | Unauthenticated | PermissionDenied | NotFoundCode | AlreadyExists
  | InternalCode | FailedPrecondition | RateLimitedCode

datatype error =
    Sentinel sentinel
  | Api code string "error option"
  | Wrap string error
  | Plain string
  | SqlFault
  | SqlConstraint

text \<open>\<open>errors.Is\<close> against a sentinel: the chain of wrapped errors is followed.\<close>

fun is_err :: "error \<Rightarrow> sentinel \<Rightarrow> bool" where
  "is_err (Sentinel s) t = (s = t)"
| "is_err (Api c m None) t = False"
| "is_err (Api c m (Some e)) t = is_err e t"
| "is_err (Wrap m e) t = is_err e t"
| "is_err (Plain m) t = False"
| "is_err SqlFault t = False"
| "is_err SqlConstraint t = False"

text \<open>The HTTP-facing code of an error, when it carries one.\<close>

fun code_of :: "error \<Rightarrow> code option" where
  "code_of (Api c m e) = Some c"
| "code_of _ = None"

type_synonym 'a result = "error + 'a"

definition unauthorized :: "string \<Rightarrow> error" where
  "unauthorized m = Api Unauthenticated m None"

definition forbidden :: "string \<Rightarrow> error" where
  "forbidden m = Api PermissionDenied m None"

definition internal :: "string \<Rightarrow> error \<Rightarrow> error" where
  "internal m e = Api InternalCode m (Some e)"

definition invalid :: "string \<Rightarrow> error" where
  "invalid m = Api InvalidArgument m None"

definition rate_limited :: "string \<Rightarrow> error" where
  "rate_limited m = Api RateLimitedCode m None"

lemma is_err_api_simps [simp]:
  "is_err (unauthorized m) t = False"
  "is_err (forbidden m) t = False"
  "is_err (internal m e) t = is_err e t"
  by (simp_all add: unauthorized_def forbidden_def internal_def)

lemma api_neq [simp]:
  "unauthorized m \<noteq> forbidden m'" "forbidden m' \<noteq> unauthorized m"
  "unauthorized m \<noteq> internal m' e" "internal m' e \<noteq> unauthorized m"
  "forbidden m \<noteq> internal m' e" "internal m' e \<noteq> forbidden m"
  "unauthorized m = unauthorized m' \<longleftrightarrow> m = m'"
  "forbidden m = forbidden m' \<longleftrightarrow> m = m'"
  by (auto simp: unauthorized_def forbidden_def internal_def)

section \<open>Time\<close>

text \<open>
  A \<open>time.Time\<close> is the number of nanoseconds since the zero time, so \<open>IsZero\<close> is equality
  with 0; a \<open>time.Duration\<close> is an \<open>int64\<close> number of nanoseconds. \<open>t.Sub(u)\<close> saturates at
  the bounds of \<open>int64\<close>, which a subtraction from the zero time reaches.
\<close>

type_synonym time = int
type_synonym duration = int

definition max_duration :: duration where "max_duration = 2 ^ 63 - 1"
definition min_duration :: duration where "min_duration = - (2 ^ 63)"

definition time_sub :: "time \<Rightarrow> time \<Rightarrow> duration" where
  "time_sub t u = max min_duration (min max_duration (t - u))"

definition second :: duration where "second = 1000000000"
definition minute :: duration where "minute = 60 * second"
definition hour :: duration where "hour = 60 * minute"

lemmas duration_units = second_def minute_def hour_def

lemma time_sub_ge:
  "min_duration < d \<Longrightarrow> d \<le> max_duration \<Longrightarrow> d \<le> time_sub t u \<longleftrightarrow> u + d \<le> t"
  by (auto simp: time_sub_def max_duration_def min_duration_def)

lemma time_sub_exact:
  "min_duration \<le> t - u \<Longrightarrow> t - u \<le> max_duration \<Longrightarrow> time_sub t u = t - u"
  by (simp add: time_sub_def)

section \<open>Tables as lists of rows\<close>

text \<open>
  A table is a list of rows. \<open>row_with f k\<close> is a \<open>SELECT ... WHERE f = k\<close> on a unique
  column; \<open>affected\<close> counts the rows a statement touches.
\<close>

definition row_with :: "('r \<Rightarrow> 'k) \<Rightarrow> 'k \<Rightarrow> 'r list \<Rightarrow> 'r option" where
  "row_with f k rs = find (\<lambda>r. f r = k) rs"

definition has_row :: "('r \<Rightarrow> bool) \<Rightarrow> 'r list \<Rightarrow> bool" where
  "has_row p rs = list_ex p rs"

definition affected :: "('r \<Rightarrow> bool) \<Rightarrow> 'r list \<Rightarrow> int" where
  "affected p rs = int (length (filter p rs))"

definition delete_where :: "('r \<Rightarrow> bool) \<Rightarrow> 'r list \<Rightarrow> 'r list" where
  "delete_where p rs = filter (\<lambda>r. \<not> p r) rs"

definition update_where :: "('r \<Rightarrow> bool) \<Rightarrow> ('r \<Rightarrow> 'r) \<Rightarrow> 'r list \<Rightarrow> 'r list" where
  "update_where p f rs = map (\<lambda>r. if p r then f r else r) rs"

lemma has_row_iff [table_simps]: "has_row p rs \<longleftrightarrow> (\<exists>r \<in> set rs. p r)"
  by (simp add: has_row_def list_ex_iff)

lemma set_delete_where [table_simps]: "set (delete_where p rs) = {r \<in> set rs. \<not> p r}"
  by (simp add: delete_where_def)

lemma set_update_where [table_simps]:
  "set (update_where p f rs) = (\<lambda>r. if p r then f r else r) ` set rs"
  by (simp add: update_where_def)

lemma affected_pos [table_simps]: "affected p rs = 0 \<longleftrightarrow> (\<forall>r \<in> set rs. \<not> p r)"
  by (auto simp: affected_def filter_empty_conv)

lemma affected_ge_0 [simp]: "0 \<le> affected p rs"
  by (simp add: affected_def)

lemma row_with_Some: "row_with f k rs = Some r \<Longrightarrow> r \<in> set rs \<and> f r = k"
  by (auto simp: row_with_def find_Some_iff)

lemma row_with_None: "row_with f k rs = None \<longleftrightarrow> (\<forall>r \<in> set rs. f r \<noteq> k)"
  by (auto simp: row_with_def find_None_iff)

lemma row_with_unique:
  assumes "distinct (map f rs)" and "r \<in> set rs"
  shows "row_with f (f r) rs = Some r"
proof (cases "row_with f (f r) rs")
  case None
  with assms(2) show ?thesis by (auto simp: row_with_None)
next
  case (Some r')
  with row_with_Some [OF Some] assms show ?thesis
    by (auto simp: distinct_map inj_on_def)
qed

lemma row_with_eq_Some:
  "distinct (map f rs) \<Longrightarrow> row_with f k rs = Some r \<longleftrightarrow> r \<in> set rs \<and> f r = k"
  using row_with_unique row_with_Some by metis

lemma row_with_Nil [simp]: "row_with f k [] = None"
  by (simp add: row_with_def)

lemma row_with_Cons [simp]:
  "row_with f k (r # rs) = (if f r = k then Some r else row_with f k rs)"
  by (simp add: row_with_def)

lemma row_with_append:
  "row_with f k (xs @ ys) = (case row_with f k xs of None \<Rightarrow> row_with f k ys | Some r \<Rightarrow> Some r)"
  by (induction xs) auto

lemma distinct_delete_where [table_simps]:
  "distinct (map f rs) \<Longrightarrow> distinct (map f (delete_where p rs))"
  unfolding delete_where_def by (rule distinct_map_filter)

lemma map_update_where [table_simps]:
  "(\<And>r. f (g r) = f r) \<Longrightarrow> map f (update_where p g rs) = map f rs"
  by (simp add: update_where_def)

lemma row_with_delete_where:
  assumes "distinct (map f rs)"
  shows "row_with f k (delete_where p rs) =
    (case row_with f k rs of None \<Rightarrow> None | Some r \<Rightarrow> if p r then None else Some r)"
  using assms
proof (induction rs)
  case Nil
  show ?case by (simp add: delete_where_def)
next
  case (Cons r rs)
  have "f r \<notin> f ` set rs" using Cons.prems by simp
  then have "row_with f (f r) rs = None"
    unfolding row_with_None by (blast dest: rev_image_eqI [OF _ sym])
  with Cons show ?case by (auto simp: delete_where_def split: option.splits)
qed

lemma row_with_update_where:
  assumes "\<And>r. f (g r) = f r"
  shows "row_with f k (update_where p g rs) =
    map_option (\<lambda>r. if p r then g r else r) (row_with f k rs)"
  using assms by (induction rs) (auto simp: update_where_def)

lemma affected_Cons: "affected p (r # rs) = (if p r then 1 else 0) + affected p rs"
  by (simp add: affected_def)

lemma affected_Nil [simp]: "affected p [] = 0"
  by (simp add: affected_def)

lemma affected_append: "affected p (xs @ ys) = affected p xs + affected p ys"
  by (simp add: affected_def)

lemma affected_mono: "(\<And>r. r \<in> set rs \<Longrightarrow> p r \<Longrightarrow> q r) \<Longrightarrow> affected p rs \<le> affected q rs"
  by (induction rs) (auto simp: affected_Cons)

lemma find_SomeD: "find p xs = Some r \<Longrightarrow> r \<in> set xs \<and> p r"
  by (auto simp: find_Some_iff)

lemma find_by_key:
  assumes "distinct (map f xs)" and "\<And>x. p x \<Longrightarrow> f x = k" and "r \<in> set xs" and "p r"
  shows "find p xs = Some r"
proof (cases "find p xs")
  case None
  with assms show ?thesis by (auto simp: find_None_iff)
next
  case (Some r')
  then have "r' \<in> set xs" "p r'" by (auto simp: find_Some_iff)
  with assms Some show ?thesis by (metis distinct_map inj_onD)
qed

lemma update_where_none: "(\<And>r. r \<in> set rs \<Longrightarrow> \<not> p r) \<Longrightarrow> update_where p f rs = rs"
  by (induction rs) (auto simp: update_where_def)

end
