(* ===== verification/Spaces.thy ===== *)
theory Spaces
  imports Prelude
begin

text \<open>
  The package \<open>spaces\<close>: the role ladder (\<open>ladder.go\<close>), the guard (\<open>guard.go\<close>,
  \<open>assign.go\<close>), the \<open>Store\<close> interface it asks (\<open>store.go\<close>) and the in-memory store of
  \<open>spacestest/memory.go\<close> that implements it. A store is a record of functions on a state;
  the guard only reads, so none of its operations returns a state. The locale
  \<open>membership_store\<close> is the interface's contract; it is interpreted on the memory store.
\<close>

section \<open>Roles, memberships and scopes (spaces.go, errors.go)\<close>

datatype space_error =
    ErrNotMember | ErrForbidden | ErrSoleOwner | ErrUnknownRole | StoreFailed string

type_synonym role = string

definition role_owner :: role where "role_owner = ''owner''"
definition role_admin :: role where "role_admin = ''admin''"
definition role_member :: role where "role_member = ''member''"

record membership =
  m_space :: string
  m_user :: string
  m_role :: role

record scope =
  sc_user :: string
  sc_space :: string
  sc_role :: role
  sc_resolved :: bool

definition personal :: "scope \<Rightarrow> bool" where
  "personal s = (sc_resolved s \<and> sc_space s = [])"

section \<open>The ladder (ladder.go)\<close>

record ladder =
  ascending :: "role list"
  built :: bool

definition zero_ladder :: ladder where
  "zero_ladder = \<lparr>ascending = [], built = False\<rparr>"

fun ladder_loop :: "role list \<Rightarrow> role list \<Rightarrow> role list" where
  "ladder_loop order [] = order"
| "ladder_loop order (r # rs) =
     (if r \<noteq> [] \<and> \<not> List.member order r then ladder_loop (order @ [r]) rs
      else ladder_loop order rs)"

definition new_ladder :: "role list \<Rightarrow> ladder" where
  "new_ladder roles = \<lparr>ascending = ladder_loop [] roles, built = True\<rparr>"

definition default_ladder :: ladder where
  "default_ladder = new_ladder [role_member, role_admin, role_owner]"

text \<open>\<open>slices.Index\<close>: the first position, or -1.\<close>

fun index :: "'a list \<Rightarrow> 'a \<Rightarrow> int" where
  "index [] x = -1"
| "index (y # ys) x = (if y = x then 0 else let i = index ys x in if i < 0 then -1 else i + 1)"

definition valid :: "ladder \<Rightarrow> role \<Rightarrow> bool" where
  "valid l r = List.member (ascending l) r"

definition at_least :: "ladder \<Rightarrow> role \<Rightarrow> role \<Rightarrow> bool" where
  "at_least l r least =
     (let held = index (ascending l) r; low = index (ascending l) least
      in 0 \<le> held \<and> 0 \<le> low \<and> low \<le> held)"

definition top_role :: "ladder \<Rightarrow> role" where
  "top_role l = (if ascending l = [] then [] else last (ascending l))"

section \<open>The guard (guard.go, assign.go)\<close>

text \<open>The \<open>Store\<close> interface: three reads, each of which may fail.\<close>

record 's space_store =
  st_membership :: "string \<Rightarrow> string \<Rightarrow> 's \<Rightarrow> space_error + membership"
  st_memberships :: "string \<Rightarrow> 's \<Rightarrow> space_error + membership list"
  st_count_role :: "string \<Rightarrow> role \<Rightarrow> 's \<Rightarrow> space_error + int"

record 's guard =
  g_store :: "'s space_store"
  g_ladder :: ladder

definition ladder_of :: "'s guard \<Rightarrow> ladder" where
  "ladder_of g = (if built (g_ladder g) then g_ladder g else default_ladder)"

definition resolve :: "'s guard \<Rightarrow> string \<Rightarrow> string \<Rightarrow> 's \<Rightarrow> space_error + scope" where
  "resolve g user space s =
     (if user = [] then Inl ErrNotMember
      else if space = [] then
        Inr \<lparr>sc_user = user, sc_space = [], sc_role = [], sc_resolved = True\<rparr>
      else case st_membership (g_store g) space user s of
        Inl e \<Rightarrow> Inl e
      | Inr m \<Rightarrow>
          if m_space m \<noteq> space \<or> m_user m \<noteq> user then Inl ErrNotMember
          else if \<not> valid (ladder_of g) (m_role m) then Inl ErrUnknownRole
          else Inr \<lparr>sc_user = user, sc_space = space, sc_role = m_role m, sc_resolved = True\<rparr>)"

definition require :: "'s guard \<Rightarrow> string \<Rightarrow> string \<Rightarrow> role \<Rightarrow> 's \<Rightarrow> space_error + scope" where
  "require g user space least s =
     (if \<not> valid (ladder_of g) least then Inl ErrUnknownRole
      else if space = [] then Inl ErrNotMember
      else case resolve g user space s of
        Inl e \<Rightarrow> Inl e
      | Inr sc \<Rightarrow> if at_least (ladder_of g) (sc_role sc) least then Inr sc else Inl ErrForbidden)"

definition can_leave :: "'s guard \<Rightarrow> string \<Rightarrow> string \<Rightarrow> 's \<Rightarrow> space_error option" where
  "can_leave g user space s =
     (if space = [] then Some ErrNotMember
      else case resolve g user space s of
        Inl e \<Rightarrow> Some e
      | Inr sc \<Rightarrow>
          if sc_role sc \<noteq> top_role (ladder_of g) then None
          else case st_count_role (g_store g) space (top_role (ladder_of g)) s of
            Inl e \<Rightarrow> Some e
          | Inr owners \<Rightarrow> if owners \<le> 1 then Some ErrSoleOwner else None)"

definition spaces :: "'s guard \<Rightarrow> string \<Rightarrow> 's \<Rightarrow> space_error + membership list" where
  "spaces g user s =
     (if user = [] then Inl ErrNotMember
      else case st_memberships (g_store g) user s of
        Inl e \<Rightarrow> Inl e
      | Inr all \<Rightarrow> Inr (filter (\<lambda>m. m_user m = user \<and> m_space m \<noteq> [] \<and>
                                   valid (ladder_of g) (m_role m)) all))"

definition assignable_by :: "'s guard \<Rightarrow> scope \<Rightarrow> role \<Rightarrow> bool" where
  "assignable_by g actor target =
     (if \<not> sc_resolved actor \<or> personal actor then False
      else at_least (ladder_of g) (sc_role actor) target)"

definition assignable_over :: "'s guard \<Rightarrow> scope \<Rightarrow> role \<Rightarrow> role \<Rightarrow> bool" where
  "assignable_over g actor current target =
     (if \<not> valid (ladder_of g) current then False
      else assignable_by g actor current \<and> assignable_by g actor target)"

lemmas guard_defs [op_defs] = resolve_def require_def can_leave_def spaces_def
  assignable_by_def assignable_over_def

section \<open>The memory store (spacestest/memory.go)\<close>

type_synonym memory = "membership list"

fun memory_seed :: "membership \<Rightarrow> memory \<Rightarrow> memory" where
  "memory_seed m [] = [m]"
| "memory_seed m (e # es) =
     (if m_space e = m_space m \<and> m_user e = m_user m then m # es else e # memory_seed m es)"

fun memory_membership :: "string \<Rightarrow> string \<Rightarrow> memory \<Rightarrow> space_error + membership" where
  "memory_membership space user [] = Inl ErrNotMember"
| "memory_membership space user (m # ms) =
     (if m_space m = space \<and> m_user m = user then Inr m else memory_membership space user ms)"

definition memory_memberships :: "string \<Rightarrow> memory \<Rightarrow> space_error + membership list" where
  "memory_memberships user ms = Inr (filter (\<lambda>m. m_user m = user) ms)"

definition memory_count_role :: "string \<Rightarrow> role \<Rightarrow> memory \<Rightarrow> space_error + int" where
  "memory_count_role space r ms = Inr (affected (\<lambda>m. m_space m = space \<and> m_role m = r) ms)"

definition memory_store :: "memory space_store" where
  "memory_store = \<lparr>st_membership = memory_membership, st_memberships = memory_memberships,
     st_count_role = memory_count_role\<rparr>"

section \<open>Facts about ladders\<close>

lemma index_bounds: "-1 \<le> index xs x \<and> index xs x < int (length xs)"
  by (induction xs) (auto simp: Let_def)

lemma index_nonneg: "0 \<le> index xs x \<longleftrightarrow> x \<in> set xs"
proof (induction xs)
  case Nil
  then show ?case by simp
next
  case (Cons y ys)
  then show ?case by (auto simp: Let_def)
qed

lemma index_nth: "x \<in> set xs \<Longrightarrow> xs ! nat (index xs x) = x"
proof (induction xs)
  case (Cons y ys)
  show ?case
  proof (cases "y = x")
    case False
    with Cons.prems have x: "x \<in> set ys" by simp
    then have "0 \<le> index ys x" by (simp add: index_nonneg)
    with False Cons.IH [OF x] show ?thesis by (simp add: Let_def nat_add_distrib)
  qed simp
qed simp

lemma index_inj: "x \<in> set xs \<Longrightarrow> y \<in> set xs \<Longrightarrow> index xs x = index xs y \<Longrightarrow> x = y"
  by (metis index_nth)

lemma index_last: "distinct xs \<Longrightarrow> xs \<noteq> [] \<Longrightarrow> index xs (last xs) = int (length xs) - 1"
proof (induction xs)
  case (Cons y ys)
  show ?case
  proof (cases "ys = []")
    case False
    with Cons.prems have "y \<noteq> last ys" using last_in_set by auto
    with False Cons show ?thesis by (auto simp: Let_def)
  qed simp
qed simp

lemma valid_iff: "valid l r \<longleftrightarrow> r \<in> set (ascending l)"
  by (simp add: valid_def)

lemma at_least_iff:
  "at_least l a b \<longleftrightarrow> valid l a \<and> valid l b \<and> index (ascending l) b \<le> index (ascending l) a"
  by (auto simp: at_least_def Let_def valid_iff index_nonneg)

lemma at_least_valid: "at_least l a b \<Longrightarrow> valid l a \<and> valid l b"
  by (simp add: at_least_iff)

lemma at_least_refl: "valid l a \<Longrightarrow> at_least l a a"
  by (simp add: at_least_iff)

lemma at_least_trans: "at_least l a b \<Longrightarrow> at_least l b c \<Longrightarrow> at_least l a c"
  by (auto simp: at_least_iff)

lemma at_least_antisym: "at_least l a b \<Longrightarrow> at_least l b a \<Longrightarrow> a = b"
  by (auto simp: at_least_iff valid_iff intro: index_inj)

lemma at_least_total: "valid l a \<Longrightarrow> valid l b \<Longrightarrow> at_least l a b \<or> at_least l b a"
  by (auto simp: at_least_iff)

text \<open>A ladder \<open>NewLadder\<close> built ranks distinct, non-empty roles.\<close>

definition ladder_ok :: "ladder \<Rightarrow> bool" where
  "ladder_ok l = (distinct (ascending l) \<and> [] \<notin> set (ascending l))"

lemma ladder_loop_ok:
  "distinct order \<Longrightarrow> [] \<notin> set order \<Longrightarrow>
    distinct (ladder_loop order rs) \<and> [] \<notin> set (ladder_loop order rs) \<and>
    set (ladder_loop order rs) = set order \<union> (set rs - {[]})"
  by (induction order rs rule: ladder_loop.induct) auto

lemma new_ladder_ok [simp]: "ladder_ok (new_ladder rs)"
  using ladder_loop_ok [of "[]" rs] by (simp add: ladder_ok_def new_ladder_def)

lemma valid_new_ladder: "valid (new_ladder rs) r \<longleftrightarrow> r \<in> set rs \<and> r \<noteq> []"
  using ladder_loop_ok [of "[]" rs] by (auto simp: valid_iff new_ladder_def)

lemma ladder_loop_prefix: "\<exists>ys. ladder_loop order rs = order @ ys"
proof (induction order rs rule: ladder_loop.induct)
  case (2 order r rs)
  then show ?case by (cases "r \<noteq> [] \<and> \<not> List.member order r") auto
qed simp

lemma valid_top: "valid l r \<Longrightarrow> valid l (top_role l)"
  by (auto simp: valid_iff top_role_def)

lemma top_at_least: "ladder_ok l \<Longrightarrow> valid l r \<Longrightarrow> at_least l (top_role l) r"
  using index_last [of "ascending l"] index_bounds [of "ascending l" r]
  by (auto simp: at_least_iff valid_top ladder_ok_def top_role_def valid_iff)

lemma top_only: "ladder_ok l \<Longrightarrow> at_least l r (top_role l) \<Longrightarrow> r = top_role l"
  by (meson at_least_antisym at_least_valid top_at_least)

lemma default_ladder_ok [simp]: "ladder_ok default_ladder"
  by (simp add: default_ladder_def)

lemma ladder_of_new [simp]: "g_ladder g = new_ladder rs \<Longrightarrow> ladder_of g = new_ladder rs"
  by (simp add: ladder_of_def new_ladder_def)

lemma resolve_Inr:
  "resolve g user space s = Inr sc \<Longrightarrow>
    sc_resolved sc \<and> sc_user sc = user \<and> sc_space sc = space \<and> user \<noteq> [] \<and>
    (space \<noteq> [] \<longrightarrow> valid (ladder_of g) (sc_role sc) \<and>
       st_membership (g_store g) space user s =
         Inr \<lparr>m_space = space, m_user = user, m_role = sc_role sc\<rparr>)"
  by (auto simp: resolve_def split: if_splits sum.splits)

section \<open>The contract of a store, and what the guard does over it\<close>

text \<open>
  What \<open>store.go\<close> demands of a store: over the rows a state holds, \<open>Membership\<close> answers
  the row of the pair, \<open>ErrNotMember\<close> stands for no such row, \<open>Memberships\<close> lists exactly
  the user's rows, and \<open>CountRole\<close> counts. A store may also fail; no law is about that.
\<close>

locale membership_store =
  fixes store :: "'s space_store"
    and rows :: "'s \<Rightarrow> membership list"
    and ok :: "'s \<Rightarrow> bool"
  assumes membership_row:
      "ok s \<Longrightarrow> st_membership store sp u s = Inr m \<Longrightarrow>
        m \<in> set (rows s) \<and> m_space m = sp \<and> m_user m = u"
    and membership_absent:
      "ok s \<Longrightarrow> st_membership store sp u s = Inl ErrNotMember \<Longrightarrow> m \<in> set (rows s) \<Longrightarrow>
        \<not> (m_space m = sp \<and> m_user m = u)"
    and memberships_rows:
      "ok s \<Longrightarrow> st_memberships store u s = Inr ms \<Longrightarrow> set ms = {m \<in> set (rows s). m_user m = u}"
    and count_rows:
      "ok s \<Longrightarrow> st_count_role store sp r s = Inr n \<Longrightarrow>
        n = affected (\<lambda>m. m_space m = sp \<and> m_role m = r) (rows s)"
    and one_row:
      "ok s \<Longrightarrow> distinct (map (\<lambda>m. (m_space m, m_user m)) (rows s))"
begin

lemma resolve_member:
  assumes "ok s" and "resolve g user sp s = Inr sc" and "g_store g = store" and "sp \<noteq> []"
  shows "\<lparr>m_space = sp, m_user = user, m_role = sc_role sc\<rparr> \<in> set (rows s)"
  using resolve_Inr [OF assms(2)] membership_row [OF assms(1)] assms(3,4) by auto

lemma resolve_not_member:
  assumes "ok s" and "resolve g user sp s = Inl ErrNotMember" and "g_store g = store"
    and "sp \<noteq> []" and "user \<noteq> []" and "m \<in> set (rows s)"
  shows "\<not> (m_space m = sp \<and> m_user m = user)"
proof -
  have "st_membership store sp user s = Inl ErrNotMember"
    using assms(1-5) membership_row [OF assms(1)]
    by (auto simp: resolve_def split: if_splits sum.splits)
  then show ?thesis using membership_absent [OF assms(1)] assms(6) by blast
qed

text \<open>
  Leaving when \<open>CanLeave\<close> allows it keeps an owner: if the leaver held the top role, the
  count says another row of the space holds it, and the row that goes is the leaver's own.
\<close>

lemma leave_keeps_top:
  assumes s: "ok s" and g: "g_store g = store" and leave: "can_leave g user sp s = None"
    and owner: "r \<in> set (rows s)" "m_space r = sp" "m_role r = top_role (ladder_of g)"
  shows "\<exists>m \<in> set (delete_where (\<lambda>m. m_space m = sp \<and> m_user m = user) (rows s)).
           m_space m = sp \<and> m_role m = top_role (ladder_of g)"
proof (cases "m_user r = user")
  case False
  with owner show ?thesis by (auto simp: table_simps)
next
  case True
  obtain sc where sp: "sp \<noteq> []" and sc: "resolve g user sp s = Inr sc"
    using leave by (auto simp: can_leave_def split: if_splits sum.splits)
  let ?key = "\<lambda>m. (m_space m, m_user m)"
  let ?top = "\<lambda>m. m_space m = sp \<and> m_role m = top_role (ladder_of g)"
  have "\<lparr>m_space = sp, m_user = user, m_role = sc_role sc\<rparr> = r"
    using resolve_member [OF s sc g sp] owner True one_row [OF s]
    by (auto simp: distinct_map inj_on_def)
  then have "sc_role sc = top_role (ladder_of g)" using owner(3) by auto
  then have two: "1 < affected ?top (rows s)"
    using leave sc sp g count_rows [OF s, of sp "top_role (ladder_of g)"]
    by (auto simp: can_leave_def split: if_splits sum.splits)
  have d: "distinct (filter ?top (rows s))"
    using one_row [OF s] by (simp add: distinct_map)
  have "\<not> set (filter ?top (rows s)) \<subseteq> {r}"
  proof
    assume "set (filter ?top (rows s)) \<subseteq> {r}"
    then have "card (set (filter ?top (rows s))) \<le> card {r}" by (intro card_mono) auto
    with two distinct_card [OF d] show False by (simp add: affected_def)
  qed
  then obtain m where m: "m \<in> set (rows s)" "?top m" "m \<noteq> r" by auto
  then have "?key m \<noteq> ?key r"
    using one_row [OF s] owner(1) by (auto simp: distinct_map inj_on_def)
  with m owner True show ?thesis by (auto simp: table_simps)
qed

end

lemma memory_membership_Inr:
  "memory_membership sp u ms = Inr m \<Longrightarrow> m \<in> set ms \<and> m_space m = sp \<and> m_user m = u"
  by (induction ms) (auto split: if_splits)

lemma memory_membership_Inl:
  "memory_membership sp u ms = Inl e \<longleftrightarrow>
    e = ErrNotMember \<and> (\<forall>m \<in> set ms. \<not> (m_space m = sp \<and> m_user m = u))"
  by (induction ms) auto

definition memory_ok :: "memory \<Rightarrow> bool" where
  "memory_ok ms = distinct (map (\<lambda>m. (m_space m, m_user m)) ms)"

interpretation mem: membership_store memory_store "\<lambda>ms. ms" memory_ok
  by unfold_locales
    (auto simp: memory_store_def memory_memberships_def memory_count_role_def memory_ok_def
      memory_membership_Inl dest: memory_membership_Inr)

lemma memory_seed_keys:
  "(\<lambda>m. (m_space m, m_user m)) ` set (memory_seed m ms) =
    insert (m_space m, m_user m) ((\<lambda>m. (m_space m, m_user m)) ` set ms)"
  by (induction ms) auto

lemma memory_seed_ok: "memory_ok ms \<Longrightarrow> memory_ok (memory_seed m ms)"
proof (induction ms)
  case Nil
  show ?case by (simp add: memory_ok_def)
next
  case (Cons e ms)
  show ?case
  proof (cases "m_space e = m_space m \<and> m_user e = m_user m")
    case True
    with Cons.prems show ?thesis by (simp add: memory_ok_def)
  next
    case False
    have "(m_space e, m_user e) \<notin> (\<lambda>m. (m_space m, m_user m)) ` set (memory_seed m ms)"
      unfolding memory_seed_keys using Cons.prems False by (simp add: memory_ok_def)
    with False Cons show ?thesis by (auto simp: memory_ok_def)
  qed
qed

section \<open>Leaving and changing roles, as the callers do it\<close>

text \<open>
  The protocol \<open>CanLeave\<close> documents: the check and the deletion of the caller's own row run
  as one step. \<open>leave_all\<close> is a sequence of them. \<open>set_role\<close> is the member screen: the
  current role is read from the row, \<open>AssignableOver\<close> is asked, and the row is replaced.
\<close>

definition leave :: "memory guard \<Rightarrow> string \<times> string \<Rightarrow> memory \<Rightarrow> memory" where
  "leave g us ms = (case can_leave g (fst us) (snd us) ms of
     None \<Rightarrow> delete_where (\<lambda>m. m_space m = snd us \<and> m_user m = fst us) ms
   | Some e \<Rightarrow> ms)"

fun leave_all :: "memory guard \<Rightarrow> (string \<times> string) list \<Rightarrow> memory \<Rightarrow> memory" where
  "leave_all g [] ms = ms"
| "leave_all g (us # uss) ms = leave_all g uss (leave g us ms)"

definition set_role ::
  "memory guard \<Rightarrow> string \<Rightarrow> string \<Rightarrow> string \<Rightarrow> role \<Rightarrow> memory \<Rightarrow> memory" where
  "set_role g actor space user target ms = (case resolve g actor space ms of
     Inl e \<Rightarrow> ms
   | Inr sc \<Rightarrow> (case memory_membership space user ms of
        Inl e \<Rightarrow> ms
      | Inr m \<Rightarrow> if assignable_over g sc (m_role m) target
                then memory_seed (m\<lparr>m_role := target\<rparr>) ms else ms))"

definition has_top :: "memory guard \<Rightarrow> string \<Rightarrow> memory \<Rightarrow> bool" where
  "has_top g space ms = has_row (\<lambda>m. m_space m = space \<and> m_role m = top_role (ladder_of g)) ms"

lemma memory_ok_delete: "memory_ok ms \<Longrightarrow> memory_ok (delete_where p ms)"
  by (simp add: memory_ok_def table_simps)

lemma leave_ok: "memory_ok ms \<Longrightarrow> memory_ok (leave g us ms)"
  by (auto simp: leave_def memory_ok_delete split: option.splits)

lemma leave_has_top:
  assumes "memory_ok ms" and g: "g_store g = memory_store" and "has_top g space ms"
  shows "has_top g space (leave g us ms)"
proof (cases "can_leave g (fst us) (snd us) ms")
  case None
  from assms(3) obtain r where r: "r \<in> set ms" "m_space r = space" "m_role r = top_role (ladder_of g)"
    by (auto simp: has_top_def table_simps)
  show ?thesis
  proof (cases "snd us = space")
    case True
    with mem.leave_keeps_top [OF assms(1) g None r(1)] r None show ?thesis
      by (auto simp: has_top_def leave_def has_row_iff)
  next
    case False
    with r None show ?thesis by (auto simp: has_top_def leave_def table_simps)
  qed
next
  case (Some e)
  with assms show ?thesis by (simp add: leave_def)
qed

lemma top_rows_seed:
  assumes "memory_membership sp u ms = Inr m" "m_role m \<noteq> t" "r \<noteq> t"
  shows "filter (\<lambda>x. m_role x = t) (memory_seed (m\<lparr>m_role := r\<rparr>) ms) =
         filter (\<lambda>x. m_role x = t) ms"
  using assms
proof (induction ms)
  case (Cons e ms)
  have k: "m_space m = sp \<and> m_user m = u" using memory_membership_Inr [OF Cons.prems(1)] by simp
  show ?case
  proof (cases "m_space e = sp \<and> m_user e = u")
    case True
    with Cons.prems k show ?thesis by simp
  next
    case False
    with Cons k show ?thesis by auto
  qed
qed simp

section \<open>Properties\<close>

text \<open>
  Whatever the store answers, \<open>Resolve\<close> hands out a scope carrying a space id only when
  the store returned a row with both ids equal to the request and a role the ladder ranks,
  and the scope's user, space and role are exactly that row's.
\<close>

theorem resolve_is_membership:
  assumes "resolve g user space s = Inr sc" and "space \<noteq> []"
  shows "sc_resolved sc \<and> sc_user sc = user \<and> sc_space sc = space \<and>
    valid (ladder_of g) (sc_role sc) \<and>
    st_membership (g_store g) space user s =
      Inr \<lparr>m_space = space, m_user = user, m_role = sc_role sc\<rparr>"
  using resolve_Inr [OF assms(1)] assms(2) by simp

theorem resolve_is_membership_witness:
  defines "g \<equiv> \<lparr>g_store = memory_store, g_ladder = zero_ladder\<rparr>"
  shows "sc_resolved \<lparr>sc_user = ''u'', sc_space = ''a'', sc_role = role_admin, sc_resolved = True\<rparr> \<and>
    st_membership (g_store g) ''a'' ''u'' [\<lparr>m_space = ''a'', m_user = ''u'', m_role = role_admin\<rparr>]
      = Inr \<lparr>m_space = ''a'', m_user = ''u'', m_role = role_admin\<rparr>"
proof -
  have v: "valid (ladder_of g) role_admin"
    by (simp add: g_def ladder_of_def zero_ladder_def default_ladder_def valid_new_ladder role_admin_def)
  have "resolve g ''u'' ''a'' [\<lparr>m_space = ''a'', m_user = ''u'', m_role = role_admin\<rparr>] =
    Inr \<lparr>sc_user = ''u'', sc_space = ''a'', sc_role = role_admin, sc_resolved = True\<rparr>"
    using v by (simp add: resolve_def g_def memory_store_def)
  from resolve_is_membership [OF this] show ?thesis by simp
qed

text \<open>
  \<open>Require\<close> never succeeds on an empty space id or below the minimum: a granted scope is
  for the requested space, and its role, read from the store's row, ranks at or above the
  minimum, whatever the store answers.
\<close>

theorem require_grants_rank:
  assumes "require g user space least s = Inr sc"
  shows "space \<noteq> [] \<and> sc_resolved sc \<and> sc_user sc = user \<and> sc_space sc = space \<and>
    at_least (ladder_of g) (sc_role sc) least \<and>
    st_membership (g_store g) space user s =
      Inr \<lparr>m_space = space, m_user = user, m_role = sc_role sc\<rparr>"
  using assms resolve_Inr [of g user space s sc]
  by (auto simp: require_def split: if_splits sum.splits)

theorem require_grants_rank_witness:
  defines "g \<equiv> \<lparr>g_store = memory_store, g_ladder = zero_ladder\<rparr>"
  shows "at_least (ladder_of g) role_owner role_admin"
proof -
  have "require g ''u'' ''a'' role_admin [\<lparr>m_space = ''a'', m_user = ''u'', m_role = role_owner\<rparr>] =
    Inr \<lparr>sc_user = ''u'', sc_space = ''a'', sc_role = role_owner, sc_resolved = True\<rparr>"
    unfolding g_def by code_simp
  from require_grants_rank [OF this] show ?thesis by simp
qed

text \<open>
  No sequence of departures that each passed \<open>CanLeave\<close> together with its deletion leaves
  a space that had a member at the top rank without one.
\<close>

theorem leave_all_keeps_owner:
  assumes "memory_ok ms" and "g_store g = memory_store" and "has_top g space ms"
  shows "has_top g space (leave_all g uss ms)"
  using assms
proof (induction uss arbitrary: ms)
  case Nil
  then show ?case by simp
next
  case (Cons us uss)
  from Cons.IH [OF leave_ok [OF Cons.prems(1)] Cons.prems(2) leave_has_top [OF Cons.prems]]
  show ?case by simp
qed

theorem leave_all_keeps_owner_witness:
  defines "g \<equiv> \<lparr>g_store = memory_store, g_ladder = zero_ladder\<rparr>"
    and "ms \<equiv> [\<lparr>m_space = ''a'', m_user = ''u'', m_role = role_owner\<rparr>,
               \<lparr>m_space = ''a'', m_user = ''v'', m_role = role_owner\<rparr>]"
  shows "has_top g ''a'' (leave_all g [(''u'', ''a''), (''v'', ''a'')] ms)"
proof -
  have ok: "memory_ok ms" and top: "has_top g ''a'' ms"
    unfolding g_def ms_def by code_simp+
  have "g_store g = memory_store" by (simp add: g_def)
  from leave_all_keeps_owner [OF ok this top] show ?thesis .
qed

text \<open>
  The check and the deletion must be one step. Two owners whose checks both ran before
  either deletion both pass, and the two deletions leave the space without an owner: the
  race \<open>CanLeave\<close> documents as the caller's to close.
\<close>

theorem can_leave_race:
  defines "g \<equiv> \<lparr>g_store = memory_store, g_ladder = zero_ladder\<rparr>"
    and "ms \<equiv> [\<lparr>m_space = ''a'', m_user = ''u'', m_role = role_owner\<rparr>,
               \<lparr>m_space = ''a'', m_user = ''v'', m_role = role_owner\<rparr>]"
  shows "can_leave g ''u'' ''a'' ms = None \<and> can_leave g ''v'' ''a'' ms = None \<and>
    \<not> has_top g ''a'' (delete_where (\<lambda>m. m_space m = ''a'' \<and> m_user m = ''v'')
        (delete_where (\<lambda>m. m_space m = ''a'' \<and> m_user m = ''u'') ms))"
  unfolding g_def ms_def by code_simp

text \<open>
  An actor who does not hold the top rank can neither demote a member who does nor
  promote one to it: a role change guarded by \<open>AssignableOver\<close>, with the current role read
  from the member's row, leaves the rows at the top rank exactly as they were.
\<close>

theorem set_role_cannot_touch_top:
  assumes "ladder_ok (ladder_of g)" and "resolve g actor space ms = Inr sc"
    and "sc_role sc \<noteq> top_role (ladder_of g)"
  shows "filter (\<lambda>m. m_role m = top_role (ladder_of g)) (set_role g actor space user target ms) =
         filter (\<lambda>m. m_role m = top_role (ladder_of g)) ms"
proof -
  have no: "assignable_by g sc r \<Longrightarrow> r \<noteq> top_role (ladder_of g)" for r
    using top_only [OF assms(1)] assms(3) by (auto simp: assignable_by_def split: if_splits)
  show ?thesis
    using assms(2) top_rows_seed [OF _ no no]
    by (auto simp: set_role_def assignable_over_def split: sum.splits)
qed

theorem set_role_cannot_touch_top_witness:
  defines "g \<equiv> \<lparr>g_store = memory_store, g_ladder = zero_ladder\<rparr>"
    and "ms \<equiv> [\<lparr>m_space = ''a'', m_user = ''u'', m_role = role_owner\<rparr>,
               \<lparr>m_space = ''a'', m_user = ''v'', m_role = role_admin\<rparr>]"
  shows "filter (\<lambda>m. m_role m = top_role (ladder_of g)) (set_role g ''v'' ''a'' ''u'' role_member ms) =
         [\<lparr>m_space = ''a'', m_user = ''u'', m_role = role_owner\<rparr>]"
proof -
  have l: "ladder_of g = default_ladder"
    by (simp add: g_def ladder_of_def zero_ladder_def)
  have r: "resolve g ''v'' ''a'' ms =
    Inr \<lparr>sc_user = ''v'', sc_space = ''a'', sc_role = role_admin, sc_resolved = True\<rparr>"
    unfolding g_def ms_def by code_simp
  have n: "sc_role \<lparr>sc_user = ''v'', sc_space = ''a'', sc_role = role_admin, sc_resolved = True\<rparr>
      \<noteq> top_role (ladder_of g)"
    unfolding l by code_simp
  have f: "filter (\<lambda>m. m_role m = top_role (ladder_of g)) ms =
      [\<lparr>m_space = ''a'', m_user = ''u'', m_role = role_owner\<rparr>]"
    unfolding l ms_def by code_simp
  from set_role_cannot_touch_top [OF _ r n] l f show ?thesis by simp
qed

text \<open>
  \<open>AtLeast\<close> on a ladder built by \<open>NewLadder\<close> is a total order on the roles it ranks,
  the top role is above all of them, and a role it does not rank is refused on either side.
\<close>

theorem at_least_total_order:
  "let l = new_ladder roles in
     (\<forall>a b. at_least l a b \<longrightarrow> valid l a \<and> valid l b) \<and>
     (\<forall>a. valid l a \<longrightarrow> at_least l a a \<and> at_least l (top_role l) a) \<and>
     (\<forall>a b. at_least l a b \<and> at_least l b a \<longrightarrow> a = b) \<and>
     (\<forall>a b c. at_least l a b \<and> at_least l b c \<longrightarrow> at_least l a c) \<and>
     (\<forall>a b. valid l a \<and> valid l b \<longrightarrow> at_least l a b \<or> at_least l b a)"
  unfolding Let_def
  by (intro conjI allI impI)
    (blast dest: at_least_valid at_least_total intro: at_least_refl top_at_least [OF new_ladder_ok]
      at_least_antisym at_least_trans)+

theorem at_least_total_order_witness:
  "at_least (new_ladder [''reader'', ''editor'']) ''editor'' ''editor''"
proof -
  let ?l = "new_ladder [''reader'', ''editor'']"
  have v: "valid ?l ''editor''" by (simp add: valid_new_ladder)
  from at_least_total_order [of "[''reader'', ''editor'']"]
  have "\<forall>a. valid ?l a \<longrightarrow> at_least ?l a a \<and> at_least ?l (top_role ?l) a"
    unfolding Let_def by (elim conjE)
  with v show ?thesis by blast
qed

end
