(* ===== verification/Porte.thy ===== *)
theory Porte
  imports Gostd "HOL-Library.Multiset"
begin

text \<open>
  The contract package \<open>porte\<close>: the configuration (\<open>porte.go\<close>), the credential types
  (\<open>session.go\<close>, \<open>magiclink.go\<close>), the identity types (\<open>identity.go\<close>), tokens
  (\<open>token.go\<close>) and locales (\<open>locale.go\<close>). The Go interfaces of these files are records of
  operations, defined beside the component that calls them.
\<close>

section \<open>token.go\<close>

definition token_bytes :: nat where "token_bytes = 32"

text \<open>
  \<open>rand.Read\<close> is an argument: the bytes it filled the buffer with, or \<open>None\<close> when it failed.
\<close>

definition new_token :: "string option \<Rightarrow> string result" where
  "new_token entropy = (case entropy of
     None \<Rightarrow> Inl (Plain ''crypto/rand'')
   | Some buffer \<Rightarrow> Inr (b64_encode (take token_bytes buffer)))"

definition hash_token :: "string \<Rightarrow> string" where
  "hash_token token = hex_encode (sha256 token)"

text \<open>\<open>subtle.ConstantTimeCompare\<close> is 1 exactly when the two byte slices are equal.\<close>

definition secure_compare :: "string \<Rightarrow> string \<Rightarrow> bool" where
  "secure_compare a b = (length a = length b \<and> list_all2 (=) a b)"

lemma secure_compare_eq [simp]: "secure_compare a b \<longleftrightarrow> a = b"
  by (auto simp: secure_compare_def list_all2_eq [symmetric])

lemma length_hash_token [simp]: "length (hash_token t) = 64"
  by (simp add: hash_token_def)

lemma hash_token_neq_Nil [simp]: "hash_token t \<noteq> []" "[] \<noteq> hash_token t"
  using length_hash_token [of t] by (metis length_0_conv zero_neq_numeral)+

section \<open>locale.go\<close>

definition default_locale :: string where "default_locale = ''en''"

definition suite_locales :: "string list" where
  "suite_locales = [''fr'', ''en'', ''es'', ''de'']"

definition normalize_locale :: "string \<Rightarrow> string" where
  "normalize_locale tag =
     (let primary = cut_before CHR ''-'' (to_lower (trim_space tag));
          primary = cut_before CHR ''_'' primary
      in if List.member suite_locales primary then primary else default_locale)"

lemma normalize_locale_cases: "normalize_locale tag \<in> set suite_locales"
  by (simp add: normalize_locale_def default_locale_def suite_locales_def Let_def)

lemma normalize_locale_fixed: "l \<in> set suite_locales \<Longrightarrow> normalize_locale l = l"
  by (auto simp: normalize_locale_def suite_locales_def Let_def cut_before_def trim_space_def
      to_lower_def lower_char_def is_space_def)

lemma normalize_locale_idem: "normalize_locale (normalize_locale tag) = normalize_locale tag"
  by (rule normalize_locale_fixed [OF normalize_locale_cases])

lemma normalize_locale_not_Nil [simp]: "normalize_locale tag \<noteq> []"
  using normalize_locale_cases [of tag] by (auto simp: suite_locales_def)

section \<open>session.go\<close>

record session =
  s_id :: int
  s_token_hash :: string
  s_user :: int
  s_label :: string
  s_created_at :: time
  s_last_used_at :: time
  s_expires_at :: time
  s_provider :: string
  s_subject :: string
  s_issued_by :: int

text \<open>The zero \<open>Session\<close>, from which Go's composite literals start.\<close>

definition zero_session :: session where
  "zero_session = \<lparr>s_id = 0, s_token_hash = [], s_user = 0, s_label = [], s_created_at = 0,
     s_last_used_at = 0, s_expires_at = 0, s_provider = [], s_subject = [], s_issued_by = 0\<rparr>"

definition session_expired :: "session \<Rightarrow> time \<Rightarrow> bool" where
  "session_expired s now = (s_expires_at s \<noteq> 0 \<and> s_expires_at s < now)"

definition is_api_token :: "session \<Rightarrow> bool" where
  "is_api_token s = (s_label s \<noteq> [])"

record login_code =
  lc_code_hash :: string
  lc_user :: int
  lc_expires_at :: time
  lc_provider :: string
  lc_subject :: string

definition login_code_expired :: "login_code \<Rightarrow> time \<Rightarrow> bool" where
  "login_code_expired c now = (lc_expires_at c < now)"

section \<open>magiclink.go\<close>

definition default_magic_link_ttl :: duration where "default_magic_link_ttl = 15 * minute"
definition magic_link_rate_window :: duration where "magic_link_rate_window = hour"

record magic_link =
  ml_token_hash :: string
  ml_user :: int
  ml_created_at :: time
  ml_expires_at :: time
  ml_ip :: string

record link_key =
  k_user :: int
  k_ip :: string

section \<open>identity.go\<close>

record identity =
  id_user :: int
  id_subject :: string
  id_email :: string
  id_email_verified :: bool
  id_name :: string
  id_roles :: "string list"
  id_scopes :: "string list"
  id_actor :: string
  id_session :: int
  id_roles_synced_at :: time

definition zero_identity :: identity where
  "zero_identity = \<lparr>id_user = 0, id_subject = [], id_email = [], id_email_verified = False,
     id_name = [], id_roles = [], id_scopes = [], id_actor = [], id_session = 0,
     id_roles_synced_at = 0\<rparr>"

fun has_role_loop :: "string list \<Rightarrow> string \<Rightarrow> bool" where
  "has_role_loop [] role = False"
| "has_role_loop (granted # rs) role = (if granted = role then True else has_role_loop rs role)"

definition has_role :: "identity \<Rightarrow> string \<Rightarrow> bool" where
  "has_role i role = has_role_loop (id_roles i) role"

fun has_any_role :: "identity \<Rightarrow> string list \<Rightarrow> bool" where
  "has_any_role i [] = False"
| "has_any_role i (role # roles) = (if has_role i role then True else has_any_role i roles)"

lemma has_role_iff: "has_role i role \<longleftrightarrow> role \<in> set (id_roles i)"
proof -
  have "has_role_loop rs role \<longleftrightarrow> role \<in> set rs" for rs
    by (induction rs) auto
  then show ?thesis by (simp add: has_role_def)
qed

lemma has_any_role_iff: "has_any_role i roles \<longleftrightarrow> set roles \<inter> set (id_roles i) \<noteq> {}"
  by (induction roles) (auto simp: has_role_iff)

text \<open>\<open>ActorFrom\<close> on the identity a request context carries, if any.\<close>

definition actor_from :: "identity option \<Rightarrow> string \<times> bool" where
  "actor_from ctx = (case ctx of None \<Rightarrow> ([], False)
     | Some i \<Rightarrow> if id_actor i = [] then ([], False) else (id_actor i, True))"

record token_set =
  ts_access :: string
  ts_refresh :: string
  ts_expiry :: time

record claims =
  c_provider :: string
  c_subject :: string
  c_email :: string
  c_email_verified :: bool
  c_name :: string
  c_preferred_username :: string
  c_given_name :: string
  c_family_name :: string
  c_picture :: string
  c_locale :: string
  c_avatar_url :: string
  c_roles :: "string list option"
  c_extra :: "(string \<times> string) list"
  c_tokens :: token_set

definition display_name :: "claims \<Rightarrow> string" where
  "display_name c =
     (if c_name c \<noteq> [] then c_name c
      else if c_preferred_username c \<noteq> [] then c_preferred_username c
      else trim_space (c_given_name c @ '' '' @ c_family_name c))"

definition avatar_key :: "claims \<Rightarrow> string" where
  "avatar_key c = hash_token (c_provider c @ [CHR 0x00] @ c_subject c)"

text \<open>A nil \<open>Roles\<close> slice is \<open>None\<close>: it is stored as NULL, and an empty one is not.\<close>

record stored_identity =
  si_user :: int
  si_provider :: string
  si_subject :: string
  si_password_hash :: string
  si_tokens :: token_set
  si_roles :: "string list option"
  si_roles_synced_at :: time
  si_synced_at :: time

definition zero_tokens :: token_set where
  "zero_tokens = \<lparr>ts_access = [], ts_refresh = [], ts_expiry = 0\<rparr>"

definition zero_stored :: stored_identity where
  "zero_stored = \<lparr>si_user = 0, si_provider = [], si_subject = [], si_password_hash = [],
     si_tokens = zero_tokens, si_roles = None, si_roles_synced_at = 0, si_synced_at = 0\<rparr>"

definition roles_stale :: "stored_identity \<Rightarrow> time \<Rightarrow> duration \<Rightarrow> bool" where
  "roles_stale s now ttl =
     (si_roles_synced_at s = 0 \<or> ttl \<le> time_sub now (si_roles_synced_at s))"

definition provider_local :: string where "provider_local = ''local''"

lemma provider_local_neq_Nil [simp]: "provider_local \<noteq> []" "[] \<noteq> provider_local"
  by (simp_all add: provider_local_def)

definition local_subject :: "int \<Rightarrow> string" where
  "local_subject user = format_int user"

lemma local_subject_inj [simp]: "local_subject i = local_subject j \<longleftrightarrow> i = j"
  by (simp add: local_subject_def format_int_inj)

lemma local_subject_not_Nil [simp]: "local_subject i \<noteq> []"
  by (simp add: local_subject_def)

section \<open>porte.go: the configuration\<close>

definition session_cookie_name :: string where "session_cookie_name = ''session''"
definition csrf_header_name :: string where "csrf_header_name = ''X-Facile-CSRF''"

definition default_session_ttl :: duration where "default_session_ttl = 30 * 24 * hour"
definition default_login_code_ttl :: duration where "default_login_code_ttl = 60 * second"
definition default_claims_ttl :: duration where "default_claims_ttl = 5 * minute"
definition default_profile_sync_interval :: duration where
  "default_profile_sync_interval = 5 * minute"
definition default_session_idle_ttl :: duration where "default_session_idle_ttl = 7 * 24 * hour"

lemmas porte_defaults = default_session_ttl_def default_login_code_ttl_def default_claims_ttl_def
  default_profile_sync_interval_def default_session_idle_ttl_def default_magic_link_ttl_def
  magic_link_rate_window_def

record config =
  issuer :: string
  client_id :: string
  client_secret :: string
  redirect_url :: string
  success_url :: string
  mobile_redirect :: string
  failure_url :: string
  app_name :: string
  logo_url :: string
  sso_only :: bool
  machine_audience :: string
  scope_prefix :: string
  cli_audience :: string
  trust_email_without_verified_claim :: bool
  claims_scope :: string
  extra_scopes :: "string list"
  extra_claims :: "string list"
  session_ttl :: duration
  claims_ttl :: duration
  login_code_ttl :: duration
  session_idle_ttl :: duration
  accept_legacy_cookie :: bool

definition zero_config :: config where
  "zero_config = \<lparr>issuer = [], client_id = [], client_secret = [], redirect_url = [],
     success_url = [], mobile_redirect = [], failure_url = [], app_name = [], logo_url = [],
     sso_only = False, machine_audience = [], scope_prefix = [], cli_audience = [],
     trust_email_without_verified_claim = False, claims_scope = [], extra_scopes = [],
     extra_claims = [], session_ttl = 0, claims_ttl = 0, login_code_ttl = 0,
     session_idle_ttl = 0, accept_legacy_cookie = False\<rparr>"

definition https_url :: string where "https_url = ''https://''"

definition HTTPS :: "config \<Rightarrow> bool" where
  "HTTPS c = (has_prefix (to_lower (redirect_url c)) https_url \<or>
              has_prefix (to_lower (success_url c)) https_url)"

definition idle_timeout :: "config \<Rightarrow> duration" where
  "idle_timeout c = (if session_idle_ttl c < 0 then 0
     else if session_idle_ttl c = 0 then default_session_idle_ttl else session_idle_ttl c)"

definition enabled :: "config \<Rightarrow> bool" where "enabled c = (issuer c \<noteq> [])"

definition claims_enabled :: "config \<Rightarrow> bool" where "claims_enabled c = (claims_scope c \<noteq> [])"

definition scopes :: "config \<Rightarrow> string list" where
  "scopes c = [''openid'', ''email'', ''profile'', ''offline_access''] @
     (if claims_enabled c then [claims_scope c] else []) @ extra_scopes c"

definition resolved :: "config \<Rightarrow> config" where
  "resolved c =
     (let c = (if session_ttl c = 0 then c\<lparr>session_ttl := default_session_ttl\<rparr> else c);
          c = (if claims_ttl c = 0 then c\<lparr>claims_ttl := default_claims_ttl\<rparr> else c)
      in if login_code_ttl c = 0 then c\<lparr>login_code_ttl := default_login_code_ttl\<rparr> else c)"

lemma idle_timeout_nonneg: "0 \<le> idle_timeout c"
  by (simp add: idle_timeout_def default_session_idle_ttl_def duration_units)

lemma resolved_simps [simp]:
  "issuer (resolved c) = issuer c" "scope_prefix (resolved c) = scope_prefix c"
  "redirect_url (resolved c) = redirect_url c" "success_url (resolved c) = success_url c"
  "session_idle_ttl (resolved c) = session_idle_ttl c"
  "accept_legacy_cookie (resolved c) = accept_legacy_cookie c"
  "HTTPS (resolved c) = HTTPS c" "idle_timeout (resolved c) = idle_timeout c"
  "enabled (resolved c) = enabled c"
  by (simp_all add: resolved_def Let_def HTTPS_def idle_timeout_def enabled_def)

lemma resolved_idem: "resolved (resolved c) = resolved c"
  by (simp add: resolved_def Let_def porte_defaults duration_units)

lemma resolved_ttl_nonzero: "session_ttl (resolved c) \<noteq> 0"
  by (simp add: resolved_def Let_def porte_defaults duration_units)

subsection \<open>sorted and plural\<close>

text \<open>
  The insertion sort of \<open>sorted\<close>, on indices as the Go loops run it: the inner loop swaps
  \<open>out[j]\<close> with \<open>out[j-1]\<close> while it is smaller, the outer one takes \<open>i\<close> up to the length.
\<close>

definition swap :: "'a list \<Rightarrow> nat \<Rightarrow> nat \<Rightarrow> 'a list" where
  "swap xs i j = xs[i := xs ! j, j := xs ! i]"

fun sift :: "string list \<Rightarrow> nat \<Rightarrow> string list" where
  "sift out 0 = out"
| "sift out (Suc j) =
     (if out ! Suc j < out ! j then sift (swap out (Suc j) j) j else out)"

fun sort_loop :: "string list \<Rightarrow> nat \<Rightarrow> nat \<Rightarrow> string list" where
  "sort_loop out i 0 = out"
| "sort_loop out i (Suc n) = sort_loop (sift out i) (Suc i) n"

definition sorted_go :: "string list \<Rightarrow> string list" where
  "sorted_go values = sort_loop values 1 (length values - 1)"

lemma Cons_all_equal: "(\<And>z. z \<in> set xs \<Longrightarrow> z = c) \<Longrightarrow> c # xs = xs @ [c]"
  by (induction xs) auto

lemma insort_snoc:
  "sorted (xs @ [x]) \<Longrightarrow>
    insort y (xs @ [x]) = (if y < x then insort y xs @ [x] else xs @ [x, y])"
  for y :: string
proof (induction xs)
  case Nil
  then show ?case by auto
next
  case (Cons a xs)
  show ?case
  proof (cases "y < x \<or> \<not> y \<le> a")
    case True
    with Cons show ?thesis by (auto simp: sorted_append)
  next
    case False
    with Cons.prems have "a = y" "x = y" by (auto simp: sorted_append intro: antisym)
    moreover from this Cons.prems have "\<And>z. z \<in> set xs \<Longrightarrow> z = y"
      by (auto simp: sorted_append intro: antisym)
    ultimately have e: "y # xs @ [y] = xs @ [y, y]" and ax: "a = y" "x = y"
      using Cons_all_equal [of xs y] by (metis append.assoc append_Cons append_Nil)+
    have "insort y (y # xs @ [y]) = y # y # xs @ [y]" by (simp only: insort_key.simps) simp
    also have "\<dots> = y # xs @ [y, y]" unfolding e ..
    finally show ?thesis by (simp only: ax append_Cons less_irrefl if_False)
  qed
qed

text \<open>One run of the inner loop inserts its element into the sorted prefix.\<close>

lemma sift_insort: "sorted xs \<Longrightarrow> sift (xs @ y # zs) (length xs) = insort y xs @ zs"
proof (induction xs arbitrary: zs rule: rev_induct)
  case Nil
  show ?case by simp
next
  case (snoc x xs)
  have sw: "swap (xs @ x # y # zs) (Suc (length xs)) (length xs) = xs @ y # x # zs"
    by (simp add: swap_def nth_append list_update_append)
  have nth: "(xs @ x # y # zs) ! Suc (length xs) = y" "(xs @ x # y # zs) ! length xs = x"
    by (simp_all add: nth_append)
  have "sorted xs" using snoc.prems by (simp add: sorted_append)
  from snoc.IH [OF this, of "x # zs"]
  show ?case using insort_snoc [OF snoc.prems, of y] by (simp add: nth sw)
qed

lemma sort_loop_sorts:
  "i + n = length v \<Longrightarrow> sort_loop (sort (take i v) @ drop i v) i n = sort v"
proof (induction n arbitrary: i)
  case 0
  then show ?case by simp
next
  case (Suc n)
  then have i: "i < length v" by simp
  have "sort (take i v) @ drop i v = sort (take i v) @ v ! i # drop (Suc i) v"
    by (simp add: Cons_nth_drop_Suc [OF i])
  moreover have "length (sort (take i v)) = i" using i by simp
  ultimately have "sift (sort (take i v) @ drop i v) i = insort (v ! i) (sort (take i v)) @ drop (Suc i) v"
    using sift_insort [of "sort (take i v)" "v ! i" "drop (Suc i) v"] by simp
  also have "insort (v ! i) (sort (take i v)) = sort (take (Suc i) v)"
    by (rule properties_for_sort [symmetric])
      (simp_all add: take_Suc_conv_app_nth [OF i] sorted_insort)
  finally show ?case using Suc.IH [of "Suc i"] Suc.prems by simp
qed

lemma sorted_go_sort: "sorted_go v = sort v"
proof (cases v)
  case Nil
  then show ?thesis by (simp add: sorted_go_def)
next
  case (Cons x xs)
  then have "sort (take 1 v) @ drop 1 v = v" by simp
  with sort_loop_sorts [of 1 "length v - 1" v] Cons show ?thesis
    by (simp add: sorted_go_def)
qed

definition plural :: "int \<Rightarrow> string \<Rightarrow> string \<Rightarrow> string" where
  "plural n one many = (if n = 1 then one else many)"

end
