(* ===== verification/Database.thy ===== *)
theory Database
  imports Porte
begin

text \<open>
  The PostgreSQL database under \<open>porte/pg\<close>: the tables of \<open>pg.Schema\<close> as lists of rows, the
  constraints of the schema, single statements that may fail, transactions that roll back, and
  the well-formedness invariant the constraints give. Sequences (\<open>bigserial\<close>) are not rolled
  back, as in PostgreSQL, and the process-wide table cache of \<open>optional.go\<close> is not either.
  \<open>faults\<close> is the fate of the coming statements: \<open>True\<close> is a statement that does not run.
  A failed \<open>COMMIT\<close> is taken to have rolled back.
\<close>

section \<open>Rows and tables (the Schema constant)\<close>

record user_row =
  u_id :: int
  u_email :: string
  u_email_verified :: bool
  u_name :: string
  u_avatar_url :: string
  u_avatar_source :: string
  u_locale :: string
  u_updated_at :: time

record identity_row =
  i_user :: int
  i_provider :: string
  i_subject :: string
  i_password_hash :: string
  i_access_token :: string
  i_refresh_token :: string
  i_token_expiry :: "time option"
  i_roles :: "string list option"
  i_roles_synced_at :: "time option"
  i_synced_at :: "time option"

record session_row =
  r_id :: int
  r_token_hash :: string
  r_user :: int
  r_label :: string
  r_created_at :: time
  r_last_used_at :: time
  r_expires_at :: "time option"

record code_row =
  cr_hash :: string
  cr_user :: int
  cr_expires_at :: time
  cr_consumed_at :: "time option"
  cr_provider :: string
  cr_subject :: string

record link_row =
  l_hash :: string
  l_user :: int
  l_ip :: string
  l_created_at :: time
  l_expires_at :: time
  l_consumed_at :: "time option"

datatype table = PorteIdentities | PorteSessions | PorteLoginCodes | PorteMagicLinks

record db =
  users :: "user_row list"
  identities :: "identity_row list"
  sessions :: "session_row list"
  codes :: "code_row list"
  links :: "link_row list"
  user_seq :: int
  session_seq :: int
  faults :: "bool list"
  optional_present :: "table list"
  table_cache :: "table list option"
  sql_now :: time

definition empty_db :: db where
  "empty_db = \<lparr>users = [], identities = [], sessions = [], codes = [], links = [], user_seq = 0,
     session_seq = 0, faults = [], optional_present = [PorteLoginCodes, PorteMagicLinks],
     table_cache = None, sql_now = 0\<rparr>"

definition user_exists :: "int \<Rightarrow> db \<Rightarrow> bool" where
  "user_exists uid d = has_row (\<lambda>u. u_id u = uid) (users d)"

section \<open>Statements and transactions\<close>

definition next_fault :: "db \<Rightarrow> bool" where
  "next_fault d = (case faults d of [] \<Rightarrow> False | b # bs \<Rightarrow> b)"

definition tick :: "db \<Rightarrow> db" where
  "tick d = d\<lparr>faults := tl (faults d)\<rparr>"

definition stmt :: "(db \<Rightarrow> 'a result \<times> db) \<Rightarrow> db \<Rightarrow> 'a result \<times> db" where
  "stmt f d = (if next_fault d then (Inl SqlFault, tick d) else f (tick d))"

definition query :: "(db \<Rightarrow> 'a) \<Rightarrow> db \<Rightarrow> 'a result \<times> db" where
  "query f = stmt (\<lambda>d. (Inr (f d), d))"

definition rollback :: "db \<Rightarrow> db \<Rightarrow> db" where
  "rollback d0 d = d0\<lparr>faults := faults d, user_seq := user_seq d, session_seq := session_seq d,
     table_cache := table_cache d\<rparr>"

text \<open>
  \<open>BeginTx\<close>, the body, and \<open>Commit\<close>; every error path runs the deferred \<open>Rollback\<close>. The two
  messages are those the caller wraps a failed begin and a failed commit in.
\<close>

definition with_tx ::
  "string \<Rightarrow> string \<Rightarrow> (db \<Rightarrow> 'a result \<times> db) \<Rightarrow> db \<Rightarrow> 'a result \<times> db" where
  "with_tx begin_msg commit_msg body d =
     (case query (\<lambda>_. ()) d of
        (Inl e, d1) \<Rightarrow> (Inl (Wrap begin_msg e), d1)
      | (Inr _, d1) \<Rightarrow> (case body d1 of
          (Inl e, d2) \<Rightarrow> (Inl e, rollback d1 d2)
        | (Inr a, d2) \<Rightarrow> (case query (\<lambda>_. ()) d2 of
            (Inl e, d3) \<Rightarrow> (Inl (Wrap commit_msg e), rollback d1 d3)
          | (Inr _, d3) \<Rightarrow> (Inr a, d3))))"

text \<open>\<open>fmt.Errorf\<close> around the error of one statement.\<close>

definition wrapping :: "string \<Rightarrow> 'a result \<times> db \<Rightarrow> 'a result \<times> db" where
  "wrapping what r = (case r of (Inl e, d) \<Rightarrow> (Inl (Wrap what e), d) | (Inr a, d) \<Rightarrow> (Inr a, d))"

text \<open>Two steps of a Go function, the second only when the first returned no error.\<close>

definition and_then ::
  "(db \<Rightarrow> 'a result \<times> db) \<Rightarrow> ('a \<Rightarrow> db \<Rightarrow> 'b result \<times> db) \<Rightarrow> db \<Rightarrow> 'b result \<times> db" where
  "and_then m f d = (case m d of (Inl e, d1) \<Rightarrow> (Inl e, d1) | (Inr a, d1) \<Rightarrow> f a d1)"

definition return_tx :: "'a \<Rightarrow> db \<Rightarrow> 'a result \<times> db" where
  "return_tx a d = (Inr a, d)"

definition fail_tx :: "error \<Rightarrow> db \<Rightarrow> 'a result \<times> db" where
  "fail_tx e d = (Inl e, d)"

section \<open>Rows unchanged\<close>

definition same_rows :: "db \<Rightarrow> db \<Rightarrow> bool" where
  "same_rows d d' \<longleftrightarrow> users d' = users d \<and> identities d' = identities d \<and>
     sessions d' = sessions d \<and> codes d' = codes d \<and> links d' = links d \<and>
     optional_present d' = optional_present d \<and> sql_now d' = sql_now d"

text \<open>A sequence only grows, and rows stay below it.\<close>

definition seqs_grow :: "db \<Rightarrow> db \<Rightarrow> bool" where
  "seqs_grow d d' \<longleftrightarrow> user_seq d \<le> user_seq d' \<and> session_seq d \<le> session_seq d'"

lemma tick_simps [simp]:
  "users (tick d) = users d" "identities (tick d) = identities d" "sessions (tick d) = sessions d"
  "codes (tick d) = codes d" "links (tick d) = links d" "user_seq (tick d) = user_seq d"
  "session_seq (tick d) = session_seq d" "optional_present (tick d) = optional_present d"
  "table_cache (tick d) = table_cache d" "sql_now (tick d) = sql_now d"
  "user_exists uid (tick d) = user_exists uid d"
  by (simp_all add: tick_def user_exists_def)

lemma rollback_simps [simp]:
  "users (rollback d d') = users d" "identities (rollback d d') = identities d"
  "sessions (rollback d d') = sessions d" "codes (rollback d d') = codes d"
  "links (rollback d d') = links d" "user_seq (rollback d d') = user_seq d'"
  "session_seq (rollback d d') = session_seq d'" "table_cache (rollback d d') = table_cache d'"
  "optional_present (rollback d d') = optional_present d" "sql_now (rollback d d') = sql_now d"
  by (simp_all add: rollback_def)

lemma same_rows_refl [simp, intro]: "same_rows d d"
  by (simp add: same_rows_def)

lemma same_rows_trans: "same_rows a b \<Longrightarrow> same_rows b c \<Longrightarrow> same_rows a c"
  by (simp add: same_rows_def)

lemma same_rows_tick [simp]:
  "same_rows d (tick d') = same_rows d d'" "same_rows (tick d) d' = same_rows d d'"
  by (simp_all add: same_rows_def)

lemma same_rows_rollback [simp]: "same_rows d (rollback d d')"
  by (simp add: same_rows_def)

lemma no_faults_tick [simp]: "faults d = [] \<Longrightarrow> tick d = d"
  by (simp add: tick_def)

lemma no_faults_stmt [simp]: "faults d = [] \<Longrightarrow> stmt f d = f d"
  by (simp add: stmt_def next_fault_def)

lemma no_faults_query [simp]: "faults d = [] \<Longrightarrow> query f d = (Inr (f d), d)"
  by (simp add: query_def)

lemma query_cases:
  assumes "query f d = (r, d')"
  obtains "r = Inl SqlFault" "d' = tick d" | "r = Inr (f (tick d))" "d' = tick d"
proof (cases "next_fault d")
  case True
  with assms have "r = Inl SqlFault" "d' = tick d" by (auto simp: query_def stmt_def)
  then show thesis by (rule that(1))
next
  case False
  with assms have "r = Inr (f (tick d))" "d' = tick d" by (auto simp: query_def stmt_def)
  then show thesis by (rule that(2))
qed

lemma stmt_cases:
  assumes "stmt f d = (r, d')"
  obtains "r = Inl SqlFault" "d' = tick d" | "f (tick d) = (r, d')"
  using assms unfolding stmt_def by (cases "next_fault d") simp_all

lemma stmt_Inr: "stmt f d = (Inr a, d') \<Longrightarrow> f (tick d) = (Inr a, d')"
  by (erule stmt_cases) auto

lemma stmt_Inl: "stmt f d = (Inl e, d') \<Longrightarrow> e = SqlFault \<and> d' = tick d \<or> f (tick d) = (Inl e, d')"
  by (erule stmt_cases) auto

lemma query_state: "snd (query f d) = tick d"
  by (simp add: query_def stmt_def)

lemma query_Inr: "query f d = (Inr a, d') \<Longrightarrow> a = f (tick d) \<and> d' = tick d"
  by (auto elim: query_cases)

lemma query_Inl: "query f d = (Inl e, d') \<Longrightarrow> e = SqlFault \<and> d' = tick d"
  by (auto elim: query_cases)

text \<open>An error out of a transaction leaves every row as it was.\<close>

lemma with_tx_error: "with_tx m1 m2 body d = (Inl e, d') \<Longrightarrow> same_rows d d'"
  unfolding with_tx_def
  by (auto split: prod.splits sum.splits simp: same_rows_def dest!: query_Inl query_Inr)

lemma with_tx_Inr:
  assumes "with_tx m1 m2 body d = (Inr a, d')"
  obtains d2 where "body (tick d) = (Inr a, d2)" "d' = tick d2"
  using assms unfolding with_tx_def
  by (auto split: prod.splits sum.splits dest!: query_Inl query_Inr)

text \<open>The error of a transaction is the body's, or says that it did not begin or commit.\<close>

lemma with_tx_Inl:
  assumes "with_tx m1 m2 body d = (Inl e, d')"
  obtains m where "e = Wrap m SqlFault" | d2 where "body (tick d) = (Inl e, d2)"
  using assms unfolding with_tx_def
  by (auto split: prod.splits sum.splits dest!: query_Inl query_Inr)

lemma no_faults_with_tx:
  "faults d = [] \<Longrightarrow> body d = (Inr a, d2) \<Longrightarrow> faults d2 = [] \<Longrightarrow> with_tx m1 m2 body d = (Inr a, d2)"
  by (simp add: with_tx_def)

lemma no_faults_with_tx_error:
  "faults d = [] \<Longrightarrow> body d = (Inl e, d2) \<Longrightarrow> with_tx m1 m2 body d = (Inl e, rollback d d2)"
  by (simp add: with_tx_def)

section \<open>The well-formedness the schema's constraints give\<close>

definition keys_ok :: "db \<Rightarrow> bool" where
  "keys_ok d \<longleftrightarrow>
     distinct (map u_id (users d)) \<and> distinct (map u_email (users d)) \<and>
     distinct (map (\<lambda>i. (i_provider i, i_subject i)) (identities d)) \<and>
     distinct (map r_id (sessions d)) \<and> distinct (map r_token_hash (sessions d)) \<and>
     distinct (map cr_hash (codes d)) \<and> distinct (map l_hash (links d))"

definition refs_ok :: "db \<Rightarrow> bool" where
  "refs_ok d \<longleftrightarrow>
     (\<forall>i \<in> set (identities d). i_user i \<in> u_id ` set (users d)) \<and>
     (\<forall>s \<in> set (sessions d). r_user s \<in> u_id ` set (users d)) \<and>
     (\<forall>c \<in> set (codes d). cr_user c \<in> u_id ` set (users d)) \<and>
     (\<forall>l \<in> set (links d). l_user l \<in> u_id ` set (users d))"

definition seqs_ok :: "db \<Rightarrow> bool" where
  "seqs_ok d \<longleftrightarrow> 0 \<le> user_seq d \<and> 0 \<le> session_seq d \<and>
     (\<forall>u \<in> set (users d). 0 < u_id u \<and> u_id u \<le> user_seq d) \<and>
     (\<forall>s \<in> set (sessions d). 0 < r_id s \<and> r_id s \<le> session_seq d)"

text \<open>A zero time is stored as NULL, never as a value.\<close>

definition stamps_ok :: "db \<Rightarrow> bool" where
  "stamps_ok d \<longleftrightarrow> (\<forall>s \<in> set (sessions d). r_expires_at s \<noteq> Some 0)"

definition db_ok :: "db \<Rightarrow> bool" where
  "db_ok d \<longleftrightarrow> keys_ok d \<and> refs_ok d \<and> seqs_ok d \<and> stamps_ok d"

lemmas db_ok_defs = db_ok_def keys_ok_def refs_ok_def seqs_ok_def stamps_ok_def

lemma empty_db_ok [simp]: "db_ok empty_db"
  by (simp add: db_ok_defs empty_db_def)

lemma db_ok_same_rows:
  "db_ok d \<Longrightarrow> same_rows d d' \<Longrightarrow> seqs_grow d d' \<Longrightarrow> db_ok d'"
  by (fastforce simp: db_ok_defs same_rows_def seqs_grow_def)

lemma db_ok_tick [simp]: "db_ok (tick d) = db_ok d"
  by (simp add: db_ok_defs)

lemma seqs_grow_refl [simp]: "seqs_grow d d"
  by (simp add: seqs_grow_def)

lemma seqs_grow_tick [simp]: "seqs_grow (tick d) d' = seqs_grow d d'" "seqs_grow d (tick d') = seqs_grow d d'"
  by (simp_all add: seqs_grow_def)

lemma seqs_grow_trans: "seqs_grow a b \<Longrightarrow> seqs_grow b c \<Longrightarrow> seqs_grow a c"
  by (simp add: seqs_grow_def)

lemma user_exists_iff: "user_exists uid d \<longleftrightarrow> uid \<in> u_id ` set (users d)"
  by (auto simp: user_exists_def table_simps)

text \<open>A transaction keeps the invariant when its body does and only moves the sequences up.\<close>

lemma with_tx_ok:
  assumes "db_ok d" and body: "\<And>r d2. body (tick d) = (r, d2) \<Longrightarrow> seqs_grow d d2 \<and> (\<forall>a. r = Inr a \<longrightarrow> db_ok d2)"
  shows "db_ok (snd (with_tx m1 m2 body d)) \<and> seqs_grow d (snd (with_tx m1 m2 body d))"
proof -
  have rb: "seqs_grow d d2 \<Longrightarrow> db_ok (rollback (tick d) d2)" for d2
    by (rule db_ok_same_rows [of d]) (simp_all add: assms(1) same_rows_def seqs_grow_def)
  show ?thesis
    using assms(1) body rb unfolding with_tx_def
    by (auto split: prod.splits sum.splits simp: seqs_grow_def dest!: query_Inl query_Inr)
qed

lemma and_then_Inr:
  assumes "and_then m f d = (Inr b, d')"
  obtains a d1 where "m d = (Inr a, d1)" "f a d1 = (Inr b, d')"
  using assms unfolding and_then_def by (auto split: prod.splits sum.splits)

lemma and_then_Inl:
  assumes "and_then m f d = (Inl e, d')"
  obtains "m d = (Inl e, d')" | a d1 where "m d = (Inr a, d1)" "f a d1 = (Inl e, d')"
  using assms unfolding and_then_def by (auto split: prod.splits sum.splits)

lemma and_then_step [simp]:
  "m d = (Inr a, d1) \<Longrightarrow> and_then m f d = f a d1" "m d = (Inl e, d1) \<Longrightarrow> and_then m f d = (Inl e, d1)"
  by (simp_all add: and_then_def)

lemma return_tx_iff [simp]:
  "return_tx a d = (Inr b, d') \<longleftrightarrow> b = a \<and> d' = d" "return_tx a d \<noteq> (Inl e, d')"
  by (auto simp: return_tx_def)

lemma fail_tx_iff [simp]:
  "fail_tx e d = (Inl e', d') \<longleftrightarrow> e' = e \<and> d' = d" "fail_tx e d \<noteq> (Inr b, d')"
  by (auto simp: fail_tx_def)

text \<open>A step that keeps the database well-formed and only moves the sequences up.\<close>

definition keeps_ok :: "(db \<Rightarrow> 'a result \<times> db) \<Rightarrow> bool" where
  "keeps_ok m \<longleftrightarrow> (\<forall>d. db_ok d \<longrightarrow> db_ok (snd (m d)) \<and> seqs_grow d (snd (m d)))"

named_theorems keeps_intros \<open>steps that keep the database well-formed\<close>

lemma keeps_okD: "keeps_ok m \<Longrightarrow> db_ok d \<Longrightarrow> db_ok (snd (m d)) \<and> seqs_grow d (snd (m d))"
  by (simp add: keeps_ok_def)

lemma keeps_okI: "(\<And>d r d'. db_ok d \<Longrightarrow> m d = (r, d') \<Longrightarrow> db_ok d' \<and> seqs_grow d d') \<Longrightarrow> keeps_ok m"
  by (simp add: keeps_ok_def prod_eq_iff)

lemma keeps_and_then [keeps_intros]:
  assumes "keeps_ok m" and "\<And>a. keeps_ok (f a)"
  shows "keeps_ok (and_then m f)"
proof (rule keeps_okI)
  fix d r d' assume d: "db_ok d" and r: "and_then m f d = (r, d')"
  obtain r1 d1 where m: "m d = (r1, d1)" by (cases "m d")
  with keeps_okD [OF assms(1) d] have ok: "db_ok d1" "seqs_grow d d1" by auto
  show "db_ok d' \<and> seqs_grow d d'"
  proof (cases r1)
    case (Inl e)
    with m r ok show ?thesis by (auto simp: and_then_def)
  next
    case (Inr a)
    with m r have "f a d1 = (r, d')" by (simp add: and_then_def)
    with keeps_okD [OF assms(2) ok(1), of a] ok(2) show ?thesis by (auto intro: seqs_grow_trans)
  qed
qed

lemma keeps_stmt [keeps_intros]: "keeps_ok f \<Longrightarrow> keeps_ok (stmt f)"
  by (rule keeps_okI, erule stmt_cases) (auto dest: keeps_okD [of f "tick _"])

lemma keeps_query [keeps_intros]: "keeps_ok (query f)"
  by (rule keeps_okI) (auto elim: query_cases)

lemma keeps_wrapping [keeps_intros]: "keeps_ok f \<Longrightarrow> keeps_ok (\<lambda>d. wrapping m (f d))"
  by (auto simp: keeps_ok_def wrapping_def split: prod.splits sum.splits)

lemma keeps_const [keeps_intros]: "keeps_ok (return_tx a)" "keeps_ok (fail_tx e)"
  by (simp_all add: keeps_ok_def return_tx_def fail_tx_def)

lemma keeps_if [keeps_intros]: "keeps_ok f \<Longrightarrow> keeps_ok g \<Longrightarrow> keeps_ok (if b then f else g)"
  by simp

lemma keeps_with_tx [keeps_intros]:
  assumes "keeps_ok body"
  shows "keeps_ok (with_tx m1 m2 body)"
proof (rule keeps_okI)
  fix d r d' assume "db_ok d" "with_tx m1 m2 body d = (r, d')"
  moreover have "db_ok (snd (with_tx m1 m2 body d)) \<and> seqs_grow d (snd (with_tx m1 m2 body d))"
  proof (rule with_tx_ok)
    show "db_ok d" by fact
    fix r d2 assume "body (tick d) = (r, d2)"
    with keeps_okD [OF assms, of "tick d"] \<open>db_ok d\<close>
    show "seqs_grow d d2 \<and> (\<forall>a. r = Inr a \<longrightarrow> db_ok d2)" by simp
  qed
  ultimately show "db_ok d' \<and> seqs_grow d d'" by simp
qed

lemma wrapping_Inr [simp]: "wrapping m r = (Inr a, d) \<longleftrightarrow> r = (Inr a, d)"
  by (cases r; cases "fst r") (auto simp: wrapping_def)

lemma wrapping_Inl: "wrapping m r = (Inl e, d) \<Longrightarrow> \<exists>e'. e = Wrap m e' \<and> r = (Inl e', d)"
  by (cases r; cases "fst r") (auto simp: wrapping_def)

lemma snd_wrapping [simp]: "snd (wrapping m r) = snd r"
  by (cases r; cases "fst r") (auto simp: wrapping_def)

section \<open>Constraints on an insert\<close>

text \<open>
  The three cases of an \<open>INSERT\<close> into a table with a unique key and a foreign key to
  \<open>porte_users\<close>.
\<close>

definition insert_session :: "session_row \<Rightarrow> db \<Rightarrow> int result \<times> db" where
  "insert_session row d =
     (let new = session_seq d + 1; d1 = d\<lparr>session_seq := new\<rparr>
      in if \<not> user_exists (r_user row) d \<or>
            has_row (\<lambda>s. r_token_hash s = r_token_hash row) (sessions d)
         then (Inl SqlConstraint, d1)
         else (Inr new, d1\<lparr>sessions := sessions d @ [row\<lparr>r_id := new\<rparr>]\<rparr>))"

definition insert_code :: "code_row \<Rightarrow> db \<Rightarrow> unit result \<times> db" where
  "insert_code row d =
     (if \<not> user_exists (cr_user row) d \<or> has_row (\<lambda>c. cr_hash c = cr_hash row) (codes d)
      then (Inl SqlConstraint, d) else (Inr (), d\<lparr>codes := codes d @ [row]\<rparr>))"

definition insert_link :: "link_row \<Rightarrow> db \<Rightarrow> unit result \<times> db" where
  "insert_link row d =
     (if \<not> user_exists (l_user row) d \<or> has_row (\<lambda>l. l_hash l = l_hash row) (links d)
      then (Inl SqlConstraint, d) else (Inr (), d\<lparr>links := links d @ [row]\<rparr>))"

lemma fresh_image: "\<not> has_row (\<lambda>r. f r = k) rs \<longleftrightarrow> k \<notin> f ` set rs"
  by (auto simp: table_simps)

lemma insert_session_Inr:
  "insert_session row d = (Inr n, d') \<Longrightarrow>
    n = session_seq d + 1 \<and> user_exists (r_user row) d \<and>
    r_token_hash row \<notin> r_token_hash ` set (sessions d) \<and>
    d' = d\<lparr>session_seq := n, sessions := sessions d @ [row\<lparr>r_id := n\<rparr>]\<rparr>"
  by (auto simp: insert_session_def Let_def fresh_image split: if_splits)

lemma insert_session_Inl:
  "insert_session row d = (Inl e, d') \<Longrightarrow> e = SqlConstraint \<and> d' = d\<lparr>session_seq := session_seq d + 1\<rparr>"
  by (auto simp: insert_session_def Let_def split: if_splits)

lemma insert_session_ok:
  assumes "db_ok d" and "insert_session row d = (r, d')" and "r_expires_at row \<noteq> Some 0"
  shows "db_ok d' \<and> seqs_grow d d'"
proof (cases r)
  case (Inl e)
  with insert_session_Inl assms(2) have d': "d' = d\<lparr>session_seq := session_seq d + 1\<rparr>" by blast
  have "same_rows d d'" "seqs_grow d d'" by (simp_all add: d' same_rows_def seqs_grow_def)
  with db_ok_same_rows [OF assms(1)] show ?thesis by blast
next
  case (Inr n)
  with insert_session_Inr assms(2)
  have n: "n = session_seq d + 1" "user_exists (r_user row) d"
      "r_token_hash row \<notin> r_token_hash ` set (sessions d)"
    and d': "d' = d\<lparr>session_seq := n, sessions := sessions d @ [row\<lparr>r_id := n\<rparr>]\<rparr>" by blast+
  have "n \<notin> r_id ` set (sessions d)"
    using assms(1) n(1) by (force simp: db_ok_defs)
  then have "keys_ok d'" "refs_ok d'" "seqs_ok d'" "stamps_ok d'"
    using assms(1,3) n unfolding db_ok_def
    by (auto simp: d' keys_ok_def refs_ok_def seqs_ok_def stamps_ok_def user_exists_iff)
  then show ?thesis by (simp add: db_ok_def d' n seqs_grow_def)
qed

lemma insert_code_ok: "db_ok d \<Longrightarrow> insert_code row d = (r, d') \<Longrightarrow> db_ok d' \<and> seqs_grow d d'"
  by (auto simp: insert_code_def db_ok_defs user_exists_iff fresh_image seqs_grow_def
      split: if_splits)

lemma insert_link_ok: "db_ok d \<Longrightarrow> insert_link row d = (r, d') \<Longrightarrow> db_ok d' \<and> seqs_grow d d'"
  by (auto simp: insert_link_def db_ok_defs user_exists_iff fresh_image seqs_grow_def
      split: if_splits)

text \<open>Deleting rows, and updates that leave keys and references alone, keep the invariant.\<close>

lemma delete_sessions_ok: "db_ok d \<Longrightarrow> db_ok (d\<lparr>sessions := delete_where p (sessions d)\<rparr>)"
  by (auto simp: db_ok_defs table_simps)

lemma delete_codes_ok: "db_ok d \<Longrightarrow> db_ok (d\<lparr>codes := delete_where p (codes d)\<rparr>)"
  by (auto simp: db_ok_defs table_simps)

lemma delete_links_ok: "db_ok d \<Longrightarrow> db_ok (d\<lparr>links := delete_where p (links d)\<rparr>)"
  by (auto simp: db_ok_defs table_simps)

lemma delete_identities_ok: "db_ok d \<Longrightarrow> db_ok (d\<lparr>identities := delete_where p (identities d)\<rparr>)"
  by (auto simp: db_ok_defs table_simps)

lemma update_sessions_ok:
  assumes "db_ok d" and "\<And>s. r_id (f s) = r_id s" "\<And>s. r_token_hash (f s) = r_token_hash s"
    "\<And>s. r_user (f s) = r_user s" "\<And>s. r_expires_at (f s) = r_expires_at s"
  shows "db_ok (d\<lparr>sessions := update_where p f (sessions d)\<rparr>)"
  using assms by (auto simp: db_ok_defs table_simps)

lemma update_codes_ok:
  assumes "db_ok d" and "\<And>c. cr_hash (f c) = cr_hash c" "\<And>c. cr_user (f c) = cr_user c"
  shows "db_ok (d\<lparr>codes := update_where p f (codes d)\<rparr>)"
  using assms by (auto simp: db_ok_defs table_simps)

lemma update_links_ok:
  assumes "db_ok d" and "\<And>l. l_hash (f l) = l_hash l" "\<And>l. l_user (f l) = l_user l"
  shows "db_ok (d\<lparr>links := update_where p f (links d)\<rparr>)"
  using assms by (auto simp: db_ok_defs table_simps)

lemmas delete_ok = delete_sessions_ok delete_codes_ok delete_links_ok delete_identities_ok
lemmas update_ok = update_sessions_ok update_codes_ok update_links_ok

end
