(* ===== verification/Stores.thy ===== *)
theory Stores
  imports Porte
begin

text \<open>
  The Go interfaces of the contract package that the kits call: \<open>SessionStore\<close> of
  \<open>session.go\<close>, \<open>MagicLinkStore\<close> of \<open>magiclink.go\<close>, \<open>IdentityStore\<close> and
  \<open>PasswordUserStore\<close> of \<open>identity.go\<close>. An interface is a record of operations on a state;
  what its comments promise is a locale over the rows a state holds. Every operation may also
  fail, and a law about a result says nothing of a failed call beyond what it leaves alone.
  \<open>porte/pg\<close> interprets them.
\<close>

section \<open>SessionStore\<close>

record 's session_store_ops =
  ss_create :: "session \<Rightarrow> 's \<Rightarrow> session result \<times> 's"
  ss_find :: "string \<Rightarrow> 's \<Rightarrow> session result \<times> 's"
  ss_touch :: "string \<Rightarrow> time \<Rightarrow> 's \<Rightarrow> unit result \<times> 's"
  ss_delete :: "string \<Rightarrow> 's \<Rightarrow> unit result \<times> 's"
  ss_delete_by_user :: "int \<Rightarrow> 's \<Rightarrow> int result \<times> 's"
  ss_delete_logins :: "int \<Rightarrow> int \<Rightarrow> 's \<Rightarrow> int result \<times> 's"
  ss_list_by_user :: "int \<Rightarrow> 's \<Rightarrow> session list result \<times> 's"
  ss_delete_by_id :: "int \<Rightarrow> int \<Rightarrow> 's \<Rightarrow> unit result \<times> 's"
  ss_delete_expired :: "time \<Rightarrow> 's \<Rightarrow> int result \<times> 's"

text \<open>A stored session: the binding is checked at insert time and not persisted.\<close>

definition unbound :: "session \<Rightarrow> session" where
  "unbound s = s\<lparr>s_provider := [], s_subject := [], s_issued_by := 0\<rparr>"

definition untimed :: "session \<Rightarrow> session" where
  "untimed s = s\<lparr>s_last_used_at := 0\<rparr>"

definition swept :: "time \<Rightarrow> session \<Rightarrow> bool" where
  "swept now s = (s_expires_at s \<noteq> 0 \<and> s_expires_at s < now)"

definition is_login_of :: "int \<Rightarrow> int \<Rightarrow> session \<Rightarrow> bool" where
  "is_login_of user except s =
     (s_user s = user \<and> s_label s = [] \<and> (except = 0 \<or> s_id s \<noteq> except))"

locale session_store =
  fixes st :: "'s session_store_ops"
    and table :: "'s \<Rightarrow> session list"
    and vouches :: "session \<Rightarrow> 's \<Rightarrow> bool"
    and ok :: "'s \<Rightarrow> bool"
  assumes keys: "ok s \<Longrightarrow> distinct (map s_id (table s)) \<and> distinct (map s_token_hash (table s))"
    and ids_set: "ok s \<Longrightarrow> x \<in> set (table s) \<Longrightarrow> s_id x \<noteq> 0"
    and create_ok: "ok s \<Longrightarrow> ok (snd (ss_create st x s))"
    and create_row: "ok s \<Longrightarrow> ss_create st x s = (Inr y, s') \<Longrightarrow>
      vouches x s \<and> y = x\<lparr>s_id := s_id y\<rparr> \<and> table s' = table s @ [unbound y]"
    and create_failed: "ok s \<Longrightarrow> ss_create st x s = (Inl e, s') \<Longrightarrow> table s' = table s"
    and create_unvouched:
      "ok s \<Longrightarrow> ss_create st x s = (Inl e, s') \<Longrightarrow> is_err e ErrNotFound \<Longrightarrow> \<not> vouches x s"
    and find_ok: "ok s \<Longrightarrow> ok (snd (ss_find st h s)) \<and> table (snd (ss_find st h s)) = table s"
    and find_row: "ok s \<Longrightarrow> ss_find st h s = (Inr x, s') \<Longrightarrow> x \<in> set (table s) \<and> s_token_hash x = h"
    and find_absent: "ok s \<Longrightarrow> ss_find st h s = (Inl e, s') \<Longrightarrow> is_err e ErrNotFound \<Longrightarrow>
      h \<notin> s_token_hash ` set (table s)"
    and touch_ok: "ok s \<Longrightarrow> ok (snd (ss_touch st h at s)) \<and>
      map untimed (table (snd (ss_touch st h at s))) = map untimed (table s)"
    and delete_ok: "ok s \<Longrightarrow> ok (snd (ss_delete st h s))"
    and delete_row: "ok s \<Longrightarrow> ss_delete st h s = (Inr (), s') \<Longrightarrow>
      table s' = delete_where (\<lambda>x. s_token_hash x = h) (table s)"
    and delete_failed: "ok s \<Longrightarrow> ss_delete st h s = (Inl e, s') \<Longrightarrow>
      table s' = table s \<and> (is_err e ErrNotFound \<longrightarrow> h \<notin> s_token_hash ` set (table s))"
    and delete_by_user_ok: "ok s \<Longrightarrow> ok (snd (ss_delete_by_user st u s))"
    and delete_by_user_row: "ok s \<Longrightarrow> ss_delete_by_user st u s = (Inr n, s') \<Longrightarrow>
      table s' = delete_where (\<lambda>x. s_user x = u) (table s) \<and> n = affected (\<lambda>x. s_user x = u) (table s)"
    and delete_by_user_failed: "ok s \<Longrightarrow> ss_delete_by_user st u s = (Inl e, s') \<Longrightarrow> table s' = table s"
    and delete_logins_ok: "ok s \<Longrightarrow> ok (snd (ss_delete_logins st u i s))"
    and delete_logins_row: "ok s \<Longrightarrow> ss_delete_logins st u i s = (Inr n, s') \<Longrightarrow>
      table s' = delete_where (is_login_of u i) (table s) \<and> n = affected (is_login_of u i) (table s)"
    and delete_logins_failed: "ok s \<Longrightarrow> ss_delete_logins st u i s = (Inl e, s') \<Longrightarrow> table s' = table s"
    and list_by_user_ok: "ok s \<Longrightarrow> ok (snd (ss_list_by_user st u s)) \<and>
      table (snd (ss_list_by_user st u s)) = table s"
    and list_by_user_rows: "ok s \<Longrightarrow> ss_list_by_user st u s = (Inr xs, s') \<Longrightarrow>
      mset xs = mset (filter (\<lambda>x. s_user x = u) (table s))"
    and delete_by_id_ok: "ok s \<Longrightarrow> ok (snd (ss_delete_by_id st u i s))"
    and delete_by_id_row: "ok s \<Longrightarrow> ss_delete_by_id st u i s = (Inr (), s') \<Longrightarrow>
      table s' = delete_where (\<lambda>x. s_id x = i \<and> s_user x = u) (table s)"
    and delete_by_id_failed: "ok s \<Longrightarrow> ss_delete_by_id st u i s = (Inl e, s') \<Longrightarrow>
      table s' = table s \<and>
      (is_err e ErrNotFound \<longrightarrow> (\<forall>x \<in> set (table s). \<not> (s_id x = i \<and> s_user x = u)))"
    and delete_expired_ok: "ok s \<Longrightarrow> ok (snd (ss_delete_expired st now s))"
    and delete_expired_row: "ok s \<Longrightarrow> ss_delete_expired st now s = (Inr n, s') \<Longrightarrow>
      table s' = delete_where (swept now) (table s) \<and> n = affected (swept now) (table s)"
    and delete_expired_failed: "ok s \<Longrightarrow> ss_delete_expired st now s = (Inl e, s') \<Longrightarrow> table s' = table s"

lemma untimed_fields [simp]:
  "s_id (untimed x) = s_id x" "s_token_hash (untimed x) = s_token_hash x"
  "s_user (untimed x) = s_user x" "s_label (untimed x) = s_label x"
  "s_expires_at (untimed x) = s_expires_at x" "s_created_at (untimed x) = s_created_at x"
  by (simp_all add: untimed_def)

lemma unbound_fields [simp]:
  "s_id (unbound x) = s_id x" "s_token_hash (unbound x) = s_token_hash x"
  "s_user (unbound x) = s_user x" "s_label (unbound x) = s_label x"
  "s_expires_at (unbound x) = s_expires_at x" "s_created_at (unbound x) = s_created_at x"
  "s_last_used_at (unbound x) = s_last_used_at x"
  by (simp_all add: unbound_def)

text \<open>A list that agrees with another up to the stamps agrees on every other field.\<close>

lemma untimed_map:
  assumes "map untimed xs = map untimed ys" and "\<And>x. f (untimed x) = f x"
  shows "map f xs = map f ys"
proof -
  have "map f xs = map f (map untimed xs)" using assms(2) by simp
  also have "\<dots> = map f ys" using assms by simp
  finally show ?thesis .
qed

section \<open>MagicLinkStore\<close>

record 's magic_link_store_ops =
  mk_create :: "magic_link \<Rightarrow> 's \<Rightarrow> unit result \<times> 's"
  mk_consume :: "string \<Rightarrow> time \<Rightarrow> 's \<Rightarrow> int result \<times> 's"
  mk_count_since :: "link_key \<Rightarrow> time \<Rightarrow> 's \<Rightarrow> int result \<times> 's"
  mk_delete_expired :: "time \<Rightarrow> 's \<Rightarrow> int result \<times> 's"

text \<open>
  A stored link is the link and the time it was consumed or superseded, if it was. A key
  matches a link that satisfies every field that is set; a zero key matches nothing.
\<close>

type_synonym stored_link = "magic_link \<times> time option"

definition key_matches :: "link_key \<Rightarrow> time \<Rightarrow> stored_link \<Rightarrow> bool" where
  "key_matches k since l =
     ((k_user k \<noteq> 0 \<or> k_ip k \<noteq> []) \<and> (k_user k = 0 \<or> ml_user (fst l) = k_user k) \<and>
      (k_ip k = [] \<or> ml_ip (fst l) = k_ip k) \<and> since \<le> ml_created_at (fst l))"

definition live_link :: "string \<Rightarrow> time \<Rightarrow> stored_link \<Rightarrow> bool" where
  "live_link h now l = (ml_token_hash (fst l) = h \<and> snd l = None \<and> now < ml_expires_at (fst l))"

definition unspent_of :: "int \<Rightarrow> stored_link \<Rightarrow> bool" where
  "unspent_of user l = (ml_user (fst l) = user \<and> snd l = None)"

definition spend :: "time \<Rightarrow> stored_link \<Rightarrow> stored_link" where
  "spend at l = (fst l, Some at)"

locale magic_link_store =
  fixes mk :: "'s magic_link_store_ops"
    and ltable :: "'s \<Rightarrow> stored_link list"
    and ok :: "'s \<Rightarrow> bool"
  assumes link_hashes: "ok s \<Longrightarrow> distinct (map (ml_token_hash \<circ> fst) (ltable s))"
    and create_ok: "ok s \<Longrightarrow> ok (snd (mk_create mk l s))"
    and create_row: "ok s \<Longrightarrow> mk_create mk l s = (Inr (), s') \<Longrightarrow>
      ltable s' = update_where (unspent_of (ml_user l)) (spend (ml_created_at l)) (ltable s) @ [(l, None)]"
    and create_failed: "ok s \<Longrightarrow> mk_create mk l s = (Inl e, s') \<Longrightarrow> ltable s' = ltable s"
    and consume_ok: "ok s \<Longrightarrow> ok (snd (mk_consume mk h now s))"
    and consume_row: "ok s \<Longrightarrow> mk_consume mk h now s = (Inr u, s') \<Longrightarrow>
      (\<exists>l \<in> set (ltable s). live_link h now l \<and> ml_user (fst l) = u) \<and>
      ltable s' = update_where (live_link h now) (spend now) (ltable s)"
    and consume_failed: "ok s \<Longrightarrow> mk_consume mk h now s = (Inl e, s') \<Longrightarrow> ltable s' = ltable s \<and>
      (is_err e ErrNotFound \<longrightarrow> (\<forall>l \<in> set (ltable s). \<not> live_link h now l))"
    and count_ok: "ok s \<Longrightarrow> ok (snd (mk_count_since mk k since s)) \<and>
      ltable (snd (mk_count_since mk k since s)) = ltable s"
    and count_rows: "ok s \<Longrightarrow> mk_count_since mk k since s = (Inr n, s') \<Longrightarrow>
      n = affected (key_matches k since) (ltable s)"
    and sweep_ok: "ok s \<Longrightarrow> ok (snd (mk_delete_expired mk cutoff s))"
    and sweep_rows: "ok s \<Longrightarrow> mk_delete_expired mk cutoff s = (Inr n, s') \<Longrightarrow>
      ltable s' = delete_where (\<lambda>l. ml_expires_at (fst l) < cutoff) (ltable s)"
    and sweep_failed: "ok s \<Longrightarrow> mk_delete_expired mk cutoff s = (Inl e, s') \<Longrightarrow> ltable s' = ltable s"

section \<open>LoginCodeStore\<close>

record 's login_code_store_ops =
  lcs_create :: "login_code \<Rightarrow> 's \<Rightarrow> unit result \<times> 's"
  lcs_consume :: "string \<Rightarrow> 's \<Rightarrow> login_code result \<times> 's"
  lcs_delete_expired :: "time \<Rightarrow> 's \<Rightarrow> int result \<times> 's"

end
