(* ===== verification/Pg_Sessions.thy ===== *)
theory Pg_Sessions
  imports Database Stores
begin

text \<open>
  The session store of \<open>porte/pg\<close> (\<open>pg.go\<close>, \<open>bound.go\<close>): one definition per method of
  \<open>SessionStore\<close>, each a statement or a transaction on the database, with the bound insert
  of \<open>whileBound\<close>. The lemmas give each method's effect on the session table, its frame, and
  that it keeps the database well-formed whatever statements fail.
\<close>

section \<open>Binding a write to its voucher (bound.go)\<close>

text \<open>
  The advisory locks only order concurrent transactions; here each runs alone, so taking one
  is a statement with no effect. Their interleaving is modelled in the theory of the race.
\<close>

definition lock_advisory :: "string \<Rightarrow> int \<Rightarrow> bool \<Rightarrow> db \<Rightarrow> unit result \<times> db" where
  "lock_advisory namespace k shared d =
     wrapping (''porte/pg: lock '' @ namespace @ format_int k) (query (\<lambda>_. ()) d)"

definition lock_user :: "int \<Rightarrow> bool \<Rightarrow> db \<Rightarrow> unit result \<times> db" where
  "lock_user user shared d = lock_advisory ''porte/user:'' user shared d"

definition with_user_lock ::
  "int \<Rightarrow> bool \<Rightarrow> (db \<Rightarrow> 'a result \<times> db) \<Rightarrow> db \<Rightarrow> 'a result \<times> db" where
  "with_user_lock user shared write d = with_tx ''porte/pg: begin'' ''porte/pg: commit''
    (\<lambda>d. case lock_user user shared d of
      (Inl e, d1) \<Rightarrow> (Inl e, d1)
    | (Inr _, d1) \<Rightarrow> write d1) d"

definition identity_exists :: "string \<Rightarrow> string \<Rightarrow> int \<Rightarrow> db \<Rightarrow> bool" where
  "identity_exists prov subj user d =
     has_row (\<lambda>i. i_provider i = prov \<and> i_subject i = subj \<and> i_user i = user) (identities d)"

definition session_exists :: "int \<Rightarrow> int \<Rightarrow> db \<Rightarrow> bool" where
  "session_exists sid user d = has_row (\<lambda>s. r_id s = sid \<and> r_user s = user) (sessions d)"

definition vouched :: "session \<Rightarrow> db \<Rightarrow> bool result \<times> db" where
  "vouched binding d =
     (if s_provider binding \<noteq> []
      then query (identity_exists (s_provider binding) (s_subject binding) (s_user binding)) d
      else query (session_exists (s_issued_by binding) (s_user binding)) d)"

text \<open>The closure \<open>whileBound\<close> runs under the lock: the check, then the insert.\<close>

definition checked_insert :: "session \<Rightarrow> (db \<Rightarrow> 'a result \<times> db) \<Rightarrow> db \<Rightarrow> 'a result \<times> db" where
  "checked_insert binding ins d = (case vouched binding d of
     (Inl e, d1) \<Rightarrow> (Inl (Wrap ''porte/pg: check the binding'' e), d1)
   | (Inr ex, d1) \<Rightarrow> if \<not> ex then (Inl (Sentinel ErrNotFound), d1) else ins d1)"

definition while_bound :: "session \<Rightarrow> (db \<Rightarrow> 'a result \<times> db) \<Rightarrow> db \<Rightarrow> 'a result \<times> db" where
  "while_bound binding ins d =
     (if s_provider binding = [] \<and> s_issued_by binding = 0 then ins d
      else with_user_lock (s_user binding) True (checked_insert binding ins) d)"

text \<open>What vouches for a bound session, as a condition on the database.\<close>

definition voucher_holds :: "session \<Rightarrow> db \<Rightarrow> bool" where
  "voucher_holds b d =
     (if s_provider b \<noteq> [] then identity_exists (s_provider b) (s_subject b) (s_user b) d
      else s_issued_by b = 0 \<or> session_exists (s_issued_by b) (s_user b) d)"

section \<open>The methods (pg.go)\<close>

definition null_time :: "time \<Rightarrow> time option" where
  "null_time t = (if t = 0 then None else Some t)"

definition from_null_time :: "time option \<Rightarrow> time" where
  "from_null_time v = (case v of None \<Rightarrow> 0 | Some t \<Rightarrow> t)"

definition scan_session :: "session_row \<Rightarrow> session" where
  "scan_session r = zero_session\<lparr>s_id := r_id r, s_token_hash := r_token_hash r, s_user := r_user r,
     s_label := r_label r, s_created_at := r_created_at r, s_last_used_at := r_last_used_at r,
     s_expires_at := from_null_time (r_expires_at r)\<rparr>"

definition session_row_of :: "session \<Rightarrow> session_row" where
  "session_row_of s = \<lparr>r_id = 0, r_token_hash = s_token_hash s, r_user = s_user s,
     r_label = s_label s, r_created_at = s_created_at s, r_last_used_at = s_last_used_at s,
     r_expires_at = null_time (s_expires_at s)\<rparr>"

definition require_one :: "string \<Rightarrow> int result \<times> db \<Rightarrow> unit result \<times> db" where
  "require_one what r = (case r of
     (Inl e, d) \<Rightarrow> (Inl (Wrap what e), d)
   | (Inr n, d) \<Rightarrow> if n = 0 then (Inl (Sentinel ErrNotFound), d) else (Inr (), d))"

definition delete_sessions :: "(session_row \<Rightarrow> bool) \<Rightarrow> db \<Rightarrow> int result \<times> db" where
  "delete_sessions p = stmt (\<lambda>d.
     (Inr (affected p (sessions d)), d\<lparr>sessions := delete_where p (sessions d)\<rparr>))"

definition session_create :: "session \<Rightarrow> db \<Rightarrow> session result \<times> db" where
  "session_create s d =
     (case while_bound s (stmt (insert_session (session_row_of s))) d of
        (Inl e, d1) \<Rightarrow> (Inl (if is_err e ErrNotFound then e else Wrap ''porte/pg: create session'' e), d1)
      | (Inr n, d1) \<Rightarrow> (Inr (s\<lparr>s_id := n\<rparr>), d1))"

definition session_find :: "string \<Rightarrow> db \<Rightarrow> session result \<times> db" where
  "session_find token_hash d =
     (case query (\<lambda>d. row_with r_token_hash token_hash (sessions d)) d of
        (Inl e, d1) \<Rightarrow> (Inl (Wrap ''porte/pg: find session'' e), d1)
      | (Inr None, d1) \<Rightarrow> (Inl (Sentinel ErrNotFound), d1)
      | (Inr (Some r), d1) \<Rightarrow> (Inr (scan_session r), d1))"

definition session_touch :: "string \<Rightarrow> time \<Rightarrow> db \<Rightarrow> unit result \<times> db" where
  "session_touch token_hash at d = wrapping ''porte/pg: touch session'' (stmt (\<lambda>d. (Inr (),
     d\<lparr>sessions := update_where (\<lambda>s. r_token_hash s = token_hash \<and> r_last_used_at s < at - minute)
         (\<lambda>s. s\<lparr>r_last_used_at := at\<rparr>) (sessions d)\<rparr>)) d)"

definition session_delete :: "string \<Rightarrow> db \<Rightarrow> unit result \<times> db" where
  "session_delete token_hash d =
     require_one ''porte/pg: delete session'' (delete_sessions (\<lambda>s. r_token_hash s = token_hash) d)"

definition session_delete_by_user :: "int \<Rightarrow> db \<Rightarrow> int result \<times> db" where
  "session_delete_by_user user d =
     wrapping ''porte/pg: delete sessions'' (delete_sessions (\<lambda>s. r_user s = user) d)"

definition session_delete_logins :: "int \<Rightarrow> int \<Rightarrow> db \<Rightarrow> int result \<times> db" where
  "session_delete_logins user except d = wrapping ''porte/pg: delete logins''
     (delete_sessions (\<lambda>s. r_user s = user \<and> r_label s = [] \<and> (except = 0 \<or> r_id s \<noteq> except)) d)"

definition session_list_by_user :: "int \<Rightarrow> db \<Rightarrow> session list result \<times> db" where
  "session_list_by_user user d = wrapping ''porte/pg: list sessions'' (query (\<lambda>d.
     map scan_session (sort_key (\<lambda>s. - r_created_at s) (filter (\<lambda>s. r_user s = user) (sessions d)))) d)"

definition session_delete_by_id :: "int \<Rightarrow> int \<Rightarrow> db \<Rightarrow> unit result \<times> db" where
  "session_delete_by_id user sid d = require_one ''porte/pg: delete session''
     (delete_sessions (\<lambda>s. r_id s = sid \<and> r_user s = user) d)"

definition session_delete_expired :: "time \<Rightarrow> db \<Rightarrow> int result \<times> db" where
  "session_delete_expired now d = wrapping ''porte/pg: delete expired sessions''
     (delete_sessions (\<lambda>s. case r_expires_at s of None \<Rightarrow> False | Some t \<Rightarrow> t < now) d)"

section \<open>Facts about the building blocks\<close>

lemma from_null_time_null [simp]: "from_null_time (null_time t) = t"
  by (simp add: null_time_def from_null_time_def)

lemma null_time_neq [simp]: "null_time t \<noteq> Some 0"
  by (simp add: null_time_def)

lemma lock_user_Inr: "lock_user u sh d = (Inr x, d') \<Longrightarrow> d' = tick d"
  by (auto simp: lock_user_def lock_advisory_def dest: query_Inr)

lemma lock_user_Inl: "lock_user u sh d = (Inl e, d') \<Longrightarrow> d' = tick d \<and> (\<exists>m. e = Wrap m SqlFault)"
  by (auto simp: lock_user_def lock_advisory_def dest!: wrapping_Inl query_Inl)

lemma no_faults_lock [simp]: "faults d = [] \<Longrightarrow> lock_user u sh d = (Inr (), d)"
  by (simp add: lock_user_def lock_advisory_def wrapping_def)

lemma no_faults_vouched [simp]:
  "faults d = [] \<Longrightarrow> s_provider b \<noteq> [] \<or> s_issued_by b \<noteq> 0 \<Longrightarrow> vouched b d = (Inr (voucher_holds b d), d)"
  by (auto simp: vouched_def voucher_holds_def)

lemma exists_tick [simp]:
  "identity_exists p s u (tick d) = identity_exists p s u d"
  "session_exists i u (tick d) = session_exists i u d"
  "voucher_holds b (tick d) = voucher_holds b d"
  by (simp_all add: identity_exists_def session_exists_def voucher_holds_def)

lemma vouched_Inr:
  "vouched b d = (Inr ex, d') \<Longrightarrow> s_provider b \<noteq> [] \<or> s_issued_by b \<noteq> 0 \<Longrightarrow>
    ex = voucher_holds b d \<and> d' = tick d"
  by (auto simp: vouched_def voucher_holds_def split: if_splits dest: query_Inr)

lemma vouched_Inl: "vouched b d = (Inl e, d') \<Longrightarrow> e = SqlFault \<and> d' = tick d"
  by (auto simp: vouched_def split: if_splits dest: query_Inl)

lemma with_user_lock_error: "with_user_lock u sh w d = (Inl e, d') \<Longrightarrow> same_rows d d'"
  unfolding with_user_lock_def by (rule with_tx_error)

lemma with_user_lock_Inr:
  assumes "with_user_lock u sh w d = (Inr a, d')"
  obtains d2 where "w (tick (tick d)) = (Inr a, d2)" "d' = tick d2"
proof -
  from assms obtain d2 where b: "(case lock_user u sh (tick d) of
      (Inl e, d1) \<Rightarrow> (Inl e, d1) | (Inr _, d1) \<Rightarrow> w d1) = (Inr a, d2)" and d': "d' = tick d2"
    unfolding with_user_lock_def by (erule with_tx_Inr)
  from b have "w (tick (tick d)) = (Inr a, d2)"
    by (auto split: prod.splits sum.splits dest: lock_user_Inr)
  from this d' show thesis by (rule that)
qed

lemma with_user_lock_Inl:
  assumes "with_user_lock u sh w d = (Inl e, d')"
  obtains m where "e = Wrap m SqlFault" | d2 where "w (tick (tick d)) = (Inl e, d2)"
  using assms unfolding with_user_lock_def
proof (cases rule: with_tx_Inl)
  case (2 d2)
  then show ?thesis
    by (auto split: prod.splits sum.splits dest!: lock_user_Inr lock_user_Inl intro: that)
qed (auto intro: that)

lemma with_user_lock_ok:
  assumes "db_ok d"
    and body: "\<And>d0 r d2. db_ok d0 \<Longrightarrow> w d0 = (r, d2) \<Longrightarrow> seqs_grow d0 d2 \<and> (\<forall>a. r = Inr a \<longrightarrow> db_ok d2)"
  shows "db_ok (snd (with_user_lock u sh w d)) \<and> seqs_grow d (snd (with_user_lock u sh w d))"
  unfolding with_user_lock_def
proof (rule with_tx_ok [OF assms(1)])
  fix r d2
  assume "(case lock_user u sh (tick d) of (Inl e, d1) \<Rightarrow> (Inl e, d1) | (Inr _, d1) \<Rightarrow> w d1) = (r, d2)"
  then show "seqs_grow d d2 \<and> (\<forall>a. r = Inr a \<longrightarrow> db_ok d2)"
    using assms(1) body [of "tick (tick d)" r d2]
    by (auto split: prod.splits sum.splits dest!: lock_user_Inr lock_user_Inl)
qed

text \<open>
  An insert under \<open>whileBound\<close> runs exactly when its voucher is there, on a database that
  differs only in its fault script, and every other way out leaves the rows alone.
\<close>

lemma checked_insert_Inr:
  "checked_insert b ins d = (Inr a, d') \<Longrightarrow> s_provider b \<noteq> [] \<or> s_issued_by b \<noteq> 0 \<Longrightarrow>
    voucher_holds b d \<and> ins (tick d) = (Inr a, d')"
  unfolding checked_insert_def
  by (auto split: prod.splits sum.splits if_splits dest!: vouched_Inr)

lemma checked_insert_Inl:
  "checked_insert b ins d = (Inl e, d') \<Longrightarrow> s_provider b \<noteq> [] \<or> s_issued_by b \<noteq> 0 \<Longrightarrow>
    e = Wrap ''porte/pg: check the binding'' SqlFault \<or>
    e = Sentinel ErrNotFound \<and> \<not> voucher_holds b d \<or> ins (tick d) = (Inl e, d')"
  unfolding checked_insert_def
  by (auto split: prod.splits sum.splits if_splits dest!: vouched_Inr vouched_Inl)

lemma while_bound_Inr:
  assumes "while_bound b ins d = (Inr a, d')"
  obtains d1 d2 where "voucher_holds b d" "same_rows d d1" "user_seq d1 = user_seq d"
    "session_seq d1 = session_seq d" "ins d1 = (Inr a, d2)" "d' = d2 \<or> d' = tick d2"
proof (cases "s_provider b = [] \<and> s_issued_by b = 0")
  case True
  with assms show thesis by (intro that [of d d']) (auto simp: while_bound_def voucher_holds_def)
next
  case False
  with assms have "with_user_lock (s_user b) True (checked_insert b ins) d = (Inr a, d')"
    by (auto simp: while_bound_def)
  then obtain d2 where w: "checked_insert b ins (tick (tick d)) = (Inr a, d2)" and d': "d' = tick d2"
    by (rule with_user_lock_Inr)
  from checked_insert_Inr [OF w] False d' show thesis
    by (intro that [of "tick (tick (tick d))" d2]) auto
qed

lemma while_bound_Inl:
  assumes "while_bound b ins d = (Inl e, d')" and "is_err e ErrNotFound"
    and "\<And>d0 e' d1. ins d0 = (Inl e', d1) \<Longrightarrow> \<not> is_err e' ErrNotFound"
  shows "\<not> voucher_holds b d \<and> same_rows d d'"
proof (cases "s_provider b = [] \<and> s_issued_by b = 0")
  case True
  with assms show ?thesis by (auto simp: while_bound_def)
next
  case False
  with assms(1) have w: "with_user_lock (s_user b) True (checked_insert b ins) d = (Inl e, d')"
    by (auto simp: while_bound_def)
  from w have "\<not> voucher_holds b d"
  proof (cases rule: with_user_lock_Inl)
    case (1 m)
    with assms(2) show ?thesis by simp
  next
    case (2 d2)
    with checked_insert_Inl [OF 2] False assms(2,3) show ?thesis by auto
  qed
  with with_user_lock_error [OF w] show ?thesis by simp
qed

lemma checked_insert_ok:
  assumes "db_ok d" and "checked_insert b ins d = (r, d')"
    and ins: "\<And>d0 r d2. db_ok d0 \<Longrightarrow> ins d0 = (r, d2) \<Longrightarrow> db_ok d2 \<and> seqs_grow d0 d2"
  shows "db_ok d' \<and> seqs_grow d d'"
proof -
  have v: "snd (vouched b d) = tick d" by (auto simp: vouched_def query_state)
  show ?thesis
    using assms(2) v ins [of "tick d" r d'] assms(1) unfolding checked_insert_def
    by (cases "vouched b d"; cases "fst (vouched b d)") (auto split: if_splits)
qed

lemma while_bound_ok:
  assumes "db_ok d"
    and ins: "\<And>d0 r d2. db_ok d0 \<Longrightarrow> ins d0 = (r, d2) \<Longrightarrow> db_ok d2 \<and> seqs_grow d0 d2"
  shows "db_ok (snd (while_bound b ins d)) \<and> seqs_grow d (snd (while_bound b ins d))"
proof (cases "s_provider b = [] \<and> s_issued_by b = 0")
  case True
  with ins [OF assms(1), of "fst (ins d)" "snd (ins d)"] show ?thesis
    by (simp add: while_bound_def)
next
  case False
  then have e: "while_bound b ins d = with_user_lock (s_user b) True (checked_insert b ins) d"
    by (auto simp: while_bound_def)
  show ?thesis unfolding e
  proof (rule with_user_lock_ok [OF assms(1)])
    fix d0 r d2
    assume "db_ok d0" "checked_insert b ins d0 = (r, d2)"
    from checked_insert_ok [OF this ins] show "seqs_grow d0 d2 \<and> (\<forall>a. r = Inr a \<longrightarrow> db_ok d2)"
      by simp
  qed
qed

lemma no_faults_while_bound:
  assumes "faults d = []" and "voucher_holds b d" and "ins d = (Inr a, d2)" and "faults d2 = []"
  shows "while_bound b ins d = (Inr a, d2)"
proof (cases "s_provider b = [] \<and> s_issued_by b = 0")
  case False
  then have "checked_insert b ins d = (Inr a, d2)"
    using assms by (auto simp: checked_insert_def)
  with assms False show ?thesis
    by (auto simp: while_bound_def with_user_lock_def intro!: no_faults_with_tx)
qed (auto simp: while_bound_def assms)

lemma no_faults_while_bound_gone:
  assumes "faults d = []" and "\<not> voucher_holds b d"
  shows "while_bound b ins d = (Inl (Sentinel ErrNotFound), rollback d d)"
proof -
  have "s_provider b \<noteq> [] \<or> s_issued_by b \<noteq> 0" using assms(2) by (auto simp: voucher_holds_def)
  then show ?thesis
    using assms by (auto simp: while_bound_def with_user_lock_def checked_insert_def
        intro!: no_faults_with_tx_error)
qed

lemma rollback_self [simp]: "rollback d d = d"
  by (simp add: rollback_def)

section \<open>What each method does to the session table\<close>

lemma delete_sessions_Inr:
  "delete_sessions p d = (Inr n, d') \<Longrightarrow>
    n = affected p (sessions d) \<and> d' = (tick d)\<lparr>sessions := delete_where p (sessions d)\<rparr>"
  by (auto simp: delete_sessions_def stmt_def split: if_splits)

lemma delete_sessions_Inl: "delete_sessions p d = (Inl e, d') \<Longrightarrow> e = SqlFault \<and> d' = tick d"
  by (auto simp: delete_sessions_def stmt_def split: if_splits)

lemma require_one_Inr: "require_one m r = (Inr (), d) \<Longrightarrow> \<exists>n. n \<noteq> 0 \<and> r = (Inr n, d)"
  by (cases r; cases "fst r") (auto simp: require_one_def split: if_splits)

lemma require_one_Inl:
  "require_one m r = (Inl e, d) \<Longrightarrow>
    (\<exists>e'. e = Wrap m e' \<and> r = (Inl e', d)) \<or> e = Sentinel ErrNotFound \<and> r = (Inr 0, d)"
  by (cases r; cases "fst r") (auto simp: require_one_def split: if_splits)

lemma snd_require_one [simp]: "snd (require_one m r) = snd r"
  by (cases r; cases "fst r") (auto simp: require_one_def)

text \<open>Every method keeps the database well-formed, whichever statements fail.\<close>

lemma delete_sessions_ok': "db_ok d \<Longrightarrow> db_ok (snd (delete_sessions p d))"
  using delete_ok(1) [of "tick d"] by (auto simp: delete_sessions_def stmt_def)

lemma session_create_ok: "db_ok d \<Longrightarrow> db_ok (snd (session_create s d))"
proof -
  assume d: "db_ok d"
  have ins: "db_ok d0 \<Longrightarrow> stmt (insert_session (session_row_of s)) d0 = (r, d2) \<Longrightarrow>
      db_ok d2 \<and> seqs_grow d0 d2" for d0 r d2
    using insert_session_ok [of "tick d0" "session_row_of s"] null_time_neq
    by (auto elim!: stmt_cases simp: session_row_of_def)
  have "db_ok (snd (while_bound s (stmt (insert_session (session_row_of s))) d))"
    by (rule conjunct1, rule while_bound_ok [OF d]) (rule ins)
  then show ?thesis
    by (auto simp: session_create_def split: prod.splits sum.splits)
qed

lemma session_methods_ok:
  assumes "db_ok d"
  shows "db_ok (snd (session_find h d))" "db_ok (snd (session_touch h at d))"
    "db_ok (snd (session_delete h d))" "db_ok (snd (session_delete_by_user u d))"
    "db_ok (snd (session_delete_logins u x d))" "db_ok (snd (session_list_by_user u d))"
    "db_ok (snd (session_delete_by_id u i d))" "db_ok (snd (session_delete_expired now d))"
  using assms update_ok(1) [of "tick d"]
  by (auto simp: session_find_def session_touch_def session_delete_def session_delete_by_user_def
      session_delete_logins_def session_list_by_user_def session_delete_by_id_def
      session_delete_expired_def query_state delete_sessions_ok' stmt_def
      split: prod.splits sum.splits option.splits dest: query_Inr query_Inl)

section \<open>The store as an implementation of the contract\<close>

definition pg_sessions :: "db session_store_ops" where
  "pg_sessions = \<lparr>ss_create = session_create, ss_find = session_find, ss_touch = session_touch,
     ss_delete = session_delete, ss_delete_by_user = session_delete_by_user,
     ss_delete_logins = session_delete_logins, ss_list_by_user = session_list_by_user,
     ss_delete_by_id = session_delete_by_id, ss_delete_expired = session_delete_expired\<rparr>"

definition session_table :: "db \<Rightarrow> session list" where
  "session_table d = map scan_session (sessions d)"

lemma scan_session_simps [simp]:
  "s_id (scan_session r) = r_id r" "s_token_hash (scan_session r) = r_token_hash r"
  "s_user (scan_session r) = r_user r" "s_label (scan_session r) = r_label r"
  "s_expires_at (scan_session r) = from_null_time (r_expires_at r)"
  "s_created_at (scan_session r) = r_created_at r"
  "s_last_used_at (scan_session r) = r_last_used_at r"
  by (simp_all add: scan_session_def zero_session_def)

lemma scan_inserted: "scan_session ((session_row_of s)\<lparr>r_id := n\<rparr>) = unbound (s\<lparr>s_id := n\<rparr>)"
  by (simp add: scan_session_def session_row_of_def unbound_def zero_session_def)

lemma session_table_tick [simp]: "session_table (tick d) = session_table d"
  by (simp add: session_table_def)

lemma session_table_delete:
  "(\<And>r. r \<in> set rs \<Longrightarrow> q (scan_session r) = p r) \<Longrightarrow>
    map scan_session (delete_where p rs) = delete_where q (map scan_session rs)"
  by (auto simp: delete_where_def filter_map intro!: arg_cong [where f = "map scan_session"] filter_cong)

lemma affected_table:
  "(\<And>r. r \<in> set rs \<Longrightarrow> q (scan_session r) = p r) \<Longrightarrow>
    affected q (map scan_session rs) = affected p rs"
  by (induction rs) (auto simp: affected_Cons)

lemma swept_scan: "r_expires_at r \<noteq> Some 0 \<Longrightarrow>
    swept now (scan_session r) = (case r_expires_at r of None \<Rightarrow> False | Some t \<Rightarrow> t < now)"
  by (cases "r_expires_at r") (auto simp: swept_def from_null_time_def)

lemma same_rows_table: "same_rows d d' \<Longrightarrow> session_table d' = session_table d"
  by (simp add: same_rows_def session_table_def)

lemma stmt_insert_session_Inl:
  "stmt (insert_session row) d = (Inl e, d') \<Longrightarrow> same_rows d d' \<and> \<not> is_err e ErrNotFound"
  by (erule stmt_cases) (auto dest: insert_session_Inl simp: same_rows_def)

lemma session_create_Inr:
  assumes "session_create s d = (Inr y, d')"
  shows "voucher_holds s d \<and> y = s\<lparr>s_id := session_seq d + 1\<rparr> \<and> user_exists (s_user s) d \<and>
    s_token_hash s \<notin> r_token_hash ` set (sessions d) \<and>
    sessions d' = sessions d @ [(session_row_of s)\<lparr>r_id := session_seq d + 1\<rparr>] \<and>
    users d' = users d \<and> identities d' = identities d \<and> codes d' = codes d \<and> links d' = links d"
proof -
  from assms obtain n where w: "while_bound s (stmt (insert_session (session_row_of s))) d = (Inr n, d')"
    and y: "y = s\<lparr>s_id := n\<rparr>"
    by (auto simp: session_create_def split: prod.splits sum.splits)
  from w obtain d1 d2 where v: "voucher_holds s d" and same: "same_rows d d1"
    and seq: "session_seq d1 = session_seq d"
    and i: "stmt (insert_session (session_row_of s)) d1 = (Inr n, d2)" and d': "d' = d2 \<or> d' = tick d2"
    by (rule while_bound_Inr)
  from i have "insert_session (session_row_of s) (tick d1) = (Inr n, d2)"
    by (rule stmt_cases) auto
  from insert_session_Inr [OF this] v y d' same seq show ?thesis
    by (auto simp: same_rows_def session_row_of_def user_exists_iff)
qed

lemma session_create_Inl:
  assumes "session_create s d = (Inl e, d')"
  shows "same_rows d d' \<and> (is_err e ErrNotFound \<longrightarrow> \<not> voucher_holds s d)"
proof -
  from assms obtain e' where w: "while_bound s (stmt (insert_session (session_row_of s))) d = (Inl e', d')"
    and e: "is_err e ErrNotFound \<longrightarrow> is_err e' ErrNotFound"
    by (auto simp: session_create_def split: prod.splits sum.splits if_splits)
  have "same_rows d d'"
  proof (cases "s_provider s = [] \<and> s_issued_by s = 0")
    case True
    with w have "stmt (insert_session (session_row_of s)) d = (Inl e', d')"
      by (simp add: while_bound_def)
    from stmt_insert_session_Inl [OF this] show ?thesis ..
  next
    case False
    then have "while_bound s (stmt (insert_session (session_row_of s))) d =
        with_user_lock (s_user s) True (checked_insert s (stmt (insert_session (session_row_of s)))) d"
      by (auto simp: while_bound_def)
    with w with_user_lock_error show ?thesis by metis
  qed
  moreover have "is_err e ErrNotFound \<longrightarrow> \<not> voucher_holds s d"
    using while_bound_Inl [OF w] e stmt_insert_session_Inl by blast
  ultimately show ?thesis by simp
qed

lemma session_delete_Inr:
  assumes "require_one m (delete_sessions p d) = (Inr (), d')"
  shows "d' = (tick d)\<lparr>sessions := delete_where p (sessions d)\<rparr>"
  using require_one_Inr [OF assms] delete_sessions_Inr by blast

lemma session_delete_Inl:
  assumes "require_one m (delete_sessions p d) = (Inl e, d')"
  shows "same_rows d d' \<and> (is_err e ErrNotFound \<longrightarrow> (\<forall>r \<in> set (sessions d). \<not> p r))"
  using require_one_Inl [OF assms]
proof (elim disjE exE conjE)
  fix e' assume "e = Wrap m e'" "delete_sessions p d = (Inl e', d')"
  with delete_sessions_Inl [OF this(2)] show ?thesis by simp
next
  assume e: "e = Sentinel ErrNotFound" and r: "delete_sessions p d = (Inr 0, d')"
  from delete_sessions_Inr [OF r] have z: "affected p (sessions d) = 0"
    and d': "d' = (tick d)\<lparr>sessions := delete_where p (sessions d)\<rparr>" by auto
  from z have a: "\<forall>r \<in> set (sessions d). \<not> p r" by (simp add: affected_pos)
  then have "delete_where p (sessions d) = sessions d" by (simp add: delete_where_def)
  with a d' show ?thesis by (simp add: same_rows_def)
qed

lemma wrapped_delete_Inr:
  "wrapping m (delete_sessions p d) = (Inr n, d') \<Longrightarrow>
    n = affected p (sessions d) \<and> d' = (tick d)\<lparr>sessions := delete_where p (sessions d)\<rparr>"
  by (simp add: delete_sessions_Inr)

lemma wrapped_delete_Inl: "wrapping m (delete_sessions p d) = (Inl e, d') \<Longrightarrow> same_rows d d'"
  by (auto dest!: wrapping_Inl delete_sessions_Inl)

lemma session_find_cases:
  "session_find h d = (Inr x, d') \<Longrightarrow>
     d' = tick d \<and> (\<exists>r \<in> set (sessions d). x = scan_session r \<and> r_token_hash r = h)"
  "session_find h d = (Inl e, d') \<Longrightarrow>
     d' = tick d \<and> (is_err e ErrNotFound \<longrightarrow> h \<notin> r_token_hash ` set (sessions d))"
  by (auto simp: session_find_def split: prod.splits sum.splits option.splits
      dest!: query_Inr query_Inl) (metis row_with_Some, metis row_with_None)

lemma session_find_state: "snd (session_find h d) = tick d"
  by (cases "session_find h d"; cases "fst (session_find h d)") (auto dest: session_find_cases)

lemma session_touch_table:
  "map untimed (session_table (snd (session_touch h at d))) = map untimed (session_table d)"
  by (auto simp: session_touch_def stmt_def session_table_def update_where_def untimed_def
      scan_session_def zero_session_def)

lemma session_list_Inr:
  "session_list_by_user u d = (Inr xs, d') \<Longrightarrow>
    mset xs = mset (filter (\<lambda>x. s_user x = u) (session_table d))"
  by (auto simp: session_list_by_user_def session_table_def filter_map comp_def
      dest!: query_Inr)

lemma session_list_state: "snd (session_list_by_user u d) = tick d"
  by (simp add: session_list_by_user_def query_state)

lemmas session_delete_ops = session_delete_def session_delete_by_user_def session_delete_logins_def
  session_delete_by_id_def session_delete_expired_def

lemma db_ok_keys:
  "db_ok d \<Longrightarrow> distinct (map s_id (session_table d)) \<and> distinct (map s_token_hash (session_table d))"
  by (simp add: db_ok_defs session_table_def comp_def)

lemma db_ok_ids: "db_ok d \<Longrightarrow> x \<in> set (session_table d) \<Longrightarrow> s_id x \<noteq> 0"
  by (force simp: db_ok_defs session_table_def)

lemma deleted_rows:
  assumes "wrapping m (delete_sessions p d) = (Inr n, d')"
    and "\<And>r. r \<in> set (sessions d) \<Longrightarrow> q (scan_session r) = p r"
  shows "session_table d' = delete_where q (session_table d) \<and> n = affected q (session_table d)"
  using wrapped_delete_Inr [OF assms(1)] session_table_delete [of "sessions d" q p]
    affected_table [of "sessions d" q p] assms(2)
  by (simp add: session_table_def)

lemma deleted_one:
  assumes "require_one m (delete_sessions p d) = (Inr (), d')"
    and "\<And>r. r \<in> set (sessions d) \<Longrightarrow> q (scan_session r) = p r"
  shows "session_table d' = delete_where q (session_table d)"
  using session_delete_Inr [OF assms(1)] session_table_delete [of "sessions d" q p] assms(2)
  by (simp add: session_table_def)

lemma not_deleted:
  assumes "require_one m (delete_sessions p d) = (Inl e, d')"
    and "\<And>r. r \<in> set (sessions d) \<Longrightarrow> q (scan_session r) = p r"
  shows "session_table d' = session_table d \<and>
    (is_err e ErrNotFound \<longrightarrow> (\<forall>x \<in> set (session_table d). \<not> q x))"
  using session_delete_Inl [OF assms(1)] assms(2) same_rows_table [of d d']
  by (auto simp: session_table_def)

lemma session_table_find:
  "db_ok d \<Longrightarrow> session_find h d = (Inr x, d') \<Longrightarrow> x \<in> set (session_table d) \<and> s_token_hash x = h"
  by (auto simp: session_table_def dest: session_find_cases)

lemma session_table_unfound:
  "session_find h d = (Inl e, d') \<Longrightarrow> is_err e ErrNotFound \<Longrightarrow>
    h \<notin> s_token_hash ` set (session_table d)"
  using session_find_cases(2) [of h d e d'] by (auto simp: session_table_def image_image)

lemma session_delete_table:
  "session_delete h d = (Inr (), d') \<Longrightarrow>
     session_table d' = delete_where (\<lambda>x. s_token_hash x = h) (session_table d)"
  "session_delete h d = (Inl e, d') \<Longrightarrow> session_table d' = session_table d \<and>
     (is_err e ErrNotFound \<longrightarrow> h \<notin> s_token_hash ` set (session_table d))"
  "session_delete_by_id u i d = (Inr (), d') \<Longrightarrow>
     session_table d' = delete_where (\<lambda>x. s_id x = i \<and> s_user x = u) (session_table d)"
  "session_delete_by_id u i d = (Inl e, d') \<Longrightarrow> session_table d' = session_table d \<and>
     (is_err e ErrNotFound \<longrightarrow> (\<forall>x \<in> set (session_table d). \<not> (s_id x = i \<and> s_user x = u)))"
  unfolding session_delete_ops
     apply (erule deleted_one, simp)
    apply (drule not_deleted [where q = "\<lambda>x. s_token_hash x = h"], simp, blast)
   apply (erule deleted_one, simp)
  apply (drule not_deleted [where q = "\<lambda>x. s_id x = i \<and> s_user x = u"], simp, simp)
  done

lemma session_delete_many_table:
  "session_delete_by_user u d = (Inr n, d') \<Longrightarrow>
     session_table d' = delete_where (\<lambda>x. s_user x = u) (session_table d) \<and>
     n = affected (\<lambda>x. s_user x = u) (session_table d)"
  "session_delete_logins u i d = (Inr n, d') \<Longrightarrow>
     session_table d' = delete_where (is_login_of u i) (session_table d) \<and>
     n = affected (is_login_of u i) (session_table d)"
  "db_ok d \<Longrightarrow> session_delete_expired now d = (Inr n, d') \<Longrightarrow>
     session_table d' = delete_where (swept now) (session_table d) \<and>
     n = affected (swept now) (session_table d)"
  unfolding session_delete_ops
    apply (erule deleted_rows, simp)
   apply (erule deleted_rows, simp add: is_login_of_def)
  apply (erule deleted_rows, simp add: swept_scan db_ok_defs)
  done

lemma session_delete_many_failed:
  "session_delete_by_user u d = (Inl e, d') \<Longrightarrow> session_table d' = session_table d"
  "session_delete_logins u i d = (Inl e, d') \<Longrightarrow> session_table d' = session_table d"
  "session_delete_expired now d = (Inl e, d') \<Longrightarrow> session_table d' = session_table d"
  unfolding session_delete_ops by (blast dest: wrapped_delete_Inl same_rows_table)+

interpretation pgs: session_store pg_sessions session_table voucher_holds db_ok
proof (unfold_locales, unfold pg_sessions_def session_store_ops.simps, goal_cases)
  case (1 s)
  then show ?case by (rule db_ok_keys)
next
  case (2 s x)
  then show ?case by (rule db_ok_ids)
next
  case (4 s x y s')
  then show ?case
    using session_create_Inr [of x s y s']
    by (auto simp: session_table_def scan_inserted)
qed (auto simp: session_create_ok session_methods_ok session_find_state session_touch_table
    session_list_state
    dest: session_create_Inl same_rows_table session_table_find session_table_unfound
      session_delete_table session_delete_many_table session_delete_many_failed session_list_Inr)

end
