(* ===== verification/Session.thy ===== *)
theory Session
  imports Pg_Sessions
begin

text \<open>
  The package \<open>session\<close>: the manager that mints, verifies and ends the opaque session token,
  over its two transports (\<open>session.go\<close>, \<open>cookie.go\<close>, \<open>bind.go\<close>). A request is the part of an
  \<open>http.Request\<close> the manager reads; a call returns its result, the \<open>Set-Cookie\<close> headers it
  wrote and the state of the session store. The store is any implementation of
  \<open>SessionStore\<close>: the lemmas about the manager are proved from the contract, in the locale, and
  hold of \<open>porte/pg\<close> through its interpretation.
\<close>

section \<open>Requests, cookies and the manager\<close>

record request =
  rq_method :: string
  rq_cookies :: "(string \<times> string) list"
  rq_header :: "string \<Rightarrow> string"
  rq_tls :: bool
  rq_identity :: "identity option"

record cookie =
  ck_name :: string
  ck_value :: string
  ck_path :: string
  ck_max_age :: int
  ck_http_only :: bool
  ck_secure :: bool
  ck_same_site :: string

text \<open>
  \<open>ClaimsSource\<close> and \<open>JWTVerifier\<close> are interfaces \<open>porte/oidc\<close> implements over stores of its
  own: here they are the answers they give.
\<close>

record 's manager =
  m_cfg :: config
  m_store :: "'s session_store_ops"
  m_claims :: "(identity \<Rightarrow> identity) option"
  m_jwt :: "(string \<Rightarrow> identity result) option"

definition new_manager :: "config \<Rightarrow> 's session_store_ops option \<Rightarrow> (identity \<Rightarrow> identity) option \<Rightarrow> 's manager result" where
  "new_manager cfg store claims = (case store of
     None \<Rightarrow> Inl (Plain ''porte/session: a SessionStore is required'')
   | Some st \<Rightarrow> Inr \<lparr>m_cfg = resolved cfg, m_store = st, m_claims = claims, m_jwt = None\<rparr>)"

definition with_claims :: "'s manager \<Rightarrow> (identity \<Rightarrow> identity) \<Rightarrow> 's manager" where
  "with_claims m claims = m\<lparr>m_claims := Some claims\<rparr>"

definition with_jwt :: "'s manager \<Rightarrow> (string \<Rightarrow> identity result) \<Rightarrow> 's manager" where
  "with_jwt m verifier = m\<lparr>m_jwt := Some verifier\<rparr>"

definition is_not_found :: "error \<Rightarrow> bool" where
  "is_not_found e = is_err e ErrNotFound"

definition mutating :: "request \<Rightarrow> bool" where
  "mutating r = (rq_method r \<noteq> ''GET'' \<and> rq_method r \<noteq> ''HEAD'' \<and> rq_method r \<noteq> ''OPTIONS'')"

section \<open>cookie.go\<close>

definition is_secure :: "request \<Rightarrow> bool" where
  "is_secure r = (if rq_tls r then True else equal_fold (rq_header r ''X-Forwarded-Proto'') ''https'')"

definition secure :: "'s manager \<Rightarrow> request \<Rightarrow> bool" where
  "secure m r = (HTTPS (m_cfg m) \<or> is_secure r)"

definition host_prefix :: string where "host_prefix = ''__Host-''"

definition cookie_name :: "'s manager \<Rightarrow> request \<Rightarrow> string \<Rightarrow> string" where
  "cookie_name m r base = (if secure m r then host_prefix @ base else base)"

text \<open>\<open>r.Cookie(name)\<close> is the first cookie of the name.\<close>

definition request_cookie :: "request \<Rightarrow> string \<Rightarrow> string option" where
  "request_cookie r name = map_option snd (find (\<lambda>c. fst c = name) (rq_cookies r))"

fun first_cookie :: "request \<Rightarrow> string list \<Rightarrow> string \<times> bool" where
  "first_cookie r [] = ([], False)"
| "first_cookie r (name # names) = (case request_cookie r name of
     Some v \<Rightarrow> if v \<noteq> [] then (v, True) else first_cookie r names
   | None \<Rightarrow> first_cookie r names)"

definition read_cookie :: "'s manager \<Rightarrow> request \<Rightarrow> string \<Rightarrow> string \<times> bool" where
  "read_cookie m r base = first_cookie r
     (if secure m r
      then (if accept_legacy_cookie (m_cfg m) then [host_prefix @ base, base] else [host_prefix @ base])
      else [base])"

definition set_cookie :: "'s manager \<Rightarrow> request \<Rightarrow> string \<Rightarrow> string \<Rightarrow> int \<Rightarrow> cookie list" where
  "set_cookie m r base value max_age =
     [\<lparr>ck_name = cookie_name m r base, ck_value = value, ck_path = ''/'', ck_max_age = max_age,
       ck_http_only = True, ck_secure = secure m r, ck_same_site = ''Lax''\<rparr>]"

definition clear_cookie :: "'s manager \<Rightarrow> request \<Rightarrow> string \<Rightarrow> cookie list" where
  "clear_cookie m r base = set_cookie m r base [] (-1) @
     (if secure m r then [\<lparr>ck_name = base, ck_value = [], ck_path = ''/'', ck_max_age = -1,
        ck_http_only = True, ck_secure = True, ck_same_site = ''Lax''\<rparr>] else [])"

text \<open>\<open>int(ttl.Seconds())\<close> truncates towards zero.\<close>

definition whole_seconds :: "duration \<Rightarrow> int" where
  "whole_seconds d = (if 0 \<le> d then d div second else - ((- d) div second))"

definition set_session_cookie :: "'s manager \<Rightarrow> request \<Rightarrow> string \<Rightarrow> cookie list" where
  "set_session_cookie m r token = set_cookie m r session_cookie_name token (whole_seconds (session_ttl (m_cfg m)))"

section \<open>session.go: reading a credential\<close>

definition credential :: "'s manager \<Rightarrow> request \<Rightarrow> string \<times> bool" where
  "credential m r = (case read_cookie m r session_cookie_name of
     (value, True) \<Rightarrow> (value, True)
   | (_, False) \<Rightarrow> (let authorization = rq_header r ''Authorization'' in
       if 7 < length authorization \<and> equal_fold (take 7 authorization) ''bearer ''
       then (trim_space (drop 7 authorization), False)
       else ([], False)))"

definition jwt_shaped :: "string \<Rightarrow> bool" where
  "jwt_shaped token = (let parts = split_on CHR ''.'' token in
     length parts = 3 \<and> list_all (\<lambda>part. part \<noteq> []) parts)"

definition jwt_applies :: "'s manager \<Rightarrow> bool \<Rightarrow> string \<Rightarrow> bool" where
  "jwt_applies m from_cookie token = (\<not> from_cookie \<and> m_jwt m \<noteq> None \<and> jwt_shaped token)"

fun scope_loop :: "string \<Rightarrow> bool \<Rightarrow> string list \<Rightarrow> bool" where
  "scope_loop pre mut [] = False"
| "scope_loop pre mut (scope # rest) =
     (if scope = pre @ ''.write'' \<or> (\<not> mut \<and> scope = pre @ ''.read'') then True
      else scope_loop pre mut rest)"

definition scope_allows :: "'s manager \<Rightarrow> request \<Rightarrow> string list \<Rightarrow> bool" where
  "scope_allows m r granted = (let pre = scope_prefix (m_cfg m) in
     if pre = [] then True else scope_loop pre (mutating r) granted)"

definition verify_bearer_jwt :: "'s manager \<Rightarrow> request \<Rightarrow> string \<Rightarrow> identity result" where
  "verify_bearer_jwt m r token = (case the (m_jwt m) token of
     Inl e \<Rightarrow> Inl (unauthorized ''invalid token'')
   | Inr identity \<Rightarrow> if \<not> scope_allows m r (id_scopes identity)
       then Inl (forbidden ''insufficient scope'') else Inr identity)"

definition idled_out :: "'s manager \<Rightarrow> session \<Rightarrow> bool \<Rightarrow> time \<Rightarrow> bool" where
  "idled_out m s from_cookie now = (let idle = idle_timeout (m_cfg m) in
     if \<not> from_cookie \<or> idle \<le> 0 \<or> s_last_used_at s = 0 then False
     else idle \<le> time_sub now (s_last_used_at s))"

definition touch_interval :: duration where "touch_interval = minute"

definition csrf_missing :: "request \<Rightarrow> bool" where
  "csrf_missing r = (rq_header r csrf_header_name = [])"

definition missing_csrf :: error where
  "missing_csrf = forbidden (''missing '' @ csrf_header_name @ '' header'')"

definition authenticate ::
  "'s manager \<Rightarrow> request \<Rightarrow> time \<Rightarrow> 's \<Rightarrow> identity result \<times> cookie list \<times> 's" where
  "authenticate m r now s =
     (let (token, from_cookie) = credential m r in
      if token = [] then (Inl (unauthorized ''missing auth''), [], s)
      else if from_cookie \<and> mutating r \<and> csrf_missing r then (Inl missing_csrf, [], s)
      else if jwt_applies m from_cookie token then (verify_bearer_jwt m r token, [], s)
      else (let hash = hash_token token;
                cleared = (if from_cookie then clear_cookie m r session_cookie_name else []) in
        case ss_find (m_store m) hash s of
          (Inl e, s1) \<Rightarrow>
            if is_not_found e then (Inl (unauthorized ''invalid session''), cleared, s1)
            else (Inl (internal ''failed to read the session'' e), [], s1)
        | (Inr stored, s1) \<Rightarrow>
            if session_expired stored now \<or> idled_out m stored from_cookie now
            then (Inl (unauthorized ''session expired''), cleared, snd (ss_delete (m_store m) hash s1))
            else (let s2 = (if touch_interval \<le> time_sub now (s_last_used_at stored)
                            then snd (ss_touch (m_store m) hash now s1) else s1);
                      identity = zero_identity\<lparr>id_user := s_user stored, id_session := s_id stored\<rparr> in
                  (Inr (case m_claims m of Some attach \<Rightarrow> attach identity | None \<Rightarrow> identity), [], s2))))"

text \<open>The two middlewares around a handler.\<close>

type_synonym ('a, 's) handler = "request \<Rightarrow> 's \<Rightarrow> 'a result \<times> cookie list \<times> 's"

definition require_auth :: "'s manager \<Rightarrow> time \<Rightarrow> ('a, 's) handler \<Rightarrow> ('a, 's) handler" where
  "require_auth m now handle r s = (case authenticate m r now s of
     (Inl e, cs, s1) \<Rightarrow> (Inl e, cs, s1)
   | (Inr identity, cs, s1) \<Rightarrow>
       (case handle (r\<lparr>rq_identity := Some identity\<rparr>) s1 of (a, cs', s2) \<Rightarrow> (a, cs @ cs', s2)))"

definition optional :: "'s manager \<Rightarrow> time \<Rightarrow> ('a, 's) handler \<Rightarrow> ('a, 's) handler" where
  "optional m now handle r s = (case authenticate m r now s of
     (Inl e, cs, s1) \<Rightarrow> (case handle r s1 of (a, cs', s2) \<Rightarrow> (a, cs @ cs', s2))
   | (Inr identity, cs, s1) \<Rightarrow>
       (case handle (r\<lparr>rq_identity := Some identity\<rparr>) s1 of (a, cs', s2) \<Rightarrow> (a, cs @ cs', s2)))"

section \<open>session.go, bind.go: issuing\<close>

definition bind_to_caller :: "'s manager \<Rightarrow> identity option \<Rightarrow> session \<Rightarrow> session" where
  "bind_to_caller m ctx template = (case ctx of
     None \<Rightarrow> template
   | Some caller \<Rightarrow>
       if s_label template = [] \<or> s_provider template \<noteq> [] \<or> s_issued_by template \<noteq> 0 \<or>
          id_user caller \<noteq> s_user template then template
       else if id_session caller \<noteq> 0 then template\<lparr>s_issued_by := id_session caller\<rparr>
       else if id_subject caller \<noteq> []
         then template\<lparr>s_provider := issuer (m_cfg m), s_subject := id_subject caller\<rparr>
       else template)"

definition issue_for ::
  "'s manager \<Rightarrow> string option \<Rightarrow> identity option \<Rightarrow> session \<Rightarrow> time \<Rightarrow> 's \<Rightarrow> (string \<times> session) result \<times> 's" where
  "issue_for m entropy ctx template0 now s = (case new_token entropy of
     Inl e \<Rightarrow> (Inl (internal ''failed to issue a session'' e), s)
   | Inr token \<Rightarrow>
       (let template = (bind_to_caller m ctx template0)\<lparr>s_token_hash := hash_token token,
              s_created_at := now, s_last_used_at := now, s_expires_at := 0\<rparr>;
            template = (if s_label template = []
              then template\<lparr>s_expires_at := now + session_ttl (m_cfg m)\<rparr> else template) in
        case ss_create (m_store m) template s of
          (Inl e, s1) \<Rightarrow> (Inl (if is_not_found e then unauthorized ''could not sign you in''
              else internal ''failed to store the session'' e), s1)
        | (Inr sess, s1) \<Rightarrow> (Inr (token, sess), s1)))"

definition issue ::
  "'s manager \<Rightarrow> string option \<Rightarrow> identity option \<Rightarrow> int \<Rightarrow> string \<Rightarrow> time \<Rightarrow> 's \<Rightarrow> (string \<times> session) result \<times> 's" where
  "issue m entropy ctx user label now s =
     issue_for m entropy ctx (zero_session\<lparr>s_user := user, s_label := label\<rparr>) now s"

definition issue_cookie_for ::
  "'s manager \<Rightarrow> string option \<Rightarrow> identity option \<Rightarrow> request \<Rightarrow> session \<Rightarrow> time \<Rightarrow> 's
    \<Rightarrow> (string \<times> session) result \<times> cookie list \<times> 's" where
  "issue_cookie_for m entropy ctx r template now s = (case issue_for m entropy ctx template now s of
     (Inl e, s1) \<Rightarrow> (Inl e, [], s1)
   | (Inr (token, sess), s1) \<Rightarrow> (Inr (token, sess), set_session_cookie m r token, s1))"

definition issue_cookie ::
  "'s manager \<Rightarrow> string option \<Rightarrow> identity option \<Rightarrow> request \<Rightarrow> int \<Rightarrow> time \<Rightarrow> 's
    \<Rightarrow> (string \<times> session) result \<times> cookie list \<times> 's" where
  "issue_cookie m entropy ctx r user now s =
     issue_cookie_for m entropy ctx r (zero_session\<lparr>s_user := user\<rparr>) now s"

section \<open>session.go: ending\<close>

definition clear :: "'s manager \<Rightarrow> identity option \<Rightarrow> request \<Rightarrow> 's \<Rightarrow> unit result \<times> cookie list \<times> 's" where
  "clear m ctx r s = (case ctx of
     None \<Rightarrow> (Inl (unauthorized ''missing auth''), [], s)
   | Some identity \<Rightarrow> (case ss_delete_by_id (m_store m) (id_user identity) (id_session identity) s of
       (Inl e, s1) \<Rightarrow> if is_not_found e then (Inr (), clear_cookie m r session_cookie_name, s1)
         else (Inl (internal ''failed to end the session'' e), [], s1)
     | (Inr _, s1) \<Rightarrow> (Inr (), clear_cookie m r session_cookie_name, s1)))"

definition handle_logout :: "'s manager \<Rightarrow> (unit, 's) handler" where
  "handle_logout m r s =
     (if snd (read_cookie m r session_cookie_name) \<and> csrf_missing r then (Inl missing_csrf, [], s)
      else case rq_identity r of
        Some _ \<Rightarrow> clear m (rq_identity r) r s
      | None \<Rightarrow> (Inr (), clear_cookie m r session_cookie_name, s))"

text \<open>The route \<open>Mount\<close> registers: \<open>Optional\<close> around the handler.\<close>

definition logout :: "'s manager \<Rightarrow> time \<Rightarrow> (unit, 's) handler" where
  "logout m now = optional m now (handle_logout m)"

definition list_sessions :: "'s manager \<Rightarrow> int \<Rightarrow> 's \<Rightarrow> session list result \<times> 's" where
  "list_sessions m user = ss_list_by_user (m_store m) user"

definition revoke :: "'s manager \<Rightarrow> int \<Rightarrow> int \<Rightarrow> 's \<Rightarrow> unit result \<times> 's" where
  "revoke m user sid = ss_delete_by_id (m_store m) user sid"

definition sweep :: "'s manager \<Rightarrow> time \<Rightarrow> 's \<Rightarrow> int result \<times> 's" where
  "sweep m now = ss_delete_expired (m_store m) now"

definition revoke_user :: "'s manager \<Rightarrow> int \<Rightarrow> 's \<Rightarrow> int result \<times> 's" where
  "revoke_user m user = ss_delete_by_user (m_store m) user"

definition revoke_logins :: "'s manager \<Rightarrow> int \<Rightarrow> int \<Rightarrow> 's \<Rightarrow> int result \<times> 's" where
  "revoke_logins m user except = ss_delete_logins (m_store m) user except"

section \<open>The manager over any store that keeps the contract\<close>

definition identity_of :: "'s manager \<Rightarrow> session \<Rightarrow> identity" where
  "identity_of m x = (let identity = zero_identity\<lparr>id_user := s_user x, id_session := s_id x\<rparr> in
     case m_claims m of Some attach \<Rightarrow> attach identity | None \<Rightarrow> identity)"

definition alive :: "'s manager \<Rightarrow> bool \<Rightarrow> time \<Rightarrow> session \<Rightarrow> bool" where
  "alive m from_cookie now x = (\<not> session_expired x now \<and> \<not> idled_out m x from_cookie now)"

lemma api_neq_sentinel [simp]: "\<not> is_not_found (internal m (Plain x))"
  by (simp add: is_not_found_def)

lemma clear_cookie_identity [simp]: "clear_cookie m (r\<lparr>rq_identity := z\<rparr>) base = clear_cookie m r base"
  by (simp add: clear_cookie_def set_cookie_def cookie_name_def secure_def is_secure_def)

definition hashes :: "session list \<Rightarrow> string set" where
  "hashes xs = s_token_hash ` set xs"

lemma hashes_iff: "h \<in> hashes xs \<longleftrightarrow> (\<exists>x \<in> set xs. s_token_hash x = h)"
  by (auto simp: hashes_def)

lemma hashes_delete: "hashes (delete_where p xs) \<subseteq> hashes xs"
  by (auto simp: set_delete_where hashes_def)

context session_store begin

lemma untimed_row:
  assumes "map untimed ys = map untimed xs" and "y \<in> set ys"
  shows "\<exists>x \<in> set xs. untimed x = untimed y"
proof -
  from assms(2) have "untimed y \<in> set (map untimed ys)" by simp
  then have "untimed y \<in> set (map untimed xs)" using assms(1) by simp
  then show ?thesis by auto
qed

lemma untimed_hashes: "map untimed (table s') = map untimed (table s) \<Longrightarrow> hashes (table s') = hashes (table s)"
  using untimed_map [of "table s'" "table s" s_token_hash] unfolding hashes_def
  by (metis list.set_map untimed_fields(2))

lemma find_cases:
  assumes "ok s" and "ss_find st h s = (r, s1)"
  shows "ok s1 \<and> table s1 = table s"
  using find_ok [OF assms(1), of h] assms(2) by simp

lemma find_unique:
  assumes "ok s" and "x \<in> set (table s)" and "ss_find st (s_token_hash x) s = (Inr y, s1)"
  shows "y = x"
  using keys [OF assms(1)] find_row [OF assms(1,3)] assms(2) by (auto simp: distinct_map inj_on_def)

lemma delete_cases:
  assumes "ok s" and "ss_delete st h s = (r, s')"
  shows "ok s' \<and> (table s' = table s \<or> table s' = delete_where (\<lambda>x. s_token_hash x = h) (table s))"
  using delete_ok [OF assms(1), of h] delete_row [OF assms(1), of h s'] delete_failed [OF assms(1), of h _ s'] assms(2)
  by (cases r) auto

text \<open>A request authenticates against a live session of the table, or it does not.\<close>

lemma authenticate_Inr:
  assumes "ok s" and "m_store m = st" and "authenticate m r now s = (Inr i, cs, s')"
    and "credential m r = (token, fc)" and "\<not> jwt_applies m fc token"
  shows "token \<noteq> [] \<and> \<not> (fc \<and> mutating r \<and> csrf_missing r) \<and> cs = [] \<and>
    (\<exists>x \<in> set (table s). s_token_hash x = hash_token token \<and> alive m fc now x \<and> i = identity_of m x)"
proof -
  from assms(2-5) obtain x s1 where guards: "token \<noteq> []" "\<not> (fc \<and> mutating r \<and> csrf_missing r)"
    and f: "ss_find st (hash_token token) s = (Inr x, s1)" and a: "alive m fc now x"
    and out: "i = identity_of m x" "cs = []"
    by (auto simp: authenticate_def Let_def alive_def identity_of_def split: prod.splits sum.splits if_splits)
  with find_row [OF assms(1) f] show ?thesis by auto
qed

lemma authenticate_state:
  assumes "ok s" and "m_store m = st" and "authenticate m r now s = (res, cs, s')"
  shows "ok s' \<and> (map untimed (table s') = map untimed (table s) \<or>
    (\<exists>token fc x. credential m r = (token, fc) \<and> s_token_hash x = hash_token token \<and> x \<in> set (table s) \<and>
      \<not> alive m fc now x \<and> table s' = delete_where (\<lambda>y. s_token_hash y = hash_token token) (table s)))"
proof -
  obtain token fc where c: "credential m r = (token, fc)" by (cases "credential m r")
  obtain fr s1 where f: "ss_find st (hash_token token) s = (fr, s1)" by (cases "ss_find st (hash_token token) s")
  note f1 = find_cases [OF assms(1) f]
  from assms(3) c consider "s' = s" | e where "fr = Inl e" "s' = s1"
    | x where "fr = Inr x" "\<not> alive m fc now x" "s' = snd (ss_delete st (hash_token token) s1)"
    | x where "fr = Inr x" "s' = s1 \<or> s' = snd (ss_touch st (hash_token token) now s1)"
    unfolding authenticate_def
    by (auto simp: Let_def assms(2) f alive_def split: sum.splits if_splits)
  then show ?thesis
  proof cases
    case 1
    with assms(1) show ?thesis by simp
  next
    case (2 e)
    with f1 show ?thesis by simp
  next
    case (3 x)
    obtain dr where d: "ss_delete st (hash_token token) s1 = (dr, s')"
      using 3(3) by (cases "ss_delete st (hash_token token) s1") auto
    from delete_cases [OF _ d] f1 have "ok s'" and
      t: "table s' = table s \<or> table s' = delete_where (\<lambda>x. s_token_hash x = hash_token token) (table s)"
      by auto
    moreover from f 3(1) find_row [OF assms(1)] have "x \<in> set (table s)" "s_token_hash x = hash_token token"
      by auto
    ultimately show ?thesis using c 3(2) by (metis)
  next
    case (4 x)
    with touch_ok [of s1 "hash_token token" now] f1 show ?thesis by auto
  qed
qed

lemma authenticate_hashes:
  assumes "ok s" and "m_store m = st" and "authenticate m r now s = (res, cs, s')"
  shows "ok s' \<and> hashes (table s') \<subseteq> hashes (table s)"
  using authenticate_state [OF assms] untimed_hashes [of s' s] hashes_delete
  by (elim conjE disjE exE) (simp, metis)

lemma authenticate_absent:
  assumes "ok s" and "m_store m = st" and "credential m r = (token, fc)"
    and "\<not> jwt_applies m fc token" and "hash_token token \<notin> hashes (table s)"
  shows "\<exists>e. fst (authenticate m r now s) = Inl e"
proof (rule ccontr)
  assume "\<nexists>e. fst (authenticate m r now s) = Inl e"
  then obtain i where "fst (authenticate m r now s) = Inr i"
    by (cases "fst (authenticate m r now s)") auto
  then obtain cs s' where "authenticate m r now s = (Inr i, cs, s')" by (metis prod.collapse)
  from authenticate_Inr [OF assms(1,2) this assms(3,4)] assms(5) show False
    unfolding hashes_iff by blast
qed

end

section \<open>Issuing, and the round trip\<close>

text \<open>The row \<open>IssueFor\<close> asks the store to create.\<close>

definition to_issue :: "'s manager \<Rightarrow> identity option \<Rightarrow> session \<Rightarrow> string \<Rightarrow> time \<Rightarrow> session" where
  "to_issue m ctx template token now = (bind_to_caller m ctx template)\<lparr>s_token_hash := hash_token token,
     s_created_at := now, s_last_used_at := now,
     s_expires_at := (if s_label template = [] then now + session_ttl (m_cfg m) else 0)\<rparr>"

lemma bind_fields [simp]:
  "s_user (bind_to_caller m ctx x) = s_user x" "s_label (bind_to_caller m ctx x) = s_label x"
  "s_id (bind_to_caller m ctx x) = s_id x"
  by (auto simp: bind_to_caller_def split: option.splits)

lemma to_issue_fields [simp]:
  "s_user (to_issue m ctx x tok now) = s_user x" "s_label (to_issue m ctx x tok now) = s_label x"
  "s_token_hash (to_issue m ctx x tok now) = hash_token tok" "s_last_used_at (to_issue m ctx x tok now) = now"
  "s_expires_at (to_issue m ctx x tok now) = (if s_label x = [] then now + session_ttl (m_cfg m) else 0)"
  by (simp_all add: to_issue_def)

lemma issue_for_unfold:
  "issue_for m entropy ctx template now s = (case new_token entropy of
     Inl e \<Rightarrow> (Inl (internal ''failed to issue a session'' e), s)
   | Inr token \<Rightarrow> (case ss_create (m_store m) (to_issue m ctx template token now) s of
          (Inl e, s1) \<Rightarrow> (Inl (if is_not_found e then unauthorized ''could not sign you in''
              else internal ''failed to store the session'' e), s1)
        | (Inr sess, s1) \<Rightarrow> (Inr (token, sess), s1)))"
  by (simp add: issue_for_def to_issue_def Let_def split: sum.split)

lemma new_token_Inr:
  "new_token entropy = Inr tok \<Longrightarrow> \<exists>buffer. entropy = Some buffer \<and> tok = b64_encode (take token_bytes buffer)"
  by (auto simp: new_token_def split: option.splits)

lemma token_not_jwt: "new_token entropy = Inr tok \<Longrightarrow> \<not> jwt_shaped tok"
  by (auto dest!: new_token_Inr simp: jwt_shaped_def Let_def split_on_absent [OF b64_no_dot])

context session_store begin

lemma issue_for_Inr:
  assumes "ok s" and "m_store m = st" and "issue_for m entropy ctx template now s = (Inr (tok, sess), s')"
  shows "ok s' \<and> new_token entropy = Inr tok \<and> vouches (to_issue m ctx template tok now) s \<and>
    sess = (to_issue m ctx template tok now)\<lparr>s_id := s_id sess\<rparr> \<and> table s' = table s @ [unbound sess]"
proof -
  from assms(2,3) have "new_token entropy = Inr tok"
    and c: "ss_create st (to_issue m ctx template tok now) s = (Inr sess, s')"
    by (auto simp: issue_for_unfold split: sum.splits prod.splits)
  with create_row [OF assms(1) c] create_ok [OF assms(1), of "to_issue m ctx template tok now"]
  show ?thesis by simp
qed

lemma issue_for_state:
  assumes "ok s" and "m_store m = st" and "issue_for m entropy ctx template now s = (r, s')"
  shows "ok s' \<and> (table s' = table s \<or>
    (\<exists>tok x. new_token entropy = Inr tok \<and> s_token_hash x = hash_token tok \<and> s_label x = s_label template \<and>
       s_user x = s_user template \<and> s_expires_at x = (if s_label x = [] then now + session_ttl (m_cfg m) else 0) \<and>
       table s' = table s @ [x]))"
proof (cases "new_token entropy")
  case (Inl e)
  with assms show ?thesis by (simp add: issue_for_unfold)
next
  case (Inr tok)
  let ?t = "to_issue m ctx template tok now"
  obtain cr s1 where c: "ss_create st ?t s = (cr, s1)" by (cases "ss_create st ?t s")
  with assms(2,3) Inr have s': "s' = s1" by (auto simp: issue_for_unfold split: sum.splits)
  have ok: "ok s1" using create_ok [OF assms(1), of ?t] c by simp
  show ?thesis
  proof (cases cr)
    case (Inl e)
    with create_failed [OF assms(1)] c ok s' show ?thesis by simp
  next
    case (Inr y)
    with create_row [OF assms(1)] c have y: "y = ?t\<lparr>s_id := s_id y\<rparr>" "table s1 = table s @ [unbound y]" by auto
    then have "s_token_hash (unbound y) = hash_token tok \<and> s_label (unbound y) = s_label template \<and>
        s_user (unbound y) = s_user template \<and>
        s_expires_at (unbound y) = (if s_label template = [] then now + session_ttl (m_cfg m) else 0)"
      by (metis (no_types, lifting) session.select_convs(2,3,4,7) session.surjective session.update_convs(1)
          to_issue_fields unbound_fields)
    with y \<open>new_token entropy = Inr tok\<close> ok s' show ?thesis by auto
  qed
qed

text \<open>
  A fresh token is accepted: the only other answer the manager gives to it, while it lasts, is
  that the store could not be read.
\<close>

lemma issue_authenticate:
  assumes "ok s" and "m_store m = st"
    and i: "issue_for m entropy ctx template now s = (Inr (tok, sess), s')"
    and cred: "credential m r = (tok, fc)" and "tok \<noteq> []" and "fc \<longrightarrow> \<not> mutating r \<or> \<not> csrf_missing r"
    and life: "s_label template = [] \<longrightarrow> later \<le> now + session_ttl (m_cfg m)"
    and idle: "fc \<longrightarrow> time_sub later now < idle_timeout (m_cfg m)"
  shows "fst (authenticate m r later s') = Inr (identity_of m sess) \<or>
    (\<exists>e. \<not> is_not_found e \<and> fst (authenticate m r later s') = Inl (internal ''failed to read the session'' e))"
proof -
  from issue_for_Inr [OF assms(1,2) i] have ok: "ok s'" and tok: "new_token entropy = Inr tok"
    and sess: "sess = (to_issue m ctx template tok now)\<lparr>s_id := s_id sess\<rparr>"
    and tab: "table s' = table s @ [unbound sess]" by auto
  have fields: "s_token_hash sess = hash_token tok" "s_last_used_at sess = now"
      "s_expires_at sess = (if s_label template = [] then now + session_ttl (m_cfg m) else 0)"
    by (subst sess, simp)+
  have alive: "alive m fc later (unbound sess)"
    using fields life idle idle_timeout_nonneg [of "m_cfg m"]
    by (auto simp: alive_def session_expired_def idled_out_def Let_def)
  have jwt: "\<not> jwt_applies m fc tok" using token_not_jwt [OF tok] by (simp add: jwt_applies_def)
  have row: "unbound sess \<in> set (table s')" "s_token_hash (unbound sess) = hash_token tok"
    using tab fields by simp_all
  have same: "identity_of m (unbound sess) = identity_of m sess" by (simp add: identity_of_def)
  obtain fr s1 where f: "ss_find st (hash_token tok) s' = (fr, s1)" by (cases "ss_find st (hash_token tok) s'")
  show ?thesis
  proof (cases fr)
    case (Inr x)
    with f row find_unique [OF ok row(1)] have "x = unbound sess" by simp
    with f Inr cred assms(2,5,6) jwt alive same show ?thesis
      by (auto simp: authenticate_def Let_def alive_def identity_of_def)
  next
    case (Inl e)
    have "\<not> is_not_found e"
      using find_absent [OF ok] f Inl row by (force simp: is_not_found_def)
    with f Inl cred assms(2,5,6) jwt show ?thesis
      by (auto simp: authenticate_def Let_def)
  qed
qed

end

section \<open>Histories of a manager's calls\<close>

text \<open>
  The calls the replicas of an app make on managers over one store, in the order their
  statements ran. The managers may differ in their configuration and in the answers their
  claims source and JWT verifier give; any call may fail.
\<close>

datatype call =
    Login "string option" "identity option" session time
  | Request request time
  | Logout request time
  | Clear "identity option" request
  | Revoke int int
  | RevokeUser int
  | RevokeLogins int int
  | Sweep time

definition step :: "'s manager \<times> call \<Rightarrow> 's \<Rightarrow> 's" where
  "step mc s = (case snd mc of
     Login entropy ctx template now \<Rightarrow> snd (issue_for (fst mc) entropy ctx template now s)
   | Request r now \<Rightarrow> snd (snd (authenticate (fst mc) r now s))
   | Logout r now \<Rightarrow> snd (snd (logout (fst mc) now r s))
   | Clear ctx r \<Rightarrow> snd (snd (clear (fst mc) ctx r s))
   | Revoke user sid \<Rightarrow> snd (revoke (fst mc) user sid s)
   | RevokeUser user \<Rightarrow> snd (revoke_user (fst mc) user s)
   | RevokeLogins user except \<Rightarrow> snd (revoke_logins (fst mc) user except s)
   | Sweep now \<Rightarrow> snd (sweep (fst mc) now s))"

definition run :: "('s manager \<times> call) list \<Rightarrow> 's \<Rightarrow> 's" where
  "run calls s = fold step calls s"

text \<open>The hash a login puts in the store, when it draws a token.\<close>

definition minted :: "call \<Rightarrow> string option" where
  "minted c = (case c of
     Login entropy ctx template now \<Rightarrow> (case new_token entropy of Inr tok \<Rightarrow> Some (hash_token tok) | Inl _ \<Rightarrow> None)
   | _ \<Rightarrow> None)"

text \<open>API tokens have no expiry.\<close>

definition tokens_eternal :: "session list \<Rightarrow> bool" where
  "tokens_eternal xs = list_all (\<lambda>x. s_label x = [] \<or> s_expires_at x = 0) xs"

lemma tokens_eternal_iff: "tokens_eternal xs \<longleftrightarrow> (\<forall>x \<in> set xs. s_label x \<noteq> [] \<longrightarrow> s_expires_at x = 0)"
  by (auto simp: tokens_eternal_def list_all_iff)

context session_store begin

lemma delete_by_id_cases:
  assumes "ok s" and "ss_delete_by_id st u i s = (r, s')"
  shows "ok s' \<and> (table s' = table s \<or> table s' = delete_where (\<lambda>x. s_id x = i \<and> s_user x = u) (table s))"
  using delete_by_id_ok [OF assms(1), of u i] delete_by_id_row [OF assms(1), of u i s']
    delete_by_id_failed [OF assms(1), of u i _ s'] assms(2)
  by (cases r) auto

lemma clear_cases:
  assumes "ok s" and "m_store m = st" and "clear m ctx r s = (res, cs, s')"
  shows "ok s' \<and> (table s' = table s \<or>
    (\<exists>i. ctx = Some i \<and> table s' = delete_where (\<lambda>x. s_id x = id_session i \<and> s_user x = id_user i) (table s)))"
proof (cases ctx)
  case None
  with assms show ?thesis by (simp add: clear_def)
next
  case (Some i)
  obtain dr s1 where d: "ss_delete_by_id st (id_user i) (id_session i) s = (dr, s1)"
    by (cases "ss_delete_by_id st (id_user i) (id_session i) s")
  with assms(2,3) Some have "s' = s1" by (auto simp: clear_def split: sum.splits if_splits)
  with delete_by_id_cases [OF assms(1) d] Some show ?thesis by auto
qed

lemma clear_identity_irrelevant [simp]: "clear m ctx (r\<lparr>rq_identity := z\<rparr>) s = clear m ctx r s"
  unfolding clear_def clear_cookie_identity by presburger

lemma logout_cases:
  assumes "ok s" and "m_store m = st" and "logout m now r s = (res, cs, s')"
  obtains a ca s1 where "authenticate m r now s = (a, ca, s1)" and "ok s1"
    and "s' = s1 \<or> (\<exists>ctx cl. clear m ctx r s1 = (res, cl, s') \<and> ctx \<noteq> None \<and> (ctx = rq_identity r \<or> (\<exists>i. a = Inr i \<and> ctx = Some i)))"
proof -
  obtain a ca s1 where au: "authenticate m r now s = (a, ca, s1)" by (cases "authenticate m r now s") auto
  have ok1: "ok s1" using authenticate_hashes [OF assms(1,2) au] by simp
  from assms(3) au have "s' = s1 \<or> (\<exists>ctx cl. clear m ctx r s1 = (res, cl, s') \<and> ctx \<noteq> None \<and>
      (ctx = rq_identity r \<or> (\<exists>i. a = Inr i \<and> ctx = Some i)))"
    unfolding logout_def optional_def handle_logout_def
    by (auto split: sum.splits prod.splits if_splits option.splits)
  with au ok1 show thesis by (rule that)
qed

text \<open>Every call but a login only takes rows away.\<close>

lemma shrinks:
  assumes "ok s" and "m_store m = st"
  shows "ok (snd (snd (authenticate m r now s))) \<and>
      hashes (table (snd (snd (authenticate m r now s)))) \<subseteq> hashes (table s)"
    and "ok (snd (snd (clear m ctx r s))) \<and> hashes (table (snd (snd (clear m ctx r s)))) \<subseteq> hashes (table s)"
    and "ok (snd (revoke m u i s)) \<and> hashes (table (snd (revoke m u i s))) \<subseteq> hashes (table s)"
    and "ok (snd (revoke_user m u s)) \<and> hashes (table (snd (revoke_user m u s))) \<subseteq> hashes (table s)"
    and "ok (snd (revoke_logins m u i s)) \<and> hashes (table (snd (revoke_logins m u i s))) \<subseteq> hashes (table s)"
    and "ok (snd (sweep m now s)) \<and> hashes (table (snd (sweep m now s))) \<subseteq> hashes (table s)"
proof -
  have del: "table s' = table s \<or> table s' = delete_where p (table s) \<Longrightarrow> hashes (table s') \<subseteq> hashes (table s)"
    for s' p using hashes_delete [of p "table s"] by auto
  show "ok (snd (snd (authenticate m r now s))) \<and>
      hashes (table (snd (snd (authenticate m r now s)))) \<subseteq> hashes (table s)"
    by (cases "authenticate m r now s") (simp add: authenticate_hashes [OF assms])
  show "ok (snd (snd (clear m ctx r s))) \<and> hashes (table (snd (snd (clear m ctx r s)))) \<subseteq> hashes (table s)"
  proof (cases "clear m ctx r s")
    case (fields res cs s')
    from clear_cases [OF assms fields] del [of s'] fields show ?thesis by auto
  qed
  show "ok (snd (revoke m u i s)) \<and> hashes (table (snd (revoke m u i s))) \<subseteq> hashes (table s)"
  proof (cases "revoke m u i s")
    case (Pair res s')
    then have "ss_delete_by_id st u i s = (res, s')" by (simp add: revoke_def assms(2))
    from delete_by_id_cases [OF assms(1) this] del [of s'] Pair show ?thesis by auto
  qed
  show "ok (snd (revoke_user m u s)) \<and> hashes (table (snd (revoke_user m u s))) \<subseteq> hashes (table s)"
  proof (cases "revoke_user m u s")
    case (Pair res s')
    then have d: "ss_delete_by_user st u s = (res, s')" by (simp add: revoke_user_def assms(2))
    with delete_by_user_ok [OF assms(1), of u] delete_by_user_row [OF assms(1), of u _ s']
      delete_by_user_failed [OF assms(1), of u _ s'] del [of s'] Pair
    show ?thesis by (cases res) auto
  qed
  show "ok (snd (revoke_logins m u i s)) \<and> hashes (table (snd (revoke_logins m u i s))) \<subseteq> hashes (table s)"
  proof (cases "revoke_logins m u i s")
    case (Pair res s')
    then have d: "ss_delete_logins st u i s = (res, s')" by (simp add: revoke_logins_def assms(2))
    with delete_logins_ok [OF assms(1), of u i] delete_logins_row [OF assms(1), of u i _ s']
      delete_logins_failed [OF assms(1), of u i _ s'] del [of s'] Pair
    show ?thesis by (cases res) auto
  qed
  show "ok (snd (sweep m now s)) \<and> hashes (table (snd (sweep m now s))) \<subseteq> hashes (table s)"
  proof (cases "sweep m now s")
    case (Pair res s')
    then have d: "ss_delete_expired st now s = (res, s')" by (simp add: sweep_def assms(2))
    with delete_expired_ok [OF assms(1), of now] delete_expired_row [OF assms(1), of now _ s']
      delete_expired_failed [OF assms(1), of now _ s'] del [of s'] Pair
    show ?thesis by (cases res) auto
  qed
qed

lemma logout_shrinks:
  assumes "ok s" and "m_store m = st"
  shows "ok (snd (snd (logout m now r s))) \<and> hashes (table (snd (snd (logout m now r s)))) \<subseteq> hashes (table s)"
proof -
  obtain res cs s' where l: "logout m now r s = (res, cs, s')" by (cases "logout m now r s") auto
  from assms l show ?thesis
  proof (rule logout_cases)
    fix a ca s1
    assume a: "authenticate m r now s = (a, ca, s1)" and ok1: "ok s1"
      and s': "s' = s1 \<or> (\<exists>ctx cl. clear m ctx r s1 = (res, cl, s') \<and> ctx \<noteq> None \<and>
        (ctx = rq_identity r \<or> (\<exists>i. a = Inr i \<and> ctx = Some i)))"
    have h1: "hashes (table s1) \<subseteq> hashes (table s)" using shrinks(1) [OF assms, of r now] a by simp
    from s' have "ok s' \<and> hashes (table s') \<subseteq> hashes (table s1)"
      using ok1 shrinks(2) [OF ok1 assms(2), of _ r] by (metis order_refl snd_conv)
    with h1 l show ?thesis by (metis order_trans snd_conv)
  qed
qed

lemma step_hashes:
  assumes "ok s" and "m_store (fst mc) = st"
  shows "ok (step mc s) \<and> hashes (table (step mc s)) \<subseteq> hashes (table s) \<union> set_option (minted (snd mc))"
proof (cases "snd mc")
  case (Login entropy ctx template now)
  obtain r s' where i: "issue_for (fst mc) entropy ctx template now s = (r, s')"
    by (cases "issue_for (fst mc) entropy ctx template now s")
  from issue_for_state [OF assms i] i Login show ?thesis
    by (auto simp: step_def minted_def hashes_def)
qed (use shrinks [OF assms] logout_shrinks [OF assms] in \<open>simp add: step_def le_supI1\<close>)+

lemma run_absent:
  assumes "ok s" and "\<forall>mc \<in> set calls. m_store (fst mc) = st \<and> minted (snd mc) \<noteq> Some h"
    and "h \<notin> hashes (table s)"
  shows "ok (run calls s) \<and> h \<notin> hashes (table (run calls s))"
  using assms
proof (induction calls arbitrary: s)
  case Nil
  then show ?case by (simp add: run_def)
next
  case (Cons mc calls)
  from step_hashes [of s mc] Cons.prems have "ok (step mc s)" "h \<notin> hashes (table (step mc s))"
    by auto
  with Cons.IH [of "step mc s"] Cons.prems(2) show ?case by (simp add: run_def)
qed

end

section \<open>Which calls leave an API token alone\<close>

text \<open>
  What may end a session \<open>x\<close> whose row has a label: its owner revoking it, everything of the
  owner revoked, a logout with its own token, and its token presented in a cookie (which the
  idle window applies to).
\<close>

definition presents :: "'s manager \<Rightarrow> request \<Rightarrow> session \<Rightarrow> bool" where
  "presents m r x = (hash_token (fst (credential m r)) = s_token_hash x)"

definition spares :: "session \<Rightarrow> 's manager \<times> call \<Rightarrow> bool" where
  "spares x mc = (case snd mc of
     Request r now \<Rightarrow> \<not> (presents (fst mc) r x \<and> snd (credential (fst mc) r))
   | Logout r now \<Rightarrow> rq_identity r = None \<and> m_claims (fst mc) = None \<and> m_jwt (fst mc) = None \<and>
       \<not> presents (fst mc) r x
   | Clear ctx r \<Rightarrow> (case ctx of None \<Rightarrow> True | Some i \<Rightarrow> id_session i \<noteq> s_id x \<or> id_user i \<noteq> s_user x)
   | Revoke user sid \<Rightarrow> sid \<noteq> s_id x \<or> user \<noteq> s_user x
   | RevokeUser user \<Rightarrow> user \<noteq> s_user x
   | _ \<Rightarrow> True)"

definition holds :: "session \<Rightarrow> session list \<Rightarrow> bool" where
  "holds x xs = list_ex (\<lambda>y. untimed y = untimed x) xs"

lemma holds_iff: "holds x xs \<longleftrightarrow> untimed x \<in> untimed ` set xs"
  by (auto simp: holds_def list_ex_iff image_iff) metis

lemma holds_untimed: "map untimed xs = map untimed ys \<Longrightarrow> holds x xs = holds x ys"
  unfolding holds_iff by (metis list.set_map)

lemma untimed_eqD:
  "untimed y = untimed x \<Longrightarrow> s_id y = s_id x \<and> s_token_hash y = s_token_hash x \<and> s_user y = s_user x \<and>
    s_label y = s_label x \<and> s_expires_at y = s_expires_at x"
  by (metis untimed_fields(1-5))

lemma holds_delete:
  assumes "holds x xs" and "\<And>y. untimed y = untimed x \<Longrightarrow> \<not> p y"
  shows "holds x (delete_where p xs)"
  using assms by (auto simp: holds_def list_ex_iff set_delete_where)

lemma api_token_alive:
  "s_label x \<noteq> [] \<Longrightarrow> s_expires_at x = 0 \<Longrightarrow> untimed y = untimed x \<Longrightarrow> alive m False now y"
  by (auto simp: alive_def session_expired_def idled_out_def dest: untimed_eqD)

context session_store begin

lemma authenticate_spares:
  assumes "ok s" and "m_store m = st" and "holds x (table s)"
    and "s_label x \<noteq> []" and "s_expires_at x = 0" and "\<not> (presents m r x \<and> snd (credential m r))"
    and a: "authenticate m r now s = (res, cs, s')"
  shows "holds x (table s')"
  using authenticate_state [OF assms(1,2) a]
proof (elim conjE disjE exE)
  assume "map untimed (table s') = map untimed (table s)"
  with assms(3) show ?thesis using holds_untimed by blast
next
  fix token fc y
  assume c: "credential m r = (token, fc)" and y: "s_token_hash y = hash_token token" "y \<in> set (table s)"
    "\<not> alive m fc now y" and t: "table s' = delete_where (\<lambda>z. s_token_hash z = hash_token token) (table s)"
  have "hash_token token \<noteq> s_token_hash x"
  proof
    assume h: "hash_token token = s_token_hash x"
    with assms(6) c have fc: "\<not> fc" by (simp add: presents_def)
    from assms(3) obtain z where z: "z \<in> set (table s)" "untimed z = untimed x"
      by (auto simp: holds_def list_ex_iff)
    have "z = y"
      using keys [OF assms(1)] z y h untimed_eqD [OF z(2)] by (auto simp: distinct_map inj_on_def)
    with y(3) fc api_token_alive [OF assms(4,5) z(2), of m now] show False by simp
  qed
  with assms(3) show ?thesis unfolding t by (intro holds_delete) (auto dest: untimed_eqD)
qed

lemma step_spares:
  assumes "ok s" and "m_store (fst mc) = st" and "holds x (table s)"
    and "s_label x \<noteq> []" and "s_expires_at x = 0" and "spares x mc"
  shows "holds x (table (step mc s))"
proof (cases "snd mc")
  case (Login entropy ctx template now)
  obtain r s' where i: "issue_for (fst mc) entropy ctx template now s = (r, s')"
    by (cases "issue_for (fst mc) entropy ctx template now s")
  from issue_for_state [OF assms(1,2) i] i Login assms(3) show ?thesis
    by (auto simp: step_def holds_def)
next
  case (Request r now)
  obtain res cs s' where a: "authenticate (fst mc) r now s = (res, cs, s')"
    by (cases "authenticate (fst mc) r now s")
  from authenticate_spares [OF assms(1-5) _ a] assms(6) a Request show ?thesis
    by (simp add: step_def spares_def)
next
  case (Clear ctx r)
  obtain res cs s' where c: "clear (fst mc) ctx r s = (res, cs, s')" by (cases "clear (fst mc) ctx r s")
  from clear_cases [OF assms(1,2) c] c Clear assms(3,6) show ?thesis
    by (auto simp: step_def spares_def intro!: holds_delete dest!: untimed_eqD)
next
  case (Revoke user sid)
  obtain r s' where d: "ss_delete_by_id st user sid s = (r, s')" by (cases "ss_delete_by_id st user sid s")
  from delete_by_id_cases [OF assms(1) d] d Revoke assms(2,3,6) show ?thesis
    by (auto simp: step_def spares_def revoke_def intro!: holds_delete dest!: untimed_eqD)
next
  case (RevokeUser user)
  obtain r s' where d: "ss_delete_by_user st user s = (r, s')" by (cases "ss_delete_by_user st user s")
  with delete_by_user_row [OF assms(1), of user _ s'] delete_by_user_failed [OF assms(1), of user _ s']
    RevokeUser assms(2,3,6)
  show ?thesis
    by (cases r) (auto simp: step_def spares_def revoke_user_def intro!: holds_delete dest!: untimed_eqD)
next
  case (RevokeLogins user except)
  obtain r s' where d: "ss_delete_logins st user except s = (r, s')" by (cases "ss_delete_logins st user except s")
  with delete_logins_row [OF assms(1), of user except _ s'] delete_logins_failed [OF assms(1), of user except _ s']
    RevokeLogins assms(2,3,4)
  show ?thesis
    by (cases r) (auto simp: step_def revoke_logins_def is_login_of_def intro!: holds_delete dest!: untimed_eqD)
next
  case (Sweep now)
  obtain r s' where d: "ss_delete_expired st now s = (r, s')" by (cases "ss_delete_expired st now s")
  with delete_expired_row [OF assms(1), of now _ s'] delete_expired_failed [OF assms(1), of now _ s']
    Sweep assms(2,3,5)
  show ?thesis
    by (cases r) (auto simp: step_def sweep_def swept_def intro!: holds_delete dest!: untimed_eqD)
next
  case (Logout r now)
  obtain res cs s' where l: "logout (fst mc) now r s = (res, cs, s')" by (cases "logout (fst mc) now r s")
  from assms(6) Logout have sp: "rq_identity r = None" "m_claims (fst mc) = None" "m_jwt (fst mc) = None"
    "\<not> presents (fst mc) r x" by (simp_all add: spares_def)
  from assms(1,2) l have "holds x (table s')"
  proof (rule logout_cases)
    fix a ca s1
    assume a: "authenticate (fst mc) r now s = (a, ca, s1)" and ok1: "ok s1"
      and s': "s' = s1 \<or> (\<exists>ctx cl. clear (fst mc) ctx r s1 = (res, cl, s') \<and> ctx \<noteq> None \<and>
        (ctx = rq_identity r \<or> (\<exists>i. a = Inr i \<and> ctx = Some i)))"
    have h1: "holds x (table s1)"
      using authenticate_spares [OF assms(1-5) _ a] sp(4) by simp
    from s' show ?thesis
    proof (elim disjE exE conjE)
      fix ctx cl i assume c: "clear (fst mc) ctx r s1 = (res, cl, s')" "a = Inr i" "ctx = Some i"
      obtain token fc where cr: "credential (fst mc) r = (token, fc)" by (cases "credential (fst mc) r")
      have "\<not> jwt_applies (fst mc) fc token" using sp(3) by (simp add: jwt_applies_def)
      from authenticate_Inr [OF assms(1,2) a [unfolded c(2)] cr this]
      obtain y where y: "y \<in> set (table s)" "s_token_hash y = hash_token token" "i = identity_of (fst mc) y"
        by auto
      from assms(3) obtain z where z: "z \<in> set (table s)" "untimed z = untimed x"
        by (auto simp: holds_def list_ex_iff)
      have "s_token_hash z \<noteq> s_token_hash y"
        using sp(4) cr y(2) untimed_eqD [OF z(2)] by (simp add: presents_def)
      then have "s_id z \<noteq> s_id y"
        using keys [OF assms(1)] z(1) y(1) by (auto simp: distinct_map inj_on_def)
      moreover have "id_session i = s_id y" using y(3) sp(2) by (simp add: identity_of_def)
      ultimately have "id_session i \<noteq> s_id x" using untimed_eqD [OF z(2)] by simp
      with clear_cases [OF ok1 assms(2) c(1)] h1 c(3) show ?thesis
        by (auto intro!: holds_delete dest!: untimed_eqD)
    qed (use h1 sp(1) in auto)
  qed
  with l Logout show ?thesis by (simp add: step_def)
qed

lemma run_spares:
  assumes "ok s" and "\<forall>mc \<in> set calls. m_store (fst mc) = st \<and> spares x mc"
    and "s_label x \<noteq> []" and "s_expires_at x = 0" and "holds x (table s)"
  shows "ok (run calls s) \<and> holds x (table (run calls s))"
  using assms
proof (induction calls arbitrary: s)
  case Nil
  then show ?case by (simp add: run_def)
next
  case (Cons mc calls)
  have "ok (step mc s)" "holds x (table (step mc s))"
    using step_hashes [of s mc] step_spares [of s mc x] Cons.prems by simp_all
  with Cons.IH [of "step mc s"] Cons.prems show ?case by (simp add: run_def)
qed

end

section \<open>Ending a session\<close>

text \<open>A claims source fills in the claims and leaves the account and the session alone.\<close>

definition keeps_identity :: "'s manager \<Rightarrow> bool" where
  "keeps_identity m = (case m_claims m of None \<Rightarrow> True
   | Some attach \<Rightarrow> (\<forall>i. id_user (attach i) = id_user i \<and> id_session (attach i) = id_session i))"

lemma identity_of_keeps:
  "keeps_identity m \<Longrightarrow> id_user (identity_of m x) = s_user x \<and> id_session (identity_of m x) = s_id x"
  by (auto simp: keeps_identity_def identity_of_def Let_def zero_identity_def split: option.splits)

context session_store begin

lemma delete_by_id_gone:
  assumes "ok s" and "ss_delete_by_id st u i s = (r, s')" and "r = Inr () \<or> (\<exists>e. r = Inl e \<and> is_not_found e)"
  shows "ok s' \<and> set (table s') \<subseteq> set (table s) \<and> (\<forall>y \<in> set (table s'). \<not> (s_id y = i \<and> s_user y = u))"
proof (cases r)
  case (Inl e)
  with assms have "is_err e ErrNotFound" by (simp add: is_not_found_def)
  with delete_by_id_failed [OF assms(1) assms(2) [unfolded Inl]] delete_by_id_ok [OF assms(1), of u i] assms(2)
  show ?thesis by simp
next
  case (Inr x)
  with delete_by_id_row [OF assms(1), of u i s'] delete_by_id_ok [OF assms(1), of u i] assms(2)
  show ?thesis by (simp add: set_delete_where)
qed

lemma logout_ends:
  assumes "ok s" and "m_store m = st" and "keeps_identity m"
    and "credential m r = (tok, fc)" and "\<not> jwt_applies m fc tok"
    and a: "authenticate m r now s = (Inr i, ca, s1)" and l: "logout m now r s = (Inr (), cs, s')"
  shows "ok s' \<and> cs = clear_cookie m r session_cookie_name \<and> hash_token tok \<notin> hashes (table s')"
proof -
  from authenticate_Inr [OF assms(1,2) a assms(4,5)] obtain x where ca: "ca = []"
    and x: "x \<in> set (table s)" "s_token_hash x = hash_token tok" "i = identity_of m x" by auto
  have ok1: "ok s1" using authenticate_hashes [OF assms(1,2) a] by simp
  obtain dr s2 where d: "ss_delete_by_id st (s_user x) (s_id x) s1 = (dr, s2)"
    by (cases "ss_delete_by_id st (s_user x) (s_id x) s1")
  have cl: "clear m (Some i) (r\<lparr>rq_identity := Some i\<rparr>) s1 = (Inr (), cs, s')"
    using l a ca by (auto simp: logout_def optional_def handle_logout_def split: prod.splits if_splits)
  then have "s' = s2" "cs = clear_cookie m r session_cookie_name"
    and gone: "dr = Inr () \<or> (\<exists>e. dr = Inl e \<and> is_not_found e)"
    using d x(3) identity_of_keeps [OF assms(3), of x]
    by (auto simp: clear_def assms(2) split: sum.splits if_splits)
  note g = delete_by_id_gone [OF ok1 d gone]
  have "hash_token tok \<notin> hashes (table s2)"
  proof
    assume "hash_token tok \<in> hashes (table s2)"
    then obtain y where y: "y \<in> set (table s2)" "s_token_hash y = hash_token tok" by (auto simp: hashes_iff)
    with g have y1: "y \<in> set (table s1)" by auto
    from authenticate_state [OF assms(1,2) a] have "map untimed (table s1) = map untimed (table s)"
      using y1 y(2) assms(4) by (auto simp: set_delete_where)
    from untimed_row [OF this y1] obtain z where z: "z \<in> set (table s)" "untimed z = untimed y" by auto
    then have "z = x"
      using keys [OF assms(1)] x y(2) untimed_eqD [OF z(2)] by (auto simp: distinct_map inj_on_def)
    with g y(1) untimed_eqD [OF z(2)] show False by auto
  qed
  with g \<open>s' = s2\<close> \<open>cs = _\<close> show ?thesis by simp
qed

lemma token_accepted:
  assumes "ok s" and "m_store m = st" and "holds x (table s)" and "s_label x \<noteq> []" and "s_expires_at x = 0"
    and "credential m r = (tok, False)" and "tok \<noteq> []" and "hash_token tok = s_token_hash x" and "\<not> jwt_applies m False tok"
  shows "fst (authenticate m r now s) = Inr (identity_of m x) \<or>
    (\<exists>e. \<not> is_not_found e \<and> fst (authenticate m r now s) = Inl (internal ''failed to read the session'' e))"
proof -
  from assms(3) obtain z where z: "z \<in> set (table s)" "untimed z = untimed x" by (auto simp: holds_def list_ex_iff)
  note zx = untimed_eqD [OF z(2)]
  obtain fr s1 where f: "ss_find st (hash_token tok) s = (fr, s1)" by (cases "ss_find st (hash_token tok) s")
  show ?thesis
  proof (cases fr)
    case (Inr y)
    with f z(1) zx find_unique [OF assms(1) z(1)] assms(8) have "y = z" by simp
    with f Inr assms(2,6,7,9) api_token_alive [OF assms(4,5) z(2), of m now] zx show ?thesis
      by (auto simp: authenticate_def Let_def alive_def identity_of_def)
  next
    case (Inl e)
    have "s_token_hash z = hash_token tok" using zx assms(8) by simp
    then have "\<not> is_not_found e"
      using find_absent [OF assms(1)] f Inl z(1) by (force simp: is_not_found_def)
    with f Inl assms(2,6,7,9) show ?thesis by (auto simp: authenticate_def Let_def)
  qed
qed

end

section \<open>Properties of the manager over \<open>porte/pg\<close>\<close>

text \<open>An account with one session, and a request that carries its token.\<close>

definition web_config :: config where
  "web_config = resolved (zero_config\<lparr>redirect_url := ''https://app''\<rparr>)"

definition web_manager :: "db manager" where
  "web_manager = \<lparr>m_cfg = web_config, m_store = pg_sessions, m_claims = None, m_jwt = None\<rparr>"

definition web_entropy :: "string option" where
  "web_entropy = Some ''0123456789abcdef0123456789abcdef''"

definition web_token :: string where
  "web_token = b64_encode ''0123456789abcdef0123456789abcdef''"

definition web_db :: db where
  "web_db = empty_db\<lparr>users := [\<lparr>u_id = 1, u_email = ''a@x'', u_email_verified = True, u_name = [],
     u_avatar_url = [], u_avatar_source = [], u_locale = [], u_updated_at = 0\<rparr>], user_seq := 1\<rparr>"

definition web_request :: "string \<Rightarrow> (string \<times> string) list \<Rightarrow> request" where
  "web_request verb cookies = \<lparr>rq_method = verb, rq_cookies = cookies, rq_header = (\<lambda>_. []), rq_tls = True,
     rq_identity = None\<rparr>"

definition signed_in :: db where
  "signed_in = snd (issue web_manager web_entropy None 1 [] 1000 web_db)"

lemma web_manager_store [simp]: "m_store web_manager = pg_sessions" "m_jwt web_manager = None"
  "m_claims web_manager = None"
  by (simp_all add: web_manager_def)

lemma web_db_ok [simp]: "db_ok web_db"
  by (simp add: db_ok_defs web_db_def empty_db_def)

lemma web_token_new: "new_token web_entropy = Inr web_token"
  by (simp add: new_token_def web_entropy_def web_token_def token_bytes_def)

lemma web_secure [simp]: "secure web_manager (web_request verb cs)"
  by (simp add: secure_def is_secure_def web_request_def)

lemma web_credential:
  "credential web_manager (web_request verb [(''__Host-session'', web_token)]) = (web_token, True)"
  by (simp add: credential_def read_cookie_def host_prefix_def request_cookie_def session_cookie_name_def)
    (simp add: web_request_def web_token_def web_manager_def web_config_def resolved_def zero_config_def Let_def)

lemma web_jwt [simp]: "\<not> jwt_applies web_manager fc token"
  by (simp add: jwt_applies_def)

lemma pg_create_row:
  assumes "faults d = []" and "user_exists (s_user s) d" and "s_token_hash s \<notin> r_token_hash ` set (sessions d)"
    and "voucher_holds s d"
  shows "session_create s d = (Inr (s\<lparr>s_id := session_seq d + 1\<rparr>), d\<lparr>session_seq := session_seq d + 1,
    sessions := sessions d @ [(session_row_of s)\<lparr>r_id := session_seq d + 1\<rparr>]\<rparr>)"
proof -
  have "stmt (insert_session (session_row_of s)) d = (Inr (session_seq d + 1), d\<lparr>session_seq := session_seq d + 1,
    sessions := sessions d @ [(session_row_of s)\<lparr>r_id := session_seq d + 1\<rparr>]\<rparr>)"
    using assms by (auto simp: insert_session_def Let_def session_row_of_def has_row_iff image_iff)
  then have "while_bound s (stmt (insert_session (session_row_of s))) d = (Inr (session_seq d + 1),
      d\<lparr>session_seq := session_seq d + 1,
        sessions := sessions d @ [(session_row_of s)\<lparr>r_id := session_seq d + 1\<rparr>]\<rparr>)"
    by (rule no_faults_while_bound [OF assms(1,4)]) (simp add: assms(1))
  then show ?thesis by (simp add: session_create_def)
qed

definition web_session :: session where
  "web_session = (to_issue web_manager None (zero_session\<lparr>s_user := 1\<rparr>) web_token 1000)\<lparr>s_id := 1\<rparr>"

lemma issue_web:
  "issue web_manager web_entropy None 1 [] 1000 web_db = (Inr (web_token, web_session), signed_in)"
  "signed_in = web_db\<lparr>session_seq := 1, sessions := [session_row_of web_session\<lparr>r_id := 1\<rparr>]\<rparr>"
proof -
  let ?t = "to_issue web_manager None (zero_session\<lparr>s_user := 1\<rparr>) web_token 1000"
  let ?d = "web_db\<lparr>session_seq := 1, sessions := [session_row_of web_session\<lparr>r_id := 1\<rparr>]\<rparr>"
  have z: "(zero_session\<lparr>s_user := 1, s_label := []\<rparr>) = zero_session\<lparr>s_user := 1\<rparr>"
    by (simp add: zero_session_def)
  have "voucher_holds ?t web_db"
    by (simp add: to_issue_def bind_to_caller_def voucher_holds_def zero_session_def)
  moreover have "user_exists (s_user ?t) web_db" "faults web_db = []" "session_seq web_db = 0" "sessions web_db = []"
    by (simp_all add: user_exists_def has_row_def web_db_def empty_db_def)
  moreover have "session_row_of web_session = session_row_of ?t" by (simp add: web_session_def session_row_of_def)
  ultimately have "session_create ?t web_db = (Inr (?t\<lparr>s_id := 1\<rparr>), ?d)"
    using pg_create_row [of web_db ?t] by simp
  moreover have "ss_create (m_store web_manager) = session_create" by (simp add: pg_sessions_def)
  ultimately have "issue web_manager web_entropy None 1 [] 1000 web_db = (Inr (web_token, web_session), ?d)"
    unfolding issue_def issue_for_unfold web_token_new z web_session_def by simp
  then show "issue web_manager web_entropy None 1 [] 1000 web_db = (Inr (web_token, web_session), signed_in)"
    "signed_in = ?d" by (simp_all add: signed_in_def)
qed

lemma signed_in_fields [simp]: "faults signed_in = []"
  "sessions signed_in = [session_row_of web_session\<lparr>r_id := 1\<rparr>]"
  by (simp_all add: issue_web(2)) (simp add: web_db_def empty_db_def)

lemma web_session_fields [simp]: "s_token_hash web_session = hash_token web_token" "s_user web_session = 1"
  "s_id web_session = 1" "s_label web_session = []" "s_last_used_at web_session = 1000"
  by (simp_all add: web_session_def zero_session_def)

lemma find_filter_same: "find p (filter p xs) = find p xs"
  by (induction xs) auto

lemma first_cookie_value: "first_cookie r names = (v, True) \<Longrightarrow> v \<noteq> []"
  by (induction names) (auto split: option.splits if_splits)

lemma internal_inject [simp]: "internal a e = internal b e' \<longleftrightarrow> a = b \<and> e = e'"
  by (simp add: internal_def)

lemma session_find_quiet:
  "faults d = [] \<Longrightarrow> session_find h d = (Inl e, d') \<Longrightarrow> e = Sentinel ErrNotFound"
  by (auto simp: session_find_def split: option.splits)

lemma read_failure:
  assumes "m_store m = pg_sessions" and "fst (authenticate m r now d) = Inl (internal ''failed to read the session'' e)"
    and "credential m r = (token, fc)" and "\<not> jwt_applies m fc token"
  shows "\<exists>d1. session_find (hash_token token) d = (Inl e, d1)"
  using assms
  by (auto simp: authenticate_def Let_def pg_sessions_def missing_csrf_def split: prod.splits sum.splits if_splits)

lemma issue_web_for:
  "issue_for web_manager web_entropy None (zero_session\<lparr>s_user := 1, s_label := []\<rparr>) 1000 web_db =
    (Inr (web_token, web_session), signed_in)"
  using issue_web(1) by (simp add: issue_def)

lemma signed_in_ok: "db_ok signed_in" "session_table signed_in = [unbound web_session]"
  using pgs.issue_for_Inr [OF web_db_ok _ issue_web_for]
  by (simp_all add: session_table_def web_db_def empty_db_def)

text \<open> C5: What \<open>Authenticate\<close> accepts. A request whose credential is not handed to the JWT
  verifier is accepted only when a stored, unexpired session carries the hash of its token;
  from a cookie, only when the session is also within the idle window and a mutating request
  has the CSRF header; and the identity is that session's user and id. \<close>

theorem authenticate_sound:
  assumes "db_ok d" and "m_store m = pg_sessions" and "credential m r = (token, from_cookie)"
    and "\<not> jwt_applies m from_cookie token" and "authenticate m r now d = (Inr i, cs, d')"
  shows "token \<noteq> [] \<and> (from_cookie \<and> mutating r \<longrightarrow> rq_header r csrf_header_name \<noteq> []) \<and>
    (\<exists>x \<in> set (session_table d). s_token_hash x = hash_token token \<and> \<not> session_expired x now \<and>
      \<not> idled_out m x from_cookie now \<and> i = identity_of m x)"
  using pgs.authenticate_Inr [OF assms(1,2,5,3,4)]
  by (auto simp: csrf_missing_def alive_def)

lemma pg_issue_accepted:
  assumes "db_ok d" and "m_store m = pg_sessions" and "faults d' = []"
    and "issue_for m entropy ctx template now d = (Inr (tok, sess), d')"
    and "credential m r = (tok, from_cookie)" and "tok \<noteq> []"
    and "from_cookie \<longrightarrow> \<not> mutating r \<or> \<not> csrf_missing r"
    and "s_label template = [] \<longrightarrow> later \<le> now + session_ttl (m_cfg m)"
    and "from_cookie \<longrightarrow> time_sub later now < idle_timeout (m_cfg m)"
  shows "fst (authenticate m r later d') = Inr (identity_of m sess)"
  using pgs.issue_authenticate [OF assms(1,2,4-9)]
proof (elim disjE exE conjE)
  fix e assume e: "\<not> is_not_found e" "fst (authenticate m r later d') = Inl (internal ''failed to read the session'' e)"
  have "new_token entropy = Inr tok" using pgs.issue_for_Inr [OF assms(1,2,4)] by simp
  then have "\<not> jwt_applies m from_cookie tok" using token_not_jwt by (simp add: jwt_applies_def)
  from read_failure [OF assms(2) e(2) assms(5) this]
  obtain d1 where "session_find (hash_token tok) d' = (Inl e, d1)" by blast
  then have "e = Sentinel ErrNotFound" by (rule session_find_quiet [OF assms(3)])
  with e(1) show ?thesis by (simp add: is_not_found_def)
qed

abbreviation web_get :: request where
  "web_get \<equiv> web_request ''GET'' [(''__Host-session'', web_token)]"

lemma web_token_not_Nil [simp]: "web_token \<noteq> []"
  by (simp add: web_token_def)

lemma web_get_safe [simp]: "\<not> mutating web_get"
  by (simp add: mutating_def web_request_def)

lemma web_ttl: "session_ttl (m_cfg web_manager) = default_session_ttl"
  "idle_timeout (m_cfg web_manager) = default_session_idle_ttl"
  by (simp_all add: web_manager_def web_config_def resolved_def zero_config_def Let_def idle_timeout_def)

lemma web_authenticated:
  "authenticate web_manager web_get 2000 signed_in =
    (Inr (identity_of web_manager web_session), [], snd (snd (authenticate web_manager web_get 2000 signed_in)))"
proof -
  have "fst (authenticate web_manager web_get 2000 signed_in) = Inr (identity_of web_manager web_session)"
    by (rule pg_issue_accepted [OF web_db_ok _ signed_in_fields(1) issue_web_for web_credential])
      (simp_all add: web_ttl porte_defaults duration_units time_sub_def max_duration_def min_duration_def)
  then obtain cs d' where a: "authenticate web_manager web_get 2000 signed_in =
      (Inr (identity_of web_manager web_session), cs, d')"
    by (metis prod.collapse)
  from pgs.authenticate_Inr [OF signed_in_ok(1) _ a web_credential] a show ?thesis by simp
qed

theorem authenticate_sound_witness:
  "\<exists>x \<in> set (session_table signed_in). s_token_hash x = hash_token web_token \<and>
     \<not> session_expired x 2000 \<and> \<not> idled_out web_manager x True 2000"
  using authenticate_sound [OF signed_in_ok(1) _ web_credential _ web_authenticated] by auto

text \<open> The round trip. A token \<open>IssueFor\<close> returned is accepted, as a bearer or from the cookie,
  by every later request until its session expires (never, for a named token) and, from the
  cookie, within the idle window, and resolves to the user it was issued to and to its row. \<close>

theorem issue_then_authenticate:
  assumes "db_ok d" and "m_store m = pg_sessions" and "m_claims m = None"
    and "issue_for m entropy ctx template now d = (Inr (tok, sess), d')" and "faults d' = []" and "tok \<noteq> []"
    and "credential m r = (tok, from_cookie)" and "from_cookie \<and> mutating r \<longrightarrow> rq_header r csrf_header_name \<noteq> []"
    and "s_label template = [] \<longrightarrow> later \<le> now + session_ttl (m_cfg m)"
    and "from_cookie \<longrightarrow> time_sub later now < idle_timeout (m_cfg m)"
  shows "fst (authenticate m r later d') =
    Inr (zero_identity\<lparr>id_user := s_user template, id_session := s_id sess\<rparr>)"
proof -
  from pgs.issue_for_Inr [OF assms(1,2,4)]
  have "sess = (to_issue m ctx template tok now)\<lparr>s_id := s_id sess\<rparr>" by simp
  then have "s_user sess = s_user template" by (metis session.select_convs(3) session.surjective session.update_convs(1) to_issue_fields(1))
  with pg_issue_accepted [OF assms(1,2,5,4,7,6), of later] assms(3,8-10) show ?thesis
    by (auto simp: identity_of_def csrf_missing_def)
qed

theorem issue_then_authenticate_witness:
  "fst (authenticate web_manager web_get 2000 signed_in) = Inr (zero_identity\<lparr>id_user := 1, id_session := 1\<rparr>)"
  using issue_then_authenticate [OF web_db_ok _ _ issue_web_for signed_in_fields(1) _ web_credential, where later = 2000]
  by (simp add: web_ttl porte_defaults duration_units time_sub_def max_duration_def min_duration_def web_session_def)


text \<open>A log out of that session, with the header.\<close>

abbreviation web_post :: request where
  "web_post \<equiv> (web_request ''POST'' [(''__Host-session'', web_token)])\<lparr>rq_header := (\<lambda>_. ''1'')\<rparr>"

lemma web_post_cookie:
  "read_cookie web_manager (web_post\<lparr>rq_identity := i\<rparr>) session_cookie_name = (web_token, True)"
  "read_cookie web_manager web_post session_cookie_name = (web_token, True)"
  by (simp_all add: read_cookie_def host_prefix_def request_cookie_def session_cookie_name_def secure_def is_secure_def)
    (simp_all add: web_request_def)

lemma web_read:
  "read_cookie web_manager (web_request verb [(''__Host-session'', web_token)]) session_cookie_name = (web_token, True)"
  by (simp add: read_cookie_def host_prefix_def request_cookie_def session_cookie_name_def) (simp add: web_request_def)

lemma web_request_verb: "rq_method (web_request verb cs) = verb" "rq_header (web_request verb cs) h = []"
  by (simp_all add: web_request_def)

lemma web_post_identity [simp]: "rq_identity web_post = None" "rq_header web_post h = ''1''"
  by (simp_all add: web_request_def)

lemma unbound_alive: "session_expired (unbound x) now = session_expired x now"
  by (simp add: session_expired_def)

lemma unbound_idle: "idled_out m (unbound x) fc now = idled_out m x fc now"
  by (simp add: idled_out_def)

lemma pg_find: "ss_find pg_sessions = session_find"
  by (simp add: pg_sessions_def)

lemma web_fresh: "\<not> session_expired web_session 2000" "\<not> idled_out web_manager web_session fc 2000"
    "time_sub 2000 1000 < touch_interval"
  by (simp_all add: session_expired_def idled_out_def Let_def web_session_def zero_session_def web_ttl
      porte_defaults duration_units time_sub_def max_duration_def min_duration_def touch_interval_def)

lemma web_logout:
  "authenticate web_manager web_post 2000 signed_in = (Inr (identity_of web_manager web_session), [], signed_in)"
  "logout web_manager 2000 web_post signed_in =
    (Inr (), clear_cookie web_manager web_post session_cookie_name, signed_in\<lparr>sessions := []\<rparr>)"
proof -
  have c: "credential web_manager web_post = (web_token, True)" by (simp add: credential_def web_post_cookie)
  have f: "session_find (hash_token web_token) signed_in = (Inr (unbound web_session), signed_in)"
    by (simp add: session_find_def row_with_def session_row_of_def scan_session_def)
      (simp add: web_session_def to_issue_def zero_session_def unbound_def bind_to_caller_def)
  show a: "authenticate web_manager web_post 2000 signed_in = (Inr (identity_of web_manager web_session), [], signed_in)"
    using web_fresh unbound_alive [of web_session 2000] unbound_idle [of web_manager web_session True 2000]
    by (simp add: authenticate_def c f csrf_missing_def Let_def pg_find identity_of_def)
  show "logout web_manager 2000 web_post signed_in =
    (Inr (), clear_cookie web_manager web_post session_cookie_name, signed_in\<lparr>sessions := []\<rparr>)"
    by (simp add: logout_def optional_def a handle_logout_def web_post_cookie csrf_missing_def clear_def pg_sessions_def
        session_delete_by_id_def delete_sessions_def require_one_def affected_def delete_where_def identity_of_def
        zero_identity_def session_row_of_def)
qed


text \<open> The CSRF rule. A mutating request that carries the session cookie without the CSRF header is
  refused before the store is read: \<open>Authenticate\<close>, a handler behind \<open>RequireAuth\<close> (which does not
  run) and the logout route all answer 403 and leave the store and the cookies alone. \<close>

theorem csrf_refused:
  assumes "snd (read_cookie m r session_cookie_name)" and "mutating r" and "csrf_missing r"
  shows "authenticate m r now s = (Inl missing_csrf, [], s) \<and> require_auth m now handle r s = (Inl missing_csrf, [], s) \<and>
    logout m now r s = (Inl missing_csrf, [], s)"
proof -
  obtain v where rc: "read_cookie m r session_cookie_name = (v, True)"
    using assms(1) by (cases "read_cookie m r session_cookie_name") simp
  then have "v \<noteq> []" unfolding read_cookie_def by (rule first_cookie_value)
  with rc assms(2,3) have "authenticate m r now s = (Inl missing_csrf, [], s)"
    by (simp add: authenticate_def credential_def)
  with assms(1,3) show ?thesis by (simp add: require_auth_def logout_def optional_def handle_logout_def)
qed

theorem csrf_refused_witness:
  "logout web_manager 2000 (web_request ''POST'' [(''__Host-session'', web_token)]) signed_in =
    (Inl missing_csrf, [], signed_in)"
  using csrf_refused [of web_manager "web_request ''POST'' [(''__Host-session'', web_token)]" 2000 signed_in
      "\<lambda>r s. (Inr (), [], s)"] web_read
  by (simp add: mutating_def csrf_missing_def web_request_verb)

text \<open> Cookie fixation. Over https, unless the operator still accepts the legacy name, a request
  authenticates exactly as it would with every cookie but \<open>__Host-session\<close> removed: a cookie a
  sibling host set under the plain name, however many and in whatever order, changes nothing. \<close>

theorem only_host_cookie_counts:
  assumes "secure m r" and "\<not> accept_legacy_cookie (m_cfg m)"
  shows "authenticate m r now s = authenticate m
    (r\<lparr>rq_cookies := filter (\<lambda>c. fst c = host_prefix @ session_cookie_name) (rq_cookies r)\<rparr>) now s"
proof -
  let ?r = "r\<lparr>rq_cookies := filter (\<lambda>c. fst c = host_prefix @ session_cookie_name) (rq_cookies r)\<rparr>"
  have sec: "secure m ?r" "mutating ?r = mutating r" "csrf_missing ?r = csrf_missing r"
    "clear_cookie m ?r b = clear_cookie m r b" for b
    using assms(1)
    by (auto simp: secure_def is_secure_def mutating_def csrf_missing_def clear_cookie_def set_cookie_def cookie_name_def
        split: if_splits)
  have "request_cookie ?r (host_prefix @ session_cookie_name) = request_cookie r (host_prefix @ session_cookie_name)"
    by (simp add: request_cookie_def find_filter_same)
  then have "read_cookie m ?r session_cookie_name = read_cookie m r session_cookie_name"
    using assms sec(1) by (simp add: read_cookie_def split: option.split)
  then have c: "credential m ?r = credential m r"
    by (cases "read_cookie m r session_cookie_name") (simp add: credential_def split: bool.split)
  have "scope_allows m ?r = scope_allows m r" by (simp add: fun_eq_iff scope_allows_def sec(2))
  then have v: "verify_bearer_jwt m ?r = verify_bearer_jwt m r" unfolding verify_bearer_jwt_def fun_eq_iff by presburger
  show ?thesis unfolding authenticate_def c v sec(2-4) ..
qed

theorem only_host_cookie_counts_witness:
  "authenticate web_manager (web_request ''GET'' [(''session'', ''planted'')]) 2000 signed_in =
    authenticate web_manager (web_request ''GET'' []) 2000 signed_in"
proof -
  have "\<not> accept_legacy_cookie (m_cfg web_manager)"
    by (simp add: web_manager_def web_config_def resolved_def zero_config_def Let_def)
  from only_host_cookie_counts [OF web_secure this, of "''GET''" "[(''session'', ''planted'')]" 2000 signed_in]
  show ?thesis by (simp add: host_prefix_def session_cookie_name_def web_request_def)
qed

text \<open> API tokens. A named session with no expiry survives every history of calls except the ones
  that mean to end it (its owner revoking it or everything, a logout with it, or presenting it as
  a cookie): it is still listed with the same fields, and as a bearer it is accepted at any time. \<close>

theorem api_token_survives:
  assumes "db_ok d" and "x \<in> set (session_table d)" and "s_label x \<noteq> []" and "s_expires_at x = 0"
    and "\<forall>mc \<in> set calls. m_store (fst mc) = pg_sessions \<and> spares x mc"
    and "m_store m = pg_sessions" and "credential m r = (tok, False)" and "tok \<noteq> []"
    and "hash_token tok = s_token_hash x" and "\<not> jwt_applies m False tok" and "faults (run calls d) = []"
  shows "holds x (session_table (run calls d)) \<and> fst (authenticate m r now (run calls d)) = Inr (identity_of m x)"
proof -
  have "holds x (session_table d)" using assms(2) by (auto simp: holds_iff)
  from pgs.run_spares [OF assms(1,5,3,4) this]
  have ok: "db_ok (run calls d)" and h: "holds x (session_table (run calls d))" by auto
  from pgs.token_accepted [OF ok assms(6) h assms(3,4,7,8,9,10), where now = now]
  show ?thesis
  proof (elim disjE exE conjE)
    fix e assume e: "\<not> is_not_found e"
      "fst (authenticate m r now (run calls d)) = Inl (internal ''failed to read the session'' e)"
    from read_failure [OF assms(6) e(2) assms(7,10)] session_find_quiet [OF assms(11)] e(1)
    show ?thesis by (metis is_err.simps(1) is_not_found_def)
  qed (use h in simp)
qed

definition token_row :: session_row where
  "token_row = \<lparr>r_id = 5, r_token_hash = hash_token ''t0ken'', r_user = 1, r_label = ''ci'', r_created_at = 7,
     r_last_used_at = 7, r_expires_at = None\<rparr>"

definition token_db :: db where
  "token_db = web_db\<lparr>sessions := [token_row], session_seq := 5\<rparr>"

definition token_request :: request where
  "token_request = \<lparr>rq_method = ''POST'', rq_cookies = [],
     rq_header = (\<lambda>h. if h = ''Authorization'' then ''bearer t0ken'' else []), rq_tls = True, rq_identity = None\<rparr>"

lemma token_db_run:
  "run [(web_manager, RevokeLogins 1 0), (web_manager, Sweep 90), (web_manager, Revoke 1 4)] token_db = token_db"
  by (simp add: run_def step_def revoke_logins_def sweep_def revoke_def pg_sessions_def session_delete_logins_def
      session_delete_expired_def session_delete_by_id_def delete_sessions_def wrapping_def require_one_def token_db_def
      web_db_def empty_db_def token_row_def affected_def delete_where_def)

theorem api_token_survives_witness:
  "fst (authenticate web_manager token_request 99999
     (run [(web_manager, RevokeLogins 1 0), (web_manager, Sweep 90), (web_manager, Revoke 1 4)] token_db)) =
   Inr (zero_identity\<lparr>id_user := 1, id_session := 5\<rparr>)"
proof -
  have ok: "db_ok token_db" by (simp add: db_ok_defs token_db_def web_db_def empty_db_def token_row_def)
  have x: "scan_session token_row \<in> set (session_table token_db)"
    by (simp add: session_table_def token_db_def)
  have "equal_fold ''bearer '' ''bearer ''" "trim_space ''t0ken'' = ''t0ken''"
    by (simp_all add: equal_fold_def trim_space_def is_space_def)
  then have c: "credential web_manager token_request = (''t0ken'', False)"
    by (simp add: credential_def read_cookie_def secure_def is_secure_def token_request_def request_cookie_def)
  have f: "faults token_db = []" by (simp add: token_db_def web_db_def empty_db_def)
  have row: "s_label (scan_session token_row) \<noteq> []" "s_expires_at (scan_session token_row) = 0"
    "hash_token ''t0ken'' = s_token_hash (scan_session token_row)"
    "identity_of web_manager (scan_session token_row) = zero_identity\<lparr>id_user := 1, id_session := 5\<rparr>"
    by (simp_all add: scan_session_def token_row_def zero_session_def identity_of_def from_null_time_def)
  have sp: "\<forall>mc \<in> set [(web_manager, RevokeLogins 1 0), (web_manager, Sweep 90), (web_manager, Revoke 1 4)].
      m_store (fst mc) = pg_sessions \<and> spares (scan_session token_row) mc"
    by (simp add: spares_def scan_session_def token_row_def zero_session_def)
  show ?thesis
    using api_token_survives [OF ok x row(1,2) sp web_manager_store(1) c _ row(3) web_jwt, of 99999] f
    unfolding token_db_run row(4) by simp
qed

end
