(* ===== verification/Pg_Codes.thy ===== *)
theory Pg_Codes
  imports Pg_Sessions
begin

text \<open>
  The one-time credentials of \<open>porte/pg\<close>: the CLI login codes (\<open>pg.go\<close>, type
  \<open>LoginCodeStore\<close>) and the emailed sign-in links (\<open>magiclink.go\<close>). Both are spent by one
  conditional update; a code remembers that it was spent, to tell a replay from a typo, and a
  new link ends the older unspent ones of its user in the same transaction.
\<close>

section \<open>Login codes\<close>

definition scan_code :: "code_row \<Rightarrow> login_code" where
  "scan_code r = \<lparr>lc_code_hash = cr_hash r, lc_user = cr_user r, lc_expires_at = cr_expires_at r,
     lc_provider = cr_provider r, lc_subject = cr_subject r\<rparr>"

text \<open>An unbound code is inserted without the two columns, which default to the empty string.\<close>

definition code_row_of :: "login_code \<Rightarrow> code_row" where
  "code_row_of c = \<lparr>cr_hash = lc_code_hash c, cr_user = lc_user c, cr_expires_at = lc_expires_at c,
     cr_consumed_at = None, cr_provider = lc_provider c,
     cr_subject = (if lc_provider c = [] then [] else lc_subject c)\<rparr>"

definition code_binding :: "login_code \<Rightarrow> session" where
  "code_binding c = zero_session\<lparr>s_user := lc_user c, s_provider := lc_provider c,
     s_subject := lc_subject c\<rparr>"

definition code_create :: "login_code \<Rightarrow> db \<Rightarrow> unit result \<times> db" where
  "code_create c d =
     (case while_bound (code_binding c) (stmt (insert_code (code_row_of c))) d of
        (Inl e, d1) \<Rightarrow> (Inl (if is_err e ErrNotFound then e else Wrap ''porte/pg: create login code'' e), d1)
      | (Inr u, d1) \<Rightarrow> (Inr u, d1))"

definition unspent_code :: "string \<Rightarrow> code_row \<Rightarrow> bool" where
  "unspent_code h c = (cr_hash c = h \<and> cr_consumed_at c = None)"

definition why_it_failed :: "string \<Rightarrow> db \<Rightarrow> error \<times> db" where
  "why_it_failed h d = (case query (\<lambda>d. row_with cr_hash h (codes d)) d of
     (Inl e, d1) \<Rightarrow> (Wrap ''porte/pg: consume login code'' e, d1)
   | (Inr None, d1) \<Rightarrow> (Sentinel ErrNotFound, d1)
   | (Inr (Some c), d1) \<Rightarrow>
       (if cr_consumed_at c \<noteq> None then Sentinel ErrCodeConsumed else Sentinel ErrNotFound, d1))"

text \<open>\<open>now\<close> is the \<open>time.Now()\<close> the call stamps the row with.\<close>

definition code_consume :: "time \<Rightarrow> string \<Rightarrow> db \<Rightarrow> login_code result \<times> db" where
  "code_consume now h d =
     (case stmt (\<lambda>d. (Inr (find (unspent_code h) (codes d)),
              d\<lparr>codes := update_where (unspent_code h) (\<lambda>c. c\<lparr>cr_consumed_at := Some now\<rparr>) (codes d)\<rparr>)) d of
        (Inl e, d1) \<Rightarrow> (Inl (Wrap ''porte/pg: consume login code'' e), d1)
      | (Inr None, d1) \<Rightarrow> (case why_it_failed h d1 of (e, d2) \<Rightarrow> (Inl e, d2))
      | (Inr (Some c), d1) \<Rightarrow> (Inr (scan_code c), d1))"

definition code_delete_expired :: "time \<Rightarrow> db \<Rightarrow> int result \<times> db" where
  "code_delete_expired now d = wrapping ''porte/pg: delete expired login codes'' (stmt (\<lambda>d.
     (Inr (affected (\<lambda>c. cr_expires_at c < now) (codes d)),
      d\<lparr>codes := delete_where (\<lambda>c. cr_expires_at c < now) (codes d)\<rparr>)) d)"

section \<open>Magic links\<close>

definition link_row_of :: "magic_link \<Rightarrow> link_row" where
  "link_row_of l = \<lparr>l_hash = ml_token_hash l, l_user = ml_user l, l_ip = ml_ip l,
     l_created_at = ml_created_at l, l_expires_at = ml_expires_at l, l_consumed_at = None\<rparr>"

definition link_create :: "magic_link \<Rightarrow> db \<Rightarrow> unit result \<times> db" where
  "link_create l = with_tx ''porte/pg: create magic link'' ''porte/pg: create magic link''
     (and_then (lock_user (ml_user l) True) (\<lambda>_.
      and_then (lock_advisory ''porte/magiclink:'' (ml_user l) False) (\<lambda>_.
      and_then (\<lambda>d. wrapping ''porte/pg: supersede magic links'' (stmt (\<lambda>d. (Inr (),
          d\<lparr>links := update_where (\<lambda>r. l_user r = ml_user l \<and> l_consumed_at r = None)
               (\<lambda>r. r\<lparr>l_consumed_at := Some (ml_created_at l)\<rparr>) (links d)\<rparr>)) d)) (\<lambda>_ d.
      wrapping ''porte/pg: insert magic link'' (stmt (insert_link (link_row_of l)) d)))))"

definition live_row :: "string \<Rightarrow> time \<Rightarrow> link_row \<Rightarrow> bool" where
  "live_row h now r = (l_hash r = h \<and> l_consumed_at r = None \<and> now < l_expires_at r)"

definition link_consume :: "string \<Rightarrow> time \<Rightarrow> db \<Rightarrow> int result \<times> db" where
  "link_consume h now d =
     (case stmt (\<lambda>d. (Inr (find (live_row h now) (links d)),
              d\<lparr>links := update_where (live_row h now) (\<lambda>r. r\<lparr>l_consumed_at := Some now\<rparr>) (links d)\<rparr>)) d of
        (Inl e, d1) \<Rightarrow> (Inl (Wrap ''porte/pg: consume magic link'' e), d1)
      | (Inr None, d1) \<Rightarrow> (Inl (Sentinel ErrNotFound), d1)
      | (Inr (Some r), d1) \<Rightarrow> (Inr (l_user r), d1))"

definition link_count_since :: "link_key \<Rightarrow> time \<Rightarrow> db \<Rightarrow> int result \<times> db" where
  "link_count_since k since d =
     (if k_user k \<noteq> 0 \<and> k_ip k \<noteq> [] then wrapping ''porte/pg: count magic links'' (query (\<lambda>d.
        affected (\<lambda>r. l_user r = k_user k \<and> l_ip r = k_ip k \<and> since \<le> l_created_at r) (links d)) d)
      else if k_user k \<noteq> 0 then wrapping ''porte/pg: count magic links'' (query (\<lambda>d.
        affected (\<lambda>r. l_user r = k_user k \<and> since \<le> l_created_at r) (links d)) d)
      else if k_ip k \<noteq> [] then wrapping ''porte/pg: count magic links'' (query (\<lambda>d.
        affected (\<lambda>r. l_ip r = k_ip k \<and> l_ip r \<noteq> [] \<and> since \<le> l_created_at r) (links d)) d)
      else (Inr 0, d))"

definition link_delete_expired :: "time \<Rightarrow> db \<Rightarrow> int result \<times> db" where
  "link_delete_expired cutoff d = wrapping ''porte/pg: delete expired magic links'' (stmt (\<lambda>d.
     (Inr (affected (\<lambda>r. l_expires_at r < cutoff) (links d)),
      d\<lparr>links := delete_where (\<lambda>r. l_expires_at r < cutoff) (links d)\<rparr>)) d)"

section \<open>Facts about codes\<close>

text \<open>
  The outcome of \<open>Consume\<close> on codes: it succeeds on an unspent row, marking it, and tells a
  spent one from one that is not there.
\<close>

lemma code_consume_Inr:
  assumes "code_consume now h d = (Inr c, d')"
  shows "(\<exists>r \<in> set (codes d). unspent_code h r \<and> c = scan_code r) \<and>
    d' = (tick d)\<lparr>codes := update_where (unspent_code h) (\<lambda>c. c\<lparr>cr_consumed_at := Some now\<rparr>) (codes d)\<rparr>"
  using assms unfolding code_consume_def
  by (auto split: prod.splits sum.splits option.splits dest!: stmt_Inr)
     (blast dest: find_SomeD)

lemma why_it_failed_cases:
  assumes "why_it_failed h d = (e, d')"
  shows "d' = tick d \<and>
    (is_err e ErrCodeConsumed \<longrightarrow> (\<exists>r \<in> set (codes d). cr_hash r = h \<and> cr_consumed_at r \<noteq> None)) \<and>
    (is_err e ErrNotFound \<longrightarrow> h \<notin> cr_hash ` set (codes d) \<or>
        (\<exists>r \<in> set (codes d). unspent_code h r))"
proof (cases "row_with cr_hash h (codes d)")
  case None
  then have "h \<notin> cr_hash ` set (codes d)" by (auto simp: row_with_None)
  with None assms show ?thesis unfolding why_it_failed_def
    by (auto split: prod.splits sum.splits option.splits dest!: query_Inr query_Inl)
next
  case (Some r)
  then have "r \<in> set (codes d)" "cr_hash r = h" by (auto dest: row_with_Some)
  with Some assms show ?thesis unfolding why_it_failed_def
    by (auto split: prod.splits sum.splits option.splits if_splits dest!: query_Inr query_Inl
        simp: unspent_code_def)
qed

lemma code_consume_Inl:
  assumes "code_consume now h d = (Inl e, d')"
  shows "same_rows d d' \<and>
    (is_err e ErrCodeConsumed \<longrightarrow> (\<exists>r \<in> set (codes d). cr_hash r = h \<and> cr_consumed_at r \<noteq> None)) \<and>
    (is_err e ErrNotFound \<longrightarrow> h \<notin> cr_hash ` set (codes d))"
proof -
  let ?upd = "(tick d)\<lparr>codes := update_where (unspent_code h) (\<lambda>c. c\<lparr>cr_consumed_at := Some now\<rparr>) (codes d)\<rparr>"
  from assms consider "e = Wrap ''porte/pg: consume login code'' SqlFault" "d' = tick d"
    | "find (unspent_code h) (codes d) = None" "why_it_failed h ?upd = (e, d')"
    unfolding code_consume_def
    by (auto split: prod.splits sum.splits option.splits dest!: stmt_Inr stmt_Inl)
  then show ?thesis
  proof cases
    case 1
    then show ?thesis by simp
  next
    case 2
    then have none: "\<forall>r \<in> set (codes d). \<not> unspent_code h r" by (auto simp: find_None_iff)
    then have "?upd = tick d" using update_where_none by (metis (no_types, lifting) db.surjective db.update_convs(4) tick_simps(4))
    with 2 why_it_failed_cases [of h "tick d" e d'] none show ?thesis
      by (auto simp: unspent_code_def)
  qed
qed

text \<open>Each operation keeps the database well-formed.\<close>

lemma code_create_ok: "db_ok d \<Longrightarrow> db_ok (snd (code_create c d))"
proof -
  assume d: "db_ok d"
  have ins: "db_ok d0 \<Longrightarrow> stmt (insert_code (code_row_of c)) d0 = (r, d2) \<Longrightarrow>
      db_ok d2 \<and> seqs_grow d0 d2" for d0 r d2
    using insert_code_ok [of "tick d0" "code_row_of c"] by (auto elim!: stmt_cases)
  have "db_ok (snd (while_bound (code_binding c) (stmt (insert_code (code_row_of c))) d))"
    by (rule conjunct1, rule while_bound_ok [OF d]) (rule ins)
  then show ?thesis
    by (auto simp: code_create_def split: prod.splits sum.splits)
qed

lemma code_consume_ok: "db_ok d \<Longrightarrow> db_ok (snd (code_consume now h d))"
proof (cases "code_consume now h d")
  case (Pair r d')
  assume d: "db_ok d"
  show ?thesis
  proof (cases r)
    case (Inl e)
    with Pair have q: "code_consume now h d = (Inl e, d')" by simp
    have "seqs_grow d d'"
      using q unfolding code_consume_def
      by (auto simp: seqs_grow_def stmt_def why_it_failed_def query_def
          split: prod.splits sum.splits option.splits if_splits)
    with d code_consume_Inl [OF q] Pair show ?thesis by (auto intro: db_ok_same_rows)
  next
    case (Inr c)
    have "db_ok ((tick d)\<lparr>codes := update_where (unspent_code h)
        (\<lambda>c. c\<lparr>cr_consumed_at := Some now\<rparr>) (codes (tick d))\<rparr>)"
      by (rule update_ok) (simp_all add: d)
    with code_consume_Inr [of now h d c d'] Inr Pair show ?thesis by simp
  qed
qed

lemma code_delete_expired_ok: "db_ok d \<Longrightarrow> db_ok (snd (code_delete_expired now d))"
  using delete_ok(2) [of "tick d"] by (auto simp: code_delete_expired_def stmt_def)

lemma code_create_Inr:
  assumes "code_create c d = (Inr u, d')"
  shows "voucher_holds (code_binding c) d \<and> user_exists (lc_user c) d \<and>
    lc_code_hash c \<notin> cr_hash ` set (codes d) \<and> codes d' = codes d @ [code_row_of c]"
proof -
  from assms have "while_bound (code_binding c) (stmt (insert_code (code_row_of c))) d = (Inr u, d')"
    by (auto simp: code_create_def split: prod.splits sum.splits)
  then obtain d1 d2 where v: "voucher_holds (code_binding c) d" and same: "same_rows d d1"
    and i: "stmt (insert_code (code_row_of c)) d1 = (Inr u, d2)" and d': "d' = d2 \<or> d' = tick d2"
    by (rule while_bound_Inr)
  from stmt_Inr [OF i] same d' v show ?thesis
    by (auto simp: insert_code_def same_rows_def code_row_of_def user_exists_iff table_simps
        split: if_splits)
qed

lemma code_create_Inl:
  assumes "code_create c d = (Inl e, d')"
  shows "codes d' = codes d"
proof -
  from assms obtain e' where w: "while_bound (code_binding c) (stmt (insert_code (code_row_of c))) d = (Inl e', d')"
    by (auto simp: code_create_def split: prod.splits sum.splits if_splits)
  show ?thesis
  proof (cases "s_provider (code_binding c) = [] \<and> s_issued_by (code_binding c) = 0")
    case True
    with w have "stmt (insert_code (code_row_of c)) d = (Inl e', d')"
      by (simp add: while_bound_def)
    then show ?thesis
      by (auto dest!: stmt_Inl simp: insert_code_def split: if_splits)
  next
    case False
    then have "while_bound (code_binding c) (stmt (insert_code (code_row_of c))) d =
        with_user_lock (s_user (code_binding c)) True
          (checked_insert (code_binding c) (stmt (insert_code (code_row_of c)))) d"
      by (auto simp: while_bound_def)
    with w with_user_lock_error show ?thesis by (metis same_rows_def)
  qed
qed

section \<open>Histories of codes\<close>

text \<open>
  A history is the calls the processes sharing the database made, in the order their
  statements ran, each with its outcome. Any of the statements may have failed.
\<close>

datatype code_call = MintCode login_code | RedeemCode time string | SweepCodes time

datatype code_outcome = Minted | Redeemed login_code | Swept int | Refused error

definition code_step :: "code_call \<Rightarrow> db \<Rightarrow> code_outcome \<times> db" where
  "code_step op d = (case op of
     MintCode c \<Rightarrow> (case code_create c d of (Inl e, d') \<Rightarrow> (Refused e, d') | (Inr _, d') \<Rightarrow> (Minted, d'))
   | RedeemCode now h \<Rightarrow> (case code_consume now h d of
       (Inl e, d') \<Rightarrow> (Refused e, d') | (Inr c, d') \<Rightarrow> (Redeemed c, d'))
   | SweepCodes now \<Rightarrow> (case code_delete_expired now d of
       (Inl e, d') \<Rightarrow> (Refused e, d') | (Inr n, d') \<Rightarrow> (Swept n, d')))"

fun code_history :: "code_call list \<Rightarrow> db \<Rightarrow> (code_call \<times> code_outcome) list" where
  "code_history [] d = []"
| "code_history (op # ops) d = (case code_step op d of (out, d') \<Rightarrow> (op, out) # code_history ops d')"

definition mints :: "string \<Rightarrow> code_call \<times> code_outcome \<Rightarrow> bool" where
  "mints h ev = (case ev of (MintCode c, Minted) \<Rightarrow> lc_code_hash c = h | _ \<Rightarrow> False)"

definition redeems :: "string \<Rightarrow> code_call \<times> code_outcome \<Rightarrow> bool" where
  "redeems h ev = (case ev of (RedeemCode now k, Redeemed c) \<Rightarrow> k = h | _ \<Rightarrow> False)"

definition unspent_count :: "string \<Rightarrow> db \<Rightarrow> int" where
  "unspent_count h d = affected (unspent_code h) (codes d)"

lemma code_step_ok:
  assumes "db_ok d"
  shows "db_ok (snd (code_step op d))"
proof (cases op)
  case (MintCode c)
  from code_create_ok [OF assms, of c] show ?thesis
    by (auto simp: code_step_def MintCode split: prod.splits sum.splits)
next
  case (RedeemCode now h)
  from code_consume_ok [OF assms, of now h] show ?thesis
    by (auto simp: code_step_def RedeemCode split: prod.splits sum.splits)
next
  case (SweepCodes now)
  from code_delete_expired_ok [OF assms, of now] show ?thesis
    by (auto simp: code_step_def SweepCodes split: prod.splits sum.splits)
qed

lemma affected_update_le:
  "(\<And>r. q (f r) \<Longrightarrow> q r) \<Longrightarrow> affected q (update_where p f rs) \<le> affected q rs"
  by (induction rs) (auto simp: update_where_def affected_Cons)

lemma affected_delete_le: "affected q (delete_where p rs) \<le> affected q rs"
  by (induction rs) (auto simp: delete_where_def affected_Cons)

lemma affected_unique:
  assumes "distinct (map f rs)" and "r \<in> set rs" and "p r" and "\<And>x. p x \<Longrightarrow> f x = k"
  shows "affected p rs = 1"
  using assms(1-3)
proof (induction rs)
  case (Cons x rs)
  show ?case
  proof (cases "p x")
    case True
    then have "\<forall>y \<in> set rs. \<not> p y"
      using Cons.prems(1) assms(4) by (metis distinct.simps(2) image_eqI list.simps(9) list.set_map)
    with True show ?thesis by (simp add: affected_Cons affected_pos)
  next
    case False
    with Cons show ?thesis by (auto simp: affected_Cons)
  qed
qed simp

lemma spent_none:
  "affected (unspent_code h) (update_where (unspent_code h) (\<lambda>c. c\<lparr>cr_consumed_at := Some now\<rparr>) rs) = 0"
  by (induction rs) (simp_all add: update_where_def affected_Cons unspent_code_def)

text \<open>The number of unspent rows pays for every redemption and is paid by every mint.\<close>

lemma code_step_balance:
  assumes "db_ok d" and "code_step op d = (out, d')"
  shows "unspent_count h d' + (if redeems h (op, out) then 1 else 0)
    \<le> unspent_count h d + (if mints h (op, out) then 1 else 0)"
proof (cases op)
  case (MintCode c)
  with assms(2) show ?thesis
    by (auto simp: code_step_def unspent_count_def mints_def redeems_def affected_append affected_Cons
        code_row_of_def unspent_code_def split: prod.splits sum.splits
        dest!: code_create_Inr code_create_Inl)
next
  case (RedeemCode now k)
  show ?thesis
  proof (cases "fst (code_consume now k d)")
    case (Inl e)
    then have "code_consume now k d = (Inl e, snd (code_consume now k d))" by (simp add: prod_eq_iff)
    from code_consume_Inl [OF this] assms(2) RedeemCode Inl show ?thesis
      by (auto simp: code_step_def unspent_count_def mints_def redeems_def same_rows_def
          split: prod.splits sum.splits)
  next
    case (Inr c)
    then have eq: "code_consume now k d = (Inr c, snd (code_consume now k d))" by (simp add: prod_eq_iff)
    with assms(2) RedeemCode have out: "out = Redeemed c" "d' = snd (code_consume now k d)"
      by (auto simp: code_step_def split: prod.splits)
    from code_consume_Inr [OF eq] obtain r where r: "r \<in> set (codes d)" "unspent_code k r"
      and d': "codes d' = update_where (unspent_code k) (\<lambda>c. c\<lparr>cr_consumed_at := Some now\<rparr>) (codes d)"
      using out by auto
    have dist: "distinct (map cr_hash (codes d))" using assms(1) by (simp add: db_ok_defs)
    have le: "affected (unspent_code h) (codes d') \<le> affected (unspent_code h) (codes d)"
      unfolding d' by (rule affected_update_le) (simp add: unspent_code_def)
    have one: "affected (unspent_code k) (codes d) = 1"
      using affected_unique [where f = cr_hash and p = "unspent_code k" and k = k, OF dist r]
      by (simp add: unspent_code_def)
    show ?thesis
    proof (cases "h = k")
      case True
      with spent_none [of k now] one d' out RedeemCode show ?thesis
        by (simp add: unspent_count_def redeems_def mints_def)
    next
      case False
      with le out RedeemCode show ?thesis by (simp add: unspent_count_def redeems_def mints_def)
    qed
  qed
next
  case (SweepCodes now)
  with assms(2) show ?thesis
    by (auto simp: affected_delete_le code_step_def code_delete_expired_def unspent_count_def mints_def redeems_def
        split: prod.splits sum.splits dest!: wrapping_Inl stmt_Inr stmt_Inl)
qed

text \<open> A login code is redeemed at most once for each time it was created. Over any history
  of calls to the code store, whatever statements failed in between, the successful \<open>Consume\<close>
  calls for a hash are no more than the successful \<open>Create\<close> calls for it, plus the unspent row
  the database held before. \<close>

theorem code_redeemed_once:
  assumes "db_ok d"
  shows "int (length (filter (redeems h) (code_history ops d)))
    \<le> int (length (filter (mints h) (code_history ops d))) + unspent_count h d"
  using assms
proof (induction ops arbitrary: d)
  case Nil
  show ?case by (simp add: unspent_count_def)
next
  case (Cons op ops)
  obtain out d' where s: "code_step op d = (out, d')" by (cases "code_step op d")
  with code_step_ok [OF Cons.prems, of op] have "db_ok d'" by simp
  from Cons.IH [OF this] code_step_balance [OF Cons.prems s, of h] s show ?case
    by (auto split: if_splits)
qed

definition example_code :: login_code where
  "example_code = \<lparr>lc_code_hash = ''c'', lc_user = 1, lc_expires_at = 60, lc_provider = [], lc_subject = []\<rparr>"

definition example_db :: db where
  "example_db = empty_db\<lparr>users := [\<lparr>u_id = 1, u_email = ''a@x'', u_email_verified = True, u_name = [],
     u_avatar_url = [], u_avatar_source = [], u_locale = [], u_updated_at = 0\<rparr>], user_seq := 1\<rparr>"

lemma example_db_ok [simp]: "db_ok example_db"
  by (simp add: db_ok_defs example_db_def empty_db_def)

theorem code_redeemed_once_witness:
  "map snd (code_history [MintCode example_code, RedeemCode 5 ''c'', RedeemCode 6 ''c''] example_db) =
     [Minted, Redeemed example_code, Refused (Sentinel ErrCodeConsumed)] \<and>
   int (length (filter (redeems ''c'') (code_history
     [MintCode example_code, RedeemCode 5 ''c'', RedeemCode 6 ''c''] example_db)))
    \<le> int (length (filter (mints ''c'') (code_history
     [MintCode example_code, RedeemCode 5 ''c'', RedeemCode 6 ''c''] example_db))) + unspent_count ''c'' example_db"
  by (rule conjI, code_simp, rule code_redeemed_once, rule example_db_ok)

text \<open> A replayed login code is told apart from an unknown one: once \<open>Consume\<close> has
  succeeded on a hash, a second \<open>Consume\<close> that reaches the database answers
  \<open>ErrCodeConsumed\<close>, whoever makes it and whenever, and leaves every row as it was. \<close>

theorem code_replay_refused:
  assumes "db_ok d" and "code_consume now h d = (Inr c, d')" and "faults d' = []"
  shows "code_consume later h d' = (Inl (Sentinel ErrCodeConsumed), d')"
proof -
  from code_consume_Inr [OF assms(2)] obtain r where r: "r \<in> set (codes d)" "unspent_code h r"
    and d': "codes d' = update_where (unspent_code h) (\<lambda>c. c\<lparr>cr_consumed_at := Some now\<rparr>) (codes d)"
    by auto
  have "distinct (map cr_hash (codes d))" using assms(1) by (simp add: db_ok_defs)
  with r have "row_with cr_hash h (codes d) = Some r"
    by (simp add: row_with_eq_Some unspent_code_def)
  with r(2) have row: "row_with cr_hash h (codes d') = Some (r\<lparr>cr_consumed_at := Some now\<rparr>)"
    unfolding d' by (simp add: row_with_update_where)
  have none: "\<forall>c \<in> set (codes d'). \<not> unspent_code h c"
    using spent_none [of h now "codes d"] by (simp add: d' affected_pos)
  then have "find (unspent_code h) (codes d') = None" by (simp add: find_None_iff)
  moreover have "update_where (unspent_code h) f (codes d') = codes d'" for f
    using none by (simp add: update_where_none)
  ultimately show ?thesis
    using row assms(3) by (simp add: code_consume_def why_it_failed_def)
qed

theorem code_replay_refused_witness:
  "code_consume 9 ''c'' (snd (code_consume 5 ''c'' (snd (code_create example_code example_db)))) =
     (Inl (Sentinel ErrCodeConsumed), snd (code_consume 5 ''c'' (snd (code_create example_code example_db))))"
proof -
  let ?d = "snd (code_create example_code example_db)"
  have "db_ok ?d" by (rule code_create_ok) simp
  moreover have "code_consume 5 ''c'' ?d = (Inr example_code, snd (code_consume 5 ''c'' ?d))" by code_simp
  moreover have "faults (snd (code_consume 5 ''c'' ?d)) = []" by code_simp
  ultimately show ?thesis by (rule code_replay_refused)
qed

section \<open>The link store as an implementation of the contract\<close>

definition scan_link :: "link_row \<Rightarrow> stored_link" where
  "scan_link r = (\<lparr>ml_token_hash = l_hash r, ml_user = l_user r,
     ml_created_at = l_created_at r, ml_expires_at = l_expires_at r, ml_ip = l_ip r\<rparr>, l_consumed_at r)"

definition link_table :: "db \<Rightarrow> stored_link list" where
  "link_table d = map scan_link (links d)"

definition pg_links :: "db magic_link_store_ops" where
  "pg_links = \<lparr>mk_create = link_create, mk_consume = link_consume, mk_count_since = link_count_since,
     mk_delete_expired = link_delete_expired\<rparr>"

lemma scan_link_simps [simp]:
  "ml_token_hash (fst (scan_link r)) = l_hash r" "ml_user (fst (scan_link r)) = l_user r"
  "ml_ip (fst (scan_link r)) = l_ip r" "ml_created_at (fst (scan_link r)) = l_created_at r"
  "ml_expires_at (fst (scan_link r)) = l_expires_at r" "snd (scan_link r) = l_consumed_at r"
  by (simp_all add: scan_link_def)

lemma scan_link_row_of [simp]: "scan_link (link_row_of l) = (l, None)"
  by (simp add: scan_link_def link_row_of_def)

lemma scan_link_spent: "scan_link (r\<lparr>l_consumed_at := Some t\<rparr>) = spend t (scan_link r)"
  by (simp add: scan_link_def spend_def)

lemma live_link_scan: "live_link h now (scan_link r) = live_row h now r"
  by (simp add: live_link_def live_row_def)

lemma unspent_scan: "unspent_of u (scan_link r) = (l_user r = u \<and> l_consumed_at r = None)"
  by (simp add: unspent_of_def)

lemma scan_update:
  "(\<And>r. q (scan_link r) = p r) \<Longrightarrow>
    map scan_link (update_where p (\<lambda>r. r\<lparr>l_consumed_at := Some t\<rparr>) rs) =
    update_where q (spend t) (map scan_link rs)"
  by (simp add: update_where_def scan_link_spent)

lemma scan_delete:
  "(\<And>r. q (scan_link r) = p r) \<Longrightarrow>
    map scan_link (delete_where p rs) = delete_where q (map scan_link rs)"
  by (simp add: delete_where_def filter_map comp_def)

lemma scan_affected: "(\<And>r. q (scan_link r) = p r) \<Longrightarrow> affected q (map scan_link rs) = affected p rs"
  by (simp add: affected_def filter_map comp_def)

lemma link_table_tick [simp]: "link_table (tick d) = link_table d"
  by (simp add: link_table_def)

lemma same_rows_links: "same_rows d d' \<Longrightarrow> link_table d' = link_table d"
  by (simp add: same_rows_def link_table_def)

text \<open>What each method does to the link table.\<close>

lemma keeps_locks [keeps_intros]: "keeps_ok (lock_user u sh)" "keeps_ok (lock_advisory n k sh)"
  unfolding lock_user_def lock_advisory_def by (intro keeps_intros)+

lemma keeps_insert_link [keeps_intros]: "keeps_ok (insert_link row)"
  by (rule keeps_okI) (rule insert_link_ok)

lemma keeps_update_links:
  "(\<And>l. l_hash (f l) = l_hash l) \<Longrightarrow> (\<And>l. l_user (f l) = l_user l) \<Longrightarrow>
    keeps_ok (\<lambda>d. (Inr (g d), d\<lparr>links := update_where p f (links d)\<rparr>))"
  by (rule keeps_okI) (auto simp: seqs_grow_def intro!: update_ok)

lemma link_create_ok: "keeps_ok (link_create l)"
  unfolding link_create_def by (intro keeps_intros keeps_update_links) simp_all

lemma link_consume_ok: "keeps_ok (link_consume h now)"
proof -
  have "keeps_ok (stmt (\<lambda>d. (Inr (find (live_row h now) (links d)),
      d\<lparr>links := update_where (live_row h now) (\<lambda>r. r\<lparr>l_consumed_at := Some now\<rparr>) (links d)\<rparr>)))"
    by (intro keeps_intros keeps_update_links) simp_all
  then show ?thesis
    by (auto simp: keeps_ok_def link_consume_def split: prod.splits sum.splits option.splits)
qed

lemma link_count_state: "snd (link_count_since k since d) \<in> {d, tick d}"
  by (simp add: link_count_since_def query_state)

lemma link_delete_expired_ok: "keeps_ok (link_delete_expired cutoff)"
proof -
  have "keeps_ok (\<lambda>d. (Inr (affected p (links d)), d\<lparr>links := delete_where p (links d)\<rparr>))" for p
    by (rule keeps_okI) (auto simp: seqs_grow_def intro!: delete_ok)
  then show ?thesis
    unfolding link_delete_expired_def by (intro keeps_intros)
qed

lemma lock_advisory_Inr: "lock_advisory n k sh d = (Inr x, d') \<Longrightarrow> d' = tick d"
  by (auto simp: lock_advisory_def dest: query_Inr)

lemma link_create_row:
  assumes "link_create l d = (Inr (), d')"
  shows "link_table d' =
    update_where (unspent_of (ml_user l)) (spend (ml_created_at l)) (link_table d) @ [(l, None)]"
  using assms unfolding link_create_def
  by (elim with_tx_Inr and_then_Inr)
    (auto dest!: lock_user_Inr lock_advisory_Inr stmt_Inr simp: insert_link_def link_table_def
      scan_update [where q = "unspent_of (ml_user l)"] unspent_scan split: if_splits)

lemma link_consume_Inr:
  "link_consume h now d = (Inr u, d') \<Longrightarrow>
    (\<exists>l \<in> set (link_table d). live_link h now l \<and> ml_user (fst l) = u) \<and>
    link_table d' = update_where (live_link h now) (spend now) (link_table d)"
  unfolding link_consume_def link_table_def
  by (auto dest!: stmt_Inr find_SomeD simp: live_link_scan scan_update [where q = "live_link h now"]
      split: prod.splits sum.splits option.splits)

lemma link_consume_Inl:
  assumes "link_consume h now d = (Inl e, d')"
  shows "link_table d' = link_table d \<and>
    (is_err e ErrNotFound \<longrightarrow> (\<forall>l \<in> set (link_table d). \<not> live_link h now l))"
proof -
  from assms consider "\<not> is_err e ErrNotFound" "d' = tick d"
    | "find (live_row h now) (links d) = None"
      "d' = (tick d)\<lparr>links := update_where (live_row h now) (\<lambda>r. r\<lparr>l_consumed_at := Some now\<rparr>) (links d)\<rparr>"
    unfolding link_consume_def
    by (auto dest!: stmt_Inr stmt_Inl split: prod.splits sum.splits option.splits)
  then show ?thesis
  proof cases
    case 2
    then have "\<forall>r \<in> set (links d). \<not> live_row h now r" by (auto simp: find_None_iff)
    with 2 show ?thesis by (auto simp: link_table_def live_link_scan update_where_none)
  qed simp
qed

lemma link_count_Inr:
  "link_count_since k since d = (Inr n, d') \<Longrightarrow> n = affected (key_matches k since) (link_table d)"
  unfolding link_count_since_def link_table_def
  by (auto dest!: query_Inr simp: key_matches_def affected_pos split: if_splits
      intro!: scan_affected [symmetric])

lemma link_delete_Inr:
  "link_delete_expired cutoff d = (Inr n, d') \<Longrightarrow>
    link_table d' = delete_where (\<lambda>l. ml_expires_at (fst l) < cutoff) (link_table d)"
  unfolding link_delete_expired_def link_table_def
  by (auto dest!: stmt_Inr intro!: scan_delete)

lemma link_delete_Inl: "link_delete_expired cutoff d = (Inl e, d') \<Longrightarrow> link_table d' = link_table d"
  unfolding link_delete_expired_def by (auto dest!: wrapping_Inl stmt_Inl)

lemma link_create_Inl: "link_create l d = (Inl e, d') \<Longrightarrow> link_table d' = link_table d"
  unfolding link_create_def by (drule with_tx_error) (rule same_rows_links)

lemma link_hashes_ok: "db_ok d \<Longrightarrow> distinct (map (ml_token_hash \<circ> fst) (link_table d))"
  by (simp add: db_ok_defs link_table_def comp_def)

interpretation pgl: magic_link_store pg_links link_table db_ok
proof (unfold_locales, unfold pg_links_def magic_link_store_ops.simps, goal_cases)
  case (1 s)
  then show ?case by (rule link_hashes_ok)
next
  case (8 s k since)
  then show ?case using link_count_state [of k since s] by auto
qed (auto dest: keeps_okD [OF link_create_ok] keeps_okD [OF link_consume_ok]
    keeps_okD [OF link_delete_expired_ok] link_create_row link_create_Inl link_consume_Inr
    link_consume_Inl link_count_Inr link_delete_Inr link_delete_Inl)

end
