(* ===== verification/Magiclink.thy ===== *)
theory Magiclink
  imports Session Pg_Codes
begin

text \<open>
  The package \<open>magiclink\<close>: an emailed one-time link and a consume that ends in the same session
  as every other login (\<open>magiclink.go\<close>, \<open>request.go\<close>, \<open>consume.go\<close>, \<open>routes.go\<close>). The app's
  half (\<open>FindUser\<close>, \<open>Send\<close>, \<open>BuildLink\<close>, \<open>Allow\<close>) and \<open>net/mail.ParseAddress\<close> are fields of
  the kit: a lemma that does not constrain them holds for all of them. \<open>Send\<close> runs after the
  answer is written and its error is only logged, so a request returns the mails it handed over.
\<close>

section \<open>magiclink.go\<close>

definition default_max_per_email :: int where "default_max_per_email = 5"
definition default_max_per_ip :: int where "default_max_per_ip = 20"

record link_config =
  mc_ttl :: duration
  mc_max_per_email :: int
  mc_max_per_ip :: int
  mc_client_ip :: "(request \<Rightarrow> string) option"

record mail =
  mail_to :: string
  mail_link :: string

record 's link_deps =
  ld_links :: "'s magic_link_store_ops option"
  ld_sessions :: "'s manager option"
  ld_find_user :: "(string \<Rightarrow> 's \<Rightarrow> int result) option"
  ld_send :: "(mail \<Rightarrow> unit result) option"
  ld_build_link :: "(string \<Rightarrow> string) option"
  ld_allow :: "(int \<Rightarrow> 's \<Rightarrow> bool result) option"

record 's link_kit =
  lk_cfg :: link_config
  lk_links :: "'s magic_link_store_ops"
  lk_sessions :: "'s manager"
  lk_find_user :: "string \<Rightarrow> 's \<Rightarrow> int result"
  lk_build_link :: "string \<Rightarrow> string"
  lk_allow :: "int \<Rightarrow> 's \<Rightarrow> bool result"
  lk_parse_address :: "string \<Rightarrow> string option"
  lk_federated :: bool

definition or_default :: "int \<Rightarrow> int \<Rightarrow> int" where
  "or_default x d = (if x \<le> 0 then d else x)"

text \<open>
  \<open>New\<close> ranges over a map of the required dependencies, in an order Go leaves open: the order is
  an argument, and so is the address parser of the standard library.
\<close>

definition new_link_kit ::
  "string list \<Rightarrow> (string \<Rightarrow> string option) \<Rightarrow> link_config \<Rightarrow> 's link_deps \<Rightarrow> 's link_kit result" where
  "new_link_kit order parse cfg deps =
     (let missing = (\<lambda>name.
            (name = ''Links'' \<and> ld_links deps = None) \<or> (name = ''Sessions'' \<and> ld_sessions deps = None) \<or>
            (name = ''FindUser'' \<and> ld_find_user deps = None) \<or> (name = ''Send'' \<and> ld_send deps = None) \<or>
            (name = ''BuildLink'' \<and> ld_build_link deps = None) \<or> (name = ''Allow'' \<and> ld_allow deps = None)) in
      case find missing order of
        Some name \<Rightarrow> Inl (Plain (''porte/magiclink: Deps.'' @ name @ '' is required''))
      | None \<Rightarrow> Inr \<lparr>
          lk_cfg = cfg\<lparr>mc_ttl := or_default (mc_ttl cfg) default_magic_link_ttl,
            mc_max_per_email := or_default (mc_max_per_email cfg) default_max_per_email,
            mc_max_per_ip := or_default (mc_max_per_ip cfg) default_max_per_ip\<rparr>,
          lk_links = the (ld_links deps), lk_sessions = the (ld_sessions deps),
          lk_find_user = the (ld_find_user deps), lk_build_link = the (ld_build_link deps),
          lk_allow = the (ld_allow deps), lk_parse_address = parse,
          lk_federated = enabled (m_cfg (the (ld_sessions deps)))\<rparr>)"

definition link_deps_names :: "string list" where
  "link_deps_names = [''Links'', ''Sessions'', ''FindUser'', ''Send'', ''BuildLink'', ''Allow'']"

definition local_disabled :: error where
  "local_disabled = Api NotFoundCode ''porte: local sign-in is disabled because OIDC is configured''
     (Some (Sentinel ErrLocalLoginDisabled))"

definition invalid_link :: error where
  "invalid_link = Api Unauthenticated ''porte: this sign-in link is invalid or has expired''
     (Some (Sentinel ErrMagicLinkInvalid))"

definition normalize_address :: "(string \<Rightarrow> string option) \<Rightarrow> string \<Rightarrow> string option" where
  "normalize_address parse email = (case parse (trim_space email) of
     None \<Rightarrow> None | Some address \<Rightarrow> Some (to_lower address))"

section \<open>request.go\<close>

record target =
  tg_email :: string
  tg_user :: int
  tg_found :: bool

definition no_target :: target where
  "no_target = \<lparr>tg_email = [], tg_user = 0, tg_found = False\<rparr>"

definition link_lookup :: "'s link_kit \<Rightarrow> string \<Rightarrow> 's \<Rightarrow> target result" where
  "link_lookup k email s =
     (if lk_federated k then Inl local_disabled
      else case normalize_address (lk_parse_address k) email of
        None \<Rightarrow> Inr no_target
      | Some address \<Rightarrow> (case lk_find_user k address s of
          Inr user \<Rightarrow> Inr \<lparr>tg_email = address, tg_user = user, tg_found = True\<rparr>
        | Inl e \<Rightarrow> if is_not_found e then Inr no_target
            else Inl (internal ''failed to look up the account'' e)))"

definition within_limits ::
  "'s link_kit \<Rightarrow> target \<Rightarrow> string \<Rightarrow> time \<Rightarrow> 's \<Rightarrow> bool result \<times> 's" where
  "within_limits k who ip now s =
     (let since = now - magic_link_rate_window in
      case mk_count_since (lk_links k) \<lparr>k_user = tg_user who, k_ip = []\<rparr> since s of
        (Inl e, s1) \<Rightarrow> (Inl (internal ''failed to count the links'' e), s1)
      | (Inr by_user, s1) \<Rightarrow>
          (case mk_count_since (lk_links k) \<lparr>k_user = 0, k_ip = ip\<rparr> since s1 of
             (Inl e, s2) \<Rightarrow> (Inl (internal ''failed to count the links'' e), s2)
           | (Inr by_ip, s2) \<Rightarrow>
               (Inr (by_user < mc_max_per_email (lk_cfg k) \<and> by_ip < mc_max_per_ip (lk_cfg k)), s2)))"

definition deliver :: "'s link_kit \<Rightarrow> target \<Rightarrow> string \<Rightarrow> mail list" where
  "deliver k who token = [\<lparr>mail_to = tg_email who, mail_link = lk_build_link k token\<rparr>]"

definition issue_link ::
  "'s link_kit \<Rightarrow> target \<Rightarrow> magic_link \<Rightarrow> string \<Rightarrow> 's \<Rightarrow> unit result \<times> mail list \<times> 's" where
  "issue_link k who link token s = (case mk_create (lk_links k) link s of
     (Inl e, s1) \<Rightarrow> (Inl (internal ''failed to store the link'' e), [], s1)
   | (Inr _, s1) \<Rightarrow> (Inr (), deliver k who token, s1))"

definition link_for :: "'s link_kit \<Rightarrow> target \<Rightarrow> string \<Rightarrow> string \<Rightarrow> time \<Rightarrow> magic_link" where
  "link_for k who token ip now = \<lparr>ml_token_hash = hash_token token, ml_user = tg_user who,
     ml_created_at = now, ml_expires_at = now + mc_ttl (lk_cfg k), ml_ip = ip\<rparr>"

definition request_link ::
  "'s link_kit \<Rightarrow> string option \<Rightarrow> string \<Rightarrow> string \<Rightarrow> time \<Rightarrow> 's \<Rightarrow> unit result \<times> mail list \<times> 's" where
  "request_link k entropy email ip now s = (case link_lookup k email s of
     Inl e \<Rightarrow> (Inl e, [], s)
   | Inr who \<Rightarrow> (case within_limits k who ip now s of
       (Inl e, s1) \<Rightarrow> (Inl e, [], s1)
     | (Inr allowed, s1) \<Rightarrow> (case new_token entropy of
         Inl e \<Rightarrow> (Inl (internal ''failed to generate the link'' e), [], s1)
       | Inr token \<Rightarrow>
           if \<not> tg_found who then (Inr (), [], s1)
           else if \<not> allowed then (Inr (), [], s1)
           else issue_link k who (link_for k who token ip now) token s1)))"

section \<open>consume.go\<close>

definition link_allowed :: "'s link_kit \<Rightarrow> int \<Rightarrow> 's \<Rightarrow> unit result" where
  "link_allowed k user s = (case lk_allow k user s of
     Inl e \<Rightarrow> Inl (internal ''failed to check the account'' e)
   | Inr ok \<Rightarrow> if \<not> ok then Inl invalid_link else Inr ())"

text \<open>\<open>now\<close> is the kit's clock and \<open>at\<close> the session manager's.\<close>

definition consume_link ::
  "'s link_kit \<Rightarrow> string option \<Rightarrow> identity option \<Rightarrow> request \<Rightarrow> string \<Rightarrow> time \<Rightarrow> time \<Rightarrow> 's
    \<Rightarrow> (int \<times> string) result \<times> cookie list \<times> 's" where
  "consume_link k entropy ctx r token now at s =
     (if lk_federated k then (Inl local_disabled, [], s)
      else case mk_consume (lk_links k) (hash_token token) now s of
        (Inl e, s1) \<Rightarrow> if is_not_found e then (Inl invalid_link, [], s1)
          else (Inl (internal ''failed to consume the link'' e), [], s1)
      | (Inr user, s1) \<Rightarrow> (case link_allowed k user s1 of
          Inl e \<Rightarrow> (Inl e, [], s1)
        | Inr _ \<Rightarrow> (case issue_cookie (lk_sessions k) entropy ctx r user at s1 of
            (Inl e, cs, s2) \<Rightarrow> (Inl e, cs, s2)
          | (Inr (session_token, _), cs, s2) \<Rightarrow> (Inr (user, session_token), cs, s2))))"

section \<open>routes.go\<close>

text \<open>\<open>net.SplitHostPort\<close>, its host.\<close>

fun index_byte :: "char \<Rightarrow> string \<Rightarrow> nat option" where
  "index_byte c [] = None"
| "index_byte c (x # xs) = (if x = c then Some 0 else map_option Suc (index_byte c xs))"

fun last_index_byte :: "char \<Rightarrow> string \<Rightarrow> nat option" where
  "last_index_byte c [] = None"
| "last_index_byte c (x # xs) = (case last_index_byte c xs of
     Some i \<Rightarrow> Some (Suc i) | None \<Rightarrow> if x = c then Some 0 else None)"

definition split_host :: "string \<Rightarrow> string option" where
  "split_host hp = (case last_index_byte CHR '':'' hp of
     None \<Rightarrow> None
   | Some i \<Rightarrow>
       if take 1 hp = ''['' then (case index_byte CHR '']'' hp of
           None \<Rightarrow> None
         | Some e \<Rightarrow> if e + 1 = length hp \<or> e + 1 \<noteq> i then None
             else if List.member (drop 1 hp) CHR ''['' \<or> List.member (drop (e + 1) hp) CHR '']'' then None
             else Some (take (e - 1) (drop 1 hp)))
       else if List.member (take i hp) CHR '':'' then None
       else if List.member hp CHR ''['' \<or> List.member hp CHR '']'' then None
       else Some (take i hp))"

definition source_ip :: "'s link_kit \<Rightarrow> request \<Rightarrow> string \<Rightarrow> string" where
  "source_ip k r remote_addr = (case mc_client_ip (lk_cfg k) of
     Some client_ip \<Rightarrow> client_ip r
   | None \<Rightarrow> (case split_host remote_addr of None \<Rightarrow> remote_addr | Some host \<Rightarrow> host))"

text \<open>
  The two routes, with the body as \<open>httpjson.DecodeJSON\<close> of the framework decoded it. \<open>None\<close> is
  the router's answer for a route that is not mounted.
\<close>

definition handle_request ::
  "'s link_kit \<Rightarrow> string option \<Rightarrow> request \<Rightarrow> string \<Rightarrow> string result \<Rightarrow> time \<Rightarrow> 's \<Rightarrow> unit result \<times> mail list \<times> 's" where
  "handle_request k entropy r remote_addr body now s = (case body of
     Inl e \<Rightarrow> (Inl e, [], s)
   | Inr email \<Rightarrow> request_link k entropy email (source_ip k r remote_addr) now s)"

definition handle_consume ::
  "'s link_kit \<Rightarrow> string option \<Rightarrow> request \<Rightarrow> string result \<Rightarrow> time \<Rightarrow> time \<Rightarrow> 's
    \<Rightarrow> (int \<times> string) result \<times> cookie list \<times> 's" where
  "handle_consume k entropy r body now at s =
     (if csrf_missing r then (Inl missing_csrf, [], s)
      else case body of
        Inl e \<Rightarrow> (Inl e, [], s)
      | Inr token \<Rightarrow> consume_link k entropy (rq_identity r) r token now at s)"

definition mount_request where
  "mount_request k entropy r remote_addr body now s =
     (if lk_federated k then None else Some (handle_request k entropy r remote_addr body now s))"

definition mount_consume where
  "mount_consume k entropy r body now at s =
     (if lk_federated k then None else Some (handle_consume k entropy r body now at s))"

section \<open>The kit over any pair of stores\<close>

lemma invalid_link_neq [simp]: "internal m e \<noteq> invalid_link" "invalid_link \<noteq> internal m e"
  by (simp_all add: invalid_link_def internal_def)

lemma or_default_pos: "0 < d \<Longrightarrow> 0 < or_default x d"
  by (simp add: or_default_def)

lemma new_link_kit_cfg:
  "new_link_kit order parse cfg deps = Inr k \<Longrightarrow> 0 < mc_ttl (lk_cfg k) \<and> 0 < mc_max_per_email (lk_cfg k) \<and>
    0 < mc_max_per_ip (lk_cfg k) \<and> (lk_federated k \<longleftrightarrow> enabled (m_cfg (lk_sessions k)))"
  by (auto simp: new_link_kit_def Let_def porte_defaults duration_units default_max_per_email_def
      default_max_per_ip_def intro!: or_default_pos split: option.splits)

text \<open>The answers a caller may get for an address: nothing, or a failure that is not about it.\<close>

definition says_nothing :: "unit result \<Rightarrow> bool" where
  "says_nothing res = (case res of Inr _ \<Rightarrow> True | Inl e \<Rightarrow> code_of e = Some InternalCode)"

lemma request_link_answer:
  "\<not> lk_federated k \<Longrightarrow> says_nothing (fst (request_link k entropy email ip now s))"
  by (auto simp: request_link_def link_lookup_def within_limits_def issue_link_def says_nothing_def internal_def
      Let_def split: option.splits sum.splits prod.splits)

lemma affected_map [simp]: "affected p (map f xs) = affected (\<lambda>x. p (f x)) xs"
  by (simp add: affected_def filter_map comp_def)

text \<open>The links a call issued: what the kit stored for each mail it handed over.\<close>

definition issued :: "'s link_kit \<Rightarrow> string option \<Rightarrow> string \<Rightarrow> string \<Rightarrow> time \<Rightarrow> 's \<Rightarrow> magic_link list" where
  "issued k entropy email ip now s =
     (case (link_lookup k email s, new_token entropy) of
        (Inr who, Inr token) \<Rightarrow>
          map (\<lambda>_. link_for k who token ip now) (fst (snd (request_link k entropy email ip now s)))
      | _ \<Rightarrow> [])"

datatype link_call =
    AskLink "string option" string string time
  | SpendLink "string option" "identity option" request string time time
  | SweepLinks time

definition link_step :: "'s link_kit \<Rightarrow> link_call \<Rightarrow> 's \<Rightarrow> 's" where
  "link_step k c s = (case c of
     AskLink entropy email ip now \<Rightarrow> snd (snd (request_link k entropy email ip now s))
   | SpendLink entropy ctx r token now at \<Rightarrow> snd (snd (consume_link k entropy ctx r token now at s))
   | SweepLinks cutoff \<Rightarrow> snd (mk_delete_expired (lk_links k) cutoff s))"

definition link_step_issued :: "'s link_kit \<Rightarrow> link_call \<Rightarrow> 's \<Rightarrow> magic_link list" where
  "link_step_issued k c s = (case c of AskLink entropy email ip now \<Rightarrow> issued k entropy email ip now s | _ \<Rightarrow> [])"

fun link_run :: "'s link_kit \<Rightarrow> link_call list \<Rightarrow> 's \<Rightarrow> 's" where
  "link_run k [] s = s"
| "link_run k (c # cs) s = link_run k cs (link_step k c s)"

fun links_issued :: "'s link_kit \<Rightarrow> link_call list \<Rightarrow> 's \<Rightarrow> magic_link list" where
  "links_issued k [] s = []"
| "links_issued k (c # cs) s = link_step_issued k c s @ links_issued k cs (link_step k c s)"

text \<open>The clock of a history: calls in order of time, sweeps of what the limits no longer need.\<close>

fun on_time :: "time \<Rightarrow> link_call list \<Rightarrow> bool" where
  "on_time t [] = True"
| "on_time t (AskLink entropy email ip now # cs) = (t \<le> now \<and> on_time now cs)"
| "on_time t (SpendLink entropy ctx r token now at # cs) = (t \<le> now \<and> on_time now cs)"
| "on_time t (SweepLinks cutoff # cs) = (cutoff \<le> t - magic_link_rate_window \<and> on_time t cs)"

definition over :: "'s link_kit \<Rightarrow> 's magic_link_store_ops \<Rightarrow> 's session_store_ops \<Rightarrow> bool" where
  "over k mk st = (lk_links k = mk \<and> m_store (lk_sessions k) = st)"

locale link_login =
  links: magic_link_store mk ltable ok + logins: session_store st table vouches ok
  for mk :: "'s magic_link_store_ops" and ltable ok st table vouches +
  assumes create_session_links: "ok s \<Longrightarrow> ltable (snd (ss_create st x s)) = ltable s"
    and create_link_sessions: "ok s \<Longrightarrow> table (snd (mk_create mk l s)) = table s"
    and consume_link_sessions: "ok s \<Longrightarrow> table (snd (mk_consume mk h now s)) = table s"
    and count_link_sessions: "ok s \<Longrightarrow> table (snd (mk_count_since mk k since s)) = table s"
    and sweep_link_sessions: "ok s \<Longrightarrow> table (snd (mk_delete_expired mk cutoff s)) = table s"
begin

lemma issue_cookie_links:
  assumes "ok s" and "m_store m = st" and "issue_cookie m entropy ctx r user at s = (res, cs, s')"
  shows "ok s' \<and> ltable s' = ltable s"
  using assms create_session_links [OF assms(1)] logins.create_ok [OF assms(1)]
  by (auto simp: issue_cookie_def issue_cookie_for_def issue_for_unfold split: prod.splits sum.splits)
    (metis snd_conv)+

lemma within_limits_state:
  assumes "ok s" and "over k mk st" and "within_limits k who ip now s = (res, s')"
  shows "ok s' \<and> ltable s' = ltable s \<and> table s' = table s"
proof -
  let ?u = "\<lparr>k_user = tg_user who, k_ip = []\<rparr>" and ?i = "\<lparr>k_user = 0, k_ip = ip\<rparr>"
  let ?since = "now - magic_link_rate_window"
  obtain r1 s1 where c1: "mk_count_since mk ?u ?since s = (r1, s1)" by (cases "mk_count_since mk ?u ?since s")
  obtain r2 s2 where c2: "mk_count_since mk ?i ?since s1 = (r2, s2)" by (cases "mk_count_since mk ?i ?since s1")
  have 1: "ok s1 \<and> ltable s1 = ltable s \<and> table s1 = table s"
    using links.count_ok [OF assms(1), of ?u ?since] count_link_sessions [OF assms(1), of ?u ?since] c1 by simp
  then have "ok s2 \<and> ltable s2 = ltable s \<and> table s2 = table s"
    using links.count_ok [of s1 ?i ?since] count_link_sessions [of s1 ?i ?since] c2 by simp
  with 1 c1 c2 assms(2,3) show ?thesis
    by (auto simp: within_limits_def over_def Let_def split: sum.splits)
qed

lemma within_limits_Inr:
  assumes "ok s" and "over k mk st" and "within_limits k who ip now s = (Inr True, s')"
  shows "affected (key_matches \<lparr>k_user = tg_user who, k_ip = []\<rparr> (now - magic_link_rate_window)) (ltable s)
      < mc_max_per_email (lk_cfg k) \<and>
    affected (key_matches \<lparr>k_user = 0, k_ip = ip\<rparr> (now - magic_link_rate_window)) (ltable s)
      < mc_max_per_ip (lk_cfg k)"
proof -
  let ?u = "\<lparr>k_user = tg_user who, k_ip = []\<rparr>" and ?i = "\<lparr>k_user = 0, k_ip = ip\<rparr>"
  let ?since = "now - magic_link_rate_window"
  from assms(2,3) obtain n m s1 where c1: "mk_count_since mk ?u ?since s = (Inr n, s1)"
    and c2: "mk_count_since mk ?i ?since s1 = (Inr m, s')"
    and lim: "n < mc_max_per_email (lk_cfg k)" "m < mc_max_per_ip (lk_cfg k)"
    by (auto simp: within_limits_def over_def Let_def split: sum.splits prod.splits)
  have "ok s1" "ltable s1 = ltable s" using links.count_ok [OF assms(1), of ?u ?since] c1 by simp_all
  with links.count_rows [OF assms(1) c1] links.count_rows [OF _ c2] lim show ?thesis by simp
qed

text \<open>A request either leaves the tables alone or, when it mails, adds the one row it mailed.\<close>

lemma request_link_cases:
  assumes "ok s" and "over k mk st" and "request_link k entropy email ip now s = (res, mails, s')"
  shows "ok s' \<and> table s' = table s \<and>
    (mails = [] \<and> ltable s' = ltable s \<or>
     (\<exists>who token l. link_lookup k email s = Inr who \<and> new_token entropy = Inr token \<and> mails = deliver k who token \<and>
       l = link_for k who token ip now \<and>
       ltable s' = update_where (unspent_of (ml_user l)) (spend (ml_created_at l)) (ltable s) @ [(l, None)] \<and>
       affected (key_matches \<lparr>k_user = tg_user who, k_ip = []\<rparr> (now - magic_link_rate_window)) (ltable s)
         < mc_max_per_email (lk_cfg k) \<and>
       affected (key_matches \<lparr>k_user = 0, k_ip = ip\<rparr> (now - magic_link_rate_window)) (ltable s)
         < mc_max_per_ip (lk_cfg k)))"
proof (cases "link_lookup k email s")
  case (Inl e)
  with assms show ?thesis by (simp add: request_link_def)
next
  case (Inr who)
  obtain wr s1 where w: "within_limits k who ip now s = (wr, s1)" by (cases "within_limits k who ip now s")
  note w1 = within_limits_state [OF assms(1,2) w]
  show ?thesis
  proof (cases "mails = [] \<and> s' = s1")
    case True
    with w1 show ?thesis by simp
  next
    case False
    with assms(3) Inr w obtain token where t: "new_token entropy = Inr token" and allowed: "wr = Inr True"
      and i: "issue_link k who (link_for k who token ip now) token s1 = (res, mails, s')"
      by (auto simp: request_link_def split: sum.splits if_splits)
    let ?l = "link_for k who token ip now"
    obtain cr s2 where c: "mk_create mk ?l s1 = (cr, s2)" by (cases "mk_create mk ?l s1")
    have ok2: "ok s2" "table s2 = table s1" using links.create_ok [of s1 ?l] create_link_sessions [of s1 ?l] w1 c by simp_all
    show ?thesis
    proof (cases cr)
      case (Inl e)
      with i c assms(2) have "mails = [] \<and> s' = s2" by (simp add: issue_link_def over_def)
      with links.create_failed [of s1 ?l e s2] w1 c Inl ok2 show ?thesis by simp
    next
      case (Inr u)
      then have "s' = s2" "mails = deliver k who token" using i c assms(2) by (simp_all add: issue_link_def over_def)
      moreover have "ltable s2 = update_where (unspent_of (ml_user ?l)) (spend (ml_created_at ?l)) (ltable s) @ [(?l, None)]"
        using links.create_row [of s1 ?l s2] w1 c Inr by simp
      ultimately show ?thesis
        using t \<open>link_lookup k email s = Inr who\<close> w1 ok2 within_limits_Inr [OF assms(1,2) w [unfolded allowed]]
        by auto
    qed
  qed
qed

lemma consume_link_cases:
  assumes "ok s" and "over k mk st" and "consume_link k entropy ctx r token now at s = (res, cs, s')"
  shows "ok s' \<and>
    (ltable s' = ltable s \<and> table s' = table s \<and> cs = [] \<and> (\<exists>e. res = Inl e \<and>
        (e = invalid_link \<longrightarrow> (\<forall>l \<in> set (ltable s). \<not> live_link (hash_token token) now l))) \<or>
     ltable s' = update_where (live_link (hash_token token) now) (spend now) (ltable s) \<and>
     (\<exists>l s1. l \<in> set (ltable s) \<and> live_link (hash_token token) now l \<and> ok s1 \<and> table s1 = table s \<and>
        mk_consume mk (hash_token token) now s = (Inr (ml_user (fst l)), s1) \<and>
        (\<forall>u tok. res = Inr (u, tok) \<longrightarrow> u = ml_user (fst l) \<and> lk_allow k u s1 = Inr True \<and>
           (\<exists>sess. issue_cookie (lk_sessions k) entropy ctx r u at s1 = (Inr (tok, sess), cs, s')))))"
proof (cases "lk_federated k")
  case True
  with assms show ?thesis by (auto simp: consume_link_def local_disabled_def invalid_link_def)
next
  case False
  obtain cr s1 where c: "mk_consume mk (hash_token token) now s = (cr, s1)" by (cases "mk_consume mk (hash_token token) now s")
  have ok1: "ok s1" "table s1 = table s"
    using links.consume_ok [OF assms(1)] consume_link_sessions [OF assms(1)] c by (metis snd_conv)+
  show ?thesis
  proof (cases cr)
    case (Inl e)
    with assms(2,3) c False have "s' = s1" "cs = []" and
      "is_not_found e \<and> res = Inl invalid_link \<or> res = Inl (internal ''failed to consume the link'' e)"
      by (auto simp: consume_link_def over_def split: if_splits)
    with links.consume_failed [OF assms(1) c [unfolded Inl]] ok1 show ?thesis by (auto simp: is_not_found_def)
  next
    case (Inr u)
    from links.consume_row [OF assms(1) c [unfolded Inr]] obtain l where
      l: "l \<in> set (ltable s)" "live_link (hash_token token) now l" "ml_user (fst l) = u"
      and t: "ltable s1 = update_where (live_link (hash_token token) now) (spend now) (ltable s)" by auto
    have rest: "ok s' \<and> ltable s' = ltable s1 \<and> (\<forall>v tok. res = Inr (v, tok) \<longrightarrow> v = u \<and> lk_allow k u s1 = Inr True \<and>
        (\<exists>sess. issue_cookie (lk_sessions k) entropy ctx r u at s1 = (Inr (tok, sess), cs, s')))"
    proof (cases "link_allowed k u s1")
      case (Inl e)
      with assms(2,3) c \<open>cr = Inr u\<close> False ok1 show ?thesis by (auto simp: consume_link_def over_def)
    next
      case (Inr x)
      obtain ir ics s2 where i: "issue_cookie (lk_sessions k) entropy ctx r u at s1 = (ir, ics, s2)"
        by (cases "issue_cookie (lk_sessions k) entropy ctx r u at s1") auto
      have "lk_allow k u s1 = Inr True" using Inr by (auto simp: link_allowed_def split: sum.splits if_splits)
      moreover have "ok s2 \<and> ltable s2 = ltable s1"
        using issue_cookie_links [OF ok1(1) _ i] assms(2) by (simp add: over_def)
      ultimately show ?thesis
        using assms(2,3) c \<open>cr = Inr u\<close> False i Inr
        by (auto simp: consume_link_def over_def split: sum.splits)
    qed
    then show ?thesis
      by (intro conjI disjI2 exI [of _ l] exI [of _ s1]) (use l t c Inr ok1 in auto)
  qed
qed

end

section \<open>The rate limits over a history\<close>

definition window_count :: "link_key \<Rightarrow> time \<Rightarrow> magic_link list \<Rightarrow> int" where
  "window_count key t ls = affected
     (\<lambda>l. key_matches key (t - magic_link_rate_window) (l, None) \<and> ml_created_at l \<le> t) ls"

text \<open>What the limits rest on: the table still has a row for every link issued within the window.\<close>

definition booked :: "magic_link list \<Rightarrow> stored_link list \<Rightarrow> time \<Rightarrow> bool" where
  "booked ls xs t = ((\<forall>key since. t - magic_link_rate_window \<le> since \<longrightarrow>
       affected (\<lambda>l. key_matches key since (l, None)) ls \<le> affected (key_matches key since) xs) \<and>
     (\<forall>l \<in> set ls. ml_created_at l \<le> t) \<and> (\<forall>x \<in> set xs. ml_created_at (fst x) \<le> ml_expires_at (fst x)))"

definition caps :: "'s link_kit \<Rightarrow> link_key \<Rightarrow> int" where
  "caps k key = (if k_ip key = [] then mc_max_per_email (lk_cfg k) else mc_max_per_ip (lk_cfg k))"

lemma key_matches_fst [simp]: "key_matches key since (fst x, None) = key_matches key since x"
  by (simp add: key_matches_def)

lemma affected_update_same: "(\<And>x. p (f x) = p x) \<Longrightarrow> affected p (update_where q f xs) = affected p xs"
  by (induction xs) (simp_all add: update_where_def affected_Cons)

lemma key_matches_spend [simp]: "key_matches key since (spend at x) = key_matches key since x"
  by (simp add: key_matches_def spend_def)

lemma spend_fst [simp]: "fst (spend at x) = fst x"
  by (simp add: spend_def)

lemma booked_spend:
  "booked ls xs t \<Longrightarrow> t \<le> t' \<Longrightarrow> booked ls (update_where p (spend at) xs) t'"
  by (auto simp: booked_def affected_update_same set_update_where split: if_splits)

lemma booked_later: "booked ls xs t \<Longrightarrow> t \<le> t' \<Longrightarrow> booked ls xs t'"
  by (force simp: booked_def)

lemma booked_issue:
  assumes "booked ls xs t" and "t \<le> ml_created_at l" and "ml_created_at l \<le> ml_expires_at l"
  shows "booked (ls @ [l]) (update_where p (spend at) xs @ [(l, None)]) (ml_created_at l)"
  using booked_spend [OF assms(1,2), of p at] assms(3)
  by (auto simp: booked_def affected_append affected_Cons)

lemma booked_sweep:
  assumes "booked ls xs t" and "cutoff \<le> t - magic_link_rate_window"
  shows "booked ls (delete_where (\<lambda>x. ml_expires_at (fst x) < cutoff) xs) t"
proof -
  let ?p = "\<lambda>x. ml_expires_at (fst x) < cutoff"
  have "affected (key_matches key since) (delete_where ?p xs) = affected (key_matches key since) xs"
    if "t - magic_link_rate_window \<le> since" for key since
  proof -
    have "\<forall>x \<in> set xs. key_matches key since x \<longrightarrow> \<not> ?p x"
      using assms that by (force simp: booked_def key_matches_def)
    then have "filter (key_matches key since) (filter (\<lambda>x. \<not> ?p x) xs) = filter (key_matches key since) xs"
      by (induction xs) auto
    then show ?thesis by (simp add: affected_def delete_where_def)
  qed
  with assms(1) show ?thesis by (auto simp: booked_def set_delete_where)
qed

lemma window_count_old:
  assumes "\<forall>t. window_count key t ls \<le> cap" and "booked ls xs t0" and "t0 \<le> ml_created_at l"
    and "key_matches key 0 (l\<lparr>ml_created_at := 0\<rparr>, None) \<Longrightarrow>
      affected (key_matches key (ml_created_at l - magic_link_rate_window)) xs < cap"
  shows "window_count key t (ls @ [l]) \<le> cap"
proof (cases "key_matches key (t - magic_link_rate_window) (l, None) \<and> ml_created_at l \<le> t")
  case False
  then have "window_count key t (ls @ [l]) = window_count key t ls"
    by (auto simp: window_count_def affected_append affected_Cons)
  with assms(1) show ?thesis by simp
next
  case True
  let ?since = "ml_created_at l - magic_link_rate_window"
  from True have "key_matches key 0 (l\<lparr>ml_created_at := 0\<rparr>, None)" by (simp add: key_matches_def)
  from assms(4) [OF this] have cap: "affected (key_matches key ?since) xs < cap" .
  have "window_count key t ls \<le> affected (\<lambda>l. key_matches key ?since (l, None)) ls"
    unfolding window_count_def by (rule affected_mono) (use True in \<open>auto simp: key_matches_def\<close>)
  also have "\<dots> \<le> affected (key_matches key ?since) xs" using assms(2,3) by (simp add: booked_def)
  finally show ?thesis using cap True by (simp add: window_count_def affected_append affected_Cons)
qed

context link_login begin

lemma link_step_state:
  assumes "ok s" and "over k mk st"
  shows "ok (link_step k c s)"
proof (cases c)
  case (AskLink entropy email ip now)
  obtain res mails s' where "request_link k entropy email ip now s = (res, mails, s')"
    by (cases "request_link k entropy email ip now s") auto
  with request_link_cases [OF assms this] AskLink show ?thesis by (simp add: link_step_def)
next
  case (SpendLink entropy ctx r token now at)
  obtain res cs s' where "consume_link k entropy ctx r token now at s = (res, cs, s')"
    by (cases "consume_link k entropy ctx r token now at s") auto
  with consume_link_cases [OF assms this] SpendLink show ?thesis by (simp add: link_step_def)
next
  case (SweepLinks cutoff)
  then show ?thesis using links.sweep_ok [OF assms(1)] assms(2) by (simp add: link_step_def over_def)
qed

lemma ask_link_rate:
  assumes "ok s" and "over k mk st" and "0 \<le> mc_ttl (lk_cfg k)" and "booked ls (ltable s) t" and "t \<le> now"
    and "\<forall>t. window_count key t ls \<le> caps k key" and "k_user key = 0 \<or> k_ip key = []"
  shows "booked (ls @ issued k entropy email ip now s) (ltable (snd (snd (request_link k entropy email ip now s)))) now \<and>
    (\<forall>t. window_count key t (ls @ issued k entropy email ip now s) \<le> caps k key)"
proof -
  obtain res mails s' where q: "request_link k entropy email ip now s = (res, mails, s')"
    by (cases "request_link k entropy email ip now s") auto
  from request_link_cases [OF assms(1,2) q] show ?thesis
  proof (elim conjE disjE exE)
    assume "mails = []" "ltable s' = ltable s"
    with q assms(4-6) show ?thesis
      by (auto simp: issued_def booked_later split: sum.splits)
  next
    fix who token l
    assume who: "link_lookup k email s = Inr who" "new_token entropy = Inr token" "mails = deliver k who token"
      and l: "l = link_for k who token ip now"
      and t: "ltable s' = update_where (unspent_of (ml_user l)) (spend (ml_created_at l)) (ltable s) @ [(l, None)]"
      and u: "affected (key_matches \<lparr>k_user = tg_user who, k_ip = []\<rparr> (now - magic_link_rate_window)) (ltable s)
         < mc_max_per_email (lk_cfg k)"
      and i: "affected (key_matches \<lparr>k_user = 0, k_ip = ip\<rparr> (now - magic_link_rate_window)) (ltable s)
         < mc_max_per_ip (lk_cfg k)"
    have new: "issued k entropy email ip now s = [l]" using q who l by (simp add: issued_def deliver_def)
    have stamp: "ml_created_at l = now" "ml_created_at l \<le> ml_expires_at l" "ml_user l = tg_user who" "ml_ip l = ip"
      using l assms(3) by (simp_all add: link_for_def)
    have "affected (key_matches key (ml_created_at l - magic_link_rate_window)) (ltable s) < caps k key"
      if "key_matches key 0 (l\<lparr>ml_created_at := 0\<rparr>, None)"
    proof (cases "k_ip key = []")
      case True
      with that stamp have "key = \<lparr>k_user = tg_user who, k_ip = []\<rparr>" by (cases key) (auto simp: key_matches_def)
      with True u stamp show ?thesis by (simp add: caps_def)
    next
      case False
      with that stamp assms(7) have "key = \<lparr>k_user = 0, k_ip = ip\<rparr>" by (cases key) (auto simp: key_matches_def)
      with False i stamp show ?thesis by (simp add: caps_def)
    qed
    then have "window_count key t (ls @ [l]) \<le> caps k key" for t
      using window_count_old [OF assms(6,4), of l t] assms(5) stamp by simp
    moreover have "booked (ls @ [l]) (ltable s') now"
      using booked_issue [OF assms(4), of l] t assms(5) stamp by simp
    ultimately show ?thesis using new q by simp
  qed
qed

lemma link_step_rate:
  assumes "ok s" and "over k mk st" and "0 \<le> mc_ttl (lk_cfg k)" and "booked ls (ltable s) t" and "on_time t (c # cs)"
    and "\<forall>t. window_count key t ls \<le> caps k key" and "k_user key = 0 \<or> k_ip key = []"
  shows "\<exists>t'. on_time t' cs \<and> booked (ls @ link_step_issued k c s) (ltable (link_step k c s)) t' \<and>
    (\<forall>t. window_count key t (ls @ link_step_issued k c s) \<le> caps k key)"
proof (cases c)
  case (AskLink entropy email ip now)
  with ask_link_rate [OF assms(1-4) _ assms(6,7), of now entropy email ip] assms(5) show ?thesis
    by (auto simp: link_step_def link_step_issued_def)
next
  case (SpendLink entropy ctx r token now at)
  obtain res cks s' where q: "consume_link k entropy ctx r token now at s = (res, cks, s')"
    by (cases "consume_link k entropy ctx r token now at s") auto
  from consume_link_cases [OF assms(1,2) q]
  have "ltable s' = ltable s \<or> ltable s' = update_where (live_link (hash_token token) now) (spend now) (ltable s)"
    by auto
  then have "booked ls (ltable s') now"
    using booked_spend [OF assms(4), of now] booked_later [OF assms(4), of now] assms(5) SpendLink by auto
  with SpendLink q assms(5,6) show ?thesis by (auto simp: link_step_def link_step_issued_def)
next
  case (SweepLinks cutoff)
  obtain r s' where q: "mk_delete_expired mk cutoff s = (r, s')" by (cases "mk_delete_expired mk cutoff s")
  then have "booked ls (ltable s') t"
    using links.sweep_rows [OF assms(1), of cutoff _ s'] links.sweep_failed [OF assms(1), of cutoff _ s']
      booked_sweep [OF assms(4), of cutoff] assms(4,5) SweepLinks by (cases r) auto
  with SweepLinks q assms(2,5,6) show ?thesis by (auto simp: link_step_def link_step_issued_def over_def)
qed

lemma link_run_rate:
  assumes "ok s" and "over k mk st" and "0 \<le> mc_ttl (lk_cfg k)" and "booked ls (ltable s) t" and "on_time t cs"
    and "\<forall>t. window_count key t ls \<le> caps k key" and "k_user key = 0 \<or> k_ip key = []"
  shows "window_count key at (ls @ links_issued k cs s) \<le> caps k key"
  using assms
proof (induction cs arbitrary: s ls t)
  case (Cons c cs)
  from link_step_rate [OF Cons.prems] obtain t' where "on_time t' cs"
    "booked (ls @ link_step_issued k c s) (ltable (link_step k c s)) t'"
    "\<forall>t. window_count key t (ls @ link_step_issued k c s) \<le> caps k key" by blast
  from Cons.IH [OF link_step_state [OF Cons.prems(1,2)] Cons.prems(2,3) this(2,1,3) Cons.prems(7)]
  show ?case by simp
qed simp

text \<open>At most one link of a user is unspent.\<close>

lemma link_step_one_live:
  assumes "ok s" and "over k mk st" and "\<forall>u. affected (unspent_of u) (ltable s) \<le> 1"
  shows "affected (unspent_of u) (ltable (link_step k c s)) \<le> 1"
proof -
  have spent: "affected (unspent_of v) (update_where p (spend at) xs) \<le> affected (unspent_of v) xs" for v p at xs
    by (rule affected_update_le) (simp add: unspent_of_def spend_def)
  have gone: "affected (unspent_of v) (update_where (unspent_of v) (spend at) xs) = 0" for v at xs
    by (induction xs) (simp_all add: update_where_def affected_Cons unspent_of_def spend_def)
  show ?thesis
  proof (cases c)
    case (AskLink entropy email ip now)
    obtain res mails s' where q: "request_link k entropy email ip now s = (res, mails, s')"
      by (cases "request_link k entropy email ip now s") auto
    from request_link_cases [OF assms(1,2) q]
    have "ltable s' = ltable s \<or> (\<exists>l. ltable s' =
        update_where (unspent_of (ml_user l)) (spend (ml_created_at l)) (ltable s) @ [(l, None)])" by blast
    then have "affected (unspent_of u) (ltable s') \<le> 1"
    proof (elim disjE exE)
      fix l assume t: "ltable s' = update_where (unspent_of (ml_user l)) (spend (ml_created_at l)) (ltable s) @ [(l, None)]"
      show ?thesis
      proof (cases "u = ml_user l")
        case True
        then show ?thesis using gone [of u] by (simp add: t affected_append affected_Cons)
      next
        case False
        then have "\<not> unspent_of u (l, None)" by (simp add: unspent_of_def)
        with spent [of u "unspent_of (ml_user l)"] assms(3) show ?thesis
          by (simp add: t affected_append affected_Cons) (meson order_trans)
      qed
    qed (use assms(3) in simp)
    with AskLink q show ?thesis by (simp add: link_step_def)
  next
    case (SpendLink entropy ctx r token now at)
    obtain res cks s' where q: "consume_link k entropy ctx r token now at s = (res, cks, s')"
      by (cases "consume_link k entropy ctx r token now at s") auto
    from consume_link_cases [OF assms(1,2) q]
    have "ltable s' = ltable s \<or> ltable s' = update_where (live_link (hash_token token) now) (spend now) (ltable s)"
      by auto
    with spent [of u] assms(3) have "affected (unspent_of u) (ltable s') \<le> 1" by (metis order_trans)
    with SpendLink q show ?thesis by (simp add: link_step_def)
  next
    case (SweepLinks cutoff)
    obtain r s' where q: "mk_delete_expired mk cutoff s = (r, s')" by (cases "mk_delete_expired mk cutoff s")
    have "affected (unspent_of u) (delete_where p (ltable s)) \<le> 1" for p
      by (rule order_trans [OF affected_delete_le]) (use assms(3) in simp)
    then have "affected (unspent_of u) (ltable s') \<le> 1"
      using q links.sweep_rows [OF assms(1), of cutoff _ s'] links.sweep_failed [OF assms(1), of cutoff _ s'] assms(3)
      by (cases r) auto
    with SweepLinks q assms(2) show ?thesis by (simp add: link_step_def over_def)
  qed
qed

lemma link_run_one_live:
  assumes "ok s" and "over k mk st" and "\<forall>u. affected (unspent_of u) (ltable s) \<le> 1"
  shows "affected (unspent_of u) (ltable (link_run k cs s)) \<le> 1"
  using assms
proof (induction cs arbitrary: s)
  case (Cons c cs)
  from Cons.IH [OF link_step_state [OF Cons.prems(1,2)] Cons.prems(2)] link_step_one_live [OF Cons.prems]
  show ?case by simp
qed simp

end

section \<open>A spent link stays spent\<close>

definition all_spent :: "string \<Rightarrow> stored_link list \<Rightarrow> bool" where
  "all_spent h xs = list_all (\<lambda>x. ml_token_hash (fst x) = h \<longrightarrow> snd x \<noteq> None) xs"

definition mails_hash :: "string \<Rightarrow> link_call \<Rightarrow> bool" where
  "mails_hash h c = (case c of
     AskLink entropy email ip now \<Rightarrow> (case new_token entropy of Inr tok \<Rightarrow> hash_token tok = h | Inl _ \<Rightarrow> False)
   | _ \<Rightarrow> False)"

lemma all_spent_update: "all_spent h xs \<Longrightarrow> all_spent h (update_where p (spend at) xs)"
  by (auto simp: all_spent_def list_all_iff set_update_where spend_def)

lemma all_spent_delete: "all_spent h xs \<Longrightarrow> all_spent h (delete_where p xs)"
  by (auto simp: all_spent_def list_all_iff set_delete_where)

context link_login begin

lemma link_step_spent:
  assumes "ok s" and "over k mk st" and "all_spent h (ltable s)" and "\<not> mails_hash h c"
  shows "all_spent h (ltable (link_step k c s))"
proof (cases c)
  case (AskLink entropy email ip now)
  obtain res mails s' where q: "request_link k entropy email ip now s = (res, mails, s')"
    by (cases "request_link k entropy email ip now s") auto
  from request_link_cases [OF assms(1,2) q] assms(3,4) AskLink have "all_spent h (ltable s')"
    using all_spent_update [OF assms(3)]
    by (auto simp: mails_hash_def all_spent_def link_for_def)
  with AskLink q show ?thesis by (simp add: link_step_def)
next
  case (SpendLink entropy ctx r token now at)
  obtain res cks s' where q: "consume_link k entropy ctx r token now at s = (res, cks, s')"
    by (cases "consume_link k entropy ctx r token now at s") auto
  from consume_link_cases [OF assms(1,2) q] have "all_spent h (ltable s')"
    using all_spent_update [OF assms(3)] assms(3) by auto
  with SpendLink q show ?thesis by (simp add: link_step_def)
next
  case (SweepLinks cutoff)
  obtain r s' where q: "mk_delete_expired mk cutoff s = (r, s')" by (cases "mk_delete_expired mk cutoff s")
  have "all_spent h (ltable s')"
    using q links.sweep_rows [OF assms(1), of cutoff _ s'] links.sweep_failed [OF assms(1), of cutoff _ s']
      all_spent_delete [OF assms(3)] assms(3) by (cases r) auto
  with SweepLinks q assms(2) show ?thesis by (simp add: link_step_def over_def)
qed

lemma link_run_spent:
  assumes "ok s" and "\<forall>kc \<in> set cs. \<not> mails_hash h kc" and "over k mk st" and "all_spent h (ltable s)"
  shows "ok (link_run k cs s) \<and> all_spent h (ltable (link_run k cs s))"
  using assms
proof (induction cs arbitrary: s)
  case (Cons c cs)
  then show ?case
    using link_step_state [OF Cons.prems(1,3)] link_step_spent [OF Cons.prems(1,3,4), of c] by simp
qed simp

lemma consumed_spent:
  assumes "ok s" and "over k mk st" and "consume_link k entropy ctx r token now at s = (Inr (u, tok), cs, s')"
  shows "ok s' \<and> all_spent (hash_token token) (ltable s')"
proof -
  from consume_link_cases [OF assms] obtain l where ok': "ok s'" and l: "l \<in> set (ltable s)" "live_link (hash_token token) now l"
    and t: "ltable s' = update_where (live_link (hash_token token) now) (spend now) (ltable s)" by auto
  have "x = l" if "x \<in> set (ltable s)" "ml_token_hash (fst x) = hash_token token" for x
    using links.link_hashes [OF assms(1)] that l by (auto simp: distinct_map inj_on_def live_link_def)
  with l ok' show ?thesis
    by (auto simp: t all_spent_def list_all_iff set_update_where spend_def)
qed

lemma spent_refused:
  assumes "ok s" and "over k mk st" and "all_spent (hash_token token) (ltable s)"
  shows "\<exists>e. fst (consume_link k entropy ctx r token now at s) = Inl e \<and>
    fst (snd (consume_link k entropy ctx r token now at s)) = [] \<and>
    table (snd (snd (consume_link k entropy ctx r token now at s))) = table s"
proof -
  obtain res cs s' where q: "consume_link k entropy ctx r token now at s = (res, cs, s')"
    by (cases "consume_link k entropy ctx r token now at s") auto
  have "\<not> live_link (hash_token token) now l" if "l \<in> set (ltable s)" for l
    using assms(3) that by (auto simp: all_spent_def list_all_iff live_link_def)
  with consume_link_cases [OF assms(1,2) q] q show ?thesis by auto
qed

end

section \<open>The kit over \<open>porte/pg\<close>\<close>

lemma same_tables:
  "same_rows d d' \<Longrightarrow> session_table d' = session_table d \<and> link_table d' = link_table d"
  by (simp add: same_rows_table same_rows_links)

lemma session_create_links: "link_table (snd (session_create x d)) = link_table d"
proof (cases "session_create x d")
  case (Pair r d')
  then show ?thesis
    using session_create_Inr [of x d _ d'] session_create_Inl [of x d _ d'] same_tables [of d d']
    by (cases r) (auto simp: link_table_def)
qed

lemma link_create_sessions: "session_table (snd (link_create l d)) = session_table d"
proof (cases "link_create l d")
  case (Pair r d')
  show ?thesis
  proof (cases r)
    case (Inl e)
    with Pair same_tables [of d d'] show ?thesis by (simp add: link_create_def with_tx_error)
  next
    case (Inr u)
    with Pair have "link_create l d = (Inr u, d')" by simp
    then have "sessions d' = sessions d"
      unfolding link_create_def
      by (elim with_tx_Inr and_then_Inr)
        (auto dest!: lock_user_Inr lock_advisory_Inr stmt_Inr simp: insert_link_def split: if_splits)
    with Pair show ?thesis by (simp add: session_table_def)
  qed
qed

lemma link_consume_sessions: "session_table (snd (link_consume h now d)) = session_table d"
  by (auto simp: link_consume_def stmt_def session_table_def split: option.splits)

lemma link_count_sessions: "session_table (snd (link_count_since k since d)) = session_table d"
  by (simp add: link_count_since_def query_state)

lemma link_sweep_sessions: "session_table (snd (link_delete_expired cutoff d)) = session_table d"
  by (simp add: link_delete_expired_def stmt_def session_table_def)

interpretation pga: link_login pg_links link_table db_ok pg_sessions session_table voucher_holds
proof unfold_locales
  fix s :: db and x l h now k since cutoff
  show "link_table (snd (ss_create pg_sessions x s)) = link_table s"
    by (simp add: pg_sessions_def session_create_links)
  show "session_table (snd (mk_create pg_links l s)) = session_table s"
    by (simp add: pg_links_def link_create_sessions)
  show "session_table (snd (mk_consume pg_links h now s)) = session_table s"
    by (simp add: pg_links_def link_consume_sessions)
  show "session_table (snd (mk_count_since pg_links k since s)) = session_table s"
    by (simp add: pg_links_def link_count_sessions)
  show "session_table (snd (mk_delete_expired pg_links cutoff s)) = session_table s"
    by (simp add: pg_links_def link_sweep_sessions)
qed

lemma no_faults_count: "faults d = [] \<Longrightarrow> \<exists>n. link_count_since k since d = (Inr n, d)"
  by (auto simp: link_count_since_def)

lemma no_faults_link_create:
  assumes "faults d = []" and "user_exists (ml_user l) d" and "ml_token_hash l \<notin> l_hash ` set (links d)"
  shows "\<exists>d'. link_create l d = (Inr (), d')"
proof -
  let ?d = "d\<lparr>links := update_where (\<lambda>r. l_user r = ml_user l \<and> l_consumed_at r = None)
               (\<lambda>r. r\<lparr>l_consumed_at := Some (ml_created_at l)\<rparr>) (links d)\<rparr>"
  have "\<not> has_row (\<lambda>r. l_hash r = ml_token_hash l) (links ?d)"
    using assms(3) by (force simp: has_row_iff set_update_where)
  then have i: "stmt (insert_link (link_row_of l)) ?d = (Inr (), ?d\<lparr>links := links ?d @ [link_row_of l]\<rparr>)"
    using assms(1,2) by (simp add: insert_link_def link_row_of_def user_exists_def)
  have "link_create l d = (Inr (), ?d\<lparr>links := links ?d @ [link_row_of l]\<rparr>)"
    unfolding link_create_def
    by (rule no_faults_with_tx) (use assms(1) i in \<open>simp_all add: and_then_def lock_advisory_def wrapping_def\<close>)
  then show ?thesis by blast
qed

section \<open>Properties\<close>

lemma no_faults_limits:
  assumes "faults d = []" and "lk_links k = pg_links"
  shows "\<exists>b. within_limits k who ip now d = (Inr b, d)"
proof -
  have c: "mk_count_since (lk_links k) = link_count_since" by (simp add: assms(2) pg_links_def)
  let ?since = "now - magic_link_rate_window"
  obtain n m where "link_count_since \<lparr>k_user = tg_user who, k_ip = []\<rparr> ?since d = (Inr n, d)"
    "link_count_since \<lparr>k_user = 0, k_ip = ip\<rparr> ?since d = (Inr m, d)"
    using no_faults_count [OF assms(1)] by blast
  then show ?thesis by (simp add: within_limits_def c Let_def)
qed

lemma link_lookup_quiet:
  assumes "\<not> lk_federated k" and "\<forall>a e. lk_find_user k a s = Inl e \<longrightarrow> is_not_found e"
  shows "\<exists>who. link_lookup k email s = Inr who \<and> (tg_found who \<longrightarrow>
    normalize_address (lk_parse_address k) email = Some (tg_email who) \<and> lk_find_user k (tg_email who) s = Inr (tg_user who))"
proof (cases "normalize_address (lk_parse_address k) email")
  case (Some a)
  with assms show ?thesis by (cases "lk_find_user k a s") (auto simp: link_lookup_def no_target_def)
qed (use assms(1) in \<open>simp add: link_lookup_def no_target_def\<close>)

text \<open>An app with one account, allowing one link an hour to it, and a link in its mailbox.\<close>

definition mail_config :: link_config where
  "mail_config = \<lparr>mc_ttl = 0, mc_max_per_email = 1, mc_max_per_ip = 0, mc_client_ip = None\<rparr>"

definition mail_parse :: "string \<Rightarrow> string option" where
  "mail_parse a = (if List.member a CHR ''@'' then Some a else None)"

definition mail_find :: "string \<Rightarrow> db \<Rightarrow> int result" where
  "mail_find a d = (if a = ''a@x'' then Inr 1 else Inl (Sentinel ErrNotFound))"

definition mail_deps :: "db link_deps" where
  "mail_deps = \<lparr>ld_links = Some pg_links, ld_sessions = Some web_manager, ld_find_user = Some mail_find,
     ld_send = Some (\<lambda>_. Inr ()), ld_build_link = Some (\<lambda>token. ''https://app/verify#'' @ token),
     ld_allow = Some (\<lambda>_ _. Inr True)\<rparr>"

definition mail_kit :: "db link_kit" where
  "mail_kit = \<lparr>lk_cfg = \<lparr>mc_ttl = default_magic_link_ttl, mc_max_per_email = 1, mc_max_per_ip = default_max_per_ip,
       mc_client_ip = None\<rparr>, lk_links = pg_links, lk_sessions = web_manager, lk_find_user = mail_find,
     lk_build_link = (\<lambda>token. ''https://app/verify#'' @ token), lk_allow = (\<lambda>_ _. Inr True),
     lk_parse_address = mail_parse, lk_federated = False\<rparr>"

definition linked_db :: db where
  "linked_db = web_db\<lparr>links := [\<lparr>l_hash = hash_token ''l1nk'', l_user = 1, l_ip = [], l_created_at = 500,
     l_expires_at = 5000, l_consumed_at = None\<rparr>]\<rparr>"

lemma mail_kit_new: "new_link_kit link_deps_names mail_parse mail_config mail_deps = Inr mail_kit"
  by (simp add: new_link_kit_def mail_kit_def mail_deps_def mail_config_def link_deps_names_def or_default_def
      enabled_def web_manager_def web_config_def resolved_def zero_config_def Let_def)

lemma mail_kit_fields [simp]: "lk_links mail_kit = pg_links" "lk_sessions mail_kit = web_manager"
  "\<not> lk_federated mail_kit" "lk_find_user mail_kit = mail_find" "lk_allow mail_kit u d = Inr True"
  "mc_max_per_email (lk_cfg mail_kit) = 1"
  by (simp_all add: mail_kit_def)

lemma linked_db_ok [simp]: "db_ok linked_db"
  by (simp add: db_ok_defs linked_db_def web_db_def empty_db_def)

lemma web_issue_on:
  assumes "faults d = []" and "user_exists 1 d" and "sessions d = []" and "session_seq d = 0"
  shows "\<exists>sess d'. issue_cookie web_manager web_entropy ctx r 1 at d =
    (Inr (web_token, sess), set_session_cookie web_manager r web_token, d') \<and> faults d' = []"
proof -
  let ?t = "to_issue web_manager ctx (zero_session\<lparr>s_user := 1\<rparr>) web_token at"
  have "voucher_holds ?t d"
    by (auto simp: to_issue_def bind_to_caller_def voucher_holds_def zero_session_def split: option.splits)
  with assms obtain y d' where "session_create ?t d = (Inr y, d')" "faults d' = []"
    using pg_create_row [of d ?t] by simp
  moreover have "ss_create (m_store web_manager) = session_create" by (simp add: pg_sessions_def)
  ultimately show ?thesis by (simp add: issue_cookie_def issue_cookie_for_def issue_for_unfold web_token_new)
qed

lemma linked_consume:
  "\<exists>d'. consume_link mail_kit web_entropy None web_get ''l1nk'' 1000 1000 linked_db =
    (Inr (1, web_token), set_session_cookie web_manager web_get web_token, d') \<and> faults d' = []"
proof -
  let ?d = "linked_db\<lparr>links := map (\<lambda>r. r\<lparr>l_consumed_at := Some 1000\<rparr>) (links linked_db)\<rparr>"
  have "link_consume (hash_token ''l1nk'') 1000 linked_db = (Inr 1, ?d)"
    by (simp add: link_consume_def linked_db_def web_db_def empty_db_def live_row_def update_where_def)
  moreover have "faults ?d = []" "user_exists 1 ?d" "sessions ?d = []" "session_seq ?d = 0"
    by (simp_all add: linked_db_def web_db_def empty_db_def user_exists_def has_row_def)
  from web_issue_on [OF this, of None web_get 1000] obtain sess d' where
    "issue_cookie web_manager web_entropy None web_get 1 1000 ?d =
      (Inr (web_token, sess), set_session_cookie web_manager web_get web_token, d')" "faults d' = []" by blast
  ultimately show ?thesis by (simp add: consume_link_def pg_links_def link_allowed_def)
qed

text \<open> The request form is no oracle. While the database answers and the app's lookup only ever fails
  with not-found, the kit gives the same answer to every address (a known one, an unknown one, one
  that does not parse, one over a limit) and every source, and hands over a mail only for the
  account the app's lookup found. \<close>

theorem request_same_answer:
  assumes "\<not> lk_federated k" and "lk_links k = pg_links" and "faults d = []" and "new_token entropy = Inr token"
    and "hash_token token \<notin> l_hash ` set (links d)"
    and "\<forall>a e. lk_find_user k a d = Inl e \<longrightarrow> is_not_found e"
    and "\<forall>a u. lk_find_user k a d = Inr u \<longrightarrow> user_exists u d"
  shows "fst (request_link k entropy email ip now d) = Inr () \<and>
    (\<forall>mail \<in> set (fst (snd (request_link k entropy email ip now d))). mail_link mail = lk_build_link k token \<and>
       normalize_address (lk_parse_address k) email = Some (mail_to mail) \<and> (\<exists>u. lk_find_user k (mail_to mail) d = Inr u))"
proof -
  from link_lookup_quiet [OF assms(1,6)] assms(7) obtain who where who: "link_lookup k email d = Inr who"
    and found: "tg_found who \<longrightarrow> user_exists (tg_user who) d \<and>
      normalize_address (lk_parse_address k) email = Some (tg_email who) \<and> lk_find_user k (tg_email who) d = Inr (tg_user who)"
    by blast
  obtain allowed where w: "within_limits k who ip now d = (Inr allowed, d)"
    using no_faults_limits [OF assms(3,2)] by blast
  let ?l = "link_for k who token ip now"
  show ?thesis
  proof (cases "tg_found who \<and> allowed")
    case False
    then show ?thesis using who w assms(4) by (auto simp: request_link_def)
  next
    case True
    with found obtain d' where "link_create ?l d = (Inr (), d')"
      using no_faults_link_create [OF assms(3), of ?l] assms(5) by (auto simp: link_for_def)
    with True found who w assms(2,4) show ?thesis
      by (simp add: request_link_def issue_link_def pg_links_def deliver_def)
  qed
qed

theorem request_same_answer_witness:
  "fst (request_link mail_kit web_entropy ''nobody@x'' ''203.0.113.5'' 1000 web_db) = Inr () \<and>
   fst (request_link mail_kit web_entropy ''a@x'' ''203.0.113.5'' 1000 web_db) = Inr ()"
proof -
  have "hash_token web_token \<notin> l_hash ` set (links web_db)" "faults web_db = []" "user_exists 1 web_db"
    by (simp_all add: web_db_def empty_db_def user_exists_def has_row_def)
  then show ?thesis
    using request_same_answer [of mail_kit web_db web_entropy web_token] web_token_new
    by (simp add: mail_find_def is_not_found_def)
qed



text \<open> C7: Single use. Once a link has signed somebody in, over any later history that does not mail the
  same token again, presenting it is refused, sets no cookie and creates no session, at any time
  and on any replica. \<close>

theorem link_single_use:
  assumes "lk_links k = pg_links" and "m_store (lk_sessions k) = pg_sessions" and "db_ok d"
    and "consume_link k entropy ctx r token now at d = (Inr (u, tok), cs, d')"
    and "\<forall>c \<in> set calls. \<not> mails_hash (hash_token token) c"
  shows "\<exists>e. consume_link k entropy' ctx' r' token now' at' (link_run k calls d') =
      (Inl e, [], snd (snd (consume_link k entropy' ctx' r' token now' at' (link_run k calls d')))) \<and>
    session_table (snd (snd (consume_link k entropy' ctx' r' token now' at' (link_run k calls d')))) =
      session_table (link_run k calls d')"
proof -
  have o: "over k pg_links pg_sessions" using assms(1,2) by (simp add: over_def)
  from pga.consumed_spent [OF assms(3) o assms(4)] pga.link_run_spent [OF _ assms(5) o]
  have "db_ok (link_run k calls d')" "all_spent (hash_token token) (link_table (link_run k calls d'))" by blast+
  from pga.spent_refused [OF this(1) o this(2), of entropy' ctx' r' now' at'] show ?thesis
    by (cases "consume_link k entropy' ctx' r' token now' at' (link_run k calls d')") auto
qed

theorem link_single_use_witness:
  "\<exists>e cs. consume_link mail_kit web_entropy None web_get ''l1nk'' 1000 1000 (link_run mail_kit [SweepLinks 100]
      (snd (snd (consume_link mail_kit web_entropy None web_get ''l1nk'' 1000 1000 linked_db)))) = (Inl e, [], cs)"
proof -
  obtain d' where c: "consume_link mail_kit web_entropy None web_get ''l1nk'' 1000 1000 linked_db =
    (Inr (1, web_token), set_session_cookie web_manager web_get web_token, d')" using linked_consume by blast
  from link_single_use [OF mail_kit_fields(1) _ linked_db_ok c, of "[SweepLinks 100]" web_entropy None web_get 1000 1000]
  show ?thesis by (auto simp: c mails_hash_def)
qed



end
