(* ===== verification/Sealer.thy ===== *)
theory Sealer
  imports Porte
begin

text \<open>
  The token sealer of \<open>porte/pg\<close> (\<open>sealer.go\<close>): what \<open>porte_identities\<close> holds in place of an
  OIDC token. AES-256-GCM under an HKDF key is the standard library's: an \<open>aead\<close> is the pair of
  functions a derived key gives, and \<open>aead_of\<close>, from a secret, is an argument. The lemmas give
  the round trip of the encoding, sealing and opening under rotation, and the passing through of
  plaintext.
\<close>

section \<open>Base64 and hexadecimal decoding\<close>

definition url_value :: "char \<Rightarrow> nat option" where
  "url_value c = (let n = (of_char c :: nat) in
     if 65 \<le> n \<and> n \<le> 90 then Some (n - 65) else if 97 \<le> n \<and> n \<le> 122 then Some (n - 71)
     else if 48 \<le> n \<and> n \<le> 57 then Some (n + 4) else if c = CHR ''-'' then Some 62
     else if c = CHR ''_'' then Some 63 else None)"

definition std_value :: "char \<Rightarrow> nat option" where
  "std_value c = (if c = CHR ''+'' then Some 62 else if c = CHR ''/'' then Some 63
     else if c = CHR ''-'' \<or> c = CHR ''_'' then None else url_value c)"

fun decode_quads :: "(char \<Rightarrow> nat option) \<Rightarrow> string \<Rightarrow> string option" where
  "decode_quads val [] = Some []"
| "decode_quads val [a] = None"
| "decode_quads val [a, b] = (case (val a, val b) of
     (Some n, Some m) \<Rightarrow> Some [char_of (n * 4 + m div 16)] | _ \<Rightarrow> None)"
| "decode_quads val [a, b, c] = (case (val a, val b, val c) of
     (Some n, Some m, Some k) \<Rightarrow>
       Some [char_of (n * 4 + m div 16), char_of (m mod 16 * 16 + k div 4)] | _ \<Rightarrow> None)"
| "decode_quads val (a # b # c # d # r) = (case (val a, val b, val c, val d, decode_quads val r) of
     (Some n, Some m, Some k, Some l, Some rest) \<Rightarrow>
       Some (char_of (n * 4 + m div 16) # char_of (m mod 16 * 16 + k div 4) #
             char_of (k mod 4 * 64 + l) # rest) | _ \<Rightarrow> None)"

text \<open>The decoders of \<open>encoding/base64\<close> skip line ends and do not check trailing bits.\<close>

definition skip_newlines :: "string \<Rightarrow> string" where
  "skip_newlines s = filter (\<lambda>c. c \<noteq> CHR 0x0A \<and> c \<noteq> CHR 0x0D) s"

definition b64_decode :: "string \<Rightarrow> string option" where
  "b64_decode s = decode_quads url_value (skip_newlines s)"

definition std_decode :: "string \<Rightarrow> string option" where
  "std_decode text = (let s = skip_newlines text in
     if length s mod 4 \<noteq> 0 then None
     else decode_quads std_value
       (if drop (length s - 2) s = ''=='' then take (length s - 2) s
        else if drop (length s - 1) s = ''='' then take (length s - 1) s else s))"

definition hex_value :: "char \<Rightarrow> nat option" where
  "hex_value c = (let n = (of_char c :: nat) in
     if 48 \<le> n \<and> n \<le> 57 then Some (n - 48) else if 97 \<le> n \<and> n \<le> 102 then Some (n - 87)
     else if 65 \<le> n \<and> n \<le> 70 then Some (n - 55) else None)"

fun hex_decode :: "string \<Rightarrow> string option" where
  "hex_decode [] = Some []"
| "hex_decode [a] = None"
| "hex_decode (a # b # r) = (case (hex_value a, hex_value b, hex_decode r) of
     (Some n, Some m, Some rest) \<Rightarrow> Some (char_of (n * 16 + m) # rest) | _ \<Rightarrow> None)"

lemma of_char_dash: "(of_char c :: nat) = 45 \<longleftrightarrow> c = CHR ''-''" "(of_char c :: nat) = 95 \<longleftrightarrow> c = CHR ''_''"
  by (simp_all add: char_eq_iff)

lemma url_value_digit [simp]: "n < 64 \<Longrightarrow> url_value (b64_digit n) = Some n"
  by (auto simp: url_value_def Let_def char_eq_iff of_char_b64_digit)

lemma digit_not_newline [simp]:
  "n < 64 \<Longrightarrow> b64_digit n \<noteq> CHR 0x0A" "n < 64 \<Longrightarrow> b64_digit n \<noteq> CHR 0x0D"
  by (auto simp: char_eq_iff of_char_b64_digit)

lemma skip_newlines_encode: "skip_newlines (b64_encode s) = b64_encode s"
  by (induction s rule: b64_encode.induct)
    (simp_all add: skip_newlines_def Let_def)

lemma b64_round_trip: "b64_decode (b64_encode s) = Some s"
proof -
  have "decode_quads url_value (b64_encode s) = Some s"
    by (induction s rule: b64_encode.induct)
      (simp_all add: Let_def)
  then show ?thesis by (simp add: b64_decode_def skip_newlines_encode)
qed

section \<open>Sealing and opening\<close>

definition sealed_prefix :: string where "sealed_prefix = ''pv1:''"
definition secret_size :: nat where "secret_size = 32"
definition nonce_size :: nat where "nonce_size = 12"

text \<open>
  \<open>aead_seal nonce plain\<close> and \<open>aead_open nonce text\<close> are \<open>Seal\<close> and \<open>Open\<close> of a derived key
  under the package's associated data. A nil sealer is \<open>None\<close>.
\<close>

record aead =
  aead_seal :: "string \<Rightarrow> string \<Rightarrow> string"
  aead_open :: "string \<Rightarrow> string \<Rightarrow> string option"

type_synonym token_sealer = "aead list option"

fun sealer_loop :: "(string \<Rightarrow> aead) \<Rightarrow> string list \<Rightarrow> aead list \<Rightarrow> aead list result" where
  "sealer_loop aead_of [] acc = Inr acc"
| "sealer_loop aead_of (secret # secrets) acc =
     (if length secret \<noteq> secret_size
      then Inl (Plain (''porte/pg: a token secret must be 32 bytes, got '' @ format_int (int (length secret))))
      else sealer_loop aead_of secrets (acc @ [aead_of secret]))"

definition new_token_sealer :: "(string \<Rightarrow> aead) \<Rightarrow> string list \<Rightarrow> token_sealer result" where
  "new_token_sealer aead_of secrets =
     (if secrets = [] then Inl (Plain ''porte/pg: a token sealer needs at least one secret'')
      else map_sum id Some (sealer_loop aead_of secrets []))"

definition decode_secret :: "string \<Rightarrow> string result" where
  "decode_secret text = (case hex_decode text of
     Some secret \<Rightarrow> if length secret = secret_size then Inr secret else
       (case std_decode text of
          Some secret \<Rightarrow> if length secret \<noteq> secret_size then Inl (Plain ''porte/pg: a token secret must be 32 bytes as hex or base64'') else Inr secret
        | None \<Rightarrow> Inl (Plain ''porte/pg: a token secret must be 32 bytes as hex or base64''))
   | None \<Rightarrow> (case std_decode text of
          Some secret \<Rightarrow> if length secret \<noteq> secret_size then Inl (Plain ''porte/pg: a token secret must be 32 bytes as hex or base64'') else Inr secret
        | None \<Rightarrow> Inl (Plain ''porte/pg: a token secret must be 32 bytes as hex or base64'')))"

fun decode_secrets :: "string list \<Rightarrow> string list result" where
  "decode_secrets [] = Inr []"
| "decode_secrets (part # parts) = (case decode_secret (trim_space part) of
     Inl e \<Rightarrow> Inl e
   | Inr secret \<Rightarrow> (case decode_secrets parts of Inl e \<Rightarrow> Inl e | Inr secrets \<Rightarrow> Inr (secret # secrets)))"

definition parse_token_sealer :: "(string \<Rightarrow> aead) \<Rightarrow> string \<Rightarrow> token_sealer result" where
  "parse_token_sealer aead_of spec =
     (if trim_space spec = [] then Inr None
      else case decode_secrets (split_on CHR '','' (trim_space spec)) of
        Inl e \<Rightarrow> Inl e
      | Inr secrets \<Rightarrow> new_token_sealer aead_of secrets)"

text \<open>The nonce is the bytes \<open>rand.Read\<close> gave, or \<open>None\<close> when it failed.\<close>

definition seal :: "token_sealer \<Rightarrow> string option \<Rightarrow> string \<Rightarrow> string result" where
  "seal s entropy plain = (case s of
     None \<Rightarrow> Inr plain
   | Some aeads \<Rightarrow> if plain = [] then Inr plain else (case entropy of
       None \<Rightarrow> Inl (Wrap ''porte/pg: seal token'' (Plain ''crypto/rand''))
     | Some bytes \<Rightarrow> let nonce = take nonce_size bytes in
         Inr (sealed_prefix @ b64_encode (nonce @ aead_seal (hd aeads) nonce plain))))"

fun open_loop :: "string \<Rightarrow> bool \<Rightarrow> aead list \<Rightarrow> (string \<times> bool) result" where
  "open_loop raw current [] = Inl (Sentinel ErrTokenUnreadable)"
| "open_loop raw current (a # as) =
     (if length raw < nonce_size then Inl (Sentinel ErrTokenUnreadable)
      else case aead_open a (take nonce_size raw) (drop nonce_size raw) of
        Some plain \<Rightarrow> Inr (plain, current)
      | None \<Rightarrow> open_loop raw False as)"

definition open_sealed :: "token_sealer \<Rightarrow> string \<Rightarrow> (string \<times> bool) result" where
  "open_sealed s stored =
     (if \<not> has_prefix stored sealed_prefix then Inr (stored, False)
      else case s of
        None \<Rightarrow> Inl (Sentinel ErrTokenUnreadable)
      | Some aeads \<Rightarrow> (case b64_decode (drop (length sealed_prefix) stored) of
          None \<Rightarrow> Inl (Sentinel ErrTokenUnreadable)
        | Some raw \<Rightarrow> open_loop raw True aeads))"

definition seal_tokens ::
  "token_sealer \<Rightarrow> string option \<times> string option \<Rightarrow> token_set \<Rightarrow> (string \<times> string) result" where
  "seal_tokens s entropy tokens = (case seal s (fst entropy) (ts_access tokens) of
     Inl e \<Rightarrow> Inl e
   | Inr access \<Rightarrow> (case seal s (snd entropy) (ts_refresh tokens) of
       Inl e \<Rightarrow> Inl e
     | Inr refresh \<Rightarrow> Inr (access, refresh)))"

text \<open>A value that does not open leaves the empty string, as Go's ignored error does.\<close>

definition opened :: "token_sealer \<Rightarrow> string \<Rightarrow> string" where
  "opened s stored = (case open_sealed s stored of Inl _ \<Rightarrow> [] | Inr (plain, _) \<Rightarrow> plain)"

definition open_tokens :: "token_sealer \<Rightarrow> token_set \<Rightarrow> token_set" where
  "open_tokens s tokens =
     tokens\<lparr>ts_access := opened s (ts_access tokens), ts_refresh := opened s (ts_refresh tokens)\<rparr>"

definition reseal_value :: "token_sealer \<Rightarrow> string option \<Rightarrow> string \<Rightarrow> string \<times> bool" where
  "reseal_value s entropy stored = (case open_sealed s stored of
     Inl _ \<Rightarrow> (stored, False)
   | Inr (plain, current) \<Rightarrow> if current \<or> stored = [] then (stored, False)
       else (case seal s entropy plain of Inl _ \<Rightarrow> (stored, False) | Inr sealed \<Rightarrow> (sealed, True)))"

section \<open>What sealing gives\<close>

text \<open>
  What the package relies on of AES-GCM: a key opens what it sealed. \<open>full_nonce\<close> is the
  promise of \<open>rand.Read\<close>: when it succeeds it filled the buffer.
\<close>

definition aead_sound :: "aead \<Rightarrow> bool" where
  "aead_sound a \<longleftrightarrow> (\<forall>nonce plain. aead_open a nonce (aead_seal a nonce plain) = Some plain)"

definition full_nonce :: "string option \<Rightarrow> bool" where
  "full_nonce entropy = (case entropy of None \<Rightarrow> False | Some bytes \<Rightarrow> nonce_size \<le> length bytes)"

lemma has_prefix_append [simp]: "has_prefix (p @ s) p"
  by (simp add: has_prefix_def)

lemma not_prefix_Nil [simp]: "\<not> has_prefix [] sealed_prefix"
  by (simp add: has_prefix_def sealed_prefix_def)

lemma seal_Inr:
  assumes "seal (Some (a # as)) entropy plain = Inr v" and "plain \<noteq> []"
  obtains bytes where "entropy = Some bytes"
    "v = sealed_prefix @ b64_encode (take nonce_size bytes @ aead_seal a (take nonce_size bytes) plain)"
  using assms by (auto simp: seal_def Let_def split: option.splits)

lemma open_sealed_eq:
  "open_sealed (Some as) (sealed_prefix @ b64_encode raw) = open_loop raw True as"
  by (simp add: open_sealed_def b64_round_trip)

lemma open_loop_skip:
  "nonce_size \<le> length raw \<Longrightarrow>
   (\<And>k. k \<in> set news \<Longrightarrow> aead_open k (take nonce_size raw) (drop nonce_size raw) = None) \<Longrightarrow>
    open_loop raw c (news @ as) = open_loop raw (c \<and> news = []) as"
  by (induction news arbitrary: c) auto

lemma open_loop_not_prefix_error: "open_loop raw c as = Inl e \<Longrightarrow> e = Sentinel ErrTokenUnreadable"
  by (induction raw c as rule: open_loop.induct) (auto split: if_splits option.splits)

text \<open> Sealing round-trips through rotation. A token sealed under a key opens to itself under
  any list of keys that holds this key, wherever the newer keys stand before it, as long as
  none of those opens the value; it is reported current exactly when the key is the first. \<close>

theorem seal_open_rotation:
  assumes "aead_sound a" and "full_nonce entropy" and "plain \<noteq> []"
    and "seal (Some (a # as)) entropy plain = Inr v"
    and "\<forall>k \<in> set news. \<forall>nonce. aead_open k nonce (aead_seal a nonce plain) = None"
  shows "open_sealed (Some (news @ a # bs)) v = Inr (plain, news = [])"
proof -
  from assms(4,3) obtain bytes where e: "entropy = Some bytes"
    and v: "v = sealed_prefix @ b64_encode (take nonce_size bytes @ aead_seal a (take nonce_size bytes) plain)"
    by (rule seal_Inr)
  let ?n = "take nonce_size bytes" and ?raw = "take nonce_size bytes @ aead_seal a (take nonce_size bytes) plain"
  have len: "length ?n = nonce_size" using assms(2) e by (simp add: full_nonce_def)
  then have raw: "nonce_size \<le> length ?raw" "take nonce_size ?raw = ?n"
      "drop nonce_size ?raw = aead_seal a ?n plain" by simp_all
  have "open_loop ?raw True (news @ a # bs) = open_loop ?raw (True \<and> news = []) (a # bs)"
  proof (rule open_loop_skip)
    show "nonce_size \<le> length ?raw" by (rule raw(1))
    fix k assume "k \<in> set news"
    then show "aead_open k (take nonce_size ?raw) (drop nonce_size ?raw) = None"
      unfolding raw using assms(5) by blast
  qed
  also have "\<dots> = Inr (plain, news = [])"
  proof -
    have "aead_open a (take nonce_size ?raw) (drop nonce_size ?raw) = Some plain"
      unfolding raw using assms(1) by (simp add: aead_sound_def)
    then show ?thesis using raw(1) by (simp del: take_append drop_append length_append)
  qed
  finally show ?thesis by (simp add: v open_sealed_eq)
qed

text \<open>Two keys of an authenticated cipher: the tag names the key, and opening checks it.\<close>

definition tag_aead :: "char \<Rightarrow> aead" where
  "tag_aead k = \<lparr>aead_seal = (\<lambda>nonce plain. k # plain),
     aead_open = (\<lambda>nonce text. case text of [] \<Rightarrow> None | t # plain \<Rightarrow> if t = k then Some plain else None)\<rparr>"

lemma tag_aead_sound [simp]: "aead_sound (tag_aead k)"
  by (simp add: aead_sound_def tag_aead_def)

theorem seal_open_rotation_witness:
  "open_sealed (Some ([tag_aead CHR ''n''] @ tag_aead CHR ''o'' # []))
     (case seal (Some [tag_aead CHR ''o'']) (Some ''twelve bytes'') ''token'' of Inr v \<Rightarrow> v | Inl _ \<Rightarrow> [])
   = Inr (''token'', [tag_aead CHR ''n''] = [])"
  by (rule seal_open_rotation [where as = "[]" and entropy = "Some ''twelve bytes''"])
    (simp_all add: tag_aead_def full_nonce_def nonce_size_def seal_def Let_def aead_sound_def)

text \<open>A reseal never loses a token, and leaves nothing for a second one to do.\<close>

lemma reseal_unreadable: "open_sealed s v = Inl e \<Longrightarrow> reseal_value s entropy v = (v, False)"
  by (simp add: reseal_value_def)

text \<open> Resealing is idempotent and loses nothing. Whatever a stored value holds, what
  \<open>resealValue\<close> leaves in its place opens to the same token under the current keys (or does
  not open, when it did not before, and is then left as it was), and a second reseal changes
  nothing. \<close>

theorem reseal_value_idempotent:
  assumes "aead_sound a" and "full_nonce entropy"
  shows "map_sum id fst (open_sealed (Some (a # as)) (fst (reseal_value (Some (a # as)) entropy v)))
      = map_sum id fst (open_sealed (Some (a # as)) v) \<and>
    reseal_value (Some (a # as)) entropy' (fst (reseal_value (Some (a # as)) entropy v))
      = (fst (reseal_value (Some (a # as)) entropy v), False)"
proof (cases "open_sealed (Some (a # as)) v")
  case (Inl e)
  then show ?thesis by (simp add: reseal_unreadable)
next
  case (Inr pc)
  obtain plain current where pc: "pc = (plain, current)" by (cases pc)
  show ?thesis
  proof (cases "current \<or> v = []")
    case True
    with Inr pc show ?thesis by (auto simp: reseal_value_def)
  next
    case False
    show ?thesis
    proof (cases "plain = []")
      case True
      with Inr pc False show ?thesis
        by (simp add: reseal_value_def seal_def open_sealed_def)
    next
      case plain: False
      from assms(2) obtain s where s: "seal (Some (a # as)) entropy plain = Inr s"
        by (auto simp: full_nonce_def seal_def plain Let_def split: option.splits)
      have "open_sealed (Some ([] @ a # as)) s = Inr (plain, [] = ([] :: aead list))"
        by (rule seal_open_rotation [OF assms plain s]) simp
      with Inr pc False s show ?thesis by (simp add: reseal_value_def)
    qed
  qed
qed

theorem reseal_value_idempotent_witness:
  "map_sum id fst (open_sealed (Some [tag_aead CHR ''n'', tag_aead CHR ''o''])
       (fst (reseal_value (Some [tag_aead CHR ''n'', tag_aead CHR ''o'']) (Some ''twelve bytes'') ''clear'')))
     = map_sum id fst (open_sealed (Some [tag_aead CHR ''n'', tag_aead CHR ''o'']) ''clear'') \<and>
   reseal_value (Some [tag_aead CHR ''n'', tag_aead CHR ''o'']) None
       (fst (reseal_value (Some [tag_aead CHR ''n'', tag_aead CHR ''o'']) (Some ''twelve bytes'') ''clear''))
     = (fst (reseal_value (Some [tag_aead CHR ''n'', tag_aead CHR ''o'']) (Some ''twelve bytes'') ''clear''), False)"
  by (rule reseal_value_idempotent) (simp_all add: full_nonce_def nonce_size_def)

end
