(* ===== verification/Pg_Identities.thy ===== *)
theory Pg_Identities
  imports Pg_Codes Sealer "HOL-Library.List_Lexorder"
begin

text \<open>
  The user and identity stores of \<open>porte/pg\<close>: \<open>pg.go\<close> (\<open>UserStore\<close>, \<open>IdentityStore\<close>),
  \<open>linking.go\<close> and \<open>takeover.go\<close> (resolving an OIDC login to an account), \<open>optional.go\<close> and
  \<open>erase.go\<close>. A transaction runs alone here; what orders two of them is the account's advisory
  lock. The lemmas say to which account a login resolves, what a takeover purges, and what no
  operation touches.
\<close>

section \<open>The tables a purge clears (optional.go)\<close>

definition optional_tables :: "table list" where
  "optional_tables = [PorteLoginCodes, PorteMagicLinks]"

fun table_name :: "table \<Rightarrow> string" where
  "table_name PorteIdentities = ''porte_identities''"
| "table_name PorteSessions = ''porte_sessions''"
| "table_name PorteLoginCodes = ''porte_login_codes''"
| "table_name PorteMagicLinks = ''porte_magic_links''"

fun lookup_tables :: "table list \<Rightarrow> db \<Rightarrow> table list result \<times> db" where
  "lookup_tables [] = return_tx []"
| "lookup_tables (t # ts) =
     and_then (\<lambda>d. wrapping (''porte/pg: look up '' @ table_name t)
       (query (\<lambda>d. List.member (optional_present d) t) d)) (\<lambda>exists.
     and_then (lookup_tables ts) (\<lambda>rest. return_tx (if exists then t # rest else rest)))"

definition cache_tables :: "table list \<Rightarrow> db \<Rightarrow> unit result \<times> db" where
  "cache_tables present d = (Inr (), d\<lparr>table_cache := Some present\<rparr>)"

definition user_tables :: "table list \<Rightarrow> db \<Rightarrow> table list result \<times> db" where
  "user_tables required d = (case table_cache d of
     Some present \<Rightarrow> (Inr (required @ filter (List.member present) optional_tables), d)
   | None \<Rightarrow> and_then (lookup_tables optional_tables) (\<lambda>present.
       and_then (cache_tables present) (\<lambda>_.
       return_tx (required @ filter (List.member present) optional_tables))) d)"

definition has_table :: "table \<Rightarrow> db \<Rightarrow> bool" where
  "has_table t d = (\<not> List.member optional_tables t \<or> List.member (optional_present d) t)"

text \<open>\<open>DELETE FROM t WHERE user_id = user\<close>; a table that is not there fails the statement.\<close>

definition clear_user :: "table \<Rightarrow> int \<Rightarrow> db \<Rightarrow> unit result \<times> db" where
  "clear_user t user d = (if \<not> has_table t d then (Inl SqlFault, d) else (Inr (), case t of
     PorteIdentities \<Rightarrow> d\<lparr>identities := delete_where (\<lambda>i. i_user i = user) (identities d)\<rparr>
   | PorteSessions \<Rightarrow> d\<lparr>sessions := delete_where (\<lambda>s. r_user s = user) (sessions d)\<rparr>
   | PorteLoginCodes \<Rightarrow> d\<lparr>codes := delete_where (\<lambda>c. cr_user c = user) (codes d)\<rparr>
   | PorteMagicLinks \<Rightarrow> d\<lparr>links := delete_where (\<lambda>l. l_user l = user) (links d)\<rparr>))"

fun clear_tables :: "string \<Rightarrow> table list \<Rightarrow> int \<Rightarrow> db \<Rightarrow> unit result \<times> db" where
  "clear_tables what [] user = return_tx ()"
| "clear_tables what (t # ts) user =
     and_then (\<lambda>d. wrapping (what @ table_name t) (stmt (clear_user t user) d)) (\<lambda>_.
     clear_tables what ts user)"

section \<open>Resolving an OIDC login (linking.go, takeover.go)\<close>

record match =
  m_user :: int
  m_by_email :: bool
  m_unverified :: bool
  m_inserted :: bool

definition zero_match :: match where
  "zero_match = \<lparr>m_user = 0, m_by_email = False, m_unverified = False, m_inserted = False\<rparr>"

definition refusal :: "claims \<Rightarrow> error" where
  "refusal c = (if \<not> c_email_verified c
     then Plain (''porte/pg: '' @ c_email c @ '' is already registered under a different identity, and the provider did not verify the address, so porte will not link them'')
     else Plain (''porte/pg: '' @ c_email c @ '' already belongs to another identity of this provider, so porte will not link a second one''))"

definition purge :: "int \<Rightarrow> db \<Rightarrow> unit result \<times> db" where
  "purge user = and_then (user_tables [PorteIdentities, PorteSessions]) (\<lambda>list.
     clear_tables ''porte/pg: purge '' list user)"

definition identity_key :: "identity_row \<Rightarrow> string \<times> string" where
  "identity_key i = (i_provider i, i_subject i)"

definition holds_provider :: "int \<Rightarrow> string \<Rightarrow> db \<Rightarrow> bool" where
  "holds_provider user prov d = has_row (\<lambda>i. i_user i = user \<and> i_provider i = prov) (identities d)"

definition by_verified_email :: "claims \<Rightarrow> db \<Rightarrow> (match \<times> bool) result \<times> db" where
  "by_verified_email c d =
     (let found = zero_match\<lparr>m_by_email := True\<rparr> in
      case query (\<lambda>d. row_with u_email (c_email c) (users d)) d of
        (Inl e, d1) \<Rightarrow> (Inl (Wrap ''porte/pg: resolve user by email'' e), d1)
      | (Inr None, d1) \<Rightarrow> (Inr (found, False), d1)
      | (Inr (Some u), d1) \<Rightarrow> (case lock_user (u_id u) False d1 of
          (Inl e, d2) \<Rightarrow> (Inl (Wrap ''porte/pg: resolve user by email'' e), d2)
        | (Inr _, d2) \<Rightarrow> (case query (\<lambda>d. map_option
              (\<lambda>u. (u_email_verified u, holds_provider (u_id u) (c_provider c) d))
              (find (\<lambda>v. u_id v = u_id u \<and> u_email v = c_email c) (users d))) d2 of
            (Inl e, d3) \<Rightarrow> (Inl (Wrap ''porte/pg: resolve user by email'' e), d3)
          | (Inr None, d3) \<Rightarrow> (Inr (zero_match, False), d3)
          | (Inr (Some (verified, linked)), d3) \<Rightarrow>
              (Inr (found\<lparr>m_user := u_id u, m_unverified := \<not> verified\<rparr>, \<not> verified \<or> \<not> linked), d3))))"

definition existing_user :: "claims \<Rightarrow> db \<Rightarrow> (match \<times> bool) result \<times> db" where
  "existing_user c d =
     (case query (\<lambda>d. row_with identity_key (c_provider c, c_subject c) (identities d)) d of
        (Inl e, d1) \<Rightarrow> (Inl (Wrap ''porte/pg: resolve user'' e), d1)
      | (Inr (Some i), d1) \<Rightarrow> (Inr (zero_match\<lparr>m_user := i_user i\<rparr>, True), d1)
      | (Inr None, d1) \<Rightarrow>
          if \<not> c_email_verified c then (Inr (zero_match, False), d1) else by_verified_email c d1)"

text \<open>
  \<open>ON CONFLICT (email) DO NOTHING\<close>: the sequence moves, and no row comes back when the address
  is taken.
\<close>

definition insert_user :: "claims \<Rightarrow> db \<Rightarrow> int result \<times> db" where
  "insert_user c d =
     (let avatar_source = (if c_avatar_url c \<noteq> [] then ''oidc'' else []) in
      wrapping ''porte/pg: insert user'' (stmt (\<lambda>d.
        let new = user_seq d + 1; d1 = d\<lparr>user_seq := new\<rparr> in
        if has_row (\<lambda>u. u_email u = c_email c) (users d) then (Inr 0, d1)
        else (Inr new, d1\<lparr>users := users d @ [\<lparr>u_id = new, u_email = c_email c,
          u_email_verified = c_email_verified c, u_name = display_name c,
          u_avatar_url = c_avatar_url c, u_avatar_source = avatar_source,
          u_locale = normalize_locale (c_locale c), u_updated_at = sql_now d\<rparr>]\<rparr>)) d))"

definition kept_locale :: "string \<Rightarrow> string" where
  "kept_locale claimed = (if claimed = [] then [] else normalize_locale claimed)"

definition or_kept :: "string \<Rightarrow> string \<Rightarrow> string" where
  "or_kept new old = (if new = [] then old else new)"

definition updated_user :: "claims \<Rightarrow> time \<Rightarrow> user_row \<Rightarrow> user_row" where
  "updated_user c now u = u\<lparr>
     u_email := (if c_email_verified c then c_email c else u_email u),
     u_email_verified := u_email_verified u \<or> c_email_verified c,
     u_name := or_kept (display_name c) (u_name u),
     u_avatar_url := or_kept (c_avatar_url c) (u_avatar_url u),
     u_avatar_source := (if c_avatar_url c \<noteq> [] then ''oidc'' else u_avatar_source u),
     u_locale := or_kept (kept_locale (c_locale c)) (u_locale u),
     u_updated_at := now\<rparr>"

text \<open>The unique index on the address refuses an update onto somebody else's.\<close>

definition update_user :: "int \<Rightarrow> claims \<Rightarrow> db \<Rightarrow> unit result \<times> db" where
  "update_user user c d = wrapping ''porte/pg: update user'' (stmt (\<lambda>d.
     if c_email_verified c \<and> user_exists user d \<and>
        has_row (\<lambda>u. u_email u = c_email c \<and> u_id u \<noteq> user) (users d)
     then (Inl SqlConstraint, d)
     else (Inr (), d\<lparr>users := update_where (\<lambda>u. u_id u = user) (updated_user c (sql_now d)) (users d)\<rparr>)) d)"

definition find_or_insert :: "claims \<Rightarrow> db \<Rightarrow> match result \<times> db" where
  "find_or_insert c d = (case existing_user c d of
     (Inl e, d1) \<Rightarrow> (Inl e, d1)
   | (Inr (found, ok), d1) \<Rightarrow> if ok then (Inr found, d1) else
       (case insert_user c d1 of
          (Inl e, d2) \<Rightarrow> (Inl e, d2)
        | (Inr inserted, d2) \<Rightarrow>
            if inserted \<noteq> 0 then (Inr (zero_match\<lparr>m_user := inserted, m_inserted := True\<rparr>), d2)
            else (case existing_user c d2 of
                (Inl e, d3) \<Rightarrow> (Inl e, d3)
              | (Inr (found, ok), d3) \<Rightarrow> (Inr (if \<not> ok then zero_match else found), d3))))"

definition resolve_or_create :: "claims \<Rightarrow> db \<Rightarrow> int result \<times> db" where
  "resolve_or_create c = and_then (find_or_insert c) (\<lambda>found.
     if m_inserted found then return_tx (m_user found)
     else if m_user found = 0 then fail_tx (refusal c)
     else and_then (if m_by_email found \<and> m_unverified found then purge (m_user found) else return_tx ())
       (\<lambda>_. and_then (update_user (m_user found) c) (\<lambda>_. return_tx (m_user found))))"

definition new_identity :: "int \<Rightarrow> string \<Rightarrow> string \<Rightarrow> identity_row" where
  "new_identity user prov subj = \<lparr>i_user = user, i_provider = prov, i_subject = subj,
     i_password_hash = [], i_access_token = [], i_refresh_token = [], i_token_expiry = None,
     i_roles = None, i_roles_synced_at = None, i_synced_at = None\<rparr>"

text \<open>An insert by (provider, subject) that updates the row there is with \<open>f\<close>.\<close>

definition upsert_identity ::
  "identity_row \<Rightarrow> (identity_row \<Rightarrow> identity_row) \<Rightarrow> db \<Rightarrow> unit result \<times> db" where
  "upsert_identity row f d =
     (if \<not> user_exists (i_user row) d then (Inl SqlConstraint, d)
      else if has_row (\<lambda>i. identity_key i = identity_key row) (identities d)
        then (Inr (), d\<lparr>identities := update_where (\<lambda>i. identity_key i = identity_key row) f (identities d)\<rparr>)
        else (Inr (), d\<lparr>identities := identities d @ [row]\<rparr>))"

definition upsert_from_oidc :: "claims \<Rightarrow> db \<Rightarrow> int result \<times> db" where
  "upsert_from_oidc c0 d =
     (let c = c0\<lparr>c_email := to_lower (trim_space (c_email c0))\<rparr> in
      if c_email c = []
      then (Inl (Plain (''porte/pg: the provider asserted no email for subject '' @ c_subject c)), d)
      else with_tx ''porte/pg: begin'' ''porte/pg: commit''
        (and_then (resolve_or_create c) (\<lambda>user.
         and_then (\<lambda>d. wrapping ''porte/pg: link identity'' (stmt (upsert_identity
             (new_identity user (c_provider c) (c_subject c)) (\<lambda>i. i\<lparr>i_user := user\<rparr>)) d)) (\<lambda>_.
         return_tx user))) d)"

section \<open>Password accounts (pg.go)\<close>

definition create_from_password :: "string \<Rightarrow> string \<Rightarrow> db \<Rightarrow> int result \<times> db" where
  "create_from_password email name d = wrapping ''porte/pg: create user from password'' (stmt (\<lambda>d.
     let new = user_seq d + 1; d1 = d\<lparr>user_seq := new\<rparr> in
     if has_row (\<lambda>u. u_email u = email) (users d) then (Inl SqlConstraint, d1)
     else (Inr new, d1\<lparr>users := users d @ [\<lparr>u_id = new, u_email = email, u_email_verified = False,
       u_name = name, u_avatar_url = [], u_avatar_source = [], u_locale = default_locale,
       u_updated_at = sql_now d\<rparr>]\<rparr>)) d)"

definition find_by_email :: "string \<Rightarrow> db \<Rightarrow> int result \<times> db" where
  "find_by_email email d = (case query (\<lambda>d. row_with u_email email (users d)) d of
     (Inl e, d1) \<Rightarrow> (Inl (Wrap ''porte/pg: find user by email'' e), d1)
   | (Inr None, d1) \<Rightarrow> (Inl (Sentinel ErrNotFound), d1)
   | (Inr (Some u), d1) \<Rightarrow> (Inr (u_id u), d1))"

section \<open>Stored identities (pg.go)\<close>

text \<open>
  \<open>marshalRoles\<close> and the \<open>json.Unmarshal\<close> of \<open>scanIdentity\<close> undo each other on a list of
  strings, so the column holds the list; nil is NULL.
\<close>

definition scan_identity :: "token_sealer \<Rightarrow> identity_row \<Rightarrow> stored_identity" where
  "scan_identity sealer i = \<lparr>si_user = i_user i, si_provider = i_provider i,
     si_subject = i_subject i, si_password_hash = i_password_hash i,
     si_tokens = (open_tokens sealer \<lparr>ts_access = i_access_token i, ts_refresh = i_refresh_token i,
       ts_expiry = 0\<rparr>)\<lparr>ts_expiry := from_null_time (i_token_expiry i)\<rparr>,
     si_roles = i_roles i, si_roles_synced_at = from_null_time (i_roles_synced_at i),
     si_synced_at = from_null_time (i_synced_at i)\<rparr>"

definition identity_find :: "token_sealer \<Rightarrow> string \<Rightarrow> string \<Rightarrow> db \<Rightarrow> stored_identity result \<times> db" where
  "identity_find sealer prov subj d =
     (case query (\<lambda>d. row_with identity_key (prov, subj) (identities d)) d of
        (Inl e, d1) \<Rightarrow> (Inl (Wrap ''porte/pg: find identity'' e), d1)
      | (Inr None, d1) \<Rightarrow> (Inl (Sentinel ErrNotFound), d1)
      | (Inr (Some i), d1) \<Rightarrow> (Inr (scan_identity sealer i), d1))"

definition identity_row_of :: "stored_identity \<Rightarrow> string \<Rightarrow> string \<Rightarrow> identity_row" where
  "identity_row_of s access refresh = \<lparr>i_user = si_user s, i_provider = si_provider s,
     i_subject = si_subject s, i_password_hash = si_password_hash s, i_access_token = access,
     i_refresh_token = refresh, i_token_expiry = null_time (ts_expiry (si_tokens s)),
     i_roles = si_roles s, i_roles_synced_at = null_time (si_roles_synced_at s),
     i_synced_at = null_time (si_synced_at s)\<rparr>"

text \<open>The conditional insert of \<open>saveFederated\<close> and the number of rows it wrote.\<close>

definition insert_federated :: "identity_row \<Rightarrow> db \<Rightarrow> int result \<times> db" where
  "insert_federated row d =
     (if \<not> (identity_exists (i_provider row) (i_subject row) (i_user row) d \<or>
            \<not> holds_provider (i_user row) (i_provider row) d)
      then (Inr 0, d)
      else if has_row (\<lambda>i. identity_key i = identity_key row) (identities d)
      then (let p = (\<lambda>i. identity_key i = identity_key row \<and> i_user i = i_user row) in
            (Inr (affected p (identities d)),
             d\<lparr>identities := update_where p (\<lambda>i. row\<lparr>i_user := i_user i\<rparr>) (identities d)\<rparr>))
      else if \<not> user_exists (i_user row) d then (Inl SqlConstraint, d)
      else (Inr 1, d\<lparr>identities := identities d @ [row]\<rparr>))"

definition save_federated :: "identity_row \<Rightarrow> db \<Rightarrow> unit result \<times> db" where
  "save_federated row d = with_user_lock (i_user row) False
     (and_then (\<lambda>d. wrapping ''porte/pg: save identity'' (stmt (insert_federated row) d)) (\<lambda>written.
      if written = 0 then fail_tx (Sentinel ErrNotFound) else return_tx ())) d"

definition identity_save ::
  "token_sealer \<Rightarrow> string option \<times> string option \<Rightarrow> stored_identity \<Rightarrow> db \<Rightarrow> unit result \<times> db" where
  "identity_save sealer entropy s d =
     (case seal_tokens sealer entropy (si_tokens s) of
        Inl e \<Rightarrow> (Inl e, d)
      | Inr (access, refresh) \<Rightarrow>
          if si_provider s \<noteq> provider_local then save_federated (identity_row_of s access refresh) d
          else wrapping ''porte/pg: save identity'' (stmt (upsert_identity
            (identity_row_of s access refresh) (\<lambda>_. identity_row_of s access refresh)) d))"

definition mark_roles_synced :: "string \<Rightarrow> string \<Rightarrow> time \<Rightarrow> db \<Rightarrow> unit result \<times> db" where
  "mark_roles_synced prov subj at d = require_one ''porte/pg: mark roles synced'' (stmt (\<lambda>d.
     (Inr (affected (\<lambda>i. identity_key i = (prov, subj)) (identities d)),
      d\<lparr>identities := update_where (\<lambda>i. identity_key i = (prov, subj))
          (\<lambda>i. i\<lparr>i_roles_synced_at := Some at\<rparr>) (identities d)\<rparr>)) d)"

definition identity_list_by_user :: "token_sealer \<Rightarrow> int \<Rightarrow> db \<Rightarrow> stored_identity list result \<times> db" where
  "identity_list_by_user sealer user d = wrapping ''porte/pg: list identities'' (query (\<lambda>d.
     map (scan_identity sealer)
       (sort_key i_provider (filter (\<lambda>i. i_user i = user) (identities d)))) d)"

section \<open>Erasing an identity (erase.go)\<close>

definition err_moved :: error where "err_moved = Plain ''identity moved''"

definition identity_owner :: "string \<Rightarrow> string \<Rightarrow> db \<Rightarrow> int option result \<times> db" where
  "identity_owner prov subj d = wrapping ''porte/pg: find identity to erase'' (query (\<lambda>d.
     map_option i_user (row_with identity_key (prov, subj) (identities d))) d)"

definition erase_locked :: "int \<Rightarrow> string \<Rightarrow> string \<Rightarrow> db \<Rightarrow> unit result \<times> db" where
  "erase_locked user prov subj = and_then (identity_owner prov subj) (\<lambda>owner. case owner of
     None \<Rightarrow> return_tx ()
   | Some o1 \<Rightarrow> if o1 \<noteq> user then fail_tx err_moved else
       and_then (user_tables [PorteSessions]) (\<lambda>list.
       and_then (clear_tables ''porte/pg: erase '' list user) (\<lambda>_ d.
       wrapping ''porte/pg: erase identity'' (stmt (\<lambda>d. (Inr (),
         d\<lparr>identities := delete_where (\<lambda>i. identity_key i = (prov, subj)) (identities d)\<rparr>)) d))))"

text \<open>
  \<open>others n\<close> is what other processes committed between the read that learns the owner and the
  transaction that locks it, in the attempt with \<open>n\<close> to follow.
\<close>

fun erase_loop :: "nat \<Rightarrow> (nat \<Rightarrow> db \<Rightarrow> db) \<Rightarrow> string \<Rightarrow> string \<Rightarrow> db \<Rightarrow> unit result \<times> db" where
  "erase_loop 0 others prov subj d =
     (Inl (Plain (''porte/pg: identity '' @ subj @ '' moved between accounts while erasing'')), d)"
| "erase_loop (Suc n) others prov subj d = (case identity_owner prov subj d of
     (Inl e, d1) \<Rightarrow> (Inl e, d1)
   | (Inr None, d1) \<Rightarrow> (Inr (), d1)
   | (Inr (Some user), d1) \<Rightarrow>
       (case with_user_lock user False (erase_locked user prov subj) (others n d1) of
          (Inl e, d2) \<Rightarrow> if e = err_moved then erase_loop n others prov subj d2 else (Inl e, d2)
        | (Inr u, d2) \<Rightarrow> (Inr u, d2)))"

definition erase_identity ::
  "(nat \<Rightarrow> db \<Rightarrow> db) \<Rightarrow> string \<Rightarrow> string \<Rightarrow> db \<Rightarrow> unit result \<times> db" where
  "erase_identity others prov subj d = erase_loop 3 others prov subj d"

section \<open>Every operation keeps the database well-formed\<close>

lemma keeps_set_cache [keeps_intros]: "keeps_ok (cache_tables p)"
  unfolding cache_tables_def by (rule keeps_okI) (auto simp: seqs_grow_def db_ok_defs)

lemma keeps_lookup_tables [keeps_intros]: "keeps_ok (lookup_tables ts)"
  by (induction ts) (auto intro!: keeps_intros)

lemma keeps_user_tables [keeps_intros]: "keeps_ok (user_tables required)"
proof -
  have "keeps_ok (and_then (lookup_tables optional_tables) (\<lambda>present. and_then (cache_tables present)
      (\<lambda>_. return_tx (required @ filter (List.member present) optional_tables))))"
    by (intro keeps_intros)
  then show ?thesis
    by (auto simp: keeps_ok_def user_tables_def split: option.splits)
qed

lemma keeps_clear_user [keeps_intros]: "keeps_ok (clear_user t user)"
  by (rule keeps_okI)
    (auto simp: clear_user_def seqs_grow_def delete_ok split: if_splits table.splits)

lemma keeps_clear_tables [keeps_intros]: "keeps_ok (clear_tables what ts user)"
  by (induction ts) (auto intro!: keeps_intros)

lemma keeps_purge [keeps_intros]: "keeps_ok (purge user)"
  unfolding purge_def by (intro keeps_intros)

lemma by_verified_email_state:
  "db_ok d \<Longrightarrow> db_ok (snd (by_verified_email c d)) \<and> seqs_grow d (snd (by_verified_email c d))"
  unfolding by_verified_email_def
  by (auto simp: Let_def split: prod.splits sum.splits option.splits
      dest!: query_Inr query_Inl lock_user_Inr lock_user_Inl)

lemma keeps_existing_user [keeps_intros]: "keeps_ok (existing_user c)"
proof (rule keeps_okI)
  fix d r d' assume "db_ok d" "existing_user c d = (r, d')"
  with by_verified_email_state [of "tick d" c] show "db_ok d' \<and> seqs_grow d d'"
    unfolding existing_user_def
    by (auto split: prod.splits sum.splits option.splits if_splits dest!: query_Inr query_Inl)
qed

lemma insert_user_row_ok:
  assumes "db_ok d" and "u_email row \<notin> u_email ` set (users d)" and "u_id row = user_seq d + 1"
  shows "db_ok (d\<lparr>user_seq := user_seq d + 1, users := users d @ [row]\<rparr>)"
  using assms by (auto simp: db_ok_defs)

lemma keeps_new_user:
  assumes "\<And>d. u_id (row d) = user_seq d + 1" "\<And>d. u_email (row d) = email"
  shows "keeps_ok (\<lambda>d. if has_row (\<lambda>u. u_email u = email) (users d)
     then (f d, d\<lparr>user_seq := user_seq d + 1\<rparr>)
     else (g d, d\<lparr>user_seq := user_seq d + 1, users := users d @ [row d]\<rparr>))"
proof (rule keeps_okI)
  fix d r d'
  assume d: "db_ok d" and r: "(if has_row (\<lambda>u. u_email u = email) (users d)
     then (f d, d\<lparr>user_seq := user_seq d + 1\<rparr>)
     else (g d, d\<lparr>user_seq := user_seq d + 1, users := users d @ [row d]\<rparr>)) = (r, d')"
  show "db_ok d' \<and> seqs_grow d d'"
  proof (cases "has_row (\<lambda>u. u_email u = email) (users d)")
    case True
    with r have d': "d' = d\<lparr>user_seq := user_seq d + 1\<rparr>" by simp
    then have "same_rows d d'" "seqs_grow d d'" by (simp_all add: same_rows_def seqs_grow_def)
    with db_ok_same_rows [OF d] show ?thesis by blast
  next
    case False
    with r have d': "d' = d\<lparr>user_seq := user_seq d + 1, users := users d @ [row d]\<rparr>" by simp
    from False assms insert_user_row_ok [OF d, of "row d"] show ?thesis
      by (auto simp: d' seqs_grow_def table_simps)
  qed
qed

lemma keeps_insert_user [keeps_intros]: "keeps_ok (insert_user c)"
  unfolding insert_user_def Let_def by (intro keeps_intros keeps_new_user) simp_all

lemma keeps_create_from_password: "keeps_ok (create_from_password email name)"
  unfolding create_from_password_def Let_def by (intro keeps_intros keeps_new_user) simp_all

lemma distinct_update_one:
  assumes "distinct (map u_id us)" and "distinct (map u_email us)"
    and "\<And>u v. u \<in> set us \<Longrightarrow> v \<in> set us \<Longrightarrow> u_id u = k \<Longrightarrow> u_id v \<noteq> k \<Longrightarrow> u_email (f u) \<noteq> u_email v"
  shows "distinct (map u_email (update_where (\<lambda>u. u_id u = k) f us))"
  using assms
proof (induction us)
  case Nil
  show ?case by (simp add: update_where_def)
next
  case (Cons u us)
  have us: "distinct (map u_email (update_where (\<lambda>u. u_id u = k) f us))"
    using Cons by simp
  show ?case
  proof (cases "u_id u = k")
    case True
    then have no: "\<And>v. v \<in> set us \<Longrightarrow> u_id v \<noteq> k" using Cons.prems(1) by (auto simp: image_iff)
    then have "update_where (\<lambda>u. u_id u = k) f us = us" by (rule update_where_none)
    moreover have "u_email (f u) \<notin> u_email ` set us"
      using Cons.prems(3) [of u] True no by (metis imageE list.set_intros)
    ultimately show ?thesis using True Cons.prems(2) by (simp add: update_where_def)
  next
    case False
    have "u_email u \<notin> u_email ` set (update_where (\<lambda>u. u_id u = k) f us)"
    proof
      assume "u_email u \<in> u_email ` set (update_where (\<lambda>u. u_id u = k) f us)"
      then obtain v where v: "v \<in> set us" "u_email u = u_email (if u_id v = k then f v else v)"
        by (auto simp: set_update_where)
      show False
      proof (cases "u_id v = k")
        case True
        with Cons.prems(3) [of v u] False v show False by simp
      next
        case False
        with v Cons.prems(2) show False by simp
      qed
    qed
    moreover have "update_where (\<lambda>u. u_id u = k) f (u # us) = u # update_where (\<lambda>u. u_id u = k) f us"
      using False by (simp add: update_where_def)
    ultimately show ?thesis using us by simp
  qed
qed

lemma updated_user_id [simp]: "u_id (updated_user c now u) = u_id u"
  by (simp add: updated_user_def)

lemma update_user_rows_ok:
  assumes "db_ok d"
    and "c_email_verified c \<Longrightarrow> \<forall>u \<in> set (users d). u_email u = c_email c \<longrightarrow> u_id u = user"
  shows "db_ok (d\<lparr>users := update_where (\<lambda>u. u_id u = user) (updated_user c now) (users d)\<rparr>)"
proof -
  let ?us = "update_where (\<lambda>u. u_id u = user) (updated_user c now) (users d)"
  have ids: "map u_id ?us = map u_id (users d)" by (simp add: map_update_where)
  then have set_ids: "u_id ` set ?us = u_id ` set (users d)" by (metis list.set_map)
  have dist: "distinct (map u_id (users d))" "distinct (map u_email (users d))"
    using assms(1) by (simp_all add: db_ok_defs)
  have emails: "distinct (map u_email ?us)"
  proof (rule distinct_update_one [OF dist])
    fix u v assume uv: "u \<in> set (users d)" "v \<in> set (users d)" "u_id u = user" "u_id v \<noteq> user"
    show "u_email (updated_user c now u) \<noteq> u_email v"
    proof (cases "c_email_verified c")
      case True
      with assms(2) uv show ?thesis by (auto simp: updated_user_def)
    next
      case False
      with dist(2) uv show ?thesis by (auto simp: updated_user_def distinct_map inj_on_def)
    qed
  qed
  have "\<forall>i \<in> u_id ` set ?us. 0 < i \<and> i \<le> user_seq d"
    using assms(1) unfolding set_ids by (auto simp: db_ok_defs)
  then have bounds: "\<forall>u \<in> set ?us. 0 < u_id u \<and> u_id u \<le> user_seq d" by blast
  show ?thesis
    using assms(1) emails ids set_ids bounds
    unfolding db_ok_def keys_ok_def refs_ok_def seqs_ok_def stamps_ok_def by simp
qed

lemma keeps_update_user [keeps_intros]: "keeps_ok (update_user user c)"
  unfolding update_user_def
proof (intro keeps_intros keeps_okI)
  fix d r d'
  assume d: "db_ok d" and r: "(if c_email_verified c \<and> user_exists user d \<and>
        has_row (\<lambda>u. u_email u = c_email c \<and> u_id u \<noteq> user) (users d)
     then (Inl SqlConstraint, d)
     else (Inr (), d\<lparr>users := update_where (\<lambda>u. u_id u = user) (updated_user c (sql_now d)) (users d)\<rparr>)) = (r, d')"
  show "db_ok d' \<and> seqs_grow d d'"
  proof (cases "user_exists user d")
    case True
    with r d update_user_rows_ok [OF d, of c user "sql_now d"] show ?thesis
      by (auto simp: seqs_grow_def table_simps split: if_splits)
  next
    case False
    then have "update_where (\<lambda>u. u_id u = user) (updated_user c (sql_now d)) (users d) = users d"
      by (auto simp: user_exists_iff intro!: update_where_none)
    with r d False show ?thesis by (auto simp: seqs_grow_def)
  qed
qed

lemma keeps_find_or_insert [keeps_intros]: "keeps_ok (find_or_insert c)"
proof -
  have "find_or_insert c = and_then (existing_user c) (\<lambda>fo. if snd fo then return_tx (fst fo) else
      and_then (insert_user c) (\<lambda>n. if n \<noteq> 0 then return_tx (zero_match\<lparr>m_user := n, m_inserted := True\<rparr>)
        else and_then (existing_user c) (\<lambda>fo. return_tx (if \<not> snd fo then zero_match else fst fo))))"
    by (rule ext) (auto simp: find_or_insert_def and_then_def return_tx_def
        split: prod.splits sum.splits)
  then show ?thesis by (simp only:) (intro keeps_intros)
qed

lemma keeps_resolve_or_create [keeps_intros]: "keeps_ok (resolve_or_create c)"
  unfolding resolve_or_create_def by (intro keeps_intros)

lemma identity_key_eta: "identity_key = (\<lambda>i. (i_provider i, i_subject i))"
  by (rule ext) (simp add: identity_key_def)

lemma replace_identities_ok:
  "db_ok d \<Longrightarrow> distinct (map identity_key is) \<Longrightarrow> \<forall>i \<in> set is. user_exists (i_user i) d \<Longrightarrow>
    db_ok (d\<lparr>identities := is\<rparr>)"
  by (simp add: db_ok_defs user_exists_iff identity_key_eta)

lemma db_ok_identities:
  "db_ok d \<Longrightarrow> distinct (map identity_key (identities d)) \<and> (\<forall>i \<in> set (identities d). user_exists (i_user i) d)"
  by (simp add: db_ok_defs user_exists_iff identity_key_eta)

lemma update_identities_ok:
  assumes "db_ok d" and "\<And>i. p i \<Longrightarrow> identity_key (f i) = identity_key i"
    and "\<And>i. i \<in> set (identities d) \<Longrightarrow> p i \<Longrightarrow> user_exists (i_user (f i)) d"
  shows "db_ok (d\<lparr>identities := update_where p f (identities d)\<rparr>)"
proof (rule replace_identities_ok [OF assms(1)])
  have "map identity_key (update_where p f (identities d)) = map identity_key (identities d)"
    using assms(2) by (auto simp: update_where_def)
  with db_ok_identities [OF assms(1)]
  show "distinct (map identity_key (update_where p f (identities d)))" by simp
  show "\<forall>i \<in> set (update_where p f (identities d)). user_exists (i_user i) d"
    using assms(3) db_ok_identities [OF assms(1)] by (auto simp: set_update_where)
qed

lemma insert_identity_ok:
  assumes "db_ok d" and "\<not> has_row (\<lambda>i. identity_key i = identity_key row) (identities d)"
    and "user_exists (i_user row) d"
  shows "db_ok (d\<lparr>identities := identities d @ [row]\<rparr>)"
  using db_ok_identities [OF assms(1)] assms(2,3)
  by (intro replace_identities_ok [OF assms(1)]) (auto simp: has_row_iff)

lemma keeps_upsert_identity [keeps_intros]:
  assumes "\<And>i. identity_key i = identity_key row \<Longrightarrow> identity_key (f i) = identity_key i"
    and "\<And>i. i_user (f i) = i_user row"
  shows "keeps_ok (upsert_identity row f)"
proof (rule keeps_okI)
  fix d r d' assume d: "db_ok d" and r: "upsert_identity row f d = (r, d')"
  show "db_ok d' \<and> seqs_grow d d'"
  proof (cases "user_exists (i_user row) d")
    case False
    with r d show ?thesis by (simp add: upsert_identity_def)
  next
    case ex: True
    show ?thesis
    proof (cases "has_row (\<lambda>i. identity_key i = identity_key row) (identities d)")
      case True
      have "db_ok (d\<lparr>identities := update_where (\<lambda>i. identity_key i = identity_key row) f (identities d)\<rparr>)"
        by (rule update_identities_ok [OF d]) (simp_all add: assms ex)
      with r ex True show ?thesis by (auto simp: upsert_identity_def seqs_grow_def)
    next
      case False
      with insert_identity_ok [OF d False ex] r ex show ?thesis
        by (auto simp: upsert_identity_def seqs_grow_def)
    qed
  qed
qed

lemma upsert_from_oidc_ok: "keeps_ok (upsert_from_oidc c0)"
proof -
  have "keeps_ok (with_tx ''porte/pg: begin'' ''porte/pg: commit''
        (and_then (resolve_or_create c) (\<lambda>user.
         and_then (\<lambda>d. wrapping ''porte/pg: link identity'' (stmt (upsert_identity
             (new_identity user (c_provider c) (c_subject c)) (\<lambda>i. i\<lparr>i_user := user\<rparr>)) d)) (\<lambda>_.
         return_tx user))))" for c
    by (intro keeps_intros) (simp_all add: identity_key_def new_identity_def)
  from this [of "c0\<lparr>c_email := to_lower (trim_space (c_email c0))\<rparr>"] show ?thesis
    by (auto simp: keeps_ok_def upsert_from_oidc_def Let_def)
qed

lemma keeps_insert_federated [keeps_intros]: "keeps_ok (insert_federated row)"
proof (rule keeps_okI)
  fix d r d' assume d: "db_ok d" and r: "insert_federated row d = (r, d')"
  let ?p = "\<lambda>i. identity_key i = identity_key row \<and> i_user i = i_user row"
  have upd: "db_ok (d\<lparr>identities := update_where ?p (\<lambda>i. row\<lparr>i_user := i_user i\<rparr>) (identities d)\<rparr>)"
    using db_ok_identities [OF d]
    by (intro update_identities_ok [OF d]) (auto simp: identity_key_def)
  show "db_ok d' \<and> seqs_grow d d'"
    using r d upd insert_identity_ok [OF d, of row]
    unfolding insert_federated_def by (auto simp: Let_def seqs_grow_def split: if_splits)
qed

lemma keeps_with_user_lock [keeps_intros]: "keeps_ok w \<Longrightarrow> keeps_ok (with_user_lock u sh w)"
  unfolding with_user_lock_def keeps_ok_def
  by (intro allI impI with_user_lock_ok [unfolded with_user_lock_def]) (auto simp: prod_eq_iff)

lemma keeps_save_federated [keeps_intros]: "keeps_ok (save_federated row)"
  unfolding save_federated_def by (intro keeps_intros)

lemma keeps_identity_save: "keeps_ok (identity_save sealer entropy s)"
proof -
  have "keeps_ok (\<lambda>d. wrapping ''porte/pg: save identity'' (stmt (upsert_identity
      (identity_row_of s a b) (\<lambda>_. identity_row_of s a b)) d))" for a b
    by (intro keeps_intros) (simp_all add: identity_key_def)
  with keeps_save_federated show ?thesis
    by (auto simp: keeps_ok_def identity_save_def split: sum.splits)
qed

lemma keeps_mark_roles_synced: "keeps_ok (mark_roles_synced prov subj at)"
proof -
  have "keeps_ok (stmt (\<lambda>d. (Inr (affected (\<lambda>i. identity_key i = (prov, subj)) (identities d)),
      d\<lparr>identities := update_where (\<lambda>i. identity_key i = (prov, subj))
          (\<lambda>i. i\<lparr>i_roles_synced_at := Some at\<rparr>) (identities d)\<rparr>)))"
    by (intro keeps_intros keeps_okI)
      (auto simp: seqs_grow_def identity_key_def db_ok_identities
        intro!: update_identities_ok dest: db_ok_identities)
  then show ?thesis by (auto simp: keeps_ok_def mark_roles_synced_def)
qed

lemma keeps_erase_locked [keeps_intros]: "keeps_ok (erase_locked user prov subj)"
proof -
  have "keeps_ok (\<lambda>d. (Inr (), d\<lparr>identities := delete_where p (identities d)\<rparr>))" for p
    by (rule keeps_okI) (auto simp: seqs_grow_def intro!: delete_ok)
  moreover have "keeps_ok (identity_owner prov subj)"
    unfolding identity_owner_def by (intro keeps_intros)
  ultimately show ?thesis
    unfolding erase_locked_def by (auto intro!: keeps_intros split: option.splits)
qed

section \<open>What each step does\<close>

definition cleared_optional :: "db \<Rightarrow> table list" where
  "cleared_optional d = filter (List.member
     (case table_cache d of Some p \<Rightarrow> p | None \<Rightarrow> optional_present d)) optional_tables"

lemma cleared_optional_required [simp]:
  "PorteIdentities \<notin> set (cleared_optional d)" "PorteSessions \<notin> set (cleared_optional d)"
  by (simp_all add: cleared_optional_def optional_tables_def)

lemma lookup_tables_Inr:
  "lookup_tables ts d = (Inr l, d') \<Longrightarrow>
    l = filter (List.member (optional_present d)) ts \<and> same_rows d d' \<and> table_cache d' = table_cache d"
proof (induction ts arbitrary: d l d')
  case Nil
  then show ?case by simp
next
  case (Cons t ts)
  from Cons.prems obtain rest where "lookup_tables ts (tick d) = (Inr rest, d')"
    "l = (if List.member (optional_present d) t then t # rest else rest)"
    by (auto elim!: and_then_Inr dest!: query_Inr)
  with Cons.IH [OF this(1)] show ?case by simp
qed

lemma member_filtered:
  "filter (List.member (filter (List.member xs) ts)) ts = filter (List.member xs) ts"
  by (rule filter_cong) auto

lemma user_tables_Inr:
  assumes "user_tables required d = (Inr l, d')"
  shows "l = required @ cleared_optional d \<and> same_rows d d'"
proof (cases "table_cache d")
  case None
  with assms show ?thesis
    by (auto simp: user_tables_def cleared_optional_def cache_tables_def member_filtered same_rows_def
        elim!: and_then_Inr dest!: lookup_tables_Inr)
next
  case (Some p)
  with assms show ?thesis by (auto simp: user_tables_def cleared_optional_def)
qed

text \<open>The rows of a user gone from the tables of a list.\<close>

definition without_user :: "table list \<Rightarrow> int \<Rightarrow> db \<Rightarrow> db" where
  "without_user ts user d = d\<lparr>
     identities := (if PorteIdentities \<in> set ts then delete_where (\<lambda>i. i_user i = user) (identities d) else identities d),
     sessions := (if PorteSessions \<in> set ts then delete_where (\<lambda>s. r_user s = user) (sessions d) else sessions d),
     codes := (if PorteLoginCodes \<in> set ts then delete_where (\<lambda>c. cr_user c = user) (codes d) else codes d),
     links := (if PorteMagicLinks \<in> set ts then delete_where (\<lambda>l. l_user l = user) (links d) else links d)\<rparr>"

lemma without_user_fields [simp]:
  "users (without_user ts user d) = users d" "optional_present (without_user ts user d) = optional_present d"
  "sql_now (without_user ts user d) = sql_now d" "table_cache (without_user ts user d) = table_cache d"
  by (simp_all add: without_user_def)

lemma delete_where_twice: "delete_where p (delete_where p rs) = delete_where p rs"
  by (simp add: delete_where_def)

lemma clear_tables_Inr:
  "clear_tables what ts user d = (Inr u, d') \<Longrightarrow> same_rows (without_user ts user d) d'"
proof (induction ts arbitrary: d)
  case Nil
  then show ?case by (simp add: without_user_def same_rows_def)
next
  case (Cons t ts)
  from Cons.prems obtain d1 where c: "clear_user t user (tick d) = (Inr (), d1)"
    and r: "clear_tables what ts user d1 = (Inr u, d')"
    by (auto elim!: and_then_Inr dest!: stmt_Inr)
  from c have d1: "same_rows (without_user [t] user d) d1"
    by (cases t) (auto simp: clear_user_def same_rows_def without_user_def split: if_splits)
  have "same_rows (without_user (t # ts) user d) (without_user ts user d1)"
    using d1 by (cases t) (auto simp: same_rows_def without_user_def delete_where_twice)
  with Cons.IH [OF r] show ?case by (blast intro: same_rows_trans)
qed

lemma purge_Inr:
  "purge user d = (Inr u, d') \<Longrightarrow>
    same_rows (without_user ([PorteIdentities, PorteSessions] @ cleared_optional d) user d) d'"
  unfolding purge_def
  by (auto elim!: and_then_Inr dest!: user_tables_Inr clear_tables_Inr
      simp: same_rows_def without_user_def)

section \<open>The account an OIDC login resolves to\<close>

text \<open>
  The specification of the linking rules: by subject first; then by a verified address, onto an
  account that was never verified (taken over) or that holds nothing of this provider (linked);
  else a fresh account when the address is free, and a refusal when it is not.
\<close>

datatype resolution = BySubject int | LinkTo int | TakeOver int | Fresh | Declined

definition resolution :: "claims \<Rightarrow> db \<Rightarrow> resolution" where
  "resolution c d = (case row_with identity_key (c_provider c, c_subject c) (identities d) of
     Some i \<Rightarrow> BySubject (i_user i)
   | None \<Rightarrow> (case row_with u_email (c_email c) (users d) of
       None \<Rightarrow> Fresh
     | Some u \<Rightarrow> if \<not> c_email_verified c then Declined
         else if \<not> u_email_verified u then TakeOver (u_id u)
         else if holds_provider (u_id u) (c_provider c) d then Declined
         else LinkTo (u_id u)))"

definition match_of :: "int \<Rightarrow> resolution \<Rightarrow> match" where
  "match_of fresh r = (case r of
     BySubject u \<Rightarrow> zero_match\<lparr>m_user := u\<rparr>
   | LinkTo u \<Rightarrow> zero_match\<lparr>m_by_email := True, m_user := u\<rparr>
   | TakeOver u \<Rightarrow> zero_match\<lparr>m_by_email := True, m_user := u, m_unverified := True\<rparr>
   | Fresh \<Rightarrow> zero_match\<lparr>m_user := fresh, m_inserted := True\<rparr>
   | Declined \<Rightarrow> zero_match)"

definition matched :: "resolution \<Rightarrow> bool" where
  "matched r = (case r of BySubject u \<Rightarrow> True | LinkTo u \<Rightarrow> True | TakeOver u \<Rightarrow> True | _ \<Rightarrow> False)"

lemma resolution_same_rows: "same_rows d d' \<Longrightarrow> resolution c d' = resolution c d"
proof -
  assume s: "same_rows d d'"
  then have "holds_provider u p d' = holds_provider u p d" for u p
    by (simp add: same_rows_def holds_provider_def)
  with s show ?thesis by (auto simp: resolution_def same_rows_def split: option.splits)
qed

lemma find_by_id:
  assumes "db_ok d" and "u \<in> set (users d)"
  shows "find (\<lambda>v. u_id v = u_id u \<and> u_email v = u_email u) (users d) = Some u"
  using assms find_by_key [where f = u_id and k = "u_id u" and xs = "users d" and r = u
      and p = "\<lambda>v. u_id v = u_id u \<and> u_email v = u_email u"]
  by (simp add: db_ok_defs)

lemma by_verified_email_Inr:
  assumes "db_ok d" and "by_verified_email c d = (Inr (m, ok), d')"
  shows "same_rows d d' \<and> user_seq d' = user_seq d \<and> (case row_with u_email (c_email c) (users d) of
      None \<Rightarrow> \<not> ok
    | Some u \<Rightarrow> ok = (\<not> u_email_verified u \<or> \<not> holds_provider (u_id u) (c_provider c) d) \<and>
        m = zero_match\<lparr>m_by_email := True, m_user := u_id u, m_unverified := \<not> u_email_verified u\<rparr>)"
proof (cases "row_with u_email (c_email c) (users d)")
  case None
  with assms(2) show ?thesis
    by (auto simp: by_verified_email_def Let_def split: prod.splits sum.splits dest!: query_Inr)
next
  case (Some u)
  then have u: "u \<in> set (users d)" "u_email u = c_email c" by (auto dest: row_with_Some)
  with find_by_id [OF assms(1) u(1)] Some assms(2) show ?thesis
    by (auto simp: by_verified_email_def Let_def holds_provider_def
        split: prod.splits sum.splits option.splits dest!: query_Inr lock_user_Inr)
qed

lemma existing_user_Inr:
  assumes "db_ok d" and "existing_user c d = (Inr (m, ok), d')"
  shows "same_rows d d' \<and> user_seq d' = user_seq d \<and> ok = matched (resolution c d) \<and>
    (ok \<longrightarrow> m = match_of n (resolution c d))"
proof (cases "row_with identity_key (c_provider c, c_subject c) (identities d)")
  case (Some i)
  with assms(2) show ?thesis
    by (auto simp: existing_user_def resolution_def matched_def match_of_def
        split: prod.splits sum.splits dest!: query_Inr)
next
  case None
  show ?thesis
  proof (cases "c_email_verified c")
    case False
    with assms(2) None show ?thesis
      by (auto simp: existing_user_def resolution_def matched_def
          split: prod.splits sum.splits option.splits dest!: query_Inr)
  next
    case True
    with assms(2) None have "by_verified_email c (tick d) = (Inr (m, ok), d')"
      by (auto simp: existing_user_def split: prod.splits sum.splits dest!: query_Inr)
    from by_verified_email_Inr [OF _ this] assms(1) None True show ?thesis
      by (auto simp: resolution_def matched_def match_of_def holds_provider_def zero_match_def
          split: option.splits if_splits)
  qed
qed

definition fresh_user :: "claims \<Rightarrow> db \<Rightarrow> user_row" where
  "fresh_user c d = \<lparr>u_id = user_seq d + 1, u_email = c_email c,
     u_email_verified = c_email_verified c, u_name = display_name c,
     u_avatar_url = c_avatar_url c,
     u_avatar_source = (if c_avatar_url c \<noteq> [] then ''oidc'' else []),
     u_locale = normalize_locale (c_locale c), u_updated_at = sql_now d\<rparr>"

definition with_fresh :: "claims \<Rightarrow> db \<Rightarrow> db" where
  "with_fresh c d = d\<lparr>users := users d @ [fresh_user c d]\<rparr>"

lemma insert_user_Inr:
  assumes "insert_user c d = (Inr n, d')"
  shows "if has_row (\<lambda>u. u_email u = c_email c) (users d) then n = 0 \<and> same_rows d d'
    else n = user_seq d + 1 \<and> same_rows (with_fresh c d) d'"
  using assms unfolding insert_user_def
  by (auto simp: Let_def with_fresh_def fresh_user_def same_rows_def dest!: stmt_Inr split: if_splits)

lemma unmatched_email:
  "\<not> matched (resolution c d) \<Longrightarrow>
    has_row (\<lambda>u. u_email u = c_email c) (users d) = (resolution c d = Declined)"
  by (auto simp: resolution_def matched_def has_row_iff row_with_None
      split: option.splits if_splits dest!: row_with_Some)

lemma unmatched_cases: "\<not> matched r \<Longrightarrow> r = Fresh \<or> r = Declined"
  by (cases r) (simp_all add: matched_def)

lemma find_or_insert_Inr:
  assumes d: "db_ok d" and r: "find_or_insert c d = (Inr m, d')"
  shows "m = match_of (user_seq d + 1) (resolution c d) \<and>
    same_rows (if resolution c d = Fresh then with_fresh c d else d) d'"
proof -
  let ?n = "user_seq d + 1"
  obtain found ok d1 where e: "existing_user c d = (Inr (found, ok), d1)"
    using r by (auto simp: find_or_insert_def split: prod.splits sum.splits)
  from existing_user_Inr [OF d e, of ?n] have same1: "same_rows d d1" "user_seq d1 = user_seq d"
    and ok: "ok = matched (resolution c d)" and found: "ok \<Longrightarrow> found = match_of ?n (resolution c d)"
    by auto
  show ?thesis
  proof (cases ok)
    case True
    with e r ok same1 found show ?thesis
      by (auto simp: find_or_insert_def matched_def)
  next
    case False
    then have un: "\<not> matched (resolution c d)" using ok by simp
    obtain n d2 where i: "insert_user c d1 = (Inr n, d2)"
      using r e False by (auto simp: find_or_insert_def split: prod.splits sum.splits)
    note ins = insert_user_Inr [OF i]
    have has: "has_row (\<lambda>u. u_email u = c_email c) (users d1) = (resolution c d = Declined)"
      using unmatched_email [OF un] same1 by (simp add: same_rows_def)
    have seq: "0 \<le> user_seq d" using d by (simp add: db_ok_defs)
    show ?thesis
    proof (cases "resolution c d = Declined")
      case False
      with un have fr: "resolution c d = Fresh" using unmatched_cases by blast
      have n: "n = ?n" "same_rows (with_fresh c d1) d2" using ins has False same1 by auto
      have "same_rows (with_fresh c d) d2"
        using n(2) same1 by (simp add: with_fresh_def fresh_user_def same_rows_def)
      with n fr r e i \<open>\<not> ok\<close> seq show ?thesis
        by (auto simp: find_or_insert_def match_of_def)
    next
      case True
      then have n0: "n = 0" "same_rows d1 d2" using ins has by auto
      have "db_ok d1" using keeps_okD [OF keeps_existing_user [of c] d] e by simp
      then have d2: "db_ok d2" using keeps_okD [OF keeps_insert_user [of c], of d1] i by simp
      have same2: "same_rows d d2" using same1(1) n0(2) by (rule same_rows_trans)
      from r e i n0 \<open>\<not> ok\<close> obtain f2 ok2 d3 where e2: "existing_user c d2 = (Inr (f2, ok2), d3)"
        and m: "m = (if \<not> ok2 then zero_match else f2)" and d3: "d' = d3"
        by (auto simp: find_or_insert_def split: prod.splits sum.splits)
      from existing_user_Inr [OF d2 e2] resolution_same_rows [OF same2] un
      have "\<not> ok2" "same_rows d2 d3" by auto
      with m d3 True same_rows_trans [OF same2] show ?thesis by (simp add: match_of_def)
    qed
  qed
qed

text \<open>The rows after a login, as the specification has them.\<close>

definition prepared :: "claims \<Rightarrow> resolution \<Rightarrow> db \<Rightarrow> db" where
  "prepared c r d = (case r of
     TakeOver u \<Rightarrow> without_user ([PorteIdentities, PorteSessions] @ cleared_optional d) u d
   | Fresh \<Rightarrow> with_fresh c d
   | _ \<Rightarrow> d)"

definition profiled :: "claims \<Rightarrow> resolution \<Rightarrow> db \<Rightarrow> db" where
  "profiled c r d = (case r of
     Fresh \<Rightarrow> d
   | _ \<Rightarrow> d\<lparr>users := update_where (\<lambda>u. u_id u = m_user (match_of 0 r)) (updated_user c (sql_now d)) (users d)\<rparr>)"

definition account_of :: "resolution \<Rightarrow> db \<Rightarrow> int" where
  "account_of r d = m_user (match_of (user_seq d + 1) r)"

definition linked :: "claims \<Rightarrow> resolution \<Rightarrow> int \<Rightarrow> db \<Rightarrow> db" where
  "linked c r user d = (case r of
     BySubject u \<Rightarrow> d
   | _ \<Rightarrow> d\<lparr>identities := identities d @ [new_identity user (c_provider c) (c_subject c)]\<rparr>)"

definition login_rows :: "claims \<Rightarrow> db \<Rightarrow> db" where
  "login_rows c d = (let r = resolution c d in
     linked c r (account_of r d) (profiled c r (prepared c r d)))"

lemma update_user_Inr:
  "update_user user c d = (Inr u, d') \<Longrightarrow>
    same_rows (d\<lparr>users := update_where (\<lambda>u. u_id u = user) (updated_user c (sql_now d)) (users d)\<rparr>) d'"
  unfolding update_user_def
  by (auto dest!: stmt_Inr simp: same_rows_def split: if_splits)

lemma same_rows_cong:
  "same_rows d d' \<Longrightarrow> same_rows (without_user ts u d) (without_user ts u d')"
  "same_rows d d' \<Longrightarrow> same_rows (profiled c r d) (profiled c r d')"
  "same_rows d d' \<Longrightarrow> same_rows (linked c r u d) (linked c r u d')"
  by (auto simp: same_rows_def without_user_def profiled_def linked_def split: resolution.splits)

lemma cleared_optional_tick [simp]: "cleared_optional (tick d) = cleared_optional d"
  by (simp add: cleared_optional_def split: option.splits)

lemma find_or_insert_cache: "find_or_insert c d = (r, d') \<Longrightarrow> cleared_optional d' = cleared_optional d"
proof -
  have l: "table_cache (snd (lock_user u sh d)) = table_cache d \<and>
      optional_present (snd (lock_user u sh d)) = optional_present d" for u sh and d :: db
    by (simp add: lock_user_def lock_advisory_def query_state)
  have e: "table_cache (snd (existing_user c d)) = table_cache d \<and>
      optional_present (snd (existing_user c d)) = optional_present d" for d
    unfolding existing_user_def by_verified_email_def
    by (auto simp: Let_def split: prod.splits sum.splits option.splits
        dest!: query_Inr query_Inl lock_user_Inr lock_user_Inl)
  have i: "table_cache (snd (insert_user c d)) = table_cache d \<and>
      optional_present (snd (insert_user c d)) = optional_present d" for d
    by (auto simp: insert_user_def Let_def stmt_def)
  assume "find_or_insert c d = (r, d')"
  then have "table_cache d' = table_cache d \<and> optional_present d' = optional_present d"
    using e i unfolding find_or_insert_def
    by (auto split: prod.splits sum.splits if_splits) (metis snd_conv)+
  then show ?thesis by (simp add: cleared_optional_def split: option.splits)
qed

lemma resolve_or_create_Inr:
  assumes d: "db_ok d" and r: "resolve_or_create c d = (Inr user, d')"
  shows "resolution c d \<noteq> Declined \<and> user = account_of (resolution c d) d \<and>
    same_rows (profiled c (resolution c d) (prepared c (resolution c d) d)) d'"
proof -
  let ?r = "resolution c d"
  from r obtain m d1 where f: "find_or_insert c d = (Inr m, d1)"
    and rest: "(if m_inserted m then return_tx (m_user m)
     else if m_user m = 0 then fail_tx (refusal c)
     else and_then (if m_by_email m \<and> m_unverified m then purge (m_user m) else return_tx ())
       (\<lambda>_. and_then (update_user (m_user m) c) (\<lambda>_. return_tx (m_user m)))) d1 = (Inr user, d')"
    unfolding resolve_or_create_def by (rule and_then_Inr)
  from find_or_insert_Inr [OF d f] have m: "m = match_of (user_seq d + 1) ?r"
    and same: "same_rows (if ?r = Fresh then with_fresh c d else d) d1" by auto
  have cache: "cleared_optional d1 = cleared_optional d" by (rule find_or_insert_cache [OF f])
  show ?thesis
  proof (cases ?r)
    case Fresh
    with m rest same show ?thesis
      by (auto simp: match_of_def account_of_def profiled_def prepared_def)
  next
    case Declined
    with m rest show ?thesis by (auto simp: match_of_def zero_match_def)
  next
    case (BySubject u)
    with m rest same show ?thesis
      by (auto simp: match_of_def account_of_def profiled_def prepared_def zero_match_def same_rows_def
          elim!: and_then_Inr dest!: update_user_Inr split: if_splits)
  next
    case (LinkTo u)
    with m rest same show ?thesis
      by (auto simp: match_of_def account_of_def profiled_def prepared_def zero_match_def same_rows_def
          elim!: and_then_Inr dest!: update_user_Inr split: if_splits)
  next
    case (TakeOver u)
    with m rest same cache show ?thesis
      by (auto simp: match_of_def account_of_def profiled_def prepared_def zero_match_def same_rows_def
          without_user_def elim!: and_then_Inr dest!: update_user_Inr purge_Inr split: if_splits)
  qed
qed

lemma no_identity_unless_subject:
  assumes "resolution c d \<noteq> BySubject (account_of (resolution c d) d)" "resolution c d \<noteq> Declined"
  shows "\<not> has_row (\<lambda>i. identity_key i = (c_provider c, c_subject c))
    (identities (profiled c (resolution c d) (prepared c (resolution c d) d)))"
proof -
  have "row_with identity_key (c_provider c, c_subject c) (identities d) = None"
    using assms by (auto simp: resolution_def account_of_def match_of_def split: option.splits)
  then have "\<forall>i \<in> set (identities d). identity_key i \<noteq> (c_provider c, c_subject c)"
    by (simp add: row_with_None)
  then show ?thesis
    by (auto simp: has_row_iff profiled_def prepared_def with_fresh_def without_user_def
        set_delete_where split: resolution.splits)
qed

lemma update_where_same: "(\<And>r. r \<in> set rs \<Longrightarrow> p r \<Longrightarrow> f r = r) \<Longrightarrow> update_where p f rs = rs"
  by (induction rs) (auto simp: update_where_def)

lemma upsert_identity_linked:
  assumes d: "db_ok d" and res: "resolution c d \<noteq> Declined"
    and same: "same_rows (profiled c (resolution c d) (prepared c (resolution c d) d)) d1"
    and up: "upsert_identity (new_identity (account_of (resolution c d) d) (c_provider c) (c_subject c))
      (\<lambda>i. i\<lparr>i_user := account_of (resolution c d) d\<rparr>) d1 = (Inr u, d')"
  shows "same_rows (login_rows c d) d'"
proof (cases "resolution c d = BySubject (account_of (resolution c d) d)")
  case False
  with no_identity_unless_subject [OF False res] same up show ?thesis
    by (auto simp: upsert_identity_def same_rows_def login_rows_def linked_def identity_key_def
        new_identity_def Let_def account_of_def match_of_def split: if_splits resolution.splits)
next
  case True
  let ?u = "account_of (resolution c d) d"
  have ids: "identities d1 = identities d"
    using same True by (auto simp: same_rows_def profiled_def prepared_def split: resolution.splits)
  have "\<exists>i. row_with identity_key (c_provider c, c_subject c) (identities d) = Some i \<and> i_user i = ?u"
    using True by (auto simp: resolution_def split: option.splits if_splits)
  then obtain i where i: "i \<in> set (identities d)" "identity_key i = (c_provider c, c_subject c)" "i_user i = ?u"
    by (auto dest: row_with_Some)
  have "j = i" if "j \<in> set (identities d)" "identity_key j = (c_provider c, c_subject c)" for j
    using db_ok_identities [OF d] i that by (auto simp: distinct_map inj_on_def)
  with i(3) have "update_where (\<lambda>j. identity_key j = (c_provider c, c_subject c)) (\<lambda>j. j\<lparr>i_user := ?u\<rparr>)
      (identities d) = identities d"
    by (intro update_where_same) auto
  moreover have "identity_key (new_identity ?u (c_provider c) (c_subject c)) = (c_provider c, c_subject c)"
    by (simp add: identity_key_def new_identity_def)
  moreover have "has_row (\<lambda>j. identity_key j = (c_provider c, c_subject c)) (identities d)"
    using i by (auto simp: has_row_iff)
  ultimately have "same_rows d1 d'"
    using up ids by (auto simp: upsert_identity_def same_rows_def split: if_splits)
  with same have "same_rows (profiled c (resolution c d) (prepared c (resolution c d) d)) d'"
    by (rule same_rows_trans)
  moreover have "login_rows c d = profiled c (resolution c d) (prepared c (resolution c d) d)"
    using True by (auto simp: login_rows_def linked_def Let_def split: resolution.splits)
  ultimately show ?thesis by simp
qed

definition normalised :: "claims \<Rightarrow> claims" where
  "normalised c = c\<lparr>c_email := to_lower (trim_space (c_email c))\<rparr>"

lemma upsert_Inr:
  assumes d: "db_ok d" and r: "upsert_from_oidc c0 d = (Inr user, d')"
  shows "resolution (normalised c0) d \<noteq> Declined \<and>
    user = account_of (resolution (normalised c0) d) d \<and> same_rows (login_rows (normalised c0) d) d'"
proof -
  let ?c = "normalised c0"
  from r obtain d2 where body: "and_then (resolve_or_create ?c) (\<lambda>user.
         and_then (\<lambda>d. wrapping ''porte/pg: link identity'' (stmt (upsert_identity
             (new_identity user (c_provider ?c) (c_subject ?c)) (\<lambda>i. i\<lparr>i_user := user\<rparr>)) d)) (\<lambda>_.
         return_tx user)) (tick d) = (Inr user, d2)" and d': "d' = tick d2"
    by (auto simp: upsert_from_oidc_def Let_def normalised_def elim!: with_tx_Inr split: if_splits)
  then obtain d1 where roc: "resolve_or_create ?c (tick d) = (Inr user, d1)"
    and up: "upsert_identity (new_identity user (c_provider ?c) (c_subject ?c))
      (\<lambda>i. i\<lparr>i_user := user\<rparr>) (tick d1) = (Inr (), d2)"
    by (auto elim!: and_then_Inr dest!: stmt_Inr)
  have tick: "resolution ?c (tick d) = resolution ?c d" "account_of r (tick d) = account_of r d" for r
    by (simp_all add: resolution_same_rows account_of_def)
  have dt: "db_ok (tick d)" using d by simp
  from resolve_or_create_Inr [OF dt roc] have res: "resolution ?c (tick d) \<noteq> Declined"
    and user: "user = account_of (resolution ?c (tick d)) (tick d)"
    and same: "same_rows (profiled ?c (resolution ?c (tick d)) (prepared ?c (resolution ?c (tick d)) (tick d))) (tick d1)"
    by auto
  have "same_rows (login_rows ?c (tick d)) d2"
    by (rule upsert_identity_linked [OF dt res same up [unfolded user]])
  moreover have "same_rows (login_rows ?c d) (login_rows ?c (tick d))"
    unfolding login_rows_def Let_def tick
    by (intro same_rows_cong) (auto simp: prepared_def with_fresh_def fresh_user_def same_rows_def
        without_user_def split: resolution.splits)
  ultimately show ?thesis using res user d' tick by (auto intro: same_rows_trans)
qed

section \<open>Properties of the OIDC login\<close>

text \<open>
  The table cache agrees with the schema, and a table that is not there holds nothing.
\<close>

definition tables_ok :: "db \<Rightarrow> bool" where
  "tables_ok d \<longleftrightarrow>
     (case table_cache d of None \<Rightarrow> True | Some p \<Rightarrow> list_all (\<lambda>t. List.member p t = List.member (optional_present d) t) optional_tables) \<and>
     (List.member (optional_present d) PorteLoginCodes \<or> codes d = []) \<and>
     (List.member (optional_present d) PorteMagicLinks \<or> links d = [])"

text \<open>What is left of a user's rows, and what the other users have.\<close>

definition owned :: "int \<Rightarrow> db \<Rightarrow> identity_row list \<times> session_row list \<times> code_row list \<times> link_row list" where
  "owned user d = (filter (\<lambda>i. i_user i = user) (identities d), filter (\<lambda>s. r_user s = user) (sessions d),
     filter (\<lambda>c. cr_user c = user) (codes d), filter (\<lambda>l. l_user l = user) (links d))"

definition profile :: "int \<Rightarrow> db \<Rightarrow> user_row list" where
  "profile user d = filter (\<lambda>u. u_id u = user) (users d)"

lemma owned_same_rows: "same_rows d d' \<Longrightarrow> owned user d' = owned user d \<and> profile user d' = profile user d"
  by (simp add: owned_def profile_def same_rows_def)

lemma filter_owner_other:
  "v \<noteq> user \<Longrightarrow> filter (\<lambda>r. g r = v) (delete_where (\<lambda>r. g r = user) rs) = filter (\<lambda>r. g r = v) rs"
  by (induction rs) (auto simp: delete_where_def)

lemma filter_owner_gone: "filter (\<lambda>r. g r = user) (delete_where (\<lambda>r. g r = user) rs) = []"
  by (auto simp: delete_where_def filter_empty_conv)

lemma filter_update_other:
  "(\<And>r. r \<in> set rs \<Longrightarrow> p r \<Longrightarrow> \<not> q r \<and> \<not> q (f r)) \<Longrightarrow> filter q (update_where p f rs) = filter q rs"
  by (induction rs) (auto simp: update_where_def)

lemma owned_without_user [simp]:
  "v \<noteq> user \<Longrightarrow> owned v (without_user ts user d) = owned v d"
  by (simp add: owned_def without_user_def filter_owner_other)

lemma owned_with_users [simp]: "owned v (d\<lparr>users := us\<rparr>) = owned v d"
  by (simp add: owned_def)

lemma account_match: "resolution c d \<noteq> Fresh \<Longrightarrow> m_user (match_of 0 (resolution c d)) = account_of (resolution c d) d"
  by (simp add: account_of_def match_of_def split: resolution.splits)

lemma login_rows_other:
  assumes "v \<noteq> account_of (resolution c d) d"
  shows "owned v (login_rows c d) = owned v d \<and> profile v (login_rows c d) = profile v d"
  using assms
  by (cases "resolution c d")
    (auto simp: login_rows_def Let_def linked_def profiled_def prepared_def account_of_def match_of_def
      with_fresh_def fresh_user_def owned_def profile_def new_identity_def without_user_def
      filter_owner_other zero_match_def intro!: filter_update_other)

text \<open> A login touches no account but the one it returns: whatever it resolved to, every other
  account keeps its profile, its identities, its sessions, its codes and its links. \<close>

theorem upsert_frame:
  assumes "db_ok d" and "upsert_from_oidc c d = (Inr user, d')" and "v \<noteq> user"
  shows "profile v d' = profile v d \<and> owned v d' = owned v d"
proof -
  from upsert_Inr [OF assms(1,2)] have u: "user = account_of (resolution (normalised c) d) d"
    and same: "same_rows (login_rows (normalised c) d) d'" by auto
  with owned_same_rows [OF same, of v] login_rows_other [of v "normalised c" d] assms(3)
  show ?thesis by simp
qed

text \<open> A login that fails writes nothing: no user, no identity, and no purge is left behind,
  whichever statement failed. \<close>

theorem upsert_atomic:
  assumes "upsert_from_oidc c d = (Inl e, d')"
  shows "same_rows d d'"
  using assms unfolding upsert_from_oidc_def
  by (auto simp: Let_def split: if_splits dest: with_tx_error)

text \<open> An account somebody proved cannot be reached through its address. When a verified
  account already holds an identity of the provider, a login of that provider returns it only
  for the very subject that identity link already names, whatever email the claims carry. \<close>

theorem upsert_linked_account_safe:
  assumes "db_ok d" and "u \<in> set (users d)" and "u_email_verified u"
    and "holds_provider (u_id u) (c_provider c) d"
    and "upsert_from_oidc c d = (Inr (u_id u), d')"
  shows "identity_exists (c_provider c) (c_subject c) (u_id u) d"
proof -
  let ?c = "normalised c"
  from upsert_Inr [OF assms(1,5)] have res: "resolution ?c d \<noteq> Declined"
    and acc: "u_id u = account_of (resolution ?c d) d" by auto
  have uniq: "v = u" if "v \<in> set (users d)" "u_id v = u_id u" for v
    using assms(1,2) that by (auto simp: db_ok_defs distinct_map inj_on_def)
  have seq: "u_id u \<le> user_seq d" using assms(1,2) by (simp add: db_ok_defs)
  have key: "c_provider ?c = c_provider c" "c_subject ?c = c_subject c"
    by (simp_all add: normalised_def)
  show ?thesis
  proof (cases "row_with identity_key (c_provider c, c_subject c) (identities d)")
    case (Some i)
    with acc row_with_Some [OF Some] show ?thesis
      by (auto simp: resolution_def account_of_def match_of_def key identity_exists_def has_row_iff
          identity_key_def)
  next
    case None
    show ?thesis
    proof (cases "row_with u_email (c_email ?c) (users d)")
      case None
      with \<open>row_with identity_key _ _ = None\<close> acc seq show ?thesis
        by (simp add: resolution_def account_of_def match_of_def key)
    next
      case (Some v)
      with \<open>row_with identity_key _ _ = None\<close> acc res
      have "u_id v = u_id u" "\<not> u_email_verified v \<or> \<not> holds_provider (u_id v) (c_provider c) d"
        by (auto simp: resolution_def account_of_def match_of_def key split: if_splits)
      with uniq [of v] row_with_Some [OF Some] assms(3,4) show ?thesis by auto
    qed
  qed
qed

lemma tables_ok_cleared:
  assumes "tables_ok d"
  shows "(PorteLoginCodes \<in> set (cleared_optional d) \<or> codes d = []) \<and>
    (PorteMagicLinks \<in> set (cleared_optional d) \<or> links d = [])"
  using assms by (auto simp: tables_ok_def cleared_optional_def optional_tables_def split: option.splits)

lemma owned_taken_over:
  assumes "tables_ok d"
  shows "owned u (without_user ([PorteIdentities, PorteSessions] @ cleared_optional d) u d) = ([], [], [], [])"
  using tables_ok_cleared [OF assms]
  by (auto simp: owned_def without_user_def filter_owner_gone)


lemma unverified_creates:
  assumes "db_ok d" and "\<not> c_email_verified c"
    and "\<not> has_row (\<lambda>i. identity_key i = (c_provider c, c_subject c)) (identities d)"
    and "upsert_from_oidc c d = (Inr user, d')"
  shows "\<not> user_exists user d \<and>
    (\<forall>u \<in> set (users d). profile (u_id u) d' = profile (u_id u) d \<and> owned (u_id u) d' = owned (u_id u) d)"
proof -
  let ?c = "normalised c"
  from upsert_Inr [OF assms(1,4)] have acc: "user = account_of (resolution ?c d) d"
    and res: "resolution ?c d \<noteq> Declined" and same: "same_rows (login_rows ?c d) d'" by auto
  have "row_with identity_key (c_provider c, c_subject c) (identities d) = None"
    using assms(3) by (auto simp: row_with_None has_row_iff)
  with res assms(2) have "resolution ?c d = Fresh"
    by (auto simp: resolution_def normalised_def split: option.splits)
  then have "user = user_seq d + 1" by (simp add: acc account_of_def match_of_def)
  then have "\<not> user_exists user d" using assms(1) by (force simp: user_exists_iff db_ok_defs)
  moreover from this have "\<forall>u \<in> set (users d). u_id u \<noteq> user" by (auto simp: user_exists_iff)
  ultimately show ?thesis
    using login_rows_other [of _ ?c d] owned_same_rows [OF same] acc by metis
qed

text \<open> C2: An unverified address proves nothing: claims the provider did not verify, with a subject
  nobody has linked, can only create an account. A login that succeeds returns an id no account
  had, and every account that was there keeps everything it had. \<close>

theorem upsert_unverified_only_creates:
  assumes "db_ok d" and "\<not> c_email_verified c"
    and "\<not> has_row (\<lambda>i. identity_key i = (c_provider c, c_subject c)) (identities d)"
    and "upsert_from_oidc c d = (Inr user, d')"
  shows "\<not> user_exists user d \<and>
    (\<forall>u \<in> set (users d). profile (u_id u) d' = profile (u_id u) d \<and> owned (u_id u) d' = owned (u_id u) d)"
  by (rule unverified_creates [OF assms])

text \<open> A login never takes a proof back: an account whose address was verified stays verified,
  and claims the provider did not verify leave every account's address as it was. \<close>

theorem upsert_keeps_verified:
  assumes "db_ok d" and "upsert_from_oidc c d = (Inr user, d')" and "u \<in> set (users d)"
  shows "\<exists>u' \<in> set (users d'). u_id u' = u_id u \<and> (u_email_verified u \<longrightarrow> u_email_verified u') \<and>
    (c_email_verified c \<or> u_email u' = u_email u)"
proof -
  let ?c = "normalised c"
  from upsert_Inr [OF assms(1,2)] have same: "same_rows (login_rows ?c d) d'" by auto
  have upd: "\<exists>u' \<in> set (update_where (\<lambda>v. u_id v = k) (updated_user ?c now) (users d)).
      u_id u' = u_id u \<and> (u_email_verified u \<longrightarrow> u_email_verified u') \<and>
      (c_email_verified c \<or> u_email u' = u_email u)" for k now
    using assms(3)
    by (intro bexI [of _ "if u_id u = k then updated_user ?c now u else u"])
      (auto simp: set_update_where updated_user_def normalised_def)
  have "users d' = users (login_rows ?c d)" using same by (simp add: same_rows_def)
  moreover have "users (login_rows ?c d) = users d @ [fresh_user ?c d] \<or>
      (\<exists>k now. users (login_rows ?c d) = update_where (\<lambda>v. u_id v = k) (updated_user ?c now) (users d)) \<or>
      users (login_rows ?c d) = users d \<or> resolution ?c d = Declined"
    by (cases "resolution ?c d")
      (auto simp: login_rows_def Let_def linked_def profiled_def prepared_def with_fresh_def)
  ultimately consider "users d' = users d @ [fresh_user ?c d]"
    | k now where "users d' = update_where (\<lambda>v. u_id v = k) (updated_user ?c now) (users d)"
    | "users d' = users d"
    using upsert_Inr [OF assms(1,2)] by metis
  then show ?thesis
  proof cases
    case (2 k now)
    with upd [of k now] show ?thesis by simp
  qed (use assms(3) in auto)
qed

section \<open>Saving an identity\<close>

lemma save_federated_Inr:
  assumes "save_federated row d = (Inr u, d')"
  shows "same_rows (snd (insert_federated row d)) d' \<and> fst (insert_federated row d) \<noteq> Inr 0 \<and>
    (\<exists>n. fst (insert_federated row d) = Inr n)"
proof -
  from assms obtain d2 where "and_then (\<lambda>d. wrapping ''porte/pg: save identity'' (stmt (insert_federated row) d))
      (\<lambda>written. if written = 0 then fail_tx (Sentinel ErrNotFound) else return_tx ()) (tick (tick d)) = (Inr u, d2)"
    and d': "d' = tick d2"
    unfolding save_federated_def by (rule with_user_lock_Inr)
  then obtain n where i: "insert_federated row (tick (tick (tick d))) = (Inr n, d2)" and n: "n \<noteq> 0"
    by (auto elim!: and_then_Inr dest!: stmt_Inr split: if_splits)
  have "fst (insert_federated row (tick d)) = fst (insert_federated row d) \<and>
      same_rows (snd (insert_federated row d)) (snd (insert_federated row (tick d)))" for d
    by (auto simp: insert_federated_def Let_def holds_provider_def same_rows_def)
  then have "fst (insert_federated row (tick (tick (tick d)))) = fst (insert_federated row d)"
    "same_rows (snd (insert_federated row d)) (snd (insert_federated row (tick (tick (tick d)))))"
    by (metis, metis same_rows_trans)
  moreover from this(1) i have "fst (insert_federated row d) = Inr n" by simp
  ultimately show ?thesis using i n d' by auto
qed

text \<open>Who holds a (provider, subject) key.\<close>

definition owner_of :: "string \<Rightarrow> string \<Rightarrow> db \<Rightarrow> int option" where
  "owner_of prov subj d = map_option i_user (row_with identity_key (prov, subj) (identities d))"

lemma owner_of_update:
  assumes "\<And>i. p i \<Longrightarrow> identity_key (f i) = identity_key i" and "\<And>i. p i \<Longrightarrow> i_user (f i) = i_user i"
  shows "owner_of prov subj (d\<lparr>identities := update_where p f (identities d)\<rparr>) = owner_of prov subj d"
proof -
  have "map_option i_user (row_with identity_key k (update_where p f rs)) =
      map_option i_user (row_with identity_key k rs)" for k and rs :: "identity_row list"
    using assms by (induction rs) (auto simp: update_where_def)
  then show ?thesis by (simp add: owner_of_def)
qed

lemma owner_of_append:
  "owner_of prov subj (d\<lparr>identities := identities d @ [row]\<rparr>) =
    (case owner_of prov subj d of Some u \<Rightarrow> Some u
     | None \<Rightarrow> if identity_key row = (prov, subj) then Some (i_user row) else None)"
  by (auto simp: owner_of_def row_with_append split: option.splits)

lemma owner_of_same_rows: "same_rows d d' \<Longrightarrow> owner_of prov subj d' = owner_of prov subj d"
  by (simp add: owner_of_def same_rows_def)

lemma insert_federated_owner:
  assumes "owner_of prov subj d \<noteq> None"
  shows "owner_of prov subj (snd (insert_federated row d)) = owner_of prov subj d"
proof -
  let ?p = "\<lambda>i. identity_key i = identity_key row \<and> i_user i = i_user row"
  have "owner_of prov subj (d\<lparr>identities := update_where ?p (\<lambda>i. row\<lparr>i_user := i_user i\<rparr>) (identities d)\<rparr>) =
      owner_of prov subj d"
    by (rule owner_of_update) (auto simp: identity_key_def)
  with assms show ?thesis
    by (auto simp: insert_federated_def Let_def owner_of_append split: option.splits)
qed

lemma identity_save_federated:
  assumes "identity_save sealer entropy s d = (r, d')" and "si_provider s \<noteq> provider_local"
  shows "(\<exists>e. r = Inl e \<and> same_rows d d') \<or>
    (\<exists>access refresh. save_federated (identity_row_of s access refresh) d = (r, d') \<and> r = Inr ())"
proof (cases "seal_tokens sealer entropy (si_tokens s)")
  case (Inl e)
  with assms show ?thesis by (auto simp: identity_save_def)
next
  case (Inr ab)
  with assms have sv: "save_federated (identity_row_of s (fst ab) (snd ab)) d = (r, d')"
    by (auto simp: identity_save_def split: prod.splits)
  show ?thesis
  proof (cases r)
    case (Inl e)
    with sv have "same_rows d d'"
      unfolding save_federated_def by (simp add: with_user_lock_error)
    with Inl show ?thesis by blast
  next
    case (Inr u)
    with sv have "save_federated (identity_row_of s (fst ab) (snd ab)) d = (r, d') \<and> r = Inr ()" by simp
    then show ?thesis by blast
  qed
qed

text \<open> C3: Saving a federated identity never re-points one and never adds a second of the same
  provider. Whatever \<open>Save\<close> answers, every (provider, subject) that had an owner keeps it, and
  when the account already holds an identity of the provider and not this one, as after a
  takeover purged it, the call fails and writes nothing. \<close>

theorem save_never_moves_identity:
  assumes "db_ok d" and "si_provider s \<noteq> provider_local"
    and "identity_save sealer entropy s d = (r, d')"
  shows "(\<forall>prov subj. owner_of prov subj d \<noteq> None \<longrightarrow> owner_of prov subj d' = owner_of prov subj d) \<and>
    (holds_provider (si_user s) (si_provider s) d \<and>
     owner_of (si_provider s) (si_subject s) d \<noteq> Some (si_user s) \<longrightarrow> (\<exists>e. r = Inl e) \<and> same_rows d d')"
  using identity_save_federated [OF assms(3,2)]
proof (elim disjE exE conjE)
  fix e assume "r = Inl e" "same_rows d d'"
  then show ?thesis by (simp add: owner_of_same_rows)
next
  fix access refresh
  let ?row = "identity_row_of s access refresh"
  assume sv: "save_federated ?row d = (r, d')" and r: "r = Inr ()"
  from save_federated_Inr [of ?row d "()" d'] sv r
  have same: "same_rows (snd (insert_federated ?row d)) d'" and n: "fst (insert_federated ?row d) \<noteq> Inr 0"
    by auto
  have key: "identity_key ?row = (si_provider s, si_subject s)" "i_user ?row = si_user s"
      "i_provider ?row = si_provider s" "i_subject ?row = si_subject s"
    by (simp_all add: identity_key_def identity_row_of_def)
  have owners: "owner_of prov subj (snd (insert_federated ?row d)) = owner_of prov subj d"
    if "owner_of prov subj d \<noteq> None" for prov subj
    using that by (rule insert_federated_owner)
  have "owner_of (si_provider s) (si_subject s) d = Some (si_user s) \<or> \<not> holds_provider (si_user s) (si_provider s) d"
  proof (rule ccontr)
    assume neg: "\<not> ?thesis"
    have "\<not> identity_exists (si_provider s) (si_subject s) (si_user s) d"
    proof
      assume "identity_exists (si_provider s) (si_subject s) (si_user s) d"
      then obtain i where i: "i \<in> set (identities d)" "identity_key i = (si_provider s, si_subject s)" "i_user i = si_user s"
        by (auto simp: identity_exists_def has_row_iff identity_key_def)
      with db_ok_identities [OF assms(1)]
      have "row_with identity_key (si_provider s, si_subject s) (identities d) = Some i"
        by (simp add: row_with_eq_Some)
      with i neg show False by (simp add: owner_of_def)
    qed
    with neg n show False by (simp add: insert_federated_def key)
  qed
  with owners owner_of_same_rows [OF same] show ?thesis by auto
qed

section \<open>Erasing\<close>

definition erased :: "int \<Rightarrow> string \<Rightarrow> string \<Rightarrow> db \<Rightarrow> db" where
  "erased user prov subj d = (let d1 = without_user ([PorteSessions] @ cleared_optional d) user d in
     d1\<lparr>identities := delete_where (\<lambda>i. identity_key i = (prov, subj)) (identities d1)\<rparr>)"

lemma identity_owner_Inr:
  "identity_owner prov subj d = (Inr owner, d') \<Longrightarrow> owner = owner_of prov subj d \<and> d' = tick d"
  by (auto simp: identity_owner_def owner_of_def dest!: query_Inr)

lemma erase_locked_Inr:
  assumes "erase_locked user prov subj d = (Inr u, d')"
  shows "owner_of prov subj d = None \<and> same_rows d d' \<or>
    owner_of prov subj d = Some user \<and> same_rows (erased user prov subj d) d'"
proof (cases "owner_of prov subj d")
  case None
  with assms show ?thesis
    by (auto simp: erase_locked_def elim!: and_then_Inr dest!: identity_owner_Inr)
next
  case (Some o1)
  with assms show ?thesis
    by (auto simp: erase_locked_def erased_def same_rows_def without_user_def Let_def
        elim!: and_then_Inr dest!: identity_owner_Inr user_tables_Inr clear_tables_Inr stmt_Inr
        split: if_splits)
qed

lemma owner_of_erased [simp]: "owner_of prov subj (erased user prov subj d) = None"
  by (auto simp: owner_of_def erased_def Let_def row_with_None set_delete_where)

lemma erase_attempt_Inr:
  assumes "with_user_lock user False (erase_locked user prov subj) d = (Inr u, d')"
  shows "owner_of prov subj d = None \<and> same_rows d d' \<or>
    owner_of prov subj d = Some user \<and> same_rows (erased user prov subj d) d'"
proof -
  from assms obtain d2 where e: "erase_locked user prov subj (tick (tick d)) = (Inr u, d2)" and d': "d' = tick d2"
    by (rule with_user_lock_Inr)
  have t: "same_rows (erased user prov subj d) (erased user prov subj (tick d))" for d
    by (simp add: erased_def Let_def same_rows_def without_user_def)
  have "owner_of prov subj (tick (tick d)) = owner_of prov subj d" by (simp add: owner_of_def)
  moreover have "same_rows (erased user prov subj d) (erased user prov subj (tick (tick d)))"
    using t same_rows_trans by blast
  ultimately show ?thesis
    using erase_locked_Inr [OF e] d' by (auto intro: same_rows_trans)
qed

lemma owner_of_tick [simp]: "owner_of prov subj (tick d) = owner_of prov subj d"
  by (simp add: owner_of_def)

lemma erase_attempt_gone:
  "with_user_lock user False (erase_locked user prov subj) d = (Inr u, d') \<Longrightarrow> owner_of prov subj d' = None"
  using erase_attempt_Inr [of user prov subj d u d'] by (auto simp: owner_of_same_rows)

text \<open>Only a move is reported as one: every other error of the transaction is wrapped.\<close>

definition wrapped :: "error \<Rightarrow> bool" where
  "wrapped e = (case e of Wrap m e' \<Rightarrow> True | _ \<Rightarrow> False)"

lemma wrapping_wrapped: "wrapping m r = (Inl e, d) \<Longrightarrow> wrapped e"
  by (auto simp: wrapped_def dest!: wrapping_Inl)

lemma lookup_tables_Inl: "lookup_tables ts d = (Inl e, d') \<Longrightarrow> wrapped e"
  by (induction ts arbitrary: d) (auto elim!: and_then_Inl dest: wrapping_wrapped)

lemma user_tables_Inl: "user_tables required d = (Inl e, d') \<Longrightarrow> wrapped e"
  by (auto simp: user_tables_def cache_tables_def split: option.splits
      elim!: and_then_Inl dest: lookup_tables_Inl)

lemma clear_tables_Inl: "clear_tables what ts user d = (Inl e, d') \<Longrightarrow> wrapped e"
  by (induction ts arbitrary: d) (auto elim!: and_then_Inl dest: wrapping_wrapped)

lemma erase_locked_Inl:
  "erase_locked user prov subj d = (Inl e, d') \<Longrightarrow> owner_of prov subj d = Some user \<Longrightarrow> wrapped e"
  unfolding erase_locked_def
  by (auto elim!: and_then_Inl dest!: identity_owner_Inr
      dest: wrapping_wrapped user_tables_Inl clear_tables_Inl
      simp: identity_owner_def split: if_splits option.splits)

lemma erase_not_moved:
  assumes "with_user_lock user False (erase_locked user prov subj) d = (Inl e, d')"
    and "owner_of prov subj d = Some user"
  shows "e \<noteq> err_moved"
  using assms(1)
proof (cases rule: with_user_lock_Inl)
  case (1 m)
  then show ?thesis by (simp add: err_moved_def)
next
  case (2 d2)
  then have "wrapped e" using assms(2) by (auto dest: erase_locked_Inl)
  then show ?thesis by (auto simp: wrapped_def err_moved_def)
qed

lemma erase_loop_gone:
  "erase_loop n others prov subj d = (Inr u, d') \<Longrightarrow> owner_of prov subj d' = None"
proof (induction n arbitrary: d)
  case 0
  then show ?case by simp
next
  case (Suc n)
  then show ?case
    by (auto split: prod.splits sum.splits option.splits if_splits
        dest!: identity_owner_Inr dest: erase_attempt_gone)
qed

text \<open> C4: An erase that reports success has erased: whatever other processes committed between
  its reads, the identity belongs to no account afterwards. \<close>

theorem erase_identity_gone:
  assumes "erase_identity others prov subj d = (Inr u, d')"
  shows "owner_of prov subj d' = None"
  using assms unfolding erase_identity_def by (rule erase_loop_gone)

lemma owner_of_Some_user:
  "owner_of prov subj d = Some user \<Longrightarrow> \<exists>i \<in> set (identities d). identity_key i = (prov, subj) \<and> i_user i = user"
  by (auto simp: owner_of_def dest: row_with_Some)

text \<open> Erasing an identity removes exactly what it should. The account it belonged to loses
  that identity and all of its sessions, codes and links, and keeps its other identities; every
  profile row stays; every other account keeps all it had. \<close>

theorem erase_identity_scope:
  assumes "db_ok d" and "tables_ok d" and "owner_of prov subj d = Some user"
    and "erase_identity (\<lambda>n d. d) prov subj d = (Inr u, d')"
  shows "users d' = users d \<and>
    owned user d' = (filter (\<lambda>i. i_user i = user \<and> identity_key i \<noteq> (prov, subj)) (identities d), [], [], []) \<and>
    (\<forall>v. v \<noteq> user \<longrightarrow> owned v d' = owned v d)"
proof -
  have own: "identity_owner prov subj d = (r, d1) \<Longrightarrow> (\<exists>e. r = Inl e) \<or> r = Inr (Some user) \<and> d1 = tick d" for r d1
    using assms(3) by (cases r) (auto dest: identity_owner_Inr)
  have "with_user_lock user False (erase_locked user prov subj) (tick d) = (Inr u, d')"
    using assms(3,4) erase_not_moved [of user prov subj "tick d"] unfolding erase_identity_def
    by (auto simp: numeral_3_eq_3 split: prod.splits sum.splits option.splits if_splits dest!: own)
  from erase_attempt_Inr [OF this] assms(3)
  have "same_rows (erased user prov subj (tick d)) d'" by auto
  then have same: "same_rows (erased user prov subj d) d'"
    by (simp add: erased_def Let_def same_rows_def without_user_def)
  obtain i where i: "i \<in> set (identities d)" "identity_key i = (prov, subj)" "i_user i = user"
    using owner_of_Some_user [OF assms(3)] by blast
  have uniq: "i_user j = user" if "j \<in> set (identities d)" "identity_key j = (prov, subj)" for j
    using db_ok_identities [OF assms(1)] i that by (auto simp: distinct_map inj_on_def)
  have ids: "filter (\<lambda>j. i_user j = v) (delete_where (\<lambda>j. identity_key j = (prov, subj)) (identities d)) =
      filter (\<lambda>j. i_user j = v \<and> identity_key j \<noteq> (prov, subj)) (identities d)" for v
    by (auto simp: delete_where_def intro: filter_cong)
  have keep: "filter (\<lambda>j. i_user j = v \<and> identity_key j \<noteq> (prov, subj)) (identities d) =
      filter (\<lambda>j. i_user j = v) (identities d)" if "v \<noteq> user" for v
    using uniq that by (auto intro: filter_cong)
  have "owned user (erased user prov subj d) =
      (filter (\<lambda>i. i_user i = user \<and> identity_key i \<noteq> (prov, subj)) (identities d), [], [], [])"
    using tables_ok_cleared [OF assms(2)]
    by (auto simp: owned_def erased_def Let_def without_user_def filter_owner_gone ids)
  moreover have "owned v (erased user prov subj d) = owned v d" if "v \<noteq> user" for v
    using that by (auto simp: owned_def erased_def Let_def without_user_def filter_owner_other ids keep)
  moreover have "users (erased user prov subj d) = users d" by (simp add: erased_def Let_def)
  ultimately show ?thesis using same owned_same_rows [OF same] by (simp add: same_rows_def)
qed

section \<open>The login properties at concrete accounts\<close>

definition example_claims :: claims where
  "example_claims = \<lparr>c_provider = ''idp'', c_subject = ''s'', c_email = '' A@x'', c_email_verified = True,
     c_name = ''Ann'', c_preferred_username = [], c_given_name = [], c_family_name = [], c_picture = [],
     c_locale = ''fr-FR'', c_avatar_url = [], c_roles = None, c_extra = [], c_tokens = zero_tokens\<rparr>"

text \<open>Two accounts: a verified one linked at the provider, and a squat with a password and a session.\<close>

definition login_db :: db where
  "login_db = empty_db\<lparr>
     users := [\<lparr>u_id = 1, u_email = ''b@x'', u_email_verified = True, u_name = [], u_avatar_url = [],
         u_avatar_source = [], u_locale = ''en'', u_updated_at = 0\<rparr>,
       \<lparr>u_id = 2, u_email = ''a@x'', u_email_verified = False, u_name = [], u_avatar_url = [],
         u_avatar_source = [], u_locale = ''en'', u_updated_at = 0\<rparr>],
     identities := [new_identity 1 ''idp'' ''t'', new_identity 2 ''local'' ''2''],
     sessions := [\<lparr>r_id = 1, r_token_hash = ''h'', r_user = 2, r_label = [], r_created_at = 5,
       r_last_used_at = 5, r_expires_at = None\<rparr>],
     user_seq := 2, session_seq := 1\<rparr>"

lemma login_db_ok [simp]: "db_ok login_db" "tables_ok login_db"
  by (simp_all add: db_ok_defs login_db_def empty_db_def new_identity_def tables_ok_def)

definition after_login :: "claims \<Rightarrow> db" where
  "after_login c = snd (upsert_from_oidc c login_db)"

lemma login_takeover: "upsert_from_oidc example_claims login_db = (Inr 2, after_login example_claims)"
  by code_simp

lemma login_subject:
  "upsert_from_oidc (example_claims\<lparr>c_subject := ''t''\<rparr>) login_db = (Inl (Wrap ''porte/pg: update user'' SqlConstraint), login_db)"
  by code_simp

lemma login_fresh:
  "upsert_from_oidc (example_claims\<lparr>c_email := ''c@x'', c_email_verified := False\<rparr>) login_db =
    (Inr 3, after_login (example_claims\<lparr>c_email := ''c@x'', c_email_verified := False\<rparr>))"
  by code_simp

lemma login_linked:
  "upsert_from_oidc (example_claims\<lparr>c_email := ''b@x'', c_subject := ''t''\<rparr>) login_db =
    (Inr 1, after_login (example_claims\<lparr>c_email := ''b@x'', c_subject := ''t''\<rparr>))"
  by code_simp

theorem upsert_frame_witness:
  "profile 1 (after_login example_claims) = profile 1 login_db \<and>
   owned 1 (after_login example_claims) = owned 1 login_db"
  by (rule upsert_frame [OF login_db_ok(1) login_takeover]) simp

theorem upsert_atomic_witness:
  "fst (upsert_from_oidc (example_claims\<lparr>c_subject := ''t''\<rparr>) login_db) = Inl (Wrap ''porte/pg: update user'' SqlConstraint) \<and>
   same_rows login_db login_db"
  using login_subject upsert_atomic [OF login_subject] by simp

theorem upsert_linked_account_safe_witness:
  "identity_exists ''idp'' ''t'' 1 login_db"
proof -
  let ?u = "hd (users login_db)" and ?c = "example_claims\<lparr>c_email := ''b@x'', c_subject := ''t''\<rparr>"
  have "?u \<in> set (users login_db)" "u_email_verified ?u" "holds_provider (u_id ?u) (c_provider ?c) login_db"
    "u_id ?u = 1" "c_provider ?c = ''idp''" "c_subject ?c = ''t''"
    by (simp_all add: login_db_def holds_provider_def has_row_def new_identity_def example_claims_def)
  with upsert_linked_account_safe [OF login_db_ok(1), of ?u ?c] login_linked show ?thesis by simp
qed


theorem upsert_unverified_only_creates_witness:
  "\<not> user_exists 3 login_db"
proof -
  let ?c = "example_claims\<lparr>c_email := ''c@x'', c_email_verified := False\<rparr>"
  have "\<not> has_row (\<lambda>i. identity_key i = (c_provider ?c, c_subject ?c)) (identities login_db)" by code_simp
  with upsert_unverified_only_creates [OF login_db_ok(1) _ _ login_fresh] show ?thesis by simp
qed

theorem upsert_keeps_verified_witness:
  "\<exists>u' \<in> set (users (after_login example_claims)). u_id u' = 1 \<and> u_email_verified u'"
proof -
  have "hd (users login_db) \<in> set (users login_db)" "u_id (hd (users login_db)) = 1"
    "u_email_verified (hd (users login_db))" by (simp_all add: login_db_def)
  with upsert_keeps_verified [OF login_db_ok(1) login_takeover, of "hd (users login_db)"]
  show ?thesis by auto
qed

definition late_save :: stored_identity where
  "late_save = zero_stored\<lparr>si_user := 1, si_provider := ''idp'', si_subject := ''purged''\<rparr>"

theorem save_never_moves_identity_witness:
  "identity_save None (None, None) late_save login_db = (Inl (Sentinel ErrNotFound), login_db) \<and>
   owner_of ''idp'' ''t'' login_db = Some 1"
proof -
  have "identity_save None (None, None) late_save login_db = (Inl (Sentinel ErrNotFound), login_db)" by code_simp
  moreover have "si_provider late_save \<noteq> provider_local" "owner_of ''idp'' ''t'' login_db = Some 1" by code_simp+
  ultimately show ?thesis
    using save_never_moves_identity [OF login_db_ok(1), of late_save None "(None, None)" "Inl (Sentinel ErrNotFound)" login_db]
    by simp
qed

lemma erase_example:
  "erase_identity (\<lambda>n d. d) ''local'' ''2'' login_db =
     (Inr (), snd (erase_identity (\<lambda>n d. d) ''local'' ''2'' login_db))"
  by code_simp

theorem erase_identity_gone_witness:
  "owner_of ''local'' ''2'' login_db = Some 2 \<and>
   owner_of ''local'' ''2'' (snd (erase_identity (\<lambda>n d. d) ''local'' ''2'' login_db)) = None"
  by (rule conjI, code_simp) (rule erase_identity_gone [OF erase_example])

theorem erase_identity_scope_witness:
  "owned 2 login_db \<noteq> ([], [], [], []) \<and>
   owned 2 (snd (erase_identity (\<lambda>n d. d) ''local'' ''2'' login_db)) = ([], [], [], [])"
proof -
  have "owner_of ''local'' ''2'' login_db = Some 2" by code_simp
  from erase_identity_scope [OF login_db_ok this erase_example]
  have "owned 2 (snd (erase_identity (\<lambda>n d. d) ''local'' ''2'' login_db)) =
     (filter (\<lambda>i. i_user i = 2 \<and> identity_key i \<noteq> (''local'', ''2'')) (identities login_db), [], [], [])" by simp
  moreover have "filter (\<lambda>i. i_user i = 2 \<and> identity_key i \<noteq> (''local'', ''2'')) (identities login_db) = []"
    by code_simp
  moreover have "owned 2 login_db \<noteq> ([], [], [], [])"
    by (simp add: owned_def login_db_def new_identity_def)
  ultimately show ?thesis by simp
qed

end
