(* ===== verification/Accounts.thy ===== *)
theory Accounts
  imports Pg_Identities Session
begin

text \<open>
  The two interfaces of \<open>identity.go\<close> the kits write accounts through, \<open>PasswordUserStore\<close> and
  \<open>IdentityStore\<close>, what they promise, and \<open>porte/pg\<close> behind them. \<open>accounts\<close> puts them beside the
  session store over one state: each store's operations leave the rows of the others alone.
\<close>

section \<open>The interfaces\<close>

record 's user_store_ops =
  us_create :: "string \<Rightarrow> string \<Rightarrow> 's \<Rightarrow> int result \<times> 's"
  us_find_by_email :: "string \<Rightarrow> 's \<Rightarrow> int result \<times> 's"

record 's identity_store_ops =
  is_find :: "string \<Rightarrow> string \<Rightarrow> 's \<Rightarrow> stored_identity result \<times> 's"
  is_save :: "stored_identity \<Rightarrow> 's \<Rightarrow> unit result \<times> 's"
  is_mark_roles_synced :: "string \<Rightarrow> string \<Rightarrow> time \<Rightarrow> 's \<Rightarrow> unit result \<times> 's"
  is_list_by_user :: "int \<Rightarrow> 's \<Rightarrow> stored_identity list result \<times> 's"

definition stored_key :: "stored_identity \<Rightarrow> string \<times> string" where
  "stored_key x = (si_provider x, si_subject x)"

text \<open>What a save must keep of the identity it was given.\<close>

definition same_credential :: "stored_identity \<Rightarrow> stored_identity \<Rightarrow> bool" where
  "same_credential x y = (stored_key x = stored_key y \<and> si_user x = si_user y \<and>
     si_password_hash x = si_password_hash y \<and> si_roles x = si_roles y)"

definition unstamped :: "stored_identity \<Rightarrow> stored_identity" where
  "unstamped x = x\<lparr>si_roles_synced_at := 0\<rparr>"

definition others :: "string \<times> string \<Rightarrow> stored_identity list \<Rightarrow> stored_identity list" where
  "others key xs = filter (\<lambda>x. stored_key x \<noteq> key) xs"

locale password_users =
  fixes us :: "'s user_store_ops"
    and utable :: "'s \<Rightarrow> (int \<times> string) list"
    and ok :: "'s \<Rightarrow> bool"
  assumes user_keys: "ok s \<Longrightarrow> distinct (map fst (utable s)) \<and> distinct (map snd (utable s))"
    and create_user_ok: "ok s \<Longrightarrow> ok (snd (us_create us email name s))"
    and create_user_row: "ok s \<Longrightarrow> us_create us email name s = (Inr u, s') \<Longrightarrow> utable s' = utable s @ [(u, email)]"
    and create_user_failed: "ok s \<Longrightarrow> us_create us email name s = (Inl e, s') \<Longrightarrow> utable s' = utable s"
    and find_user_ok: "ok s \<Longrightarrow> ok (snd (us_find_by_email us email s)) \<and>
      utable (snd (us_find_by_email us email s)) = utable s"
    and find_user_row: "ok s \<Longrightarrow> us_find_by_email us email s = (Inr u, s') \<Longrightarrow> (u, email) \<in> set (utable s)"
    and find_user_absent: "ok s \<Longrightarrow> us_find_by_email us email s = (Inl e, s') \<Longrightarrow> is_err e ErrNotFound \<Longrightarrow>
      email \<notin> snd ` set (utable s)"

locale identity_store =
  fixes ids :: "'s identity_store_ops"
    and ctable :: "'s \<Rightarrow> stored_identity list"
    and ok :: "'s \<Rightarrow> bool"
  assumes identity_keys: "ok s \<Longrightarrow> distinct (map stored_key (ctable s))"
    and find_identity_ok: "ok s \<Longrightarrow> ok (snd (is_find ids p j s)) \<and> ctable (snd (is_find ids p j s)) = ctable s"
    and find_identity_row: "ok s \<Longrightarrow> is_find ids p j s = (Inr x, s') \<Longrightarrow>
      x \<in> set (ctable s) \<and> stored_key x = (p, j)"
    and find_identity_absent: "ok s \<Longrightarrow> is_find ids p j s = (Inl e, s') \<Longrightarrow> is_err e ErrNotFound \<Longrightarrow>
      (p, j) \<notin> stored_key ` set (ctable s)"
    and save_identity_ok: "ok s \<Longrightarrow> ok (snd (is_save ids x s))"
    and save_identity_row: "ok s \<Longrightarrow> is_save ids x s = (Inr (), s') \<Longrightarrow>
      others (stored_key x) (ctable s') = others (stored_key x) (ctable s) \<and> (\<exists>y \<in> set (ctable s'). same_credential y x)"
    and save_identity_failed: "ok s \<Longrightarrow> is_save ids x s = (Inl e, s') \<Longrightarrow> ctable s' = ctable s"
    and mark_roles_ok: "ok s \<Longrightarrow> ok (snd (is_mark_roles_synced ids p j at s)) \<and>
      map unstamped (ctable (snd (is_mark_roles_synced ids p j at s))) = map unstamped (ctable s)"
    and list_identities_ok: "ok s \<Longrightarrow> ok (snd (is_list_by_user ids u s)) \<and>
      ctable (snd (is_list_by_user ids u s)) = ctable s"
    and list_identities_rows: "ok s \<Longrightarrow> is_list_by_user ids u s = (Inr xs, s') \<Longrightarrow>
      mset xs = mset (filter (\<lambda>x. si_user x = u) (ctable s))"
begin

lemma find_saved:
  assumes "ok s" and "is_save ids x s = (Inr (), s')" and "is_find ids (si_provider x) (si_subject x) s' = (Inr y, s2)"
  shows "same_credential y x"
proof -
  have ok': "ok s'" using save_identity_ok [OF assms(1), of x] assms(2) by simp
  from save_identity_row [OF assms(1,2)] obtain z where z: "z \<in> set (ctable s')" "same_credential z x" by auto
  from find_identity_row [OF ok' assms(3)] have "y \<in> set (ctable s')" "stored_key y = stored_key x"
    by (auto simp: stored_key_def)
  with z identity_keys [OF ok'] have "y = z" by (auto simp: same_credential_def distinct_map inj_on_def)
  with z show ?thesis by simp
qed

lemma find_other_saved:
  assumes "ok s" and "is_save ids x s = (r, s')" and "stored_key z \<noteq> stored_key x"
  shows "z \<in> set (ctable s') \<longleftrightarrow> z \<in> set (ctable s)"
proof (cases r)
  case (Inl e)
  with save_identity_failed [OF assms(1)] assms(2) show ?thesis by simp
next
  case (Inr u)
  with save_identity_row [OF assms(1)] assms(2)
  have "set (others (stored_key x) (ctable s')) = set (others (stored_key x) (ctable s))" by auto
  with assms(3) show ?thesis by (auto simp: others_def)
qed

end

section \<open>\<open>porte/pg\<close> behind them\<close>

definition pg_users :: "db user_store_ops" where
  "pg_users = \<lparr>us_create = create_from_password, us_find_by_email = find_by_email\<rparr>"

definition pg_identities :: "token_sealer \<Rightarrow> string option \<times> string option \<Rightarrow> db identity_store_ops" where
  "pg_identities sealer entropy = \<lparr>is_find = identity_find sealer, is_save = identity_save sealer entropy,
     is_mark_roles_synced = mark_roles_synced, is_list_by_user = identity_list_by_user sealer\<rparr>"

definition user_table :: "db \<Rightarrow> (int \<times> string) list" where
  "user_table d = map (\<lambda>u. (u_id u, u_email u)) (users d)"

definition cred_table :: "token_sealer \<Rightarrow> db \<Rightarrow> stored_identity list" where
  "cred_table sealer d = map (scan_identity sealer) (identities d)"

lemma same_rows_accounts:
  "same_rows d d' \<Longrightarrow> user_table d' = user_table d \<and> cred_table sealer d' = cred_table sealer d \<and>
    session_table d' = session_table d"
  by (simp add: same_rows_def user_table_def cred_table_def session_table_def)

lemma stored_key_scan [simp]: "stored_key (scan_identity sealer i) = identity_key i"
  by (simp add: stored_key_def scan_identity_def identity_key_def)

lemma scan_identity_fields [simp]: "si_user (scan_identity sealer i) = i_user i"
  "si_password_hash (scan_identity sealer i) = i_password_hash i" "si_roles (scan_identity sealer i) = i_roles i"
  by (simp_all add: scan_identity_def)

lemma identity_row_of_fields [simp]: "i_user (identity_row_of s a b) = si_user s"
  "identity_key (identity_row_of s a b) = stored_key s" "i_password_hash (identity_row_of s a b) = si_password_hash s"
  "i_roles (identity_row_of s a b) = si_roles s" "i_provider (identity_row_of s a b) = si_provider s"
  by (simp_all add: identity_row_of_def identity_key_def stored_key_def)

lemma identity_find_cases:
  assumes "identity_find sealer p j d = (r, d')"
  shows "same_rows d d' \<and> (case r of
      Inr x \<Rightarrow> x \<in> set (cred_table sealer d) \<and> stored_key x = (p, j)
    | Inl e \<Rightarrow> is_err e ErrNotFound \<longrightarrow> (p, j) \<notin> stored_key ` set (cred_table sealer d))"
proof (cases "row_with identity_key (p, j) (identities d)")
  case None
  then have "(p, j) \<notin> stored_key ` set (cred_table sealer d)" by (auto simp: row_with_None cred_table_def)
  with None assms show ?thesis
    by (auto simp: identity_find_def split: prod.splits sum.splits option.splits dest!: query_Inr query_Inl)
next
  case (Some i)
  with row_with_Some [OF Some] assms show ?thesis
    by (auto simp: identity_find_def cred_table_def split: prod.splits sum.splits option.splits dest!: query_Inr query_Inl)
qed

text \<open>The two ways a save writes: over the row of the key, or a row of its own.\<close>

lemma others_scan: "others key (map (scan_identity sealer) is) =
    map (scan_identity sealer) (filter (\<lambda>i. identity_key i \<noteq> key) is)"
  by (simp add: others_def filter_map comp_def)

lemma filter_update_key:
  assumes "\<And>i. p i \<Longrightarrow> identity_key i = key" and "\<And>i. p i \<Longrightarrow> identity_key (f i) = key"
  shows "filter (\<lambda>i. identity_key i \<noteq> key) (update_where p f is) = filter (\<lambda>i. identity_key i \<noteq> key) is"
  using assms by (induction "is") (auto simp: update_where_def)

lemma overwritten:
  assumes "has_row p (identities d)" and "\<And>i. p i \<Longrightarrow> identity_key i = identity_key row"
    and "\<And>i. p i \<Longrightarrow> f i = row"
  shows "others (identity_key row) (map (scan_identity sealer) (update_where p f (identities d))) =
      others (identity_key row) (cred_table sealer d) \<and>
    scan_identity sealer row \<in> set (map (scan_identity sealer) (update_where p f (identities d)))"
proof -
  from assms(1) obtain i where "i \<in> set (identities d)" "p i" by (auto simp: has_row_iff)
  then have "row \<in> set (update_where p f (identities d))" using assms(3) by (force simp: set_update_where)
  moreover have "filter (\<lambda>i. identity_key i \<noteq> identity_key row) (update_where p f (identities d)) =
      filter (\<lambda>i. identity_key i \<noteq> identity_key row) (identities d)"
    by (rule filter_update_key) (use assms(2,3) in auto)
  ultimately show ?thesis by (simp add: others_scan cred_table_def)
qed

lemma appended:
  "others (identity_key row) (map (scan_identity sealer) (identities d @ [row])) =
      others (identity_key row) (cred_table sealer d) \<and>
    scan_identity sealer row \<in> set (map (scan_identity sealer) (identities d @ [row]))"
  unfolding cred_table_def by (simp add: others_def)

lemma insert_federated_wrote:
  assumes "insert_federated row d = (Inr n, d')" and "n \<noteq> 0"
  shows "others (identity_key row) (cred_table sealer d') = others (identity_key row) (cred_table sealer d) \<and>
    scan_identity sealer row \<in> set (cred_table sealer d') \<and> users d' = users d \<and> sessions d' = sessions d"
proof -
  let ?p = "\<lambda>i. identity_key i = identity_key row \<and> i_user i = i_user row"
  from assms consider "d' = d\<lparr>identities := update_where ?p (\<lambda>i. row\<lparr>i_user := i_user i\<rparr>) (identities d)\<rparr>"
      "affected ?p (identities d) \<noteq> 0"
    | "d' = d\<lparr>identities := identities d @ [row]\<rparr>"
    by (auto simp: insert_federated_def Let_def split: if_splits)
  then show ?thesis
  proof cases
    case 1
    then have "has_row ?p (identities d)" by (auto simp: affected_pos has_row_iff)
    from overwritten [OF this, of row "\<lambda>i. row\<lparr>i_user := i_user i\<rparr>" sealer] 1 show ?thesis
      by (simp add: cred_table_def)
  next
    case 2
    with appended [of row sealer d] show ?thesis by (simp add: cred_table_def)
  qed
qed

lemma upsert_identity_wrote:
  assumes "upsert_identity row (\<lambda>_. row) d = (Inr u, d')"
  shows "others (identity_key row) (cred_table sealer d') = others (identity_key row) (cred_table sealer d) \<and>
    scan_identity sealer row \<in> set (cred_table sealer d') \<and> users d' = users d \<and> sessions d' = sessions d"
  using assms overwritten [of "\<lambda>i. identity_key i = identity_key row" d row "\<lambda>_. row" sealer] appended [of row sealer d]
  by (auto simp: upsert_identity_def cred_table_def split: if_splits)

lemma identity_save_Inr:
  assumes "identity_save sealer entropy x d = (Inr (), d')"
  shows "others (stored_key x) (cred_table sealer d') = others (stored_key x) (cred_table sealer d) \<and>
    (\<exists>y \<in> set (cred_table sealer d'). same_credential y x) \<and>
    user_table d' = user_table d \<and> session_table d' = session_table d"
proof -
  obtain row d1 where row: "identity_key row = stored_key x" "i_user row = si_user x"
      "i_password_hash row = si_password_hash x" "i_roles row = si_roles x"
    and w: "others (identity_key row) (cred_table sealer d1) = others (identity_key row) (cred_table sealer d) \<and>
      scan_identity sealer row \<in> set (cred_table sealer d1) \<and> users d1 = users d \<and> sessions d1 = sessions d"
    and same: "same_rows d1 d'"
  proof (cases "si_provider x = provider_local")
    case True
    with assms obtain a b where "upsert_identity (identity_row_of x a b) (\<lambda>_. identity_row_of x a b) (tick d) = (Inr (), d')"
      by (auto simp: identity_save_def split: sum.splits prod.splits dest!: stmt_Inr)
    from upsert_identity_wrote [OF this, of sealer] show thesis
      by (intro that [of "identity_row_of x a b" d']) (auto simp: cred_table_def)
  next
    case False
    from identity_save_federated [OF assms False] obtain a b where
      sv: "save_federated (identity_row_of x a b) d = (Inr (), d')" by auto
    from save_federated_Inr [OF sv] obtain n d1 where
      "insert_federated (identity_row_of x a b) d = (Inr n, d1)" "n \<noteq> 0" "same_rows d1 d'"
      by (cases "insert_federated (identity_row_of x a b) d") auto
    with insert_federated_wrote [OF this(1,2), of sealer] show thesis
      by (intro that [of "identity_row_of x a b" d1]) auto
  qed
  have "same_credential (scan_identity sealer row) x" using row by (simp add: same_credential_def)
  with w row(1) same_rows_accounts [OF same, of sealer] show ?thesis
    by (auto simp: user_table_def session_table_def)
qed

lemma identity_save_Inl: "identity_save sealer entropy x d = (Inl e, d') \<Longrightarrow> same_rows d d'"
proof (cases "si_provider x = provider_local")
  case True
  then show "identity_save sealer entropy x d = (Inl e, d') \<Longrightarrow> same_rows d d'"
    by (auto simp: identity_save_def upsert_identity_def split: sum.splits prod.splits if_splits
        dest!: wrapping_Inl stmt_Inl)
next
  case False
  then show "identity_save sealer entropy x d = (Inl e, d') \<Longrightarrow> same_rows d d'"
    using identity_save_federated [of sealer entropy x d "Inl e" d'] by auto
qed

lemma mark_roles_state:
  "map unstamped (cred_table sealer (snd (mark_roles_synced p j at d))) = map unstamped (cred_table sealer d)"
proof -
  have "map (\<lambda>i. unstamped (scan_identity sealer i)) (update_where q (\<lambda>i. i\<lparr>i_roles_synced_at := t\<rparr>) is) =
      map (\<lambda>i. unstamped (scan_identity sealer i)) is" for q t "is"
    by (induction "is") (simp_all add: update_where_def unstamped_def scan_identity_def)
  then show ?thesis by (simp add: mark_roles_synced_def stmt_def cred_table_def comp_def)
qed

lemma find_by_email_cases:
  assumes "find_by_email email d = (r, d')"
  shows "same_rows d d' \<and> (case r of
      Inr u \<Rightarrow> (u, email) \<in> set (user_table d)
    | Inl e \<Rightarrow> is_err e ErrNotFound \<longrightarrow> email \<notin> snd ` set (user_table d))"
proof (cases "row_with u_email email (users d)")
  case None
  then have "email \<notin> snd ` set (user_table d)" by (auto simp: row_with_None user_table_def)
  with None assms show ?thesis
    by (auto simp: find_by_email_def split: prod.splits sum.splits option.splits dest!: query_Inr query_Inl)
next
  case (Some u)
  with row_with_Some [OF Some] assms show ?thesis
    by (auto simp: find_by_email_def user_table_def split: prod.splits sum.splits option.splits dest!: query_Inr query_Inl)
qed

lemma create_from_password_cases:
  assumes "create_from_password email name d = (r, d')"
  shows "cred_table sealer d' = cred_table sealer d \<and> session_table d' = session_table d \<and>
    (case r of Inr u \<Rightarrow> user_table d' = user_table d @ [(u, email)] | Inl e \<Rightarrow> user_table d' = user_table d)"
  using assms unfolding create_from_password_def
  by (auto simp: user_table_def cred_table_def session_table_def Let_def split: sum.splits if_splits
      dest!: wrapping_Inl stmt_Inr stmt_Inl)

interpretation pgu: password_users pg_users user_table db_ok
proof unfold_locales
  fix s s' :: db and email name u e
  assume ok: "db_ok s"
  show "distinct (map fst (user_table s)) \<and> distinct (map snd (user_table s))"
    using ok by (simp add: db_ok_defs user_table_def comp_def)
  show "db_ok (snd (us_create pg_users email name s))"
    using keeps_okD [OF keeps_create_from_password ok] by (simp add: pg_users_def)
  show "us_create pg_users email name s = (Inr u, s') \<Longrightarrow> user_table s' = user_table s @ [(u, email)]"
    using create_from_password_cases [of email name s "Inr u" s'] by (simp add: pg_users_def)
  show "us_create pg_users email name s = (Inl e, s') \<Longrightarrow> user_table s' = user_table s"
    using create_from_password_cases [of email name s "Inl e" s'] by (simp add: pg_users_def)
  show "db_ok (snd (us_find_by_email pg_users email s)) \<and>
      user_table (snd (us_find_by_email pg_users email s)) = user_table s"
    by (auto simp: pg_users_def find_by_email_def query_def stmt_def ok user_table_def split: option.splits)
  show "us_find_by_email pg_users email s = (Inr u, s') \<Longrightarrow> (u, email) \<in> set (user_table s)"
    using find_by_email_cases [of email s "Inr u" s'] by (simp add: pg_users_def)
  show "us_find_by_email pg_users email s = (Inl e, s') \<Longrightarrow> is_err e ErrNotFound \<Longrightarrow> email \<notin> snd ` set (user_table s)"
    using find_by_email_cases [of email s "Inl e" s'] by (simp add: pg_users_def)
qed

interpretation pgi: identity_store "pg_identities sealer entropy" "cred_table sealer" db_ok
  for sealer entropy
proof unfold_locales
  fix s s' :: db and p j x e u xs and at :: time
  assume ok: "db_ok s"
  show "distinct (map stored_key (cred_table sealer s))"
    using db_ok_identities [OF ok] by (simp add: cred_table_def comp_def)
  show "db_ok (snd (is_find (pg_identities sealer entropy) p j s)) \<and>
      cred_table sealer (snd (is_find (pg_identities sealer entropy) p j s)) = cred_table sealer s"
    by (auto simp: pg_identities_def identity_find_def query_def stmt_def ok cred_table_def split: option.splits)
  show "is_find (pg_identities sealer entropy) p j s = (Inr x, s') \<Longrightarrow> x \<in> set (cred_table sealer s) \<and> stored_key x = (p, j)"
    using identity_find_cases [of sealer p j s "Inr x" s'] by (simp add: pg_identities_def)
  show "is_find (pg_identities sealer entropy) p j s = (Inl e, s') \<Longrightarrow> is_err e ErrNotFound \<Longrightarrow>
      (p, j) \<notin> stored_key ` set (cred_table sealer s)"
    using identity_find_cases [of sealer p j s "Inl e" s'] by (simp add: pg_identities_def)
  show "db_ok (snd (is_save (pg_identities sealer entropy) x s))"
    using keeps_okD [OF keeps_identity_save ok] by (simp add: pg_identities_def)
  show "is_save (pg_identities sealer entropy) x s = (Inr (), s') \<Longrightarrow>
      others (stored_key x) (cred_table sealer s') = others (stored_key x) (cred_table sealer s) \<and>
      (\<exists>y \<in> set (cred_table sealer s'). same_credential y x)"
    using identity_save_Inr [of sealer entropy x s s'] by (simp add: pg_identities_def)
  show "is_save (pg_identities sealer entropy) x s = (Inl e, s') \<Longrightarrow> cred_table sealer s' = cred_table sealer s"
    using identity_save_Inl [of sealer entropy x s e s'] same_rows_accounts [of s s' sealer]
    by (simp add: pg_identities_def)
  show "db_ok (snd (is_mark_roles_synced (pg_identities sealer entropy) p j at s)) \<and>
      map unstamped (cred_table sealer (snd (is_mark_roles_synced (pg_identities sealer entropy) p j at s))) =
      map unstamped (cred_table sealer s)"
    using keeps_okD [OF keeps_mark_roles_synced ok] by (simp add: pg_identities_def mark_roles_state)
  show "db_ok (snd (is_list_by_user (pg_identities sealer entropy) u s)) \<and>
      cred_table sealer (snd (is_list_by_user (pg_identities sealer entropy) u s)) = cred_table sealer s"
    by (simp add: pg_identities_def identity_list_by_user_def query_state ok cred_table_def)
  show "is_list_by_user (pg_identities sealer entropy) u s = (Inr xs, s') \<Longrightarrow>
      mset xs = mset (filter (\<lambda>x. si_user x = u) (cred_table sealer s))"
    by (auto simp: pg_identities_def identity_list_by_user_def cred_table_def filter_map comp_def mset_map
        simp del: map_map dest!: query_Inr)
qed

section \<open>The three stores of an account\<close>

locale accounts =
  users: password_users us utable ok + creds: identity_store ids ctable ok + logins: session_store st table vouches ok
  for us :: "'s user_store_ops" and utable ok ids ctable st table vouches +
  assumes create_user_others: "ok s \<Longrightarrow> ctable (snd (us_create us email name s)) = ctable s \<and>
      table (snd (us_create us email name s)) = table s"
    and find_user_others: "ok s \<Longrightarrow> ctable (snd (us_find_by_email us email s)) = ctable s \<and>
      table (snd (us_find_by_email us email s)) = table s"
    and find_identity_others: "ok s \<Longrightarrow> utable (snd (is_find ids p j s)) = utable s \<and> table (snd (is_find ids p j s)) = table s"
    and save_identity_others: "ok s \<Longrightarrow> utable (snd (is_save ids x s)) = utable s \<and> table (snd (is_save ids x s)) = table s"
    and create_session_others: "ok s \<Longrightarrow> utable (snd (ss_create st y s)) = utable s \<and> ctable (snd (ss_create st y s)) = ctable s"
    and delete_logins_others: "ok s \<Longrightarrow> utable (snd (ss_delete_logins st u i s)) = utable s \<and>
      ctable (snd (ss_delete_logins st u i s)) = ctable s"
    and delete_by_id_others: "ok s \<Longrightarrow> utable (snd (ss_delete_by_id st u i s)) = utable s \<and>
      ctable (snd (ss_delete_by_id st u i s)) = ctable s"

lemma session_ops_others:
  "user_table (snd (session_create x d)) = user_table d \<and> cred_table sealer (snd (session_create x d)) = cred_table sealer d"
  "user_table (snd (session_delete_logins u i d)) = user_table d \<and>
    cred_table sealer (snd (session_delete_logins u i d)) = cred_table sealer d"
  "user_table (snd (session_delete_by_id u i d)) = user_table d \<and>
    cred_table sealer (snd (session_delete_by_id u i d)) = cred_table sealer d"
proof -
  obtain r d' where c: "session_create x d = (r, d')" by (cases "session_create x d")
  then show "user_table (snd (session_create x d)) = user_table d \<and>
      cred_table sealer (snd (session_create x d)) = cred_table sealer d"
    using session_create_Inr [of x d _ d'] session_create_Inl [of x d _ d'] same_rows_accounts [of d d' sealer]
    by (cases r) (auto simp: user_table_def cred_table_def)
qed (simp_all add: session_delete_ops delete_sessions_def stmt_def user_table_def cred_table_def)

lemma identity_ops_others:
  "user_table (snd (identity_save sealer entropy x d)) = user_table d \<and>
    session_table (snd (identity_save sealer entropy x d)) = session_table d"
  "user_table (snd (identity_find sealer p j d)) = user_table d \<and>
    session_table (snd (identity_find sealer p j d)) = session_table d"
proof -
  obtain r d' where c: "identity_save sealer entropy x d = (r, d')" by (cases "identity_save sealer entropy x d")
  then show "user_table (snd (identity_save sealer entropy x d)) = user_table d \<and>
      session_table (snd (identity_save sealer entropy x d)) = session_table d"
    using identity_save_Inr [of sealer entropy x d d'] identity_save_Inl [of sealer entropy x d _ d']
      same_rows_accounts [of d d' sealer] by (cases r) auto
  obtain q d2 where "identity_find sealer p j d = (q, d2)" by (cases "identity_find sealer p j d")
  then show "user_table (snd (identity_find sealer p j d)) = user_table d \<and>
      session_table (snd (identity_find sealer p j d)) = session_table d"
    using identity_find_cases [of sealer p j d q d2] same_rows_accounts [of d d2 sealer] by auto
qed

lemma user_ops_others:
  "cred_table sealer (snd (create_from_password email name d)) = cred_table sealer d \<and>
    session_table (snd (create_from_password email name d)) = session_table d"
  "cred_table sealer (snd (find_by_email email d)) = cred_table sealer d \<and>
    session_table (snd (find_by_email email d)) = session_table d"
proof -
  show "cred_table sealer (snd (create_from_password email name d)) = cred_table sealer d \<and>
      session_table (snd (create_from_password email name d)) = session_table d"
    using create_from_password_cases [of email name d] by (metis prod.collapse)
  show "cred_table sealer (snd (find_by_email email d)) = cred_table sealer d \<and>
      session_table (snd (find_by_email email d)) = session_table d"
    using find_by_email_cases [of email d] same_rows_accounts by (metis prod.collapse)
qed

interpretation pgacc: accounts pg_users user_table db_ok "pg_identities sealer entropy" "cred_table sealer"
    pg_sessions session_table voucher_holds
  for sealer entropy
  by unfold_locales
    (simp_all add: pg_users_def pg_identities_def pg_sessions_def session_ops_others identity_ops_others user_ops_others)

end
