(* ===== verification/Password.thy ===== *)
theory Password
  imports Sealer
begin

text \<open>
  The file \<open>local/password.go\<close>: argon2id in its PHC encoding. Deriving a key is
  \<open>golang.org/x/crypto/argon2\<close>'s, an argument here; \<open>fmt.Sscanf\<close>, the standard base64 alphabet
  and the counting of runes are modelled as far as the file uses them. The lemmas give the round
  trip of a hash, the one derivation every refusal pays for, and that an account without a
  password has none that opens it.
\<close>

section \<open>The standard library, as used\<close>

text \<open>\<open>base64.RawStdEncoding\<close> differs from the URL alphabet in two digits.\<close>

definition std_digit :: "char \<Rightarrow> char" where
  "std_digit c = (if c = CHR ''-'' then CHR ''+'' else if c = CHR ''_'' then CHR ''/'' else c)"

definition raw_std_encode :: "string \<Rightarrow> string" where
  "raw_std_encode s = map std_digit (b64_encode s)"

definition raw_std_decode :: "string \<Rightarrow> string option" where
  "raw_std_decode s = decode_quads std_value (skip_newlines s)"

text \<open>
  \<open>fmt.Sscanf\<close> with literals and \<open>%d\<close>: white space before a number is skipped but for a line
  end, the digits run as far as they go, a value that does not fit the operand is an error, and
  what follows the last verb is not looked at.
\<close>

definition is_digit :: "char \<Rightarrow> bool" where
  "is_digit c = (let n = (of_char c :: nat) in 48 \<le> n \<and> n \<le> 57)"

definition scan_literal :: "string \<Rightarrow> string \<Rightarrow> string option" where
  "scan_literal lit s = (if take (length lit) s = lit then Some (drop (length lit) s) else None)"

fun skip_space :: "string \<Rightarrow> string option" where
  "skip_space [] = Some []"
| "skip_space (c # cs) = (if c = CHR 0x0A then None else if is_space c then skip_space cs else Some (c # cs))"

definition scan_digits :: "nat \<Rightarrow> string \<Rightarrow> (nat \<times> string) option" where
  "scan_digits limit s = (let ds = takeWhile is_digit s in
     if ds = [] \<or> limit \<le> undec ds then None else Some (undec ds, drop (length ds) s))"

definition scan_uint :: "nat \<Rightarrow> string \<Rightarrow> (nat \<times> string) option" where
  "scan_uint bits s = (case skip_space s of None \<Rightarrow> None | Some t \<Rightarrow> scan_digits (2 ^ bits) t)"

definition scan_int :: "string \<Rightarrow> (int \<times> string) option" where
  "scan_int s = (case skip_space s of None \<Rightarrow> None
   | Some t \<Rightarrow> (case t of
       c # u \<Rightarrow>
         if c = CHR ''-'' then map_option (\<lambda>(n, v). (- int n, v)) (scan_digits (2 ^ 63 + 1) u)
         else if c = CHR ''+'' then map_option (\<lambda>(n, v). (int n, v)) (scan_digits (2 ^ 63) u)
         else map_option (\<lambda>(n, v). (int n, v)) (scan_digits (2 ^ 63) t)
     | [] \<Rightarrow> None))"

text \<open>
  The width in bytes of the first rune of a string that is not empty; a byte that starts no valid
  encoding is a rune of its own. \<open>len([]rune(s))\<close> counts them.
\<close>

definition byte_in :: "string \<Rightarrow> nat \<Rightarrow> nat \<Rightarrow> nat \<Rightarrow> bool" where
  "byte_in s i lo hi = (case drop i s of [] \<Rightarrow> False | c # _ \<Rightarrow> lo \<le> (of_char c :: nat) \<and> (of_char c :: nat) \<le> hi)"

definition rune_width :: "string \<Rightarrow> nat" where
  "rune_width s =
     (if byte_in s 0 0xC2 0xDF \<and> byte_in s 1 0x80 0xBF then 2
      else if byte_in s 0 0xE0 0xE0 \<and> byte_in s 1 0xA0 0xBF \<and> byte_in s 2 0x80 0xBF then 3
      else if byte_in s 0 0xED 0xED \<and> byte_in s 1 0x80 0x9F \<and> byte_in s 2 0x80 0xBF then 3
      else if byte_in s 0 0xE1 0xEF \<and> \<not> byte_in s 0 0xED 0xED \<and> byte_in s 1 0x80 0xBF \<and> byte_in s 2 0x80 0xBF then 3
      else if byte_in s 0 0xF0 0xF0 \<and> byte_in s 1 0x90 0xBF \<and> byte_in s 2 0x80 0xBF \<and> byte_in s 3 0x80 0xBF then 4
      else if byte_in s 0 0xF1 0xF3 \<and> byte_in s 1 0x80 0xBF \<and> byte_in s 2 0x80 0xBF \<and> byte_in s 3 0x80 0xBF then 4
      else if byte_in s 0 0xF4 0xF4 \<and> byte_in s 1 0x80 0x8F \<and> byte_in s 2 0x80 0xBF \<and> byte_in s 3 0x80 0xBF then 4
      else 1)"

lemma rune_width_pos [simp]: "0 < rune_width s"
  by (simp add: rune_width_def)

function rune_count :: "string \<Rightarrow> nat" where
  "rune_count s = (if s = [] then 0 else 1 + rune_count (drop (rune_width s) s))"
  by pat_completeness auto

termination
  by (relation "measure length") auto

declare rune_count.simps [simp del]

section \<open>password.go\<close>

definition argon2_memory :: nat where "argon2_memory = 64 * 1024"
definition argon2_iterations :: nat where "argon2_iterations = 3"
definition argon2_parallelism :: nat where "argon2_parallelism = 2"
definition argon2_salt_length :: nat where "argon2_salt_length = 16"
definition argon2_key_length :: nat where "argon2_key_length = 32"

lemmas argon2_params = argon2_memory_def argon2_iterations_def argon2_parallelism_def argon2_salt_length_def
  argon2_key_length_def

text \<open>
  \<open>ag_key password salt time memory threads keyLen\<close> is \<open>argon2.IDKey\<close>, \<open>None\<close> when it panics (as
  it does for no pass or no lane), and \<open>ag_version\<close> is \<open>argon2.Version\<close>.
\<close>

record argon2 =
  ag_key :: "string \<Rightarrow> string \<Rightarrow> nat \<Rightarrow> nat \<Rightarrow> nat \<Rightarrow> nat \<Rightarrow> string option"
  ag_version :: nat

definition panicked :: error where "panicked = Plain ''panic: argon2''"

definition phc :: "argon2 \<Rightarrow> string \<Rightarrow> string \<Rightarrow> string" where
  "phc ag salt hash = ''$argon2id$v='' @ dec (ag_version ag) @ ''$m='' @ dec argon2_memory @ '',t='' @
     dec argon2_iterations @ '',p='' @ dec argon2_parallelism @ ''$'' @ raw_std_encode salt @ ''$'' @ raw_std_encode hash"

definition hash_password :: "argon2 \<Rightarrow> string option \<Rightarrow> string \<Rightarrow> string result" where
  "hash_password ag entropy password = (case entropy of
     None \<Rightarrow> Inl (Plain ''crypto/rand'')
   | Some bytes \<Rightarrow> (let salt = take argon2_salt_length bytes in
       case ag_key ag password salt argon2_iterations argon2_memory argon2_parallelism argon2_key_length of
         None \<Rightarrow> Inl panicked
       | Some hash \<Rightarrow> Inr (phc ag salt hash)))"

text \<open>What an encoding says, when it is well formed: the parameters, the salt and the digest.\<close>

definition parse_phc :: "argon2 \<Rightarrow> string \<Rightarrow> (nat \<times> nat \<times> nat \<times> string \<times> string) option" where
  "parse_phc ag encoded = (let parts = split_on CHR ''$'' encoded in
     if length parts \<noteq> 6 \<or> parts ! 1 \<noteq> ''argon2id'' then None
     else case Option.bind (scan_literal ''v='' (parts ! 2)) scan_int of
       None \<Rightarrow> None
     | Some (version, _) \<Rightarrow>
         if version \<noteq> int (ag_version ag) then None
         else case Option.bind (scan_literal ''m='' (parts ! 3)) (scan_uint 32) of
           None \<Rightarrow> None
         | Some (memory, r1) \<Rightarrow> (case Option.bind (scan_literal '',t='' r1) (scan_uint 32) of
             None \<Rightarrow> None
           | Some (iterations, r2) \<Rightarrow> (case Option.bind (scan_literal '',p='' r2) (scan_uint 8) of
               None \<Rightarrow> None
             | Some (parallelism, _) \<Rightarrow> (case raw_std_decode (parts ! 4) of
                 None \<Rightarrow> None
               | Some salt \<Rightarrow> (case raw_std_decode (parts ! 5) of
                   None \<Rightarrow> None
                 | Some want \<Rightarrow> Some (memory, iterations, parallelism, salt, want))))))"

definition verify_password :: "argon2 \<Rightarrow> string \<Rightarrow> string \<Rightarrow> bool result" where
  "verify_password ag password encoded = (case parse_phc ag encoded of
     None \<Rightarrow> Inr False
   | Some (memory, iterations, parallelism, salt, want) \<Rightarrow>
       (case ag_key ag password salt iterations memory parallelism (length want mod 2 ^ 32) of
          None \<Rightarrow> Inl panicked
        | Some got \<Rightarrow> Inr (secure_compare got want)))"

text \<open>
  The derivations a verification runs, with their cost parameters, and \<open>EqualizeTiming\<close> against
  the throwaway hash, empty when it could not be made.
\<close>

type_synonym work = "(nat \<times> nat \<times> nat) list"

definition verify_work :: "argon2 \<Rightarrow> string \<Rightarrow> work" where
  "verify_work ag encoded = (case parse_phc ag encoded of
     None \<Rightarrow> [] | Some (memory, iterations, parallelism, _, _) \<Rightarrow> [(memory, iterations, parallelism)])"

definition dummy_hash :: "argon2 \<Rightarrow> string option \<Rightarrow> string" where
  "dummy_hash ag entropy = (case hash_password ag entropy ''timing-equalizer-not-a-secret'' of
     Inl _ \<Rightarrow> [] | Inr hash \<Rightarrow> hash)"

definition equalize_timing :: "argon2 \<Rightarrow> string \<Rightarrow> string \<Rightarrow> bool result \<times> work" where
  "equalize_timing ag dummy password =
     (if dummy \<noteq> [] then (verify_password ag password dummy, verify_work ag dummy) else (Inr False, []))"

section \<open>Round trip\<close>

lemma split_on_append: "c \<notin> set p \<Longrightarrow> split_on c (p @ c # q) = p # split_on c q"
  by (induction p) auto

lemma std_value_digit: "n < 64 \<Longrightarrow> std_value (std_digit (b64_digit n)) = Some n"
proof -
  assume n: "n < 64"
  have "b64_digit n \<noteq> CHR ''+''" "b64_digit n \<noteq> CHR ''/''"
    using n by (auto simp: char_eq_iff of_char_b64_digit)
  moreover have "b64_digit n = CHR ''-'' \<longleftrightarrow> n = 62" "b64_digit n = CHR ''_'' \<longleftrightarrow> n = 63"
    using n by (auto simp: char_eq_iff of_char_b64_digit)
  ultimately show ?thesis using n by (simp add: std_value_def std_digit_def)
qed

lemma std_digit_plain:
  "n < 64 \<Longrightarrow> std_digit (b64_digit n) \<noteq> CHR 0x0A \<and> std_digit (b64_digit n) \<noteq> CHR 0x0D \<and>
    std_digit (b64_digit n) \<noteq> CHR ''$''"
  by (auto simp: std_digit_def char_eq_iff of_char_b64_digit)

lemma b64_digits: "c \<in> set (b64_encode s) \<Longrightarrow> \<exists>n < 64. c = b64_digit n"
proof -
  have "c \<in> set (b64_encode s) \<Longrightarrow> c \<in> b64_digit ` {..<64}"
    by (induction s rule: b64_encode.induct) (auto simp: Let_def intro!: imageI)
  then show "c \<in> set (b64_encode s) \<Longrightarrow> \<exists>n < 64. c = b64_digit n" by auto
qed

lemma raw_std_no_dollar: "CHR ''$'' \<notin> set (raw_std_encode s)"
  by (auto simp: raw_std_encode_def dest!: b64_digits) (metis std_digit_plain)

lemma skip_newlines_raw: "skip_newlines (raw_std_encode s) = raw_std_encode s"
  by (auto simp: skip_newlines_def raw_std_encode_def filter_id_conv dest!: b64_digits)
    (metis std_digit_plain)+

lemma raw_std_round_trip: "raw_std_decode (raw_std_encode s) = Some s"
proof -
  have "decode_quads std_value (raw_std_encode s) = Some s"
    unfolding raw_std_encode_def
    by (induction s rule: b64_encode.induct) (simp_all add: Let_def std_value_digit)
  then show ?thesis by (simp add: raw_std_decode_def skip_newlines_raw)
qed

lemma dec_is_digit: "c \<in> set (dec n) \<Longrightarrow> is_digit c"
  using dec_digits by (auto simp: is_digit_def Let_def)

lemma takeWhile_dec: "rest = [] \<or> \<not> is_digit (hd rest) \<Longrightarrow> takeWhile is_digit (dec n @ rest) = dec n"
  using dec_is_digit by (cases rest) (auto simp: takeWhile_append)

lemma dec_hd: "\<exists>c cs. dec n = c # cs \<and> is_digit c"
  by (cases "dec n") (use dec_is_digit [of _ n] in auto)

lemma digit_plain: "is_digit c \<Longrightarrow> \<not> is_space c \<and> c \<noteq> CHR 0x0A \<and> c \<noteq> CHR ''-'' \<and> c \<noteq> CHR ''+'' \<and> c \<noteq> CHR ''$''"
  by (auto simp: is_digit_def is_space_def Let_def char_eq_iff)

lemma skip_space_dec: "skip_space (dec n @ rest) = Some (dec n @ rest)"
  using dec_hd [of n] digit_plain by auto

lemma scan_digits_dec:
  "n < limit \<Longrightarrow> rest = [] \<or> \<not> is_digit (hd rest) \<Longrightarrow> scan_digits limit (dec n @ rest) = Some (n, rest)"
  by (simp add: scan_digits_def takeWhile_dec)

lemma scan_uint_dec:
  "n < 2 ^ bits \<Longrightarrow> rest = [] \<or> \<not> is_digit (hd rest) \<Longrightarrow> scan_uint bits (dec n @ rest) = Some (n, rest)"
  by (simp add: scan_uint_def skip_space_dec scan_digits_dec)

lemma scan_int_dec:
  assumes "n < 2 ^ 63" and "rest = [] \<or> \<not> is_digit (hd rest)"
  shows "scan_int (dec n @ rest) = Some (int n, rest)"
proof -
  obtain c cs where c: "dec n = c # cs" "is_digit c" using dec_hd by blast
  then have "scan_int (dec n @ rest) = map_option (\<lambda>(n, v). (int n, v)) (scan_digits (2 ^ 63) (dec n @ rest))"
    using digit_plain [OF c(2)] skip_space_dec [of n rest] by (simp add: scan_int_def)
  with scan_digits_dec [OF assms] show ?thesis by simp
qed

lemma scan_literal_append [simp]: "scan_literal lit (lit @ s) = Some s"
  by (simp add: scan_literal_def)

lemma dec_no_dollar: "CHR ''$'' \<notin> set (dec n)"
  using dec_is_digit digit_plain by blast

lemma split_phc:
  "split_on CHR ''$'' (phc ag salt hash) = [[], ''argon2id'', ''v='' @ dec (ag_version ag),
     ''m='' @ dec argon2_memory @ '',t='' @ dec argon2_iterations @ '',p='' @ dec argon2_parallelism,
     raw_std_encode salt, raw_std_encode hash]"
proof -
  let ?v = "''v='' @ dec (ag_version ag)"
  let ?m = "''m='' @ dec argon2_memory @ '',t='' @ dec argon2_iterations @ '',p='' @ dec argon2_parallelism"
  have eq: "phc ag salt hash = [] @ CHR ''$'' # ''argon2id'' @ CHR ''$'' # ?v @ CHR ''$'' # ?m @ CHR ''$'' #
      raw_std_encode salt @ CHR ''$'' # raw_std_encode hash"
    by (simp add: phc_def)
  have nd: "CHR ''$'' \<notin> set []" "CHR ''$'' \<notin> set ''argon2id''" "CHR ''$'' \<notin> set ?v" "CHR ''$'' \<notin> set ?m"
    by (simp_all add: dec_no_dollar)
  show ?thesis
    unfolding eq split_on_append [OF nd(1)] split_on_append [OF nd(2)] split_on_append [OF nd(3)]
      split_on_append [OF nd(4)] split_on_append [OF raw_std_no_dollar] split_on_absent [OF raw_std_no_dollar] ..
qed

lemma parse_phc_phc:
  assumes "ag_version ag < 2 ^ 63"
  shows "parse_phc ag (phc ag salt hash) =
    Some (argon2_memory, argon2_iterations, argon2_parallelism, salt, hash)"
proof -
  have v: "scan_int (dec (ag_version ag)) = Some (int (ag_version ag), [])"
    using scan_int_dec [OF assms, of "[]"] by simp
  have m: "scan_uint 32 (dec argon2_memory @ rest) = Some (argon2_memory, rest)"
    "scan_uint 32 (dec argon2_iterations @ rest) = Some (argon2_iterations, rest)"
    if "rest = [] \<or> \<not> is_digit (hd rest)" for rest
    using that by (simp_all add: scan_uint_dec argon2_params)
  have p: "scan_uint 8 (dec argon2_parallelism) = Some (argon2_parallelism, [])"
    using scan_uint_dec [of argon2_parallelism 8 "[]"] by (simp add: argon2_params)
  have "\<not> is_digit CHR '',''" by (simp add: is_digit_def)
  then show ?thesis
    unfolding parse_phc_def split_phc Let_def
    using v p m [of "'',t='' @ dec argon2_iterations @ '',p='' @ dec argon2_parallelism"]
      m [of "'',p='' @ dec argon2_parallelism"]
    by (simp add: raw_std_round_trip scan_literal_def)
qed

text \<open>What the kit relies on of argon2: with these parameters it returns a key of the length asked for.\<close>

definition argon2_sound :: "argon2 \<Rightarrow> bool" where
  "argon2_sound ag = (ag_version ag < 2 ^ 63 \<and> (\<forall>password salt.
     \<exists>key. ag_key ag password salt argon2_iterations argon2_memory argon2_parallelism argon2_key_length = Some key \<and>
       length key = argon2_key_length))"

lemma hash_password_Inr:
  assumes "argon2_sound ag" and "hash_password ag entropy password = Inr encoded"
  obtains bytes key where "entropy = Some bytes" and "encoded = phc ag (take argon2_salt_length bytes) key"
    and "length key = argon2_key_length" and "ag_key ag password (take argon2_salt_length bytes) argon2_iterations
      argon2_memory argon2_parallelism argon2_key_length = Some key"
proof (cases entropy)
  case (Some bytes)
  from assms(1) obtain key where k: "ag_key ag password (take argon2_salt_length bytes) argon2_iterations
      argon2_memory argon2_parallelism argon2_key_length = Some key" "length key = argon2_key_length"
    by (auto simp: argon2_sound_def)
  with assms(2) Some have "encoded = phc ag (take argon2_salt_length bytes) key"
    by (simp add: hash_password_def Let_def)
  from that [OF Some this k(2,1)] show thesis .
qed (use assms(2) in \<open>simp add: hash_password_def\<close>)

lemma verify_phc:
  assumes "argon2_sound ag" and "length key = argon2_key_length"
  shows "verify_password ag password (phc ag salt key) = Inr
      (ag_key ag password salt argon2_iterations argon2_memory argon2_parallelism argon2_key_length = Some key)"
    and "verify_work ag (phc ag salt key) = [(argon2_memory, argon2_iterations, argon2_parallelism)]"
proof -
  obtain got where got: "ag_key ag password salt argon2_iterations argon2_memory argon2_parallelism argon2_key_length = Some got"
    using assms(1) by (auto simp: argon2_sound_def)
  have parse: "parse_phc ag (phc ag salt key) =
      Some (argon2_memory, argon2_iterations, argon2_parallelism, salt, key)"
    using assms(1) by (intro parse_phc_phc) (simp add: argon2_sound_def)
  have len: "length key mod 2 ^ 32 = argon2_key_length" using assms(2) by (simp add: argon2_key_length_def)
  show "verify_password ag password (phc ag salt key) = Inr
      (ag_key ag password salt argon2_iterations argon2_memory argon2_parallelism argon2_key_length = Some key)"
    unfolding verify_password_def parse by (simp add: len [simplified] got)
  show "verify_work ag (phc ag salt key) = [(argon2_memory, argon2_iterations, argon2_parallelism)]"
    unfolding verify_work_def parse by simp
qed

lemma verify_hash_password:
  assumes "argon2_sound ag" and "hash_password ag entropy password = Inr encoded"
  shows "verify_password ag password encoded = Inr True"
  by (rule hash_password_Inr [OF assms]) (simp add: verify_phc [OF assms(1)])

lemma no_password [simp]: "verify_password ag password [] = Inr False" "verify_work ag [] = []"
  by (simp_all add: verify_password_def verify_work_def parse_phc_def)

section \<open>Properties\<close>

text \<open> A password hash. Any hash \<open>HashPassword\<close> returns verifies the password it was made from, and
  another password exactly when argon2 derives the same key from it under the same salt; the
  parameters in the encoding are the ones it was made with, whatever salt and digest it carries. \<close>

theorem password_round_trip:
  assumes "argon2_sound ag" and "hash_password ag (Some bytes) password = Inr encoded"
  shows "verify_password ag password encoded = Inr True \<and>
    (\<forall>other. verify_password ag other encoded = Inr
      (ag_key ag other (take argon2_salt_length bytes) argon2_iterations argon2_memory argon2_parallelism argon2_key_length =
       ag_key ag password (take argon2_salt_length bytes) argon2_iterations argon2_memory argon2_parallelism argon2_key_length)) \<and>
    verify_work ag encoded = [(argon2_memory, argon2_iterations, argon2_parallelism)]"
proof -
  let ?salt = "take argon2_salt_length bytes"
  obtain key where key: "encoded = phc ag ?salt key" "length key = argon2_key_length"
    "ag_key ag password ?salt argon2_iterations argon2_memory argon2_parallelism argon2_key_length = Some key"
    by (rule hash_password_Inr [OF assms]) simp
  with verify_phc [OF assms(1) key(2)] show ?thesis by simp
qed

text \<open>An argon2 that returns the first bytes of the password: enough to compute with.\<close>

definition toy_argon2 :: argon2 where
  "toy_argon2 = \<lparr>ag_key = (\<lambda>password salt time memory threads len.
      if time = 0 \<or> threads = 0 \<or> len = 0 then None else Some (take len (password @ replicate len CHR ''x''))),
     ag_version = 19\<rparr>"

lemma toy_argon2_sound [simp]: "argon2_sound toy_argon2"
  by (simp add: argon2_sound_def toy_argon2_def argon2_params) (simp add: min_def)

theorem password_round_trip_witness:
  "verify_password toy_argon2 ''correct horse''
     (phc toy_argon2 (replicate 16 CHR ''s'') (''correct horse'' @ replicate 19 CHR ''x''))
   = Inr True \<and>
   verify_password toy_argon2 ''wrong horse''
     (phc toy_argon2 (replicate 16 CHR ''s'') (''correct horse'' @ replicate 19 CHR ''x''))
   = Inr False"
proof -
  have "hash_password toy_argon2 (Some (replicate 16 CHR ''s'')) ''correct horse'' =
    Inr (phc toy_argon2 (replicate 16 CHR ''s'') (''correct horse'' @ replicate 19 CHR ''x''))"
    by (simp add: hash_password_def toy_argon2_def argon2_params Let_def)
  from password_round_trip [OF toy_argon2_sound this] show ?thesis
    by (simp add: toy_argon2_def argon2_params)
qed

text \<open>No password. The empty encoding of an account without a password, and any encoding that is not six
  fields of argon2id at the version in use, verifies no password at all and runs no derivation.\<close>

theorem malformed_hash_opens_nothing:
  assumes "length (split_on CHR ''$'' encoded) \<noteq> 6 \<or> split_on CHR ''$'' encoded ! 1 \<noteq> ''argon2id'' \<or>
    (\<forall>v rest. scan_literal ''v='' (split_on CHR ''$'' encoded ! 2) = Some v \<longrightarrow> scan_int v \<noteq> Some (int (ag_version ag), rest))"
  shows "verify_password ag password encoded = Inr False \<and> verify_work ag encoded = []"
proof -
  have "parse_phc ag encoded = None"
    using assms unfolding parse_phc_def Let_def
    by (cases "scan_literal ''v='' (split_on CHR ''$'' encoded ! 2)") (auto split: option.splits)
  then show ?thesis by (simp add: verify_password_def verify_work_def)
qed

theorem malformed_hash_opens_nothing_witness:
  "verify_password toy_argon2 ''anything'' [] = Inr False \<and> verify_password toy_argon2 ''x'' ''$argon2i$v=19$m=1$c2FsdA$aGFzaA'' = Inr False"
  using malformed_hash_opens_nothing [of "[]" toy_argon2 "''anything''"]
    malformed_hash_opens_nothing [of "''$argon2i$v=19$m=1$c2FsdA$aGFzaA''" toy_argon2 "''x''"] by simp

text \<open>Not every malformed encoding is refused: one that asks for no pass makes argon2 panic.\<close>

lemma malformed_hash_panics: "verify_password toy_argon2 ''x'' ''$argon2id$v=19$m=1,t=0,p=1$c2FsdA$aGFzaA'' = Inl panicked"
  by (simp add: verify_password_def parse_phc_def scan_literal_def scan_int_def scan_uint_def scan_digits_def
      is_digit_def is_space_def undec_def toy_argon2_def raw_std_decode_def skip_newlines_def std_value_def url_value_def)

end
