(* ===== verification/Local.thy ===== *)
theory Local
  imports Accounts Password
begin

text \<open>
  The package \<open>local\<close> (\<open>local.go\<close>): registering with an email and a password, signing in, setting
  and changing a password, over the user, identity and session stores of an account. The app's
  \<open>Count\<close>, \<open>net/mail.ParseAddress\<close>, argon2 and the throwaway hash \<open>EqualizeTiming\<close> made at its
  first call are fields of the kit. \<open>Verify\<close> also returns the key derivations it ran. A panic of
  argon2 is the error value \<open>panicked\<close>, which nothing wraps.
\<close>

section \<open>The kit\<close>

definition default_min_password_length :: int where "default_min_password_length = 12"

record local_config =
  pc_allow_registration :: bool
  pc_min_password_length :: int
  pc_allow_protocol_passwords :: bool
  pc_customer_accounts :: bool

record 's local_deps =
  pd_users :: "'s user_store_ops option"
  pd_identities :: "'s identity_store_ops option"
  pd_sessions :: "'s manager option"
  pd_count :: "('s \<Rightarrow> int result) option"

record local_world =
  lw_argon2 :: argon2
  lw_dummy_hash :: string
  lw_parse_address :: "string \<Rightarrow> string option"

record 's local_kit =
  pk_cfg :: local_config
  pk_users :: "'s user_store_ops"
  pk_identities :: "'s identity_store_ops"
  pk_sessions :: "'s manager"
  pk_count :: "'s \<Rightarrow> int result"
  pk_federated :: bool
  pk_world :: local_world

definition new_local_kit :: "string list \<Rightarrow> local_world \<Rightarrow> local_config \<Rightarrow> 's local_deps \<Rightarrow> 's local_kit result" where
  "new_local_kit order world cfg deps =
     (let missing = (\<lambda>name.
            (name = ''Users'' \<and> pd_users deps = None) \<or> (name = ''Identities'' \<and> pd_identities deps = None) \<or>
            (name = ''Sessions'' \<and> pd_sessions deps = None) \<or> (name = ''Count'' \<and> pd_count deps = None)) in
      case find missing order of
        Some name \<Rightarrow> Inl (Plain (''porte/local: Deps.'' @ name @ '' is required''))
      | None \<Rightarrow> Inr \<lparr>
          pk_cfg = (if pc_min_password_length cfg \<le> 0
            then cfg\<lparr>pc_min_password_length := default_min_password_length\<rparr> else cfg),
          pk_users = the (pd_users deps), pk_identities = the (pd_identities deps),
          pk_sessions = the (pd_sessions deps), pk_count = the (pd_count deps),
          pk_federated = enabled (m_cfg (the (pd_sessions deps))) \<and> \<not> pc_customer_accounts cfg,
          pk_world = world\<rparr>)"

definition local_deps_names :: "string list" where
  "local_deps_names = [''Users'', ''Identities'', ''Sessions'', ''Count'']"

fun sentinel_text :: "sentinel \<Rightarrow> string" where
  "sentinel_text ErrWrongPassword = ''porte: invalid email or password''"
| "sentinel_text ErrEmailTaken = ''porte: an account with this email already exists''"
| "sentinel_text ErrRegistrationClosed = ''porte: registration is disabled''"
| "sentinel_text ErrWeakPassword = ''porte: password is too short''"
| "sentinel_text ErrInvalidEmail = ''porte: a valid email is required''"
| "sentinel_text ErrLocalLoginDisabled = ''porte: local sign-in is disabled because OIDC is configured''"
| "sentinel_text ErrNoPassword = ''porte: this account has no password''"
| "sentinel_text ErrPasswordSet = ''porte: this account already has a password''"
| "sentinel_text ErrCodeConsumed = ''porte: login code already consumed''"
| "sentinel_text _ = ''porte: not found''"

definition carrying :: "code \<Rightarrow> sentinel \<Rightarrow> error" where
  "carrying c cause = Api c (sentinel_text cause) (Some (Sentinel cause))"

definition weak_password :: "'s local_kit \<Rightarrow> error" where
  "weak_password k = (let m = '': it must be at least '' @ format_int (pc_min_password_length (pk_cfg k)) @ '' characters'' in
     Api InvalidArgument (sentinel_text ErrWeakPassword @ m) (Some (Wrap m (Sentinel ErrWeakPassword))))"

definition too_short :: "'s local_kit \<Rightarrow> string \<Rightarrow> bool" where
  "too_short k password = (int (rune_count password) < pc_min_password_length (pk_cfg k))"

definition normalize_email :: "(string \<Rightarrow> string option) \<Rightarrow> string \<Rightarrow> string result" where
  "normalize_email parse email = (let normalized = to_lower (trim_space email) in
     case parse normalized of None \<Rightarrow> Inl (carrying InvalidArgument ErrInvalidEmail) | Some _ \<Rightarrow> Inr normalized)"

definition local_session :: "int \<Rightarrow> session" where
  "local_session user = zero_session\<lparr>s_user := user, s_provider := provider_local, s_subject := local_subject user\<rparr>"

definition internal_unless_panic :: "string \<Rightarrow> error \<Rightarrow> error" where
  "internal_unless_panic m e = (if e = panicked then e else internal m e)"

definition hashed :: "'s local_kit \<Rightarrow> string option \<Rightarrow> string \<Rightarrow> string result" where
  "hashed k salt password = (case hash_password (lw_argon2 (pk_world k)) salt password of
     Inl e \<Rightarrow> Inl (internal_unless_panic ''failed to hash the password'' e) | Inr h \<Rightarrow> Inr h)"

definition matches :: "'s local_kit \<Rightarrow> string \<Rightarrow> string \<Rightarrow> bool result" where
  "matches k password encoded = verify_password (lw_argon2 (pk_world k)) password encoded"

text \<open>\<open>EqualizeTiming\<close>, and then the refusal.\<close>

definition equalized :: "'s local_kit \<Rightarrow> string \<Rightarrow> error \<Rightarrow> 'a result \<times> work" where
  "equalized k password answer =
     (case equalize_timing (lw_argon2 (pk_world k)) (lw_dummy_hash (pk_world k)) password of
        (Inl e, w) \<Rightarrow> (Inl e, w) | (Inr _, w) \<Rightarrow> (Inl answer, w))"

definition local_identity :: "int \<Rightarrow> string \<Rightarrow> stored_identity" where
  "local_identity user hash = zero_stored\<lparr>si_user := user, si_provider := provider_local,
     si_subject := local_subject user, si_password_hash := hash\<rparr>"

section \<open>Signing in\<close>

definition verify_local :: "'s local_kit \<Rightarrow> string \<Rightarrow> string \<Rightarrow> 's \<Rightarrow> int result \<times> work \<times> 's" where
  "verify_local k email password s =
     (let wrong = carrying Unauthenticated ErrWrongPassword;
          refuse = (\<lambda>s. case equalized k password wrong of (a, w) \<Rightarrow> (a, w, s)) in
      if pk_federated k \<and> \<not> pc_allow_protocol_passwords (pk_cfg k)
      then (Inl (carrying NotFoundCode ErrLocalLoginDisabled), [], s)
      else case normalize_email (lw_parse_address (pk_world k)) email of
        Inl _ \<Rightarrow> refuse s
      | Inr normalized \<Rightarrow> (case us_find_by_email (pk_users k) normalized s of
          (Inl e, s1) \<Rightarrow> if is_not_found e then refuse s1
            else (Inl (internal ''failed to look up the account'' e), [], s1)
        | (Inr user, s1) \<Rightarrow> (case is_find (pk_identities k) provider_local (local_subject user) s1 of
            (Inl e, s2) \<Rightarrow> if is_not_found e then refuse s2
              else (Inl (internal ''failed to read the identity'' e), [], s2)
          | (Inr stored, s2) \<Rightarrow> (let w = verify_work (lw_argon2 (pk_world k)) (si_password_hash stored) in
              case matches k password (si_password_hash stored) of
                Inl e \<Rightarrow> (Inl e, w, s2)
              | Inr good \<Rightarrow> if \<not> good then (Inl wrong, w, s2) else (Inr (si_user stored), w, s2)))))"

definition login :: "'s local_kit \<Rightarrow> string option \<Rightarrow> identity option \<Rightarrow> request \<Rightarrow> string \<Rightarrow> string \<Rightarrow> time \<Rightarrow> 's
    \<Rightarrow> (int \<times> string) result \<times> cookie list \<times> 's" where
  "login k entropy ctx r email password now s =
     (if pk_federated k then (Inl (carrying NotFoundCode ErrLocalLoginDisabled), [], s)
      else case verify_local k email password s of
        (Inl e, _, s1) \<Rightarrow> (Inl e, [], s1)
      | (Inr user, _, s1) \<Rightarrow> (case issue_cookie_for (pk_sessions k) entropy ctx r (local_session user) now s1 of
          (Inl e, cs, s2) \<Rightarrow> (Inl e, cs, s2)
        | (Inr (token, _), cs, s2) \<Rightarrow> (Inr (user, token), cs, s2)))"

section \<open>Registering\<close>

definition registration_open :: "'s local_kit \<Rightarrow> 's \<Rightarrow> unit result" where
  "registration_open k s =
     (if pc_allow_registration (pk_cfg k) then Inr ()
      else case pk_count k s of
        Inl e \<Rightarrow> Inl (internal ''failed to count accounts'' e)
      | Inr accounts_held \<Rightarrow> if 0 < accounts_held then Inl (carrying PermissionDenied ErrRegistrationClosed) else Inr ())"

definition claim_address :: "'s local_kit \<Rightarrow> string \<Rightarrow> string \<Rightarrow> string \<Rightarrow> 's \<Rightarrow> int result \<times> 's" where
  "claim_address k email name password s = (case us_find_by_email (pk_users k) email s of
     (Inr _, s1) \<Rightarrow> (fst (equalized k password (carrying AlreadyExists ErrEmailTaken)), s1)
   | (Inl e, s1) \<Rightarrow> if is_not_found e then us_create (pk_users k) email (trim_space name) s1
       else (Inl (internal ''failed to look up the account'' e), s1))"

definition register :: "'s local_kit \<Rightarrow> string option \<Rightarrow> string option \<Rightarrow> identity option \<Rightarrow> request
    \<Rightarrow> string \<Rightarrow> string \<Rightarrow> string \<Rightarrow> time \<Rightarrow> 's \<Rightarrow> (int \<times> string) result \<times> cookie list \<times> 's" where
  "register k salt entropy ctx r email name password now s =
     (if pk_federated k then (Inl (carrying NotFoundCode ErrLocalLoginDisabled), [], s)
      else case normalize_email (lw_parse_address (pk_world k)) email of
        Inl e \<Rightarrow> (Inl e, [], s)
      | Inr normalized \<Rightarrow>
          if too_short k password then (Inl (weak_password k), [], s)
          else case registration_open k s of
            Inl e \<Rightarrow> (Inl e, [], s)
          | Inr _ \<Rightarrow> (case claim_address k normalized name password s of
              (Inl e, s1) \<Rightarrow> (Inl e, [], s1)
            | (Inr user, s1) \<Rightarrow> (case hashed k salt password of
                Inl e \<Rightarrow> (Inl e, [], s1)
              | Inr hash \<Rightarrow> (case is_save (pk_identities k) (local_identity user hash) s1 of
                  (Inl e, s2) \<Rightarrow> (Inl (internal ''failed to store the identity'' e), [], s2)
                | (Inr _, s2) \<Rightarrow> (case issue_cookie_for (pk_sessions k) entropy ctx r (local_session user) now s2 of
                    (Inl e, cs, s3) \<Rightarrow> (Inl e, cs, s3)
                  | (Inr (token, _), cs, s3) \<Rightarrow> (Inr (user, token), cs, s3))))))"

section \<open>Setting and changing a password\<close>

definition set_password :: "'s local_kit \<Rightarrow> string option \<Rightarrow> int \<Rightarrow> string \<Rightarrow> 's \<Rightarrow> unit result \<times> 's" where
  "set_password k salt user password s =
     (if too_short k password then (Inl (weak_password k), s)
      else case is_find (pk_identities k) provider_local (local_subject user) s of
        (Inr _, s1) \<Rightarrow> (Inl (carrying AlreadyExists ErrPasswordSet), s1)
      | (Inl e, s1) \<Rightarrow>
          if \<not> is_not_found e then (Inl (internal ''failed to read the identity'' e), s1)
          else case hashed k salt password of
            Inl e \<Rightarrow> (Inl e, s1)
          | Inr hash \<Rightarrow> is_save (pk_identities k) (local_identity user hash) s1)"

text \<open>The caller's identity is the zero one when the request carries none.\<close>

definition rotate :: "'s local_kit \<Rightarrow> string option \<Rightarrow> identity option \<Rightarrow> request \<Rightarrow> int \<Rightarrow> time \<Rightarrow> 's
    \<Rightarrow> (string \<times> int) result \<times> cookie list \<times> 's" where
  "rotate k entropy ctx r user now s =
     (let caller = (case ctx of None \<Rightarrow> 0 | Some i \<Rightarrow> id_session i) in
      case revoke_logins (pk_sessions k) user caller s of
        (Inl e, s1) \<Rightarrow> (Inl (internal ''failed to end the other sessions'' e), [], s1)
      | (Inr revoked, s1) \<Rightarrow>
          (case (if caller \<noteq> 0 then revoke (pk_sessions k) user caller s1 else (Inr (), s1)) of
             (Inl e, s2) \<Rightarrow>
               if \<not> is_not_found e then (Inl (internal ''failed to rotate the session'' e), [], s2)
               else (case issue_cookie_for (pk_sessions k) entropy ctx r (local_session user) now s2 of
                   (Inl e, cs, s3) \<Rightarrow> (Inl e, cs, s3)
                 | (Inr (token, _), cs, s3) \<Rightarrow> (Inr (token, revoked), cs, s3))
           | (Inr _, s2) \<Rightarrow> (case issue_cookie_for (pk_sessions k) entropy ctx r (local_session user) now s2 of
                   (Inl e, cs, s3) \<Rightarrow> (Inl e, cs, s3)
                 | (Inr (token, _), cs, s3) \<Rightarrow> (Inr (token, revoked), cs, s3))))"

definition change_password :: "'s local_kit \<Rightarrow> string option \<Rightarrow> string option \<Rightarrow> identity option \<Rightarrow> request
    \<Rightarrow> int \<Rightarrow> string \<Rightarrow> string \<Rightarrow> time \<Rightarrow> 's \<Rightarrow> (string \<times> int) result \<times> cookie list \<times> 's" where
  "change_password k salt entropy ctx r user current nxt now s =
     (case is_find (pk_identities k) provider_local (local_subject user) s of
        (Inl e, s1) \<Rightarrow> if is_not_found e then (Inl (carrying InvalidArgument ErrNoPassword), [], s1)
          else (Inl (internal ''failed to read the identity'' e), [], s1)
      | (Inr stored, s1) \<Rightarrow> (case matches k current (si_password_hash stored) of
          Inl e \<Rightarrow> (Inl e, [], s1)
        | Inr good \<Rightarrow>
            if \<not> good then (Inl (carrying Unauthenticated ErrWrongPassword), [], s1)
            else if too_short k nxt then (Inl (weak_password k), [], s1)
            else case hashed k salt nxt of
              Inl e \<Rightarrow> (Inl e, [], s1)
            | Inr hash \<Rightarrow> (case is_save (pk_identities k) (stored\<lparr>si_password_hash := hash\<rparr>) s1 of
                (Inl e, s2) \<Rightarrow> (Inl (internal ''failed to store the identity'' e), [], s2)
              | (Inr _, s2) \<Rightarrow> rotate k entropy ctx r user now s2)))"

section \<open>The routes\<close>

record credentials_request =
  cq_email :: string
  cq_name :: string
  cq_password :: string

text \<open>
  The body as \<open>httpjson.DecodeJSON\<close> decoded it; the response carries the user id in decimal.
  \<open>None\<close> is a route \<open>Mount\<close> does not register.
\<close>

definition exchange_response :: "(int \<times> string) result \<times> cookie list \<times> 's \<Rightarrow> (string \<times> string) result \<times> cookie list \<times> 's" where
  "exchange_response out = (case out of
     (Inl e, cs, s) \<Rightarrow> (Inl e, cs, s)
   | (Inr (user, token), cs, s) \<Rightarrow> (Inr (format_int user, token), cs, s))"

definition handle_register :: "'s local_kit \<Rightarrow> string option \<Rightarrow> string option \<Rightarrow> request \<Rightarrow> credentials_request result
    \<Rightarrow> time \<Rightarrow> 's \<Rightarrow> (string \<times> string) result \<times> cookie list \<times> 's" where
  "handle_register k salt entropy r body now s = (case body of
     Inl e \<Rightarrow> (Inl e, [], s)
   | Inr q \<Rightarrow> exchange_response
       (register k salt entropy (rq_identity r) r (cq_email q) (cq_name q) (cq_password q) now s))"

definition handle_login :: "'s local_kit \<Rightarrow> string option \<Rightarrow> request \<Rightarrow> credentials_request result
    \<Rightarrow> time \<Rightarrow> 's \<Rightarrow> (string \<times> string) result \<times> cookie list \<times> 's" where
  "handle_login k entropy r body now s = (case body of
     Inl e \<Rightarrow> (Inl e, [], s)
   | Inr q \<Rightarrow> exchange_response (login k entropy (rq_identity r) r (cq_email q) (cq_password q) now s))"

definition mount_register where
  "mount_register k salt entropy r body now s =
     (if pk_federated k \<or> \<not> pc_allow_registration (pk_cfg k) then None
      else Some (handle_register k salt entropy r body now s))"

definition mount_login where
  "mount_login k entropy r body now s =
     (if pk_federated k then None else Some (handle_login k entropy r body now s))"

section \<open>The kit over any account stores\<close>

definition runs_on :: "'s local_kit \<Rightarrow> 's user_store_ops \<Rightarrow> 's identity_store_ops \<Rightarrow> 's session_store_ops \<Rightarrow> bool" where
  "runs_on k us ids st = (pk_users k = us \<and> pk_identities k = ids \<and> m_store (pk_sessions k) = st)"

definition key_of :: "int \<Rightarrow> string \<times> string" where
  "key_of user = (provider_local, local_subject user)"

text \<open>A password identity is keyed on the account it belongs to.\<close>

definition local_keyed :: "stored_identity list \<Rightarrow> bool" where
  "local_keyed xs = list_all (\<lambda>x. si_provider x = provider_local \<longrightarrow> si_subject x = local_subject (si_user x)) xs"

lemma local_keyedD: "local_keyed xs \<Longrightarrow> x \<in> set xs \<Longrightarrow> stored_key x = key_of u \<Longrightarrow> si_user x = u"
  by (auto simp: local_keyed_def list_all_iff stored_key_def key_of_def)

lemma local_identity_fields [simp]: "stored_key (local_identity u h) = key_of u" "si_user (local_identity u h) = u"
  "si_password_hash (local_identity u h) = h"
  by (simp_all add: local_identity_def stored_key_def key_of_def zero_stored_def)

lemma local_session_fields [simp]: "s_user (local_session u) = u" "s_label (local_session u) = []"
  by (simp_all add: local_session_def zero_session_def)

lemma equalized_Inl: "\<exists>e. fst (equalized k password answer) = Inl e"
  by (auto simp: equalized_def split: prod.splits sum.splits)

lemma equalized_not_Inr [simp]: "fst (equalized k password answer) \<noteq> Inr u"
  using equalized_Inl by (metis Inl_Inr_False)

lemma equalized_refuses [simp]: "equalized k password answer \<noteq> (Inr u, w)"
  using equalized_not_Inr by (metis fst_conv)

context accounts begin

lemma issue_cookie_others:
  assumes "ok s" and "m_store m = st" and "issue_cookie_for m entropy ctx r template now s = (res, cs, s')"
  shows "ok s' \<and> utable s' = utable s \<and> ctable s' = ctable s"
proof (cases "new_token entropy")
  case (Inl e)
  with assms show ?thesis by (simp add: issue_cookie_for_def issue_for_unfold)
next
  case (Inr tok)
  let ?t = "to_issue m ctx template tok now"
  obtain cr s1 where c: "ss_create st ?t s = (cr, s1)" by (cases "ss_create st ?t s")
  with assms(2,3) Inr have "s' = s1"
    by (auto simp: issue_cookie_for_def issue_for_unfold split: sum.splits)
  with c logins.create_ok [OF assms(1), of ?t] create_session_others [OF assms(1), of ?t] show ?thesis by simp
qed

lemma issue_cookie_Inr:
  assumes "ok s" and "m_store m = st" and "issue_cookie_for m entropy ctx r template now s = (Inr (tok, sess), cs, s')"
  shows "issue_for m entropy ctx template now s = (Inr (tok, sess), s') \<and> cs = set_session_cookie m r tok \<and>
    table s' = table s @ [unbound sess] \<and> s_token_hash sess = hash_token tok \<and> s_user sess = s_user template \<and>
    s_label sess = s_label template"
proof -
  have i: "issue_for m entropy ctx template now s = (Inr (tok, sess), s')" and cs: "cs = set_session_cookie m r tok"
    using assms(3) by (auto simp: issue_cookie_for_def split: prod.splits sum.splits)
  from logins.issue_for_Inr [OF assms(1,2) i]
  have t: "table s' = table s @ [unbound sess]" and sess: "sess = (to_issue m ctx template tok now)\<lparr>s_id := s_id sess\<rparr>"
    by auto
  have "s_token_hash sess = hash_token tok" "s_user sess = s_user template" "s_label sess = s_label template"
    by (subst sess, simp)+
  with i cs t show ?thesis by simp
qed

lemma verify_local_cases:
  assumes "ok s" and "runs_on k us ids st" and "verify_local k email password s = (res, w, s')"
  shows "ok s' \<and> utable s' = utable s \<and> ctable s' = ctable s \<and> table s' = table s \<and>
    (\<forall>u. res = Inr u \<longrightarrow> \<not> (pk_federated k \<and> \<not> pc_allow_protocol_passwords (pk_cfg k)) \<and>
      (\<exists>address x v. normalize_email (lw_parse_address (pk_world k)) email = Inr address \<and> (v, address) \<in> set (utable s) \<and>
        x \<in> set (ctable s) \<and> stored_key x = key_of v \<and> si_user x = u \<and> matches k password (si_password_hash x) = Inr True))"
proof (cases "pk_federated k \<and> \<not> pc_allow_protocol_passwords (pk_cfg k)")
  case True
  with assms show ?thesis by (auto simp: verify_local_def)
next
  case open_kit: False
  let ?refuse = "\<lambda>s. case equalized k password (carrying Unauthenticated ErrWrongPassword) of (a, w) \<Rightarrow> (a, w, s)"
  have refuse: "\<exists>e. res = Inl e \<and> s' = t" if "?refuse t = (res, w, s')" for t
    using that by (cases res) (auto split: prod.splits)
  show ?thesis
  proof (cases "normalize_email (lw_parse_address (pk_world k)) email")
    case (Inl e)
    with assms open_kit have "?refuse s = (res, w, s')" by (simp add: verify_local_def)
    from refuse [OF this] assms(1) show ?thesis by auto
  next
    case (Inr address)
    obtain ur s1 where u: "us_find_by_email us address s = (ur, s1)" by (cases "us_find_by_email us address s")
    have s1: "ok s1" "utable s1 = utable s" "ctable s1 = ctable s" "table s1 = table s"
      using users.find_user_ok [OF assms(1), of address] find_user_others [OF assms(1), of address] u by simp_all
    show ?thesis
    proof (cases ur)
      case (Inl e)
      with assms(2,3) open_kit Inr u have "(if is_not_found e then ?refuse s1
          else (Inl (internal ''failed to look up the account'' e), [], s1)) = (res, w, s')"
        by (simp add: verify_local_def runs_on_def)
      then show ?thesis using refuse [of s1] s1 by (auto split: if_splits)
    next
      case user: (Inr v)
      obtain ir s2 where i: "is_find ids provider_local (local_subject v) s1 = (ir, s2)"
        by (cases "is_find ids provider_local (local_subject v) s1")
      have s2: "ok s2" "utable s2 = utable s" "ctable s2 = ctable s" "table s2 = table s"
        using creds.find_identity_ok [OF s1(1), of provider_local "local_subject v"]
          find_identity_others [OF s1(1), of provider_local "local_subject v"] i s1 by simp_all
      show ?thesis
      proof (cases ir)
        case (Inl e)
        with assms(2,3) open_kit Inr u user i have "(if is_not_found e then ?refuse s2
            else (Inl (internal ''failed to read the identity'' e), [], s2)) = (res, w, s')"
          by (simp add: verify_local_def runs_on_def)
        then show ?thesis using refuse [of s2] s2 by (auto split: if_splits)
      next
        case stored: (Inr x)
        from creds.find_identity_row [OF s1(1) i [unfolded stored]] s1
        have x: "x \<in> set (ctable s)" "stored_key x = key_of v" by (simp_all add: key_of_def)
        from users.find_user_row [OF assms(1) u [unfolded user]] have "(v, address) \<in> set (utable s)" .
        with x s2 assms(2,3) open_kit Inr u user i stored show ?thesis
          by (auto simp: verify_local_def runs_on_def Let_def split: sum.splits if_splits)
      qed
    qed
  qed
qed

lemma claim_address_Inr:
  assumes "ok s" and "runs_on k us ids st" and "claim_address k email name password s = (Inr u, s')"
  shows "ok s' \<and> email \<notin> snd ` set (utable s) \<and> utable s' = utable s @ [(u, email)] \<and> ctable s' = ctable s \<and> table s' = table s"
proof -
  obtain ur s1 where f: "us_find_by_email us email s = (ur, s1)" by (cases "us_find_by_email us email s")
  have s1: "ok s1" "utable s1 = utable s" "ctable s1 = ctable s" "table s1 = table s"
    using users.find_user_ok [OF assms(1), of email] find_user_others [OF assms(1), of email] f by simp_all
  from assms(2,3) f
  obtain e where e: "ur = Inl e" "is_not_found e" and c: "us_create us email (trim_space name) s1 = (Inr u, s')"
    by (auto simp: claim_address_def runs_on_def split: sum.splits if_splits)
  from users.find_user_absent [OF assms(1) f [unfolded e(1)]] e(2) have "email \<notin> snd ` set (utable s)"
    by (simp add: is_not_found_def)
  moreover have "ok s'" "ctable s' = ctable s1" "table s' = table s1"
    using users.create_user_ok [OF s1(1), of email "trim_space name"]
      create_user_others [OF s1(1), of email "trim_space name"] c by simp_all
  ultimately show ?thesis using users.create_user_row [OF s1(1) c] s1 by simp
qed

lemma register_Inr:
  assumes "ok s" and "runs_on k us ids st" and "register k salt entropy ctx r email name password now s = (Inr (u, tok), cs, s')"
  obtains address hash s1 sess where "normalize_email (lw_parse_address (pk_world k)) email = Inr address"
    and "\<not> pk_federated k" and "\<not> too_short k password" and "registration_open k s = Inr ()"
    and "address \<notin> snd ` set (utable s)" and "hashed k salt password = Inr hash" and "ok s1" and "ok s'"
    and "utable s' = utable s @ [(u, address)]" and "ctable s' = ctable s1"
    and "others (key_of u) (ctable s') = others (key_of u) (ctable s)"
    and "\<exists>y \<in> set (ctable s'). same_credential y (local_identity u hash)"
    and "issue_for (pk_sessions k) entropy ctx (local_session u) now s1 = (Inr (tok, sess), s')"
    and "table s' = table s @ [unbound sess]" and "cs = set_session_cookie (pk_sessions k) r tok"
proof -
  from assms(2,3) obtain address s1 hash s2 sess where
    g: "normalize_email (lw_parse_address (pk_world k)) email = Inr address" "\<not> pk_federated k" "\<not> too_short k password"
      "registration_open k s = Inr ()"
    and c: "claim_address k address name password s = (Inr u, s1)" and h: "hashed k salt password = Inr hash"
    and sv: "is_save ids (local_identity u hash) s1 = (Inr (), s2)"
    and i: "issue_cookie_for (pk_sessions k) entropy ctx r (local_session u) now s2 = (Inr (tok, sess), cs, s')"
    by (auto simp: register_def runs_on_def split: sum.splits prod.splits if_splits)
  note c1 = claim_address_Inr [OF assms(1,2) c]
  have ok1: "ok s1" using c1 by simp
  have s2: "ok s2" "utable s2 = utable s1" "table s2 = table s1"
    using creds.save_identity_ok [OF ok1] save_identity_others [OF ok1] sv by (metis snd_conv)+
  have st: "m_store (pk_sessions k) = st" using assms(2) by (simp add: runs_on_def)
  note i1 = issue_cookie_Inr [OF s2(1) st i] and i2 = issue_cookie_others [OF s2(1) st i]
  from creds.save_identity_row [OF ok1 sv] c1 s2 i1 i2 g h show thesis
    by (intro that [of address hash s2 sess]) simp_all
qed

end

text \<open>The sessions a password change leaves, besides the one it issues.\<close>

definition survives :: "int \<Rightarrow> int \<Rightarrow> session \<Rightarrow> bool" where
  "survives user caller z = (\<not> (s_user z = user \<and> s_label z = []) \<and>
     \<not> (caller \<noteq> 0 \<and> s_user z = user \<and> s_id z = caller))"

definition caller_of :: "identity option \<Rightarrow> int" where
  "caller_of ctx = (case ctx of None \<Rightarrow> 0 | Some i \<Rightarrow> id_session i)"

lemma delete_where_filter: "delete_where p (delete_where q xs) = filter (\<lambda>x. \<not> q x \<and> \<not> p x) xs"
  by (simp add: delete_where_def conj_commute)

context accounts begin

lemma rotate_Inr:
  assumes "ok s" and "m_store (pk_sessions k) = st" and "rotate k entropy ctx r user now s = (Inr (tok, n), cs, s')"
  shows "ok s' \<and> utable s' = utable s \<and> ctable s' = ctable s \<and> n = affected (is_login_of user (caller_of ctx)) (table s) \<and>
    (\<exists>sess s2. table s' = filter (survives user (caller_of ctx)) (table s) @ [unbound sess] \<and> s_token_hash sess = hash_token tok \<and>
      s_user sess = user \<and> s_label sess = [] \<and> ok s2 \<and> cs = set_session_cookie (pk_sessions k) r tok \<and>
      issue_for (pk_sessions k) entropy ctx (local_session user) now s2 = (Inr (tok, sess), s'))"
proof -
  let ?c = "caller_of ctx" and ?m = "pk_sessions k"
  from assms(3) obtain s1 s2 rr sess where d: "revoke_logins ?m user ?c s = (Inr n, s1)"
    and v: "(if ?c \<noteq> 0 then revoke ?m user ?c s1 else (Inr (), s1)) = (rr, s2)"
    and gone: "rr = Inr () \<or> (\<exists>e. rr = Inl e \<and> is_not_found e)"
    and i: "issue_cookie_for ?m entropy ctx r (local_session user) now s2 = (Inr (tok, sess), cs, s')"
    unfolding rotate_def caller_of_def Let_def by (auto split: sum.splits prod.splits if_splits)
  have d': "ss_delete_logins st user ?c s = (Inr n, s1)" using d assms(2) by (simp add: revoke_logins_def)
  have s1: "ok s1" "utable s1 = utable s" "ctable s1 = ctable s"
    using logins.delete_logins_ok [OF assms(1)] delete_logins_others [OF assms(1)] d' by (metis snd_conv)+
  note t1 = logins.delete_logins_row [OF assms(1) d']
  have s2: "ok s2 \<and> utable s2 = utable s \<and> ctable s2 = ctable s \<and> table s2 = filter (survives user ?c) (table s)"
  proof (cases "?c = 0")
    case True
    with v t1 s1 show ?thesis by (auto simp: delete_where_def survives_def is_login_of_def intro!: filter_cong)
  next
    case False
    with v assms(2) have r: "ss_delete_by_id st user ?c s1 = (rr, s2)" by (simp add: revoke_def)
    have "table s2 = delete_where (\<lambda>x. s_id x = ?c \<and> s_user x = user) (table s1)"
    proof (cases rr)
      case (Inl e)
      with gone have "is_err e ErrNotFound" by (simp add: is_not_found_def)
      with logins.delete_by_id_failed [OF s1(1) r [unfolded Inl]] show ?thesis
        by (auto simp: delete_where_def filter_id_conv)
    next
      case (Inr u)
      with logins.delete_by_id_row [OF s1(1), of user ?c s2] r show ?thesis by simp
    qed
    then have "table s2 = filter (survives user ?c) (table s)"
      using t1 False by (auto simp: delete_where_filter survives_def is_login_of_def intro!: filter_cong)
    with s1 r logins.delete_by_id_ok [OF s1(1), of user ?c] delete_by_id_others [OF s1(1), of user ?c] show ?thesis by simp
  qed
  then have ok2: "ok s2" by simp
  from issue_cookie_Inr [OF ok2 assms(2) i] issue_cookie_others [OF ok2 assms(2) i] s2 t1 show ?thesis by auto
qed

lemma change_password_Inr:
  assumes "ok s" and "runs_on k us ids st"
    and "change_password k salt entropy ctx r user current nxt now s = (Inr (tok, n), cs, s')"
  obtains x hash s1 where "x \<in> set (ctable s)" and "stored_key x = key_of user"
    and "matches k current (si_password_hash x) = Inr True" and "\<not> too_short k nxt" and "hashed k salt nxt = Inr hash"
    and "ok s1" and "utable s1 = utable s" and "table s1 = table s"
    and "others (key_of user) (ctable s1) = others (key_of user) (ctable s)"
    and "\<exists>y \<in> set (ctable s1). same_credential y (x\<lparr>si_password_hash := hash\<rparr>)"
    and "rotate k entropy ctx r user now s1 = (Inr (tok, n), cs, s')"
proof -
  from assms(2,3) obtain x s1 hash s2 where f: "is_find ids provider_local (local_subject user) s = (Inr x, s1)"
    and g: "matches k current (si_password_hash x) = Inr True" "\<not> too_short k nxt" "hashed k salt nxt = Inr hash"
    and sv: "is_save ids (x\<lparr>si_password_hash := hash\<rparr>) s1 = (Inr (), s2)"
    and i: "rotate k entropy ctx r user now s2 = (Inr (tok, n), cs, s')"
    unfolding change_password_def runs_on_def by (auto split: sum.splits prod.splits if_splits)
  have s1: "ok s1" "ctable s1 = ctable s" "utable s1 = utable s" "table s1 = table s"
    using creds.find_identity_ok [OF assms(1)] find_identity_others [OF assms(1)] f by (metis snd_conv)+
  have s2: "ok s2" "utable s2 = utable s1" "table s2 = table s1"
    using creds.save_identity_ok [OF s1(1)] save_identity_others [OF s1(1)] sv by (metis snd_conv)+
  from creds.find_identity_row [OF assms(1) f] have x: "x \<in> set (ctable s)" "stored_key x = key_of user"
    by (simp_all add: key_of_def)
  have k: "stored_key (x\<lparr>si_password_hash := hash\<rparr>) = key_of user" using x(2) by (simp add: stored_key_def)
  from creds.save_identity_row [OF s1(1) sv] s1 s2 k x g i show thesis
    by (intro that [of x hash s2]) simp_all
qed

text \<open>A confirmation that does not match changes nothing.\<close>

lemma change_password_wrong:
  assumes "ok s" and "runs_on k us ids st" and "x \<in> set (ctable s)" and "stored_key x = key_of user"
    and "matches k current (si_password_hash x) = Inr False"
    and "change_password k salt entropy ctx r user current nxt now s = (res, cs, s')"
  shows "(\<exists>e. res = Inl e) \<and> cs = [] \<and> utable s' = utable s \<and> ctable s' = ctable s \<and> table s' = table s"
proof -
  obtain fr s1 where f: "is_find ids provider_local (local_subject user) s = (fr, s1)"
    by (cases "is_find ids provider_local (local_subject user) s")
  have s1: "ctable s1 = ctable s" "utable s1 = utable s" "table s1 = table s"
    using creds.find_identity_ok [OF assms(1)] find_identity_others [OF assms(1)] f by (metis snd_conv)+
  have "fr = Inr y \<Longrightarrow> y = x" for y
    using creds.find_identity_row [OF assms(1), of provider_local "local_subject user" y s1] f assms(3,4)
      creds.identity_keys [OF assms(1)] by (auto simp: key_of_def distinct_map inj_on_def)
  with assms(2,5,6) f s1 show ?thesis
    by (auto simp: change_password_def runs_on_def split: sum.splits if_splits)
qed

end

section \<open>The kit over \<open>porte/pg\<close>\<close>

lemma phc_not_Nil: "phc ag salt key \<noteq> []"
  by (simp add: phc_def)

lemma pg_find_email:
  assumes "db_ok d" and "faults d = []" and "(u, a) \<in> set (user_table d)"
  shows "find_by_email a d = (Inr u, d)"
proof -
  from assms(3) obtain row where row: "row \<in> set (users d)" "u_id row = u" "u_email row = a" by (auto simp: user_table_def)
  then have "row_with u_email a (users d) = Some row"
    using row_with_unique [of u_email "users d" row] assms(1) by (simp add: db_ok_defs)
  with assms(2) row show ?thesis by (simp add: find_by_email_def)
qed

lemma pg_find_email_absent:
  "faults d = [] \<Longrightarrow> a \<notin> snd ` set (user_table d) \<Longrightarrow> find_by_email a d = (Inl (Sentinel ErrNotFound), d)"
  by (auto simp: find_by_email_def user_table_def image_iff row_with_None split: option.splits dest!: row_with_Some)

lemma pg_find_identity:
  assumes "db_ok d" and "faults d = []" and "x \<in> set (cred_table sealer d)" and "stored_key x = (p, j)"
  shows "identity_find sealer p j d = (Inr x, d)"
proof -
  from assms(3) obtain i where i: "i \<in> set (identities d)" "x = scan_identity sealer i" by (auto simp: cred_table_def)
  then have "row_with identity_key (p, j) (identities d) = Some i"
    using row_with_unique [of identity_key "identities d" i] db_ok_identities [OF assms(1)] assms(4) by simp
  with assms(2) i show ?thesis by (simp add: identity_find_def)
qed

lemma pg_find_identity_absent:
  "faults d = [] \<Longrightarrow> (p, j) \<notin> stored_key ` set (cred_table sealer d) \<Longrightarrow>
    identity_find sealer p j d = (Inl (Sentinel ErrNotFound), d)"
  by (auto simp: identity_find_def cred_table_def image_iff row_with_None split: option.splits dest!: row_with_Some)

definition on_pg :: "db local_kit \<Rightarrow> token_sealer \<Rightarrow> bool" where
  "on_pg k sealer = (\<exists>entropy. runs_on k pg_users (pg_identities sealer entropy) pg_sessions)"

lemma on_pg_ops:
  assumes "on_pg k sealer"
  shows "us_find_by_email (pk_users k) = find_by_email" "is_find (pk_identities k) = identity_find sealer"
  using assms by (auto simp: on_pg_def runs_on_def pg_users_def pg_identities_def)

definition open_for_verify :: "'s local_kit \<Rightarrow> bool" where
  "open_for_verify k = (\<not> (pk_federated k \<and> \<not> pc_allow_protocol_passwords (pk_cfg k)))"

lemma open_for_verify_if:
  "open_for_verify k \<Longrightarrow> (if pk_federated k \<and> \<not> pc_allow_protocol_passwords (pk_cfg k) then a else b) = b"
  by (auto simp: open_for_verify_def)

text \<open>\<open>Verify\<close> while no statement fails, for an address with a password and for the others.\<close>

lemma pg_verify:
  assumes "db_ok d" and "faults d = []" and "on_pg k sealer" and "open_for_verify k"
    and "normalize_email (lw_parse_address (pk_world k)) email = Inr a" and "(u, a) \<in> set (user_table d)"
    and "x \<in> set (cred_table sealer d)" and "stored_key x = key_of u"
  shows "verify_local k email password d =
    (case matches k password (si_password_hash x) of Inl e \<Rightarrow> Inl e
     | Inr good \<Rightarrow> if good then Inr (si_user x) else Inl (carrying Unauthenticated ErrWrongPassword),
     verify_work (lw_argon2 (pk_world k)) (si_password_hash x), d)"
  using assms(5,8) pg_find_email [OF assms(1,2,6)] pg_find_identity [OF assms(1,2,7), of provider_local "local_subject u"]
  unfolding verify_local_def Let_def open_for_verify_if [OF assms(4)]
  by (simp add: on_pg_ops [OF assms(3)] key_of_def split: sum.split)

lemma pg_verify_nobody:
  assumes "db_ok d" and "faults d = []" and "on_pg k sealer" and "open_for_verify k"
    and "\<nexists>a u x. normalize_email (lw_parse_address (pk_world k)) email = Inr a \<and> (u, a) \<in> set (user_table d) \<and>
      x \<in> set (cred_table sealer d) \<and> stored_key x = key_of u"
  shows "verify_local k email password d =
    (case equalized k password (carrying Unauthenticated ErrWrongPassword) of (a, w) \<Rightarrow> (a, w, d))"
proof (cases "normalize_email (lw_parse_address (pk_world k)) email")
  case (Inl e)
  then show ?thesis unfolding verify_local_def Let_def open_for_verify_if [OF assms(4)] by simp
next
  case (Inr a)
  show ?thesis
  proof (cases "a \<in> snd ` set (user_table d)")
    case True
    then obtain u where u: "(u, a) \<in> set (user_table d)" by auto
    with assms(5) Inr have "key_of u \<notin> stored_key ` set (cred_table sealer d)" by fastforce
    with pg_find_identity_absent [OF assms(2), of provider_local "local_subject u" sealer] pg_find_email [OF assms(1,2) u] Inr
    show ?thesis
      unfolding verify_local_def Let_def open_for_verify_if [OF assms(4)]
      by (simp add: on_pg_ops [OF assms(3)] key_of_def is_not_found_def)
  next
    case False
    with pg_find_email_absent [OF assms(2) False] Inr show ?thesis
      unfolding verify_local_def Let_def open_for_verify_if [OF assms(4)]
      by (simp add: on_pg_ops [OF assms(3)] is_not_found_def)
  qed
qed

section \<open>Properties\<close>

text \<open> Who a password signs in. \<open>Verify\<close> returns an account only when the normalised address is that
  account's and the account's own password identity holds a hash the password verifies; it writes
  nothing, and a federated kit answers only when protocol passwords are allowed. \<close>

theorem verify_sound:
  assumes "db_ok d" and "on_pg k sealer" and "local_keyed (cred_table sealer d)"
    and "verify_local k email password d = (Inr u, w, d')"
  shows "open_for_verify k \<and> (\<exists>a x. normalize_email (lw_parse_address (pk_world k)) email = Inr a \<and>
      (u, a) \<in> set (user_table d) \<and> x \<in> set (cred_table sealer d) \<and> stored_key x = key_of u \<and>
      matches k password (si_password_hash x) = Inr True) \<and>
    user_table d' = user_table d \<and> cred_table sealer d' = cred_table sealer d \<and> session_table d' = session_table d"
proof -
  from assms(2) obtain entropy where on: "runs_on k pg_users (pg_identities sealer entropy) pg_sessions"
    by (auto simp: on_pg_def)
  from pgacc.verify_local_cases [OF assms(1) on assms(4)] obtain a x v where
    "open_for_verify k" "normalize_email (lw_parse_address (pk_world k)) email = Inr a" "(v, a) \<in> set (user_table d)"
    "x \<in> set (cred_table sealer d)" "stored_key x = key_of v" "si_user x = u"
    "matches k password (si_password_hash x) = Inr True" "user_table d' = user_table d"
    "cred_table sealer d' = cred_table sealer d" "session_table d' = session_table d"
    by (auto simp: open_for_verify_def)
  moreover from this local_keyedD [OF assms(3)] have "v = u" by auto
  ultimately show ?thesis by blast
qed

text \<open> The form is no oracle. While no statement fails, every refused login (an address that does not
  parse, one nobody has, an account without a password, a wrong password) answers the same error
  and runs the same key derivation once, whatever is stored. \<close>

theorem refusals_alike:
  assumes "db_ok d" and "faults d = []" and "on_pg k sealer" and "open_for_verify k" and "argon2_sound (lw_argon2 (pk_world k))"
    and "hash_password (lw_argon2 (pk_world k)) salt ''timing-equalizer-not-a-secret'' = Inr (lw_dummy_hash (pk_world k))"
    and "\<forall>x \<in> set (cred_table sealer d). si_provider x = provider_local \<longrightarrow>
      (\<exists>salt old. hash_password (lw_argon2 (pk_world k)) salt old = Inr (si_password_hash x))"
  shows "(\<exists>u. fst (verify_local k email password d) = Inr u) \<or>
    verify_local k email password d = (Inl (carrying Unauthenticated ErrWrongPassword),
      [(argon2_memory, argon2_iterations, argon2_parallelism)], d)"
proof -
  have any: "\<exists>b. verify_password (lw_argon2 (pk_world k)) password h = Inr b \<and>
      verify_work (lw_argon2 (pk_world k)) h = [(argon2_memory, argon2_iterations, argon2_parallelism)] \<and> h \<noteq> []"
    if "hash_password (lw_argon2 (pk_world k)) st old = Inr h" for st old h
    by (rule hash_password_Inr [OF assms(5) that]) (simp add: verify_phc [OF assms(5)] phc_not_Nil)
  show ?thesis
  proof (cases "\<exists>a u x. normalize_email (lw_parse_address (pk_world k)) email = Inr a \<and> (u, a) \<in> set (user_table d) \<and>
      x \<in> set (cred_table sealer d) \<and> stored_key x = key_of u")
    case True
    then obtain a u x where x: "normalize_email (lw_parse_address (pk_world k)) email = Inr a" "(u, a) \<in> set (user_table d)"
      "x \<in> set (cred_table sealer d)" "stored_key x = key_of u" by blast
    then have "si_provider x = provider_local" by (simp add: stored_key_def key_of_def)
    with assms(7) x(3) obtain st old where "hash_password (lw_argon2 (pk_world k)) st old = Inr (si_password_hash x)" by blast
    from any [OF this] pg_verify [OF assms(1-4) x] show ?thesis
      by (auto simp: matches_def split: if_splits)
  next
    case False
    from pg_verify_nobody [OF assms(1-4) False] any [OF assms(6)] show ?thesis
      by (auto simp: equalized_def equalize_timing_def)
  qed
qed

text \<open> C10: Registering and signing in. A registration that succeeds used an address nobody had, added that
  one account with one password identity and one session, left every other identity alone, and
  from then on the same password, with any spelling of the address that normalises alike,
  verifies as that account. \<close>

theorem register_then_verify:
  assumes "db_ok d" and "on_pg k sealer" and "argon2_sound (lw_argon2 (pk_world k))"
    and "register k salt entropy ctx r email name password now d = (Inr (u, tok), cs, d')" and "faults d' = []"
    and "normalize_email (lw_parse_address (pk_world k)) email' = normalize_email (lw_parse_address (pk_world k)) email"
  shows "fst (verify_local k email' password d') = Inr u \<and>
    (\<exists>a. normalize_email (lw_parse_address (pk_world k)) email = Inr a \<and> a \<notin> snd ` set (user_table d) \<and>
      user_table d' = user_table d @ [(u, a)]) \<and>
    others (key_of u) (cred_table sealer d') = others (key_of u) (cred_table sealer d) \<and>
    (\<exists>sess. session_table d' = session_table d @ [unbound sess])"
proof -
  from assms(2) obtain sealing where on: "runs_on k pg_users (pg_identities sealer sealing) pg_sessions"
    by (auto simp: on_pg_def)
  from pgacc.register_Inr [OF assms(1) on assms(4)] obtain a hash sess where
    a: "normalize_email (lw_parse_address (pk_world k)) email = Inr a" "\<not> pk_federated k" "a \<notin> snd ` set (user_table d)"
    and h: "hashed k salt password = Inr hash" and ok: "db_ok d'" and u: "user_table d' = user_table d @ [(u, a)]"
    and c: "others (key_of u) (cred_table sealer d') = others (key_of u) (cred_table sealer d)"
      "\<exists>y \<in> set (cred_table sealer d'). same_credential y (local_identity u hash)"
    and t: "session_table d' = session_table d @ [unbound sess]"
    by metis
  from c(2) obtain y where y: "y \<in> set (cred_table sealer d')" "stored_key y = key_of u" "si_user y = u"
    "si_password_hash y = hash" by (auto simp: same_credential_def)
  have "hash_password (lw_argon2 (pk_world k)) salt password = Inr hash"
    using h by (auto simp: hashed_def split: sum.splits)
  from verify_hash_password [OF assms(3) this] have "matches k password hash = Inr True" by (simp add: matches_def)
  moreover have "(u, a) \<in> set (user_table d')" by (simp add: u)
  moreover have "open_for_verify k" using a(2) by (simp add: open_for_verify_def)
  ultimately have "fst (verify_local k email' password d') = Inr u"
    using pg_verify [OF ok assms(5,2) _ _ _ y(1,2), of email' a password] a(1) assms(6) y(3,4) by simp
  with a u c(1) t show ?thesis by auto
qed

text \<open> C11: Changing a password. A change that succeeds was given the current password; afterwards the
  account's password identity verifies the new one, every other identity is as it was, and of the
  account's sessions exactly the named API tokens the caller did not use are left, and one new
  login, the one whose token was returned and set as the cookie. \<close>

theorem change_password_effect:
  assumes "db_ok d" and "on_pg k sealer" and "argon2_sound (lw_argon2 (pk_world k))"
    and "change_password k salt entropy ctx r user current nxt now d = (Inr (tok, n), cs, d')"
  shows "(\<exists>x \<in> set (cred_table sealer d). stored_key x = key_of user \<and> matches k current (si_password_hash x) = Inr True) \<and>
    (\<exists>y \<in> set (cred_table sealer d'). stored_key y = key_of user \<and> matches k nxt (si_password_hash y) = Inr True) \<and>
    others (key_of user) (cred_table sealer d') = others (key_of user) (cred_table sealer d) \<and>
    user_table d' = user_table d \<and> cs = set_session_cookie (pk_sessions k) r tok \<and>
    (\<exists>new. session_table d' = filter (survives user (caller_of ctx)) (session_table d) @ [new] \<and>
       s_user new = user \<and> s_label new = [] \<and> s_token_hash new = hash_token tok)"
proof -
  from assms(2) obtain sealing where on: "runs_on k pg_users (pg_identities sealer sealing) pg_sessions"
    by (auto simp: on_pg_def)
  from pgacc.change_password_Inr [OF assms(1) on assms(4)] obtain x hash d1 where
    x: "x \<in> set (cred_table sealer d)" "stored_key x = key_of user" "matches k current (si_password_hash x) = Inr True"
    and h: "hashed k salt nxt = Inr hash" and ok1: "db_ok d1" and s1: "user_table d1 = user_table d"
      "session_table d1 = session_table d" "others (key_of user) (cred_table sealer d1) = others (key_of user) (cred_table sealer d)"
    and y: "\<exists>y \<in> set (cred_table sealer d1). same_credential y (x\<lparr>si_password_hash := hash\<rparr>)"
    and r: "rotate k entropy ctx r user now d1 = (Inr (tok, n), cs, d')" by metis
  have "hash_password (lw_argon2 (pk_world k)) salt nxt = Inr hash"
    using h by (auto simp: hashed_def split: sum.splits)
  from verify_hash_password [OF assms(3) this] have new: "matches k nxt hash = Inr True" by (simp add: matches_def)
  have st: "m_store (pk_sessions k) = pg_sessions" using on by (simp add: runs_on_def)
  from pgacc.rotate_Inr [OF ok1 st r, where sealer = sealer] obtain sess where
    rot: "user_table d' = user_table d1" "cred_table sealer d' = cred_table sealer d1" "cs = set_session_cookie (pk_sessions k) r tok"
      "session_table d' = filter (survives user (caller_of ctx)) (session_table d1) @ [unbound sess]"
      "s_token_hash sess = hash_token tok" "s_user sess = user" "s_label sess = []" by auto
  from y obtain z where "z \<in> set (cred_table sealer d')" "stored_key z = key_of user" "matches k nxt (si_password_hash z) = Inr True"
    using rot(2) x(2) new by (auto simp: same_credential_def stored_key_def)
  moreover have "s_user (unbound sess) = user \<and> s_label (unbound sess) = [] \<and> s_token_hash (unbound sess) = hash_token tok"
    using rot(5-7) by simp
  ultimately show ?thesis using x s1 rot(1-4) by metis
qed

text \<open> The confirmation. With a current password that does not verify, \<open>ChangePassword\<close> fails, sets no
  cookie and changes no account, identity or session. \<close>

theorem change_password_needs_current:
  assumes "db_ok d" and "on_pg k sealer" and "x \<in> set (cred_table sealer d)" and "stored_key x = key_of user"
    and "matches k current (si_password_hash x) = Inr False"
    and "change_password k salt entropy ctx r user current nxt now d = (res, cs, d')"
  shows "(\<exists>e. res = Inl e) \<and> cs = [] \<and> user_table d' = user_table d \<and> cred_table sealer d' = cred_table sealer d \<and>
    session_table d' = session_table d"
proof -
  from assms(2) obtain sealing where on: "runs_on k pg_users (pg_identities sealer sealing) pg_sessions"
    by (auto simp: on_pg_def)
  from pgacc.change_password_wrong [OF assms(1) on assms(3-6)] show ?thesis .
qed

section \<open>Examples\<close>

definition pw_salt :: "string option" where "pw_salt = Some (replicate 16 CHR ''s'')"

definition pw_hash :: "string \<Rightarrow> string" where
  "pw_hash password = phc toy_argon2 (replicate 16 CHR ''s'') (take 32 (password @ replicate 32 CHR ''x''))"

lemma pw_hash_password: "hash_password toy_argon2 pw_salt password = Inr (pw_hash password)"
  by (simp add: hash_password_def pw_salt_def pw_hash_def toy_argon2_def argon2_params)

lemma pw_verify: "verify_password toy_argon2 other (pw_hash password) =
    Inr (take 32 (other @ replicate 32 CHR ''x'') = take 32 (password @ replicate 32 CHR ''x''))"
proof -
  have len: "length (take 32 (password @ replicate 32 CHR ''x'')) = argon2_key_length"
    by (simp add: argon2_key_length_def)
  show ?thesis unfolding pw_hash_def verify_phc(1) [OF toy_argon2_sound len]
    by (simp add: toy_argon2_def argon2_params)
qed

definition pw_kit :: "db local_kit" where
  "pw_kit = \<lparr>pk_cfg = \<lparr>pc_allow_registration = True, pc_min_password_length = 12, pc_allow_protocol_passwords = False,
       pc_customer_accounts = False\<rparr>, pk_users = pg_users, pk_identities = pg_identities None (None, None),
     pk_sessions = web_manager, pk_count = (\<lambda>d. Inr (int (length (users d)))), pk_federated = False,
     pk_world = \<lparr>lw_argon2 = toy_argon2, lw_dummy_hash = pw_hash ''timing-equalizer-not-a-secret'',
       lw_parse_address = (\<lambda>a. if List.member a CHR ''@'' then Some a else None)\<rparr>\<rparr>"

definition pw_db :: db where
  "pw_db = web_db\<lparr>identities := [(identity_row_of (local_identity 1 (pw_hash ''correct horse battery'')) [] [])]\<rparr>"

lemma pw_kit_fields [simp]: "on_pg pw_kit None" "open_for_verify pw_kit" "lw_argon2 (pk_world pw_kit) = toy_argon2"
  "pk_sessions pw_kit = web_manager" "lw_dummy_hash (pk_world pw_kit) = pw_hash ''timing-equalizer-not-a-secret''"
  by (auto simp: on_pg_def runs_on_def open_for_verify_def pw_kit_def)

lemma pw_db_ok [simp]: "db_ok pw_db" "faults pw_db = []"
  by (simp_all add: db_ok_defs pw_db_def web_db_def empty_db_def)

lemma opened_None [simp]: "opened None [] = []"
  by (simp add: opened_def open_sealed_def sealed_prefix_def not_prefix_Nil)

lemma pw_cred: "cred_table None pw_db = [local_identity 1 (pw_hash ''correct horse battery'')]"
  by (simp add: cred_table_def pw_db_def web_db_def empty_db_def scan_identity_def identity_row_of_def local_identity_def
      zero_stored_def zero_tokens_def open_tokens_def)

lemma pw_user: "user_table pw_db = [(1, ''a@x'')]"
  by (simp add: user_table_def pw_db_def web_db_def)

lemma pw_email: "normalize_email (lw_parse_address (pk_world pw_kit)) ''a@x'' = Inr ''a@x''"
  "normalize_email (lw_parse_address (pk_world pw_kit)) ''b@x'' = Inr ''b@x''"
  by (simp_all add: normalize_email_def pw_kit_def to_lower_def trim_space_def is_space_def lower_char_def)

lemma pw_login: "verify_local pw_kit ''a@x'' ''correct horse battery'' pw_db =
    (Inr 1, [(argon2_memory, argon2_iterations, argon2_parallelism)], pw_db)"
proof -
  have "verify_work toy_argon2 (pw_hash p) = [(argon2_memory, argon2_iterations, argon2_parallelism)]" for p
    unfolding pw_hash_def by (rule verify_phc(2) [OF toy_argon2_sound]) (simp add: argon2_key_length_def)
  then show ?thesis
    using pg_verify [OF pw_db_ok pw_kit_fields(1,2) pw_email(1), of 1 "local_identity 1 (pw_hash ''correct horse battery'')"]
    by (simp add: pw_user pw_cred matches_def pw_verify)
qed

lemma pw_keyed: "local_keyed (cred_table None pw_db)"
  by (simp add: pw_cred local_keyed_def local_identity_def zero_stored_def)

theorem verify_sound_witness:
  "\<exists>x \<in> set (cred_table None pw_db). stored_key x = key_of 1 \<and>
     matches pw_kit ''correct horse battery'' (si_password_hash x) = Inr True"
  using verify_sound [OF pw_db_ok(1) pw_kit_fields(1) pw_keyed pw_login] by blast

theorem refusals_alike_witness:
  "verify_local pw_kit ''b@x'' ''correct horse battery'' pw_db = verify_local pw_kit ''a@x'' ''wrong horse battery'' pw_db"
proof -
  have h: "hash_password toy_argon2 pw_salt ''timing-equalizer-not-a-secret'' = Inr (pw_hash ''timing-equalizer-not-a-secret'')"
    by (rule pw_hash_password)
  have hs: "\<forall>x \<in> set (cred_table None pw_db). si_provider x = provider_local \<longrightarrow>
      (\<exists>salt old. hash_password toy_argon2 salt old = Inr (si_password_hash x))"
    using pw_hash_password by (auto simp: pw_cred)
  have nobody: "verify_local pw_kit ''b@x'' ''correct horse battery'' pw_db =
      (case equalized pw_kit ''correct horse battery'' (carrying Unauthenticated ErrWrongPassword) of (a, w) \<Rightarrow> (a, w, pw_db))"
    by (rule pg_verify_nobody [OF pw_db_ok pw_kit_fields(1,2)]) (auto simp: pw_email pw_user)
  have wrong: "fst (verify_local pw_kit ''a@x'' ''wrong horse battery'' pw_db) = Inl (carrying Unauthenticated ErrWrongPassword)"
    using pg_verify [OF pw_db_ok pw_kit_fields(1,2) pw_email(1), of 1 "local_identity 1 (pw_hash ''correct horse battery'')"]
    by (simp add: pw_user pw_cred matches_def pw_verify)
  have "fst (verify_local pw_kit ''b@x'' ''correct horse battery'' pw_db) \<noteq> Inr u" for u
    unfolding nobody by (auto split: prod.splits)
  moreover note alike = refusals_alike [OF pw_db_ok pw_kit_fields(1,2), of pw_salt]
  ultimately show ?thesis
    using alike [of "''b@x''" "''correct horse battery''"] alike [of "''a@x''" "''wrong horse battery''"] wrong h hs
    by (auto simp del: split_paired_Ex)
qed

lemma web_issue_local:
  assumes "faults d = []" and "user_exists 1 d" and "identity_exists provider_local (local_subject 1) 1 d"
    and "sessions d = []" and "session_seq d = 0"
  shows "\<exists>sess d'. issue_cookie_for web_manager web_entropy None r (local_session 1) at d =
    (Inr (web_token, sess), set_session_cookie web_manager r web_token, d') \<and> faults d' = []"
proof -
  let ?t = "to_issue web_manager None (local_session 1) web_token at"
  have "voucher_holds ?t d"
    using assms(3) by (simp add: to_issue_def bind_to_caller_def voucher_holds_def local_session_def zero_session_def)
  with assms obtain y d' where "session_create ?t d = (Inr y, d')" "faults d' = []"
    using pg_create_row [of d ?t] by simp
  moreover have "ss_create (m_store web_manager) = session_create" by (simp add: pg_sessions_def)
  ultimately show ?thesis by (simp add: issue_cookie_for_def issue_for_unfold web_token_new)
qed

lemma pw_too_short: "\<not> too_short pw_kit ''correct horse battery''" "\<not> too_short pw_kit ''another horse battery''"
  by (simp_all add: too_short_def pw_kit_def rune_count.simps rune_width_def byte_in_def)

lemma pw_hashed: "hashed pw_kit pw_salt p = Inr (pw_hash p)"
  by (simp add: hashed_def pw_hash_password)

definition registered_db :: db where
  "registered_db = empty_db\<lparr>user_seq := 1, users := [\<lparr>u_id = 1, u_email = ''a@x'', u_email_verified = False, u_name = ''Ada'',
     u_avatar_url = [], u_avatar_source = [], u_locale = default_locale, u_updated_at = sql_now empty_db\<rparr>],
     identities := [identity_row_of (local_identity 1 (pw_hash ''correct horse battery'')) [] []]\<rparr>"

lemma pw_register:
  "\<exists>d'. register pw_kit pw_salt web_entropy None web_get ''a@x'' ''Ada'' ''correct horse battery'' 1000 empty_db =
    (Inr (1, web_token), set_session_cookie web_manager web_get web_token, d') \<and> faults d' = []"
proof -
  let ?h = "pw_hash ''correct horse battery''"
  let ?d1 = "empty_db\<lparr>user_seq := 1, users := users registered_db\<rparr>"
  have "claim_address pw_kit ''a@x'' ''Ada'' ''correct horse battery'' empty_db = (Inr 1, ?d1)"
    by (simp add: claim_address_def pw_kit_def pg_users_def find_by_email_def create_from_password_def empty_db_def
        is_not_found_def registered_db_def trim_space_def is_space_def Let_def has_row_def)
  moreover have "identity_save None (None, None) (local_identity 1 ?h) ?d1 = (Inr (), registered_db)"
    by (simp add: identity_save_def seal_tokens_def seal_def local_identity_def zero_stored_def zero_tokens_def
        upsert_identity_def registered_db_def empty_db_def user_exists_def has_row_def)
  moreover have "faults registered_db = []" "user_exists 1 registered_db" "sessions registered_db = []"
    "session_seq registered_db = 0" "identity_exists provider_local (local_subject 1) 1 registered_db"
    by (simp_all add: registered_db_def empty_db_def user_exists_def has_row_def identity_exists_def identity_row_of_def
        local_identity_def zero_stored_def)
  from web_issue_local [OF this(1,2,5,3,4), of web_get 1000] obtain sess d' where
    "issue_cookie_for web_manager web_entropy None web_get (local_session 1) 1000 registered_db =
      (Inr (web_token, sess), set_session_cookie web_manager web_get web_token, d')" "faults d' = []" by blast
  moreover have "\<not> pk_federated pw_kit" "registration_open pw_kit empty_db = Inr ()"
    "is_save (pk_identities pw_kit) = identity_save None (None, None)"
    by (simp_all add: pw_kit_def registration_open_def pg_identities_def)
  ultimately show ?thesis by (simp add: register_def pw_email pw_too_short pw_hashed)
qed

theorem register_then_verify_witness:
  "fst (verify_local pw_kit ''a@x'' ''correct horse battery''
     (snd (snd (register pw_kit pw_salt web_entropy None web_get ''a@x'' ''Ada'' ''correct horse battery'' 1000 empty_db)))) = Inr 1"
proof -
  obtain d' where r: "register pw_kit pw_salt web_entropy None web_get ''a@x'' ''Ada'' ''correct horse battery'' 1000 empty_db =
    (Inr (1, web_token), set_session_cookie web_manager web_get web_token, d')" and f: "faults d' = []"
    using pw_register by blast
  have "fst (verify_local pw_kit ''a@x'' ''correct horse battery'' d') = Inr 1"
    using register_then_verify [OF empty_db_ok pw_kit_fields(1) _ r f] by simp
  then show ?thesis by (simp add: r)
qed

lemma pw_changed:
  "\<exists>d'. change_password pw_kit pw_salt web_entropy None web_get 1 ''correct horse battery'' ''another horse battery'' 1000 pw_db =
    (Inr (web_token, 0), set_session_cookie web_manager web_get web_token, d')"
proof -
  let ?x = "local_identity 1 (pw_hash ''correct horse battery'')"
  let ?d1 = "pw_db\<lparr>identities := [identity_row_of (local_identity 1 (pw_hash ''another horse battery'')) [] []]\<rparr>"
  have "identity_find None provider_local (local_subject 1) pw_db = (Inr ?x, pw_db)"
    by (rule pg_find_identity [OF pw_db_ok]) (simp_all add: pw_cred key_of_def)
  moreover have "identity_save None (None, None) (?x\<lparr>si_password_hash := pw_hash ''another horse battery''\<rparr>) pw_db = (Inr (), ?d1)"
    by (simp add: identity_save_def seal_tokens_def seal_def local_identity_def zero_stored_def zero_tokens_def
        upsert_identity_def pw_db_def web_db_def empty_db_def user_exists_def has_row_def identity_key_def identity_row_of_def
        update_where_def)
  moreover have "session_delete_logins 1 0 ?d1 = (Inr 0, ?d1)"
    by (simp add: session_delete_logins_def delete_sessions_def wrapping_def pw_db_def web_db_def empty_db_def
        affected_def delete_where_def)
  moreover have "faults ?d1 = []" "user_exists 1 ?d1" "sessions ?d1 = []"
    "session_seq ?d1 = 0" "identity_exists provider_local (local_subject 1) 1 ?d1"
    by (simp_all add: pw_db_def web_db_def empty_db_def user_exists_def has_row_def identity_exists_def identity_row_of_def
        local_identity_def zero_stored_def)
  from web_issue_local [OF this(1,2,5,3,4), of web_get 1000] obtain sess d' where
    "issue_cookie_for web_manager web_entropy None web_get (local_session 1) 1000 ?d1 =
      (Inr (web_token, sess), set_session_cookie web_manager web_get web_token, d')" by blast
  moreover have "is_save (pk_identities pw_kit) = identity_save None (None, None)"
    "is_find (pk_identities pw_kit) = identity_find None"
    by (simp_all add: pw_kit_def pg_identities_def)
  ultimately show ?thesis
    by (simp add: change_password_def matches_def pw_verify pw_too_short pw_hashed rotate_def revoke_logins_def pg_sessions_def)
qed

theorem change_password_effect_witness:
  "\<exists>y \<in> set (cred_table None (snd (snd (change_password pw_kit pw_salt web_entropy None web_get 1
       ''correct horse battery'' ''another horse battery'' 1000 pw_db)))).
     stored_key y = key_of 1 \<and> matches pw_kit ''another horse battery'' (si_password_hash y) = Inr True"
proof -
  obtain d' where c: "change_password pw_kit pw_salt web_entropy None web_get 1 ''correct horse battery'' ''another horse battery'' 1000
      pw_db = (Inr (web_token, 0), set_session_cookie web_manager web_get web_token, d')" using pw_changed by blast
  from change_password_effect [OF pw_db_ok(1) pw_kit_fields(1) _ c] show ?thesis by (simp add: c)
qed

theorem change_password_needs_current_witness:
  "session_table (snd (snd (change_password pw_kit pw_salt web_entropy None web_get 1 ''wrong horse battery'' ''another horse battery'' 1000 pw_db)))
    = session_table pw_db"
proof -
  obtain res cs d' where c: "change_password pw_kit pw_salt web_entropy None web_get 1 ''wrong horse battery'' ''another horse battery'' 1000
      pw_db = (res, cs, d')" by (cases "change_password pw_kit pw_salt web_entropy None web_get 1 ''wrong horse battery'' ''another horse battery'' 1000 pw_db") auto
  have "matches pw_kit ''wrong horse battery'' (si_password_hash (local_identity 1 (pw_hash ''correct horse battery''))) = Inr False"
    by (simp add: matches_def pw_verify)
  from change_password_needs_current [OF pw_db_ok(1) pw_kit_fields(1) _ _ this c] show ?thesis by (simp add: c pw_cred)
qed

text \<open>
  A registration is not one transaction: the account is created first, and a failure to hash or to
  store the password leaves it behind.
\<close>

text \<open> The stranded account. When the statement that stores the password identity fails, \<open>Register\<close>
  answers an error and leaves the account it created, without any way to sign in; registering
  the address again, with nothing failing, is refused as taken. \<close>

theorem register_strands_account:
  "\<exists>e d'. register pw_kit pw_salt web_entropy None web_get ''a@x'' ''Ada'' ''correct horse battery'' 1000
      (empty_db\<lparr>faults := [False, False, True]\<rparr>) = (Inl e, [], d') \<and>
    user_table d' = [(1, ''a@x'')] \<and> cred_table None d' = [] \<and> faults d' = [] \<and>
    register pw_kit pw_salt web_entropy None web_get ''a@x'' ''Ada'' ''correct horse battery'' 2000 d' =
      (Inl (carrying AlreadyExists ErrEmailTaken), [], d')"
proof -
  let ?d = "empty_db\<lparr>faults := [False, False, True]\<rparr>"
  let ?d1 = "empty_db\<lparr>user_seq := 1, users := users registered_db\<rparr>"
  have c: "claim_address pw_kit ''a@x'' ''Ada'' ''correct horse battery'' ?d = (Inr 1, ?d1\<lparr>faults := [True]\<rparr>)"
    by (simp add: claim_address_def pw_kit_def pg_users_def find_by_email_def create_from_password_def empty_db_def
        is_not_found_def registered_db_def trim_space_def is_space_def Let_def has_row_def query_def stmt_def
        next_fault_def tick_def)
  have sv: "identity_save None (None, None) (local_identity 1 (pw_hash ''correct horse battery'')) (?d1\<lparr>faults := [True]\<rparr>) =
      (Inl (Wrap ''porte/pg: save identity'' SqlFault), ?d1)"
    by (simp add: identity_save_def seal_tokens_def seal_def local_identity_def zero_stored_def zero_tokens_def stmt_def
        next_fault_def tick_def wrapping_def empty_db_def)
  have k: "\<not> pk_federated pw_kit" "registration_open pw_kit d = Inr ()"
    "is_save (pk_identities pw_kit) = identity_save None (None, None)" for d
    by (simp_all add: pw_kit_def registration_open_def pg_identities_def)
  have "pw_hash p \<noteq> []" for p by (simp add: pw_hash_def phc_not_Nil)
  then have "(equalized pw_kit ''correct horse battery'' (carrying AlreadyExists ErrEmailTaken) :: int result \<times> work) =
      (Inl (carrying AlreadyExists ErrEmailTaken), verify_work toy_argon2 (pw_hash ''timing-equalizer-not-a-secret''))"
    by (simp add: equalized_def equalize_timing_def pw_verify)
  then have "claim_address pw_kit ''a@x'' ''Ada'' ''correct horse battery'' ?d1 =
      (Inl (carrying AlreadyExists ErrEmailTaken), ?d1)"
    by (simp add: claim_address_def on_pg_ops [OF pw_kit_fields(1)] find_by_email_def registered_db_def empty_db_def)
  with c sv k show ?thesis
    by (simp add: register_def pw_email pw_too_short pw_hashed user_table_def cred_table_def registered_db_def empty_db_def)
qed

end
