(* ===== verification/Settings.thy ===== *)
theory Settings
  imports Sealer
begin

text \<open>
  The functions of \<open>porte.go\<close> on URLs: validating a configuration at boot, the page a failed login
  lands on, the name and the logo of the pages porte draws itself. \<open>net/url\<close>'s parser and printer
  of URLs and \<open>unicode\<close> are an argument; its query strings are written out.
\<close>

section \<open>net/url: query strings\<close>

type_synonym url_values = "(string \<times> string list) list"

definition unreserved :: "char \<Rightarrow> bool" where
  "unreserved c = (let n = (of_char c :: nat) in (48 \<le> n \<and> n \<le> 57) \<or> (65 \<le> n \<and> n \<le> 90) \<or> (97 \<le> n \<and> n \<le> 122) \<or>
     c \<in> set ''-_.~'')"

definition upper_hex :: "nat \<Rightarrow> char" where
  "upper_hex n = (if n < 10 then char_of (48 + n) else char_of (55 + n))"

fun query_escape :: "string \<Rightarrow> string" where
  "query_escape [] = []"
| "query_escape (c # cs) =
     (if unreserved c then [c] else if c = CHR '' '' then ''+''
      else [CHR ''%'', upper_hex (of_char c div 16), upper_hex (of_char c mod 16)]) @ query_escape cs"

fun query_unescape :: "string \<Rightarrow> string option" where
  "query_unescape [] = Some []"
| "query_unescape (c # cs) =
     (if c = CHR ''%'' then (case cs of
          a # b # rest \<Rightarrow> (case (hex_value a, hex_value b, query_unescape rest) of
             (Some n, Some m, Some r) \<Rightarrow> Some (char_of (n * 16 + m) # r) | _ \<Rightarrow> None)
        | _ \<Rightarrow> None)
      else map_option (Cons (if c = CHR ''+'' then CHR '' '' else c)) (query_unescape cs))"

definition values_set :: "string \<Rightarrow> string \<Rightarrow> url_values \<Rightarrow> url_values" where
  "values_set k v vs = (k, [v]) # filter (\<lambda>e. fst e \<noteq> k) vs"

definition values_get :: "string \<Rightarrow> url_values \<Rightarrow> string" where
  "values_get k vs = (case map_of vs k of Some (v # _) \<Rightarrow> v | _ \<Rightarrow> [])"

definition encode_entry :: "string \<times> string list \<Rightarrow> string list" where
  "encode_entry e = map (\<lambda>v. query_escape (fst e) @ ''='' @ query_escape v) (snd e)"

fun join_with :: "string \<Rightarrow> string list \<Rightarrow> string" where
  "join_with sep [] = []"
| "join_with sep [x] = x"
| "join_with sep (x # y # xs) = x @ sep @ join_with sep (y # xs)"

text \<open>\<open>Encode\<close> writes the keys in order.\<close>

definition values_encode :: "url_values \<Rightarrow> string" where
  "values_encode vs = join_with ''&''
     (concat (map (\<lambda>k. concat (map encode_entry (filter (\<lambda>e. fst e = k) vs))) (sorted_go (remdups (map fst vs)))))"

text \<open>
  \<open>ParseQuery\<close>, whose errors \<open>Query\<close> drops with the entry: a part with a semicolon, or with a
  broken escape.
\<close>

definition parse_entry :: "string \<Rightarrow> (string \<times> string) option" where
  "parse_entry part =
     (if part = [] \<or> CHR '';'' \<in> set part then None
      else let key = cut_before (CHR ''='') part; val = drop (Suc (length key)) part in
        case (query_unescape key, query_unescape val) of (Some k, Some v) \<Rightarrow> Some (k, v) | _ \<Rightarrow> None)"

fun add_entry :: "string \<times> string \<Rightarrow> url_values \<Rightarrow> url_values" where
  "add_entry (k, v) [] = [(k, [v])]"
| "add_entry (k, v) ((l, ws) # vs) = (if l = k then (l, ws @ [v]) # vs else (l, ws) # add_entry (k, v) vs)"

definition parse_query :: "string \<Rightarrow> url_values" where
  "parse_query raw = fold add_entry (List.map_filter parse_entry (split_on (CHR ''&'') raw)) []"

section \<open>net/url and unicode, as an argument\<close>

record url =
  url_scheme :: string
  url_host :: string
  url_path :: string
  url_raw_query :: string
  url_fragment :: string

text \<open>
  \<open>nu_hostname\<close> is \<open>URL.Hostname\<close>; \<open>nu_capital\<close> takes the first rune off a string, when it is a
  letter, and gives it in upper case with the rest.
\<close>

record net_url =
  nu_parse :: "string \<Rightarrow> url option"
  nu_string :: "url \<Rightarrow> string"
  nu_hostname :: "url \<Rightarrow> string"
  nu_capital :: "string \<Rightarrow> (string \<times> string) option"

section \<open>porte.go\<close>

definition default_app_name :: string where "default_app_name = ''Sign-in''"

definition login_failure :: "net_url \<Rightarrow> config \<Rightarrow> string \<Rightarrow> string" where
  "login_failure nu c reason =
     (let plain = ''/login?error='' @ query_escape reason;
          land = (\<lambda>target. case nu_parse nu target of
            None \<Rightarrow> plain
          | Some dest \<Rightarrow> nu_string nu (dest\<lparr>url_raw_query :=
              values_encode (values_set ''error'' reason (parse_query (url_raw_query dest)))\<rparr>)) in
      if failure_url c \<noteq> [] then land (failure_url c)
      else case nu_parse nu (success_url c) of
        None \<Rightarrow> plain
      | Some origin \<Rightarrow>
          land (nu_string nu (origin\<lparr>url_path := ''/login'', url_raw_query := [], url_fragment := []\<rparr>)))"

definition app_label :: "net_url \<Rightarrow> config \<Rightarrow> string" where
  "app_label nu c = (let name = trim_space (app_name c) in
     if name \<noteq> [] then name
     else case nu_parse nu (success_url c) of
       None \<Rightarrow> default_app_name
     | Some target \<Rightarrow> (case nu_capital nu (cut_before (CHR ''.'') (nu_hostname nu target)) of
         None \<Rightarrow> default_app_name
       | Some (capital, rest) \<Rightarrow> capital @ rest))"

definition logo :: "net_url \<Rightarrow> config \<Rightarrow> string" where
  "logo nu c = (let given = trim_space (logo_url c) in
     if given \<noteq> [] then given
     else case nu_parse nu (success_url c) of
       None \<Rightarrow> []
     | Some origin \<Rightarrow>
         if url_scheme origin = [] \<or> url_host origin = [] then []
         else nu_string nu (origin\<lparr>url_path := ''/logo.svg'', url_raw_query := [], url_fragment := []\<rparr>))"

text \<open>\<open>order\<close> is the order in which the range over the map literal visits it.\<close>

definition audience_names :: "string list" where
  "audience_names = [''OIDC_MACHINE_AUDIENCE'', ''OIDC_CLI_AUDIENCE'', ''OIDC_SCOPE_PREFIX'']"

definition audience_named :: "config \<Rightarrow> string \<Rightarrow> string" where
  "audience_named c name =
     (if name = ''OIDC_MACHINE_AUDIENCE'' then machine_audience c
      else if name = ''OIDC_CLI_AUDIENCE'' then cli_audience c
      else if name = ''OIDC_SCOPE_PREFIX'' then scope_prefix c else [])"

definition validate_without_issuer :: "string list \<Rightarrow> config \<Rightarrow> unit result" where
  "validate_without_issuer order c =
     (if mobile_redirect c \<noteq> []
      then Inl (Plain ''porte: OIDC_MOBILE_REDIRECT is set but OIDC_ISSUER is empty'')
      else case find (\<lambda>name. audience_named c name \<noteq> []) order of
        Some name \<Rightarrow> Inl (Plain (''porte: '' @ name @ '' is set but OIDC_ISSUER is empty''))
      | None \<Rightarrow> Inr ())"

definition required_names :: "string list" where
  "required_names = [''OIDC_CLIENT_ID'', ''OIDC_CLIENT_SECRET'', ''OIDC_REDIRECT_URL'', ''OIDC_SUCCESS_URL'']"

definition required_named :: "config \<Rightarrow> string \<Rightarrow> string" where
  "required_named c name =
     (if name = ''OIDC_CLIENT_ID'' then client_id c
      else if name = ''OIDC_CLIENT_SECRET'' then client_secret c
      else if name = ''OIDC_REDIRECT_URL'' then redirect_url c
      else if name = ''OIDC_SUCCESS_URL'' then success_url c else [])"

definition refused_schemes :: "string list" where
  "refused_schemes = [''javascript'', ''data'', ''file'', ''blob'']"

definition validate_mobile_redirect :: "net_url \<Rightarrow> config \<Rightarrow> unit result" where
  "validate_mobile_redirect nu c =
     (if mobile_redirect c = [] then Inr ()
      else case nu_parse nu (mobile_redirect c) of
        None \<Rightarrow> Inl (Plain ''porte: OIDC_MOBILE_REDIRECT must be an absolute URI without a fragment'')
      | Some target \<Rightarrow>
          if url_scheme target = [] \<or> CHR ''#'' \<in> set (mobile_redirect c)
          then Inl (Plain ''porte: OIDC_MOBILE_REDIRECT must be an absolute URI without a fragment'')
          else if url_scheme target = ''http''
          then Inl (Plain ''porte: OIDC_MOBILE_REDIRECT must be https or a custom scheme'')
          else if url_scheme target = ''https'' \<and> url_host target = []
          then Inl (Plain ''porte: OIDC_MOBILE_REDIRECT has no host'')
          else if url_scheme target \<in> set refused_schemes
          then Inl (Plain ''porte: OIDC_MOBILE_REDIRECT scheme is not allowed'')
          else Inr ())"

definition validate_config :: "net_url \<Rightarrow> string list \<Rightarrow> string list \<Rightarrow> config \<Rightarrow> unit result" where
  "validate_config nu audience_order required_order c =
     (if \<not> enabled c then validate_without_issuer audience_order c
      else if scope_prefix c \<noteq> [] \<and> machine_audience c = []
      then Inl (Plain ''porte: OIDC_SCOPE_PREFIX is set but OIDC_MACHINE_AUDIENCE is empty'')
      else case nu_parse nu (issuer c) of
        None \<Rightarrow> Inl (Wrap ''porte: OIDC_ISSUER is not a valid URL'' (Plain ''parse''))
      | Some iss \<Rightarrow>
          if (url_scheme iss \<noteq> ''https'' \<and> url_scheme iss \<noteq> ''http'') \<or> url_host iss = []
          then Inl (Plain ''porte: OIDC_ISSUER must be an absolute http(s) URL'')
          else let missing = filter (\<lambda>name. trim_space (required_named c name) = []) required_order in
            if missing \<noteq> []
            then Inl (Plain (''porte: OIDC_ISSUER is set but '' @ join_with '', '' (sorted_go missing) @ '' '' @
              plural (int (length missing)) ''is'' ''are'' @ '' empty''))
            else validate_mobile_redirect nu c)"

section \<open>What a validated configuration has\<close>

lemma hex_value_upper: "n < 16 \<Longrightarrow> hex_value (upper_hex n) = Some n"
  by (auto simp: hex_value_def upper_hex_def Let_def)

lemma unreserved_plain: "unreserved c \<Longrightarrow> c \<noteq> CHR ''%'' \<and> c \<noteq> CHR ''+''"
  by (auto simp: unreserved_def Let_def)

lemma char_halves: "char_of ((of_char c :: nat) div 16 * 16 + of_char c mod 16) = c"
  by (simp only: div_mult_mod_eq char_of_char)

lemma query_escape_round_trip: "query_unescape (query_escape s) = Some s"
proof (induction s)
  case (Cons c cs)
  have "(of_char c :: nat) div 16 < 16" by (simp add: div_less_iff_less_mult)
  with Cons show ?case
    using unreserved_plain [of c] by (simp add: hex_value_upper char_halves [simplified])
qed simp

text \<open>The report of what is missing does not depend on the order the map is visited in.\<close>

lemma validate_order:
  assumes "mset required = mset required'"
  shows "validate_config nu audience required c = validate_config nu audience required' c"
proof -
  define p where "p = (\<lambda>name. trim_space (required_named c name) = [])"
  have m: "mset (filter p required) = mset (filter p required')" using assms by (simp add: mset_filter)
  then have "sort (filter p required) = sort (filter p required')"
    by (metis sorted_list_of_multiset_mset)
  moreover have "length (filter p required) = length (filter p required')" using m by (metis size_mset)
  moreover have "filter p required = [] \<longleftrightarrow> filter p required' = []"
    using \<open>length (filter p required) = length (filter p required')\<close> by (metis length_0_conv)
  ultimately show ?thesis
    unfolding validate_config_def Let_def p_def [symmetric] sorted_go_sort by presburger
qed

text \<open>
  A configuration with an issuer that passes \<open>Validate\<close> has every setting the flow needs, an
  absolute http(s) issuer, a machine audience whenever scopes are gated, and a mobile redirect, if
  any, that is no http, script or file address.
\<close>

theorem validated_config_complete:
  assumes "validate_config nu audience_names required_names c = Inr ()" and "enabled c"
  shows "\<exists>iss. nu_parse nu (issuer c) = Some iss \<and> url_scheme iss \<in> {''http'', ''https''} \<and> url_host iss \<noteq> [] \<and>
    client_id c \<noteq> [] \<and> client_secret c \<noteq> [] \<and> redirect_url c \<noteq> [] \<and> success_url c \<noteq> [] \<and>
    (scope_prefix c \<noteq> [] \<longrightarrow> machine_audience c \<noteq> []) \<and>
    (mobile_redirect c \<noteq> [] \<longrightarrow> (\<exists>target. nu_parse nu (mobile_redirect c) = Some target \<and>
       url_scheme target \<notin> {[], ''http'', ''javascript'', ''data'', ''file'', ''blob''}))"
proof -
  have named: "required_named c ''OIDC_CLIENT_ID'' = client_id c" "required_named c ''OIDC_CLIENT_SECRET'' = client_secret c"
    "required_named c ''OIDC_REDIRECT_URL'' = redirect_url c" "required_named c ''OIDC_SUCCESS_URL'' = success_url c"
    by (simp_all add: required_named_def)
  have blank: "trim_space v \<noteq> [] \<Longrightarrow> v \<noteq> []" for v by (auto simp: trim_space_def)
  from assms obtain iss where "nu_parse nu (issuer c) = Some iss" "url_scheme iss \<in> {''http'', ''https''}"
      "url_host iss \<noteq> []" "scope_prefix c \<noteq> [] \<longrightarrow> machine_audience c \<noteq> []"
    and missing: "filter (\<lambda>name. trim_space (required_named c name) = []) required_names = []"
    and mobile: "validate_mobile_redirect nu c = Inr ()"
    by (auto simp: validate_config_def Let_def split: if_splits option.splits)
  moreover have "client_id c \<noteq> [] \<and> client_secret c \<noteq> [] \<and> redirect_url c \<noteq> [] \<and> success_url c \<noteq> []"
    using missing blank by (simp add: required_names_def named split: if_splits)
  moreover have "mobile_redirect c \<noteq> [] \<longrightarrow> (\<exists>target. nu_parse nu (mobile_redirect c) = Some target \<and>
       url_scheme target \<notin> {[], ''http'', ''javascript'', ''data'', ''file'', ''blob''})"
    using mobile by (auto simp: validate_mobile_redirect_def refused_schemes_def split: if_splits option.splits)
  ultimately show ?thesis by blast
qed

text \<open>A parser of \<open>https\<close> URLs without a path, for the examples.\<close>

definition host_urls :: net_url where
  "host_urls = \<lparr>
     nu_parse = (\<lambda>s. if has_prefix s https_url then Some \<lparr>url_scheme = ''https'', url_host = drop 8 s,
       url_path = [], url_raw_query = [], url_fragment = []\<rparr> else None),
     nu_string = (\<lambda>u. https_url @ url_host u @ url_path u @
       (if url_raw_query u = [] then [] else CHR ''?'' # url_raw_query u)),
     nu_hostname = url_host,
     nu_capital = (\<lambda>s. case s of [] \<Rightarrow> None | c # cs \<Rightarrow> Some ([c], cs))\<rparr>"

definition federated_config :: config where
  "federated_config = zero_config\<lparr>issuer := ''https://id'', client_id := ''app'', client_secret := ''secret'',
     redirect_url := ''https://app/cb'', success_url := ''https://app'', mobile_redirect := ''https://m''\<rparr>"

theorem validated_config_complete_witness:
  "validate_config host_urls audience_names required_names federated_config = Inr () \<and>
   client_id federated_config \<noteq> []"
proof -
  have v: "validate_config host_urls audience_names required_names federated_config = Inr ()"
    by (simp add: validate_config_def Let_def federated_config_def zero_config_def enabled_def host_urls_def
        has_prefix_def https_url_def required_names_def required_named_def trim_space_def is_space_def
        validate_mobile_redirect_def refused_schemes_def)
  moreover have "enabled federated_config" by (simp add: federated_config_def enabled_def)
  ultimately show ?thesis using validated_config_complete [OF v] by blast
qed

end
