(* ===== verification/Oidc_Flow.thy ===== *)
theory Oidc_Flow
  imports Settings Session
begin

text \<open>
  The pure half of the OIDC kit: the flow cookie (\<open>oidc/cookie.go\<close>), the normalisation of claims
  (\<open>oidc/normalize.go\<close>, the claim functions of \<open>oidc/oidc.go\<close>) and the checks of what a caller may
  put in a login or an exchange (\<open>oidc/handlers.go\<close>). What \<open>encoding/json\<close> and \<open>go-oidc\<close> decode is
  an argument.
\<close>

section \<open>The flow cookie (cookie.go)\<close>

record flow =
  fl_state :: string
  fl_nonce :: string
  fl_verifier :: string
  fl_cli :: bool
  fl_port :: string
  fl_cli_state :: string
  fl_mobile :: bool
  fl_challenge :: string

definition flow_cookie :: string where "flow_cookie = ''oidc_state''"
definition flow_ttl :: duration where "flow_ttl = 10 * minute"

text \<open>\<open>json.Marshal\<close> and \<open>json.Unmarshal\<close> at the type \<open>flow\<close>.\<close>

record flow_json =
  fj_marshal :: "flow \<Rightarrow> string result"
  fj_unmarshal :: "string \<Rightarrow> flow option"

definition encode_flow :: "flow_json \<Rightarrow> flow \<Rightarrow> string result" where
  "encode_flow json f = (case fj_marshal json f of Inl e \<Rightarrow> Inl e | Inr payload \<Rightarrow> Inr (b64_encode payload))"

definition complete_flow :: "flow \<Rightarrow> bool" where
  "complete_flow f = (fl_state f \<noteq> [] \<and> fl_verifier f \<noteq> [] \<and> fl_nonce f \<noteq> [])"

definition decode_flow :: "flow_json \<Rightarrow> string \<Rightarrow> flow option" where
  "decode_flow json value = (case b64_decode value of
     None \<Rightarrow> None
   | Some payload \<Rightarrow> (case fj_unmarshal json payload of
       None \<Rightarrow> None
     | Some decoded \<Rightarrow> if complete_flow decoded then Some decoded else None))"

section \<open>Claims (normalize.go, oidc.go)\<close>

text \<open>A JSON value decoded into \<open>any\<close>, as far as the code tells them apart; a missing one is \<open>JNull\<close>.\<close>

datatype json_any = JNull | JBool bool | JString string | JOther

definition locale_claim :: "json_any \<Rightarrow> string" where
  "locale_claim v = (case v of JString tag \<Rightarrow> normalize_locale tag | _ \<Rightarrow> [])"

definition normalize_claimed_email :: "string \<Rightarrow> string" where
  "normalize_claimed_email email = to_lower (trim_space email)"

definition ui_locales :: "string \<Rightarrow> (string \<times> string) list" where
  "ui_locales raw = (let tag = to_lower (trim_space raw) in
     if tag = [] \<or> normalize_locale tag \<noteq> tag then [] else [(''ui_locales'', tag)])"

definition email_claim_asserted :: "json_any \<Rightarrow> bool \<times> bool" where
  "email_claim_asserted v = (case v of
     JBool b \<Rightarrow> (b, True)
   | JString s \<Rightarrow>
       if s \<in> set [''true'', ''True'', ''TRUE'', ''1''] then (True, True)
       else if s \<in> set [''false'', ''False'', ''FALSE'', ''0''] then (False, True)
       else (False, False)
   | _ \<Rightarrow> (False, False))"

definition email_trusted :: "config \<Rightarrow> json_any \<Rightarrow> bool" where
  "email_trusted cfg v = (case email_claim_asserted v of
     (verified, True) \<Rightarrow> verified
   | (_, False) \<Rightarrow> trust_email_without_verified_claim cfg)"

text \<open>
  What \<open>Claims(&v)\<close> decodes of a token or a userinfo answer at the types the code asks for: the
  profile, the roles (a nil slice is \<open>None\<close>), every claim raw, and the keys of \<open>events\<close>.
\<close>

record raw_claims =
  rc_email :: string
  rc_email_verified :: json_any
  rc_name :: string
  rc_preferred_username :: string
  rc_given_name :: string
  rc_family_name :: string
  rc_picture :: string
  rc_locale :: json_any

record claim_set =
  cs_profile :: "raw_claims result"
  cs_roles :: "string list option result"
  cs_all :: "(string \<times> string) list result"
  cs_events :: "string list result"

record id_token =
  it_subject :: string
  it_nonce :: string
  it_claims :: claim_set

definition pick_claims :: "string list \<Rightarrow> (string \<times> string) list \<Rightarrow> (string \<times> string) list" where
  "pick_claims names all = List.map_filter (\<lambda>name. map_option (Pair name) (map_of all name)) (remdups names)"

definition extra_claims_of :: "string list \<Rightarrow> claim_set \<Rightarrow> (string \<times> string) list result" where
  "extra_claims_of names cs =
     (if names = [] then Inr []
      else case cs_all cs of
        Inl e \<Rightarrow> Inl (Wrap ''porte/oidc: cannot read the extra claims'' e)
      | Inr all \<Rightarrow> Inr (pick_claims names all))"

definition profile_claims ::
  "config \<Rightarrow> string \<Rightarrow> string \<Rightarrow> raw_claims \<Rightarrow> string list option \<Rightarrow> (string \<times> string) list \<Rightarrow> claims" where
  "profile_claims cfg provider subject raw roles extra =
     \<lparr>c_provider = provider, c_subject = subject, c_email = normalize_claimed_email (rc_email raw),
      c_email_verified = email_trusted cfg (rc_email_verified raw), c_name = rc_name raw,
      c_preferred_username = rc_preferred_username raw, c_given_name = rc_given_name raw,
      c_family_name = rc_family_name raw, c_picture = rc_picture raw, c_locale = locale_claim (rc_locale raw),
      c_avatar_url = [], c_roles = roles, c_extra = extra, c_tokens = zero_tokens\<rparr>"

definition granted_roles :: "config \<Rightarrow> claim_set \<Rightarrow> string list option result" where
  "granted_roles cfg cs =
     (if \<not> claims_enabled cfg then Inr None
      else case cs_roles cs of
        Inl e \<Rightarrow> Inl (Wrap ''porte/oidc: cannot parse the roles claim'' e)
      | Inr None \<Rightarrow> Inl (Plain ''porte/oidc: scope was granted but no roles claim arrived'')
      | Inr (Some roles) \<Rightarrow> Inr (Some roles))"

definition claims_from_id_token :: "config \<Rightarrow> id_token \<Rightarrow> claims result" where
  "claims_from_id_token cfg t = (case cs_profile (it_claims t) of
     Inl e \<Rightarrow> Inl (Wrap ''porte/oidc: cannot parse ID token claims'' e)
   | Inr raw \<Rightarrow> (case granted_roles cfg (it_claims t) of
       Inl e \<Rightarrow> Inl e
     | Inr roles \<Rightarrow> (case extra_claims_of (extra_claims cfg) (it_claims t) of
         Inl e \<Rightarrow> Inl e
       | Inr extra \<Rightarrow> Inr (profile_claims cfg (issuer cfg) (it_subject t) raw roles extra))))"

section \<open>What a caller may send (handlers.go)\<close>

definition max_cli_state :: nat where "max_cli_state = 128"

definition is_alnum :: "char \<Rightarrow> bool" where
  "is_alnum c = (let n = (of_char c :: nat) in (97 \<le> n \<and> n \<le> 122) \<or> (65 \<le> n \<and> n \<le> 90) \<or> (48 \<le> n \<and> n \<le> 57))"

fun only_chars :: "(char \<Rightarrow> bool) \<Rightarrow> string \<Rightarrow> bool" where
  "only_chars good [] = True"
| "only_chars good (c # cs) = (if good c then only_chars good cs else False)"

definition cli_state :: "string \<Rightarrow> string" where
  "cli_state value =
     (if value = [] \<or> max_cli_state < length value then []
      else if only_chars (\<lambda>c. is_alnum c \<or> c = CHR ''-'' \<or> c = CHR ''_'') value then value else [])"

definition valid_challenge :: "string \<Rightarrow> bool" where
  "valid_challenge value =
     (if length value \<noteq> 43 then False
      else case b64_decode value of Some decoded \<Rightarrow> length decoded = 32 | None \<Rightarrow> False)"

definition valid_verifier :: "string \<Rightarrow> bool" where
  "valid_verifier value =
     (if length value < 43 \<or> 128 < length value then False
      else only_chars (\<lambda>c. is_alnum c \<or> c = CHR ''-'' \<or> c = CHR ''.'' \<or> c = CHR ''_'' \<or> c = CHR ''~'') value)"

definition pkce_challenge :: "string \<Rightarrow> string" where
  "pkce_challenge verifier = b64_encode (sha256 verifier)"

text \<open>\<open>strconv.Atoi\<close>: a sign and decimal digits, within \<open>int64\<close>.\<close>

definition is_digit :: "char \<Rightarrow> bool" where
  "is_digit c = (let n = (of_char c :: nat) in 48 \<le> n \<and> n \<le> 57)"

definition atoi :: "string \<Rightarrow> int option" where
  "atoi s = (let sign = (s \<noteq> [] \<and> (hd s = CHR ''-'' \<or> hd s = CHR ''+''));
       digits = (if sign then tl s else s) in
     if digits = [] \<or> \<not> list_all is_digit digits then None
     else let n = (if sign \<and> hd s = CHR ''-'' then - int (undec digits) else int (undec digits)) in
       if - (2 ^ 63) \<le> n \<and> n < 2 ^ 63 then Some n else None)"

definition loopback_port :: "string \<Rightarrow> string" where
  "loopback_port value = (case atoi value of
     None \<Rightarrow> [] | Some port \<Rightarrow> if port < 1024 \<or> 65535 < port then [] else value)"

section \<open>Facts about them\<close>

lemma only_chars_iff: "only_chars good s \<longleftrightarrow> (\<forall>c \<in> set s. good c)"
  by (induction s) auto

text \<open>What an S256 challenge is: every challenge the transform produces is accepted.\<close>

lemma b64_length: "length (b64_encode s) = (4 * length s + 2) div 3"
  by (induction s rule: b64_encode.induct) (simp_all add: Let_def)

lemma pkce_challenge_valid: "valid_challenge (pkce_challenge verifier)"
  by (simp add: valid_challenge_def pkce_challenge_def b64_round_trip b64_length)

lemma decode_encode_flow:
  assumes "encode_flow json f = Inr value" and "\<And>p. fj_marshal json f = Inr p \<Longrightarrow> fj_unmarshal json p = Some f"
    and "complete_flow f"
  shows "decode_flow json value = Some f"
  using assms by (auto simp: encode_flow_def decode_flow_def b64_round_trip split: sum.splits)

lemma email_trusted_false: "email_claim_asserted v = (False, True) \<Longrightarrow> \<not> email_trusted cfg v"
  by (simp add: email_trusted_def)

text \<open>
  Only a positive assertion, or the operator's word in its absence, makes an address count as
  verified; an explicit refusal is never overridden.
\<close>

lemma email_trusted_iff:
  "email_trusted cfg v \<longleftrightarrow> email_claim_asserted v = (True, True) \<or>
     (\<not> snd (email_claim_asserted v) \<and> trust_email_without_verified_claim cfg)"
  by (cases "email_claim_asserted v") (auto simp: email_trusted_def split: bool.splits)

lemma claims_from_id_token_fields:
  assumes "claims_from_id_token cfg t = Inr c"
  shows "c_provider c = issuer cfg \<and> c_subject c = it_subject t \<and>
    (c_roles c = None \<longleftrightarrow> \<not> claims_enabled cfg) \<and>
    (\<exists>raw. cs_profile (it_claims t) = Inr raw \<and> c_email c = normalize_claimed_email (rc_email raw) \<and>
      c_email_verified c = email_trusted cfg (rc_email_verified raw)) \<and>
    fst ` set (c_extra c) \<subseteq> set (extra_claims cfg)"
proof -
  have pick: "(a, b) \<in> set (pick_claims names all) \<Longrightarrow> a \<in> set names" for a b names all
    by (auto simp: pick_claims_def List.map_filter_def)
  from assms show ?thesis
    by (auto simp: claims_from_id_token_def granted_roles_def extra_claims_of_def profile_claims_def
        split: sum.splits option.splits if_splits dest: pick)
qed

text \<open>What an echoed state, a port and a login hint can be.\<close>

lemma cli_state_safe:
  "length (cli_state v) \<le> max_cli_state \<and> (\<forall>c \<in> set (cli_state v). is_alnum c \<or> c = CHR ''-'' \<or> c = CHR ''_'')"
  by (simp add: cli_state_def only_chars_iff)

lemma loopback_port_number:
  "loopback_port v \<noteq> [] \<Longrightarrow> loopback_port v = v \<and> (\<exists>n. atoi v = Some n \<and> 1024 \<le> n \<and> n \<le> 65535)"
  by (auto simp: loopback_port_def split: option.splits if_splits)

lemma loopback_port_chars:
  "c \<in> set (loopback_port v) \<Longrightarrow> is_digit c \<or> c = CHR ''+'' \<or> c = CHR ''-''"
proof (cases "loopback_port v = []")
  case False
  assume c: "c \<in> set (loopback_port v)"
  from loopback_port_number [OF False] obtain n where v: "loopback_port v = v" "atoi v = Some n" by auto
  then obtain a w where "v = a # w" using False by (cases v) auto
  with c v show ?thesis by (auto simp: atoi_def Let_def list_all_iff split: if_splits)
qed simp

lemma ui_locales_suite: "(k, tag) \<in> set (ui_locales raw) \<Longrightarrow> tag \<in> set suite_locales"
  using normalize_locale_cases by (auto simp: ui_locales_def Let_def split: if_splits) (metis)

end
