(* ===== verification/Avatar.thy ===== *)
theory Avatar
  imports Porte
begin

text \<open>
  The avatar fetch of the OIDC kit (\<open>oidc/avatar.go\<close>): which addresses the dialer may connect to
  for a picture URL an identity provider asserted, and the fetch over redirects. An address is the
  byte slice a \<open>net.IP\<close> is; \<open>net.IP\<close>'s own predicates are written out. What the network answers
  is an argument. The lemmas say which IPv4 addresses a permitted address reaches in each form IPv6
  has for one, and what a fetch that returns an image went through.
\<close>

section \<open>net.IP\<close>

type_synonym ip = "8 word list"

definition is_zeros :: "ip \<Rightarrow> bool" where
  "is_zeros bytes = list_all (\<lambda>b. b = 0) bytes"

definition v4_in_v6 :: ip where
  "v4_in_v6 = [0, 0, 0, 0, 0, 0, 0, 0, 0, 0, 0xff, 0xff]"

definition to4 :: "ip \<Rightarrow> ip option" where
  "to4 ip = (if length ip = 4 then Some ip
     else if length ip = 16 \<and> take 12 ip = v4_in_v6 then Some (drop 12 ip) else None)"

definition ip_equal :: "ip \<Rightarrow> ip \<Rightarrow> bool" where
  "ip_equal a b =
     (if length a = length b then a = b
      else if length a = 4 \<and> length b = 16 then take 12 b = v4_in_v6 \<and> drop 12 b = a
      else if length a = 16 \<and> length b = 4 then take 12 a = v4_in_v6 \<and> drop 12 a = b
      else False)"

text \<open>\<open>net.IPv4\<close> answers the 16-byte form.\<close>

definition ipv4 :: "8 word \<Rightarrow> 8 word \<Rightarrow> 8 word \<Rightarrow> 8 word \<Rightarrow> ip" where
  "ipv4 a b c d = v4_in_v6 @ [a, b, c, d]"

definition is_unspecified :: "ip \<Rightarrow> bool" where
  "is_unspecified ip = (ip_equal ip (ipv4 0 0 0 0) \<or> ip_equal ip (replicate 16 0))"

definition is_loopback :: "ip \<Rightarrow> bool" where
  "is_loopback ip = (case to4 ip of Some ip4 \<Rightarrow> ip4 ! 0 = 127
     | None \<Rightarrow> ip_equal ip (replicate 15 0 @ [1]))"

definition is_private :: "ip \<Rightarrow> bool" where
  "is_private ip = (case to4 ip of
     Some ip4 \<Rightarrow> ip4 ! 0 = 10 \<or> (ip4 ! 0 = 172 \<and> ip4 ! 1 AND 0xf0 = 16) \<or>
       (ip4 ! 0 = 192 \<and> ip4 ! 1 = 168)
   | None \<Rightarrow> length ip = 16 \<and> ip ! 0 AND 0xfe = 0xfc)"

definition is_multicast :: "ip \<Rightarrow> bool" where
  "is_multicast ip = (case to4 ip of Some ip4 \<Rightarrow> ip4 ! 0 AND 0xf0 = 0xe0
     | None \<Rightarrow> length ip = 16 \<and> ip ! 0 = 0xff)"

definition is_interface_local_multicast :: "ip \<Rightarrow> bool" where
  "is_interface_local_multicast ip = (length ip = 16 \<and> ip ! 0 = 0xff \<and> ip ! 1 AND 0x0f = 1)"

definition is_link_local_multicast :: "ip \<Rightarrow> bool" where
  "is_link_local_multicast ip = (case to4 ip of
     Some ip4 \<Rightarrow> ip4 ! 0 = 224 \<and> ip4 ! 1 = 0 \<and> ip4 ! 2 = 0
   | None \<Rightarrow> length ip = 16 \<and> ip ! 0 = 0xff \<and> ip ! 1 AND 0x0f = 2)"

definition is_link_local_unicast :: "ip \<Rightarrow> bool" where
  "is_link_local_unicast ip = (case to4 ip of
     Some ip4 \<Rightarrow> ip4 ! 0 = 169 \<and> ip4 ! 1 = 254
   | None \<Rightarrow> length ip = 16 \<and> ip ! 0 = 0xfe \<and> ip ! 1 AND 0xc0 = 0x80)"

lemmas ip_predicates = is_unspecified_def is_loopback_def is_private_def is_multicast_def
  is_interface_local_multicast_def is_link_local_multicast_def is_link_local_unicast_def

text \<open>
  A CIDR block is the bytes of its network address and the length of its prefix; \<open>Contains\<close>
  compares the addresses under the mask, after an IPv4 address in 16 bytes is shortened to 4.
\<close>

type_synonym ip_net = "ip \<times> nat"

definition mask_byte :: "nat \<Rightarrow> nat \<Rightarrow> 8 word" where
  "mask_byte len i =
     (if 8 * (i + 1) \<le> len then 0xff else if len \<le> 8 * i then 0
      else NOT (mask (8 * (i + 1) - len)))"

definition net_contains :: "ip_net \<Rightarrow> ip \<Rightarrow> bool" where
  "net_contains net ip =
     (let x = (case to4 ip of Some ip4 \<Rightarrow> ip4 | None \<Rightarrow> ip) in
      length x = length (fst net) \<and>
      list_all (\<lambda>i. fst net ! i AND mask_byte (snd net) i = x ! i AND mask_byte (snd net) i)
        [0..<length x])"

section \<open>The deny list\<close>

definition blocked_networks :: "ip_net list" where
  "blocked_networks =
    [([0, 0, 0, 0], 8), ([100, 64, 0, 0], 10), ([192, 0, 0, 0], 24), ([192, 0, 2, 0], 24),
     ([198, 18, 0, 0], 15), ([198, 51, 100, 0], 24), ([203, 0, 113, 0], 24), ([240, 0, 0, 0], 4),
     ([255, 255, 255, 255], 32),
     ([0x01, 0x00, 0, 0, 0, 0, 0, 0, 0, 0, 0, 0, 0, 0, 0, 0], 64),
     ([0x20, 0x01, 0, 0, 0, 0, 0, 0, 0, 0, 0, 0, 0, 0, 0, 0], 32),
     ([0x00, 0x64, 0xff, 0x9b, 0x00, 0x01, 0, 0, 0, 0, 0, 0, 0, 0, 0, 0], 48),
     ([0x20, 0x01, 0x0d, 0xb8, 0, 0, 0, 0, 0, 0, 0, 0, 0, 0, 0, 0], 32),
     ([0x3f, 0xff, 0, 0, 0, 0, 0, 0, 0, 0, 0, 0, 0, 0, 0, 0], 20)]"

definition embedded_ipv4 :: "ip \<Rightarrow> ip option" where
  "embedded_ipv4 ip = (case to4 ip of
     Some mapped \<Rightarrow> if length ip = 16 \<and> \<not> ip_equal mapped ip then Some mapped else None
   | None \<Rightarrow>
       if length ip \<noteq> 16 then None
       else if ip ! 0 = 0x00 \<and> ip ! 1 = 0x64 \<and> ip ! 2 = 0xff \<and> ip ! 3 = 0x9b
       then Some (ipv4 (ip ! 12) (ip ! 13) (ip ! 14) (ip ! 15))
       else if ip ! 0 = 0x20 \<and> ip ! 1 = 0x02
       then Some (ipv4 (ip ! 2) (ip ! 3) (ip ! 4) (ip ! 5))
       else if is_zeros (take 12 ip) \<and> \<not> is_zeros (drop 12 ip)
       then Some (ipv4 (ip ! 12) (ip ! 13) (ip ! 14) (ip ! 15))
       else None)"

text \<open>An address unwrapped is an IPv4 address in its mapped form, so it is unwrapped once.\<close>

lemma to4_ipv4 [simp]: "to4 (ipv4 a b c d) = Some [a, b, c, d]"
  by (simp add: to4_def ipv4_def v4_in_v6_def)

lemma to4_v4 [simp]: "to4 [a, b, c, d] = Some [a, b, c, d]"
  by (simp add: to4_def)

lemma embedded_of_mapped: "to4 ip = Some m \<Longrightarrow> embedded_ipv4 ip = None"
  by (auto simp: embedded_ipv4_def to4_def ip_equal_def split: if_splits)

lemma embedded_is_ipv4:
  assumes "embedded_ipv4 ip = Some e"
  shows "\<exists>a b c d. e = ipv4 a b c d"
proof (cases "to4 ip")
  case None
  with assms show ?thesis by (auto simp: embedded_ipv4_def split: if_splits)
next
  case (Some m)
  with assms show ?thesis by (simp add: embedded_of_mapped)
qed

function is_public_ip :: "ip \<Rightarrow> bool" where
  "is_public_ip ip = (if ip = [] then False else case embedded_ipv4 ip of
     Some embedded \<Rightarrow> is_public_ip embedded
   | None \<Rightarrow>
       if is_loopback ip \<or> is_private ip \<or> is_link_local_unicast ip \<or> is_link_local_multicast ip \<or>
         is_unspecified ip \<or> is_multicast ip \<or> is_interface_local_multicast ip
       then False
       else list_all (\<lambda>blocked. \<not> net_contains blocked ip) blocked_networks)"
  by pat_completeness auto
termination
proof (relation "measure (\<lambda>ip. if embedded_ipv4 ip = None then 0 else 1)")
  fix ip e
  assume "embedded_ipv4 ip = Some e"
  moreover from this obtain a b c d where "e = ipv4 a b c d" using embedded_is_ipv4 by blast
  then have "embedded_ipv4 e = None" by (simp add: embedded_of_mapped)
  ultimately show "(e, ip) \<in> measure (\<lambda>ip. if embedded_ipv4 ip = None then 0 else 1)" by simp
qed simp

declare is_public_ip.simps [simp del]

section \<open>Which IPv4 addresses are public\<close>

lemma unat_lt2p_8: "unat (x :: 8 word) < 256"
  using unsigned_less [of x] by simp

text \<open>A byte under the mask of its high bits, as a number.\<close>

lemma and_high: "unat (x AND NOT (mask k)) = 2 ^ k * (unat x div 2 ^ k)" for x :: "8 word"
proof -
  have "x AND NOT (mask k) = push_bit k (drop_bit k x)"
    by (rule bit_word_eqI) (auto simp: bit_simps)
  moreover have "unat (push_bit k (drop_bit k x)) = take_bit 8 (2 ^ k * (unat x div 2 ^ k))"
    by (simp only: unsigned_push_bit_eq unat_drop_bit_eq) (simp add: push_bit_eq_mult drop_bit_eq_div take_bit_eq_mod ac_simps)
  moreover have "2 ^ k * (unat x div 2 ^ k) < 256"
    using unat_lt2p_8 [of x] by (meson le_less_trans times_div_less_eq_dividend)
  ultimately show ?thesis by (simp add: take_bit_eq_mod)
qed

lemma high_masks:
  "(0xf0 :: 8 word) = NOT (mask 4)" "(0xc0 :: 8 word) = NOT (mask 6)"
  "(0xfe :: 8 word) = NOT (mask 1)"
  by (simp_all add: mask_numeral)

lemma byte_masks:
  "(x AND 0xf0 = 16) = (16 \<le> x \<and> x < 32)"
  "(x AND 0xf0 = 0xe0) = (224 \<le> x \<and> x < 240)"
  "(x AND 0xf0 = 0xf0) = (240 \<le> x)"
  "(x AND 0xc0 = 0x40) = (64 \<le> x \<and> x < 128)"
  "(x AND 0xfe = 18) = (x = 18 \<or> x = 19)"
  for x :: "8 word"
proof -
  define n where "n = unat x"
  have n: "n < 256" unfolding n_def by (rule unat_lt2p_8)
  have h: "unat (x AND 0xf0) = 16 * (n div 16)" "unat (x AND 0xc0) = 64 * (n div 64)"
    "unat (x AND 0xfe) = 2 * (n div 2)"
    unfolding high_masks and_high n_def by simp_all
  show "(x AND 0xf0 = 16) = (16 \<le> x \<and> x < 32)"
    "(x AND 0xf0 = 0xe0) = (224 \<le> x \<and> x < 240)"
    "(x AND 0xf0 = 0xf0) = (240 \<le> x)"
    "(x AND 0xc0 = 0x40) = (64 \<le> x \<and> x < 128)"
    "(x AND 0xfe = 18) = (x = 18 \<or> x = 19)"
    unfolding word_unat_eq_iff word_le_nat_alt word_less_nat_alt h using n
    by (simp_all add: n_def [symmetric], linarith+)
qed

text \<open>The IPv4 addresses the guard keeps a fetch from, by their octets.\<close>

definition internal_v4 :: "8 word \<Rightarrow> 8 word \<Rightarrow> 8 word \<Rightarrow> 8 word \<Rightarrow> bool" where
  "internal_v4 a b c d =
     (a = 0 \<or> a = 10 \<or> a = 127 \<or> (a = 100 \<and> 64 \<le> b \<and> b < 128) \<or> (a = 169 \<and> b = 254) \<or>
      (a = 172 \<and> 16 \<le> b \<and> b < 32) \<or> (a = 192 \<and> b = 0 \<and> (c = 0 \<or> c = 2)) \<or> (a = 192 \<and> b = 168) \<or>
      (a = 198 \<and> (b = 18 \<or> b = 19)) \<or> (a = 198 \<and> b = 51 \<and> c = 100) \<or>
      (a = 203 \<and> b = 0 \<and> c = 113) \<or> 224 \<le> a)"

lemma full_mask [simp]: "x AND 0xff = x" for x :: "8 word"
proof -
  have "(0xff :: 8 word) = - 1" by simp
  then show ?thesis by (simp only: and.right_neutral)
qed

lemma mask_byte_values:
  "mask_byte 8 0 = 0xff" "mask_byte 8 (Suc 0) = 0" "mask_byte 8 2 = 0" "mask_byte 8 3 = 0"
  "mask_byte 10 0 = 0xff" "mask_byte 10 (Suc 0) = 0xc0" "mask_byte 10 2 = 0" "mask_byte 10 3 = 0"
  "mask_byte 15 0 = 0xff" "mask_byte 15 (Suc 0) = 0xfe" "mask_byte 15 2 = 0" "mask_byte 15 3 = 0"
  "mask_byte 24 0 = 0xff" "mask_byte 24 (Suc 0) = 0xff" "mask_byte 24 2 = 0xff" "mask_byte 24 3 = 0"
  "mask_byte 4 0 = 0xf0" "mask_byte 4 (Suc 0) = 0" "mask_byte 4 2 = 0" "mask_byte 4 3 = 0"
  "mask_byte 32 0 = 0xff" "mask_byte 32 (Suc 0) = 0xff" "mask_byte 32 2 = 0xff" "mask_byte 32 3 = 0xff"
  by (simp_all add: mask_byte_def mask_numeral)

lemma net_contains_v4:
  "net_contains ([p, q, r, t], n) [a, b, c, d] =
     (a AND mask_byte n 0 = p AND mask_byte n 0 \<and> b AND mask_byte n (Suc 0) = q AND mask_byte n (Suc 0) \<and>
      c AND mask_byte n 2 = r AND mask_byte n 2 \<and> d AND mask_byte n 3 = t AND mask_byte n 3)"
  "length net = 16 \<Longrightarrow> \<not> net_contains (net, n) [a, b, c, d]"
  by (auto simp: net_contains_def numeral_eq_Suc)

lemma v4_blocks:
  "net_contains ([0, 0, 0, 0], 8) [a, b, c, d] = (a = 0)"
  "net_contains ([100, 64, 0, 0], 10) [a, b, c, d] = (a = 100 \<and> 64 \<le> b \<and> b < 128)"
  "net_contains ([192, 0, 0, 0], 24) [a, b, c, d] = (a = 192 \<and> b = 0 \<and> c = 0)"
  "net_contains ([192, 0, 2, 0], 24) [a, b, c, d] = (a = 192 \<and> b = 0 \<and> c = 2)"
  "net_contains ([198, 18, 0, 0], 15) [a, b, c, d] = (a = 198 \<and> (b = 18 \<or> b = 19))"
  "net_contains ([198, 51, 100, 0], 24) [a, b, c, d] = (a = 198 \<and> b = 51 \<and> c = 100)"
  "net_contains ([203, 0, 113, 0], 24) [a, b, c, d] = (a = 203 \<and> b = 0 \<and> c = 113)"
  "net_contains ([240, 0, 0, 0], 4) [a, b, c, d] = (240 \<le> a)"
  "net_contains ([255, 255, 255, 255], 32) [a, b, c, d] = (a = 255 \<and> b = 255 \<and> c = 255 \<and> d = 255)"
  by (simp_all add: net_contains_v4 mask_byte_values byte_masks)

lemma blocked_v4:
  "list_all (\<lambda>blocked. \<not> net_contains blocked [a, b, c, d]) blocked_networks \<longleftrightarrow>
     \<not> (a = 0 \<or> (a = 100 \<and> 64 \<le> b \<and> b < 128) \<or> (a = 192 \<and> b = 0 \<and> (c = 0 \<or> c = 2)) \<or>
        (a = 198 \<and> (b = 18 \<or> b = 19)) \<or> (a = 198 \<and> b = 51 \<and> c = 100) \<or>
        (a = 203 \<and> b = 0 \<and> c = 113) \<or> 240 \<le> a)"
  by (simp add: blocked_networks_def v4_blocks net_contains_v4(2)) auto

lemma zeros:
  "replicate 12 (0 :: 8 word) = [0, 0, 0, 0, 0, 0, 0, 0, 0, 0, 0, 0]"
  "replicate 15 (0 :: 8 word) = [0, 0, 0, 0, 0, 0, 0, 0, 0, 0, 0, 0, 0, 0, 0]"
  "replicate 16 (0 :: 8 word) = [0, 0, 0, 0, 0, 0, 0, 0, 0, 0, 0, 0, 0, 0, 0, 0]"
  by (simp_all add: numeral_eq_Suc)

lemma v4_predicates:
  "is_loopback [a, b, c, d] = (a = 127)"
  "is_private [a, b, c, d] = (a = 10 \<or> (a = 172 \<and> 16 \<le> b \<and> b < 32) \<or> (a = 192 \<and> b = 168))"
  "is_link_local_unicast [a, b, c, d] = (a = 169 \<and> b = 254)"
  "is_link_local_multicast [a, b, c, d] = (a = 224 \<and> b = 0 \<and> c = 0)"
  "is_unspecified [a, b, c, d] = (a = 0 \<and> b = 0 \<and> c = 0 \<and> d = 0)"
  "is_multicast [a, b, c, d] = (224 \<le> a \<and> a < 240)"
  "is_interface_local_multicast [a, b, c, d] = False"
  by (simp_all add: ip_predicates byte_masks ip_equal_def ipv4_def v4_in_v6_def zeros)

text \<open>The mapped form answers every predicate as the plain one.\<close>

lemma mapped_predicates:
  "is_loopback (ipv4 a b c d) = is_loopback [a, b, c, d]"
  "is_private (ipv4 a b c d) = is_private [a, b, c, d]"
  "is_link_local_unicast (ipv4 a b c d) = is_link_local_unicast [a, b, c, d]"
  "is_link_local_multicast (ipv4 a b c d) = is_link_local_multicast [a, b, c, d]"
  "is_unspecified (ipv4 a b c d) = is_unspecified [a, b, c, d]"
  "is_multicast (ipv4 a b c d) = is_multicast [a, b, c, d]"
  "is_interface_local_multicast (ipv4 a b c d) = is_interface_local_multicast [a, b, c, d]"
  "net_contains net (ipv4 a b c d) = net_contains net [a, b, c, d]"
proof -
  have len: "length (ipv4 a b c d) = 16" by (simp add: ipv4_def v4_in_v6_def)
  show "is_loopback (ipv4 a b c d) = is_loopback [a, b, c, d]"
    "is_private (ipv4 a b c d) = is_private [a, b, c, d]"
    "is_link_local_unicast (ipv4 a b c d) = is_link_local_unicast [a, b, c, d]"
    "is_link_local_multicast (ipv4 a b c d) = is_link_local_multicast [a, b, c, d]"
    "is_multicast (ipv4 a b c d) = is_multicast [a, b, c, d]"
    by (simp_all add: ip_predicates)
  show "is_unspecified (ipv4 a b c d) = is_unspecified [a, b, c, d]"
    by (simp add: is_unspecified_def ip_equal_def ipv4_def v4_in_v6_def zeros)
  show "is_interface_local_multicast (ipv4 a b c d) = is_interface_local_multicast [a, b, c, d]"
    by (simp add: is_interface_local_multicast_def ipv4_def v4_in_v6_def)
  show "net_contains net (ipv4 a b c d) = net_contains net [a, b, c, d]"
    by (simp add: net_contains_def)
qed

lemma public_v4: "is_public_ip [a, b, c, d] \<longleftrightarrow> \<not> internal_v4 a b c d"
proof -
  have e: "embedded_ipv4 [a, b, c, d] = None" by (simp add: embedded_of_mapped)
  have high: "224 \<le> a \<longleftrightarrow> (224 \<le> a \<and> a < 240) \<or> 240 \<le> a"
    using order_trans [of 224 240 a] by auto
  have zero: "a = 224 \<Longrightarrow> 224 \<le> a \<and> a < 240" by simp
  show ?thesis
    unfolding is_public_ip.simps [of "[a, b, c, d]"] e option.case v4_predicates blocked_v4
      internal_v4_def
    using high zero by (simp only: list.distinct if_False) argo
qed

lemma public_mapped: "is_public_ip (ipv4 a b c d) = is_public_ip [a, b, c, d]"
proof -
  have "embedded_ipv4 (ipv4 a b c d) = None" "embedded_ipv4 [a, b, c, d] = None"
    by (simp_all add: embedded_of_mapped)
  moreover have "ipv4 a b c d \<noteq> []" by (simp add: ipv4_def)
  ultimately show ?thesis
    unfolding is_public_ip.simps [of "ipv4 a b c d"] is_public_ip.simps [of "[a, b, c, d]"]
    by (simp add: mapped_predicates)
qed

text \<open>The forms in which an IPv6 address stands for an IPv4 one.\<close>

inductive carries :: "ip \<Rightarrow> 8 word \<times> 8 word \<times> 8 word \<times> 8 word \<Rightarrow> bool" where
  plain: "carries [a, b, c, d] (a, b, c, d)"
| mapped: "carries (v4_in_v6 @ [a, b, c, d]) (a, b, c, d)"
| nat64: "carries ([0x00, 0x64, 0xff, 0x9b, 0, 0, 0, 0, 0, 0, 0, 0, a, b, c, d]) (a, b, c, d)"
| six_to_four: "length rest = 10 \<Longrightarrow> carries ([0x20, 0x02, a, b, c, d] @ rest) (a, b, c, d)"
| compatible: "\<not> (a = 0 \<and> b = 0 \<and> c = 0 \<and> d = 0) \<Longrightarrow>
    carries (replicate 12 0 @ [a, b, c, d]) (a, b, c, d)"

lemma unwraps:
  "embedded_ipv4 ip = Some (ipv4 a b c d) \<Longrightarrow> is_public_ip ip = is_public_ip [a, b, c, d]"
  by (cases "ip = []") (simp_all add: is_public_ip.simps [of ip] public_mapped embedded_ipv4_def to4_def)

lemma unwrap_nat64:
  "embedded_ipv4 [0x00, 0x64, 0xff, 0x9b, e, f, g, h, i, j, k, l, a, b, c, d] = Some (ipv4 a b c d)"
  by (simp add: embedded_ipv4_def to4_def v4_in_v6_def)

lemma unwrap_six_to_four:
  assumes "length rest = 10"
  shows "embedded_ipv4 ([0x20, 0x02, a, b, c, d] @ rest) = Some (ipv4 a b c d)"
  using assms by (simp add: embedded_ipv4_def to4_def v4_in_v6_def)

lemma unwrap_compatible:
  "\<not> (a = 0 \<and> b = 0 \<and> c = 0 \<and> d = 0) \<Longrightarrow>
    embedded_ipv4 (replicate 12 0 @ [a, b, c, d]) = Some (ipv4 a b c d)"
  by (simp add: embedded_ipv4_def to4_def v4_in_v6_def is_zeros_def zeros)

text \<open>
  In whatever form a dialled address carries an IPv4 address (plain, IPv4-mapped, the
  well-known NAT64 prefix, 6to4, IPv4-compatible) it is permitted exactly when the IPv4 address
  is none of the internal ones: no encoding gets a fetch to a metadata service or a private host.
\<close>

theorem avatar_guard_unwraps:
  assumes "carries ip (a, b, c, d)"
  shows "is_public_ip ip \<longleftrightarrow> \<not> internal_v4 a b c d"
  using assms
proof (cases rule: carries.cases)
  case plain
  then show ?thesis by (simp add: public_v4)
next
  case mapped
  then show ?thesis by (simp add: public_mapped public_v4 flip: ipv4_def)
next
  case nat64
  then show ?thesis using unwraps [OF unwrap_nat64] by (simp add: public_v4)
next
  case (six_to_four rest)
  then show ?thesis using unwraps [OF unwrap_six_to_four] by (simp add: public_v4)
next
  case compatible
  then show ?thesis using unwraps [OF unwrap_compatible] by (simp add: public_v4)
qed

text \<open>
  The local-use NAT64 block of RFC 8215 is on the deny list, but the unwrapping of every address
  that starts with \<open>64:ff9b\<close> comes first and looks at the last four bytes, so the entry decides
  nothing: \<open>64:ff9b:1:a9fe:a9:fe00:808:808\<close> is permitted.
\<close>

theorem local_nat64_permitted:
  "net_contains ([0x00, 0x64, 0xff, 0x9b, 0x00, 0x01, 0, 0, 0, 0, 0, 0, 0, 0, 0, 0], 48)
     [0x00, 0x64, 0xff, 0x9b, 0x00, 0x01, 0xa9, 0xfe, 0x00, 0xa9, 0xfe, 0x00, 8, 8, 8, 8] \<and>
   is_public_ip [0x00, 0x64, 0xff, 0x9b, 0x00, 0x01, 0xa9, 0xfe, 0x00, 0xa9, 0xfe, 0x00, 8, 8, 8, 8]"
proof
  show "is_public_ip [0x00, 0x64, 0xff, 0x9b, 0x00, 0x01, 0xa9, 0xfe, 0x00, 0xa9, 0xfe, 0x00, 8, 8, 8, 8]"
    using unwraps [OF unwrap_nat64] by (simp add: public_v4 internal_v4_def)
  show "net_contains ([0x00, 0x64, 0xff, 0x9b, 0x00, 0x01, 0, 0, 0, 0, 0, 0, 0, 0, 0, 0], 48)
     [0x00, 0x64, 0xff, 0x9b, 0x00, 0x01, 0xa9, 0xfe, 0x00, 0xa9, 0xfe, 0x00, 8, 8, 8, 8]"
    by (simp add: net_contains_def to4_def v4_in_v6_def mask_byte_def numeral_eq_Suc)
qed

section \<open>The fetch\<close>

definition max_avatar_bytes :: nat where "max_avatar_bytes = 5 * 2 ^ 20"

text \<open>
  What the network does: whether a URL parses into a request, and for a request to it the
  addresses the dialer tries in turn, each with whether a permitted connection comes up, and the
  answer over that connection. A dial address that does not split is \<open>None\<close>, a host that is no IP
  is \<open>Some None\<close>. A body that broke off is \<open>None\<close>; a timeout is \<open>Unreachable\<close>.
\<close>

type_synonym dial_address = "ip option option"

datatype answer = Answered int string "string option" | Moved string | Unreachable

record site =
  st_dials :: "(dial_address \<times> bool) list"
  st_answer :: answer

record web =
  wb_parses :: "string \<Rightarrow> bool"
  wb_site :: "string \<Rightarrow> site"

definition require_https :: "string \<Rightarrow> unit result" where
  "require_https url = (if \<not> has_prefix (to_lower url) https_url
     then Inl (Plain ''porte: avatar URLs must be https'') else Inr ())"

definition dial_control :: "dial_address \<Rightarrow> ip result" where
  "dial_control address = (case address of
     None \<Rightarrow> Inl (Plain ''porte: unparseable dial address'')
   | Some None \<Rightarrow> Inl (Plain ''porte: refusing to fetch an avatar from a non-public address'')
   | Some (Some ip) \<Rightarrow>
       if \<not> is_public_ip ip
       then Inl (Plain ''porte: refusing to fetch an avatar from a non-public address'') else Inr ip)"

fun dial :: "(dial_address \<times> bool) list \<Rightarrow> ip result" where
  "dial [] = Inl (Plain ''dial'')"
| "dial ((address, up) # rest) = (case dial_control address of
     Inl e \<Rightarrow> if rest = [] then Inl e else dial rest
   | Inr ip \<Rightarrow> if up then Inr ip else dial rest)"

definition check_redirect :: "string \<Rightarrow> nat \<Rightarrow> unit result" where
  "check_redirect url via =
     (if 3 \<le> via then Inl (Plain ''porte: too many redirects fetching the avatar'')
      else require_https url)"

text \<open>
  \<open>client.Do\<close>: \<open>via\<close> is the number of requests made before this one. The connections made are
  returned with the answer.
\<close>

function follow :: "web \<Rightarrow> string \<Rightarrow> nat \<Rightarrow> answer result \<times> ip list" where
  "follow w url via = (case dial (st_dials (wb_site w url)) of
     Inl e \<Rightarrow> (Inl e, [])
   | Inr ip \<Rightarrow> (case st_answer (wb_site w url) of
       Moved target \<Rightarrow> (case check_redirect target (via + 1) of
           Inl e \<Rightarrow> (Inl e, [ip])
         | Inr _ \<Rightarrow> (case follow w target (via + 1) of (r, ips) \<Rightarrow> (r, ip # ips)))
     | a \<Rightarrow> (Inr a, [ip])))"
  by pat_completeness auto
termination
  by (relation "measure (\<lambda>(w, url, via). 3 - via)") (auto simp: check_redirect_def split: if_splits)

declare follow.simps [simp del]

definition is_image_type :: "string \<Rightarrow> bool" where
  "is_image_type content_type =
     (content_type = ''image/png'' \<or> content_type = ''image/jpeg'' \<or>
      content_type = ''image/gif'' \<or> content_type = ''image/webp'')"

definition media_type :: "string \<Rightarrow> string" where
  "media_type header = trim_space (cut_before (CHR '';'') header)"

definition read_avatar :: "answer \<Rightarrow> (string \<times> string) result" where
  "read_avatar a = (case a of
     Answered status header body \<Rightarrow>
       if status \<noteq> 200 then Inl (Plain ''porte: avatar fetch returned status'')
       else if \<not> is_image_type (media_type header)
       then Inl (Plain ''porte: unsupported avatar content type'')
       else (case body of
           None \<Rightarrow> Inl (Wrap ''porte: reading the avatar failed'' (Plain ''read''))
         | Some bytes \<Rightarrow>
             let data = take (max_avatar_bytes + 1) bytes in
             if max_avatar_bytes < length data
             then Inl (Plain ''porte: avatar exceeds the byte limit'')
             else Inr (data, media_type header))
   | _ \<Rightarrow> Inl (Wrap ''porte: avatar fetch failed'' (Plain ''client'')))"

definition fetch_avatar :: "web \<Rightarrow> string \<Rightarrow> (string \<times> string) result \<times> ip list" where
  "fetch_avatar w url = (case require_https url of
     Inl e \<Rightarrow> (Inl e, [])
   | Inr _ \<Rightarrow>
       if \<not> wb_parses w url then (Inl (Wrap ''porte: invalid picture URL'' (Plain ''parse'')), [])
       else (case follow w url 0 of
           (Inl e, ips) \<Rightarrow> (Inl (Wrap ''porte: avatar fetch failed'' e), ips)
         | (Inr a, ips) \<Rightarrow> (read_avatar a, ips)))"

lemma dial_public: "dial ds = Inr ip \<Longrightarrow> is_public_ip ip"
  by (induction ds rule: dial.induct)
    (auto simp: dial_control_def split: sum.splits if_splits option.splits)

lemma follow_guarded: "via \<le> 2 \<Longrightarrow> follow w url via = (r, ips) \<Longrightarrow>
    list_all is_public_ip ips \<and> length ips \<le> 3 - via"
proof (induction w url via arbitrary: r ips rule: follow.induct)
  case (1 w url via)
  show ?case
  proof (cases "dial (st_dials (wb_site w url))")
    case (Inl e)
    with 1 show ?thesis by (simp add: follow.simps [of w url via])
  next
    case ip: (Inr ip)
    then have pub: "is_public_ip ip" by (rule dial_public)
    show ?thesis
    proof (cases "\<exists>t. st_answer (wb_site w url) = Moved t \<and> check_redirect t (via + 1) = Inr ()")
      case True
      then obtain t where t: "st_answer (wb_site w url) = Moved t" "check_redirect t (via + 1) = Inr ()"
        by blast
      obtain r' ips' where f: "follow w t (via + 1) = (r', ips')" by (cases "follow w t (via + 1)")
      have "via + 1 \<le> 2" using t(2) by (simp add: check_redirect_def split: if_splits)
      with "1.IH" [OF ip t(1,2) _ f] have "list_all is_public_ip ips'" "length ips' \<le> 3 - (via + 1)"
        by simp_all
      then show ?thesis using "1.prems" pub t f ip \<open>via + 1 \<le> 2\<close>
        by (auto simp: follow.simps [of w url via])
    next
      case False
      then show ?thesis using "1.prems" pub ip
        by (auto simp: follow.simps [of w url via] split: answer.splits sum.splits)
    qed
  qed
qed

lemma read_avatar_bounds:
  "read_avatar a = Inr (data, ctype) \<Longrightarrow> is_image_type ctype \<and> length data \<le> max_avatar_bytes"
  by (auto simp: read_avatar_def Let_def split: answer.splits if_splits option.splits)


definition redirecting_web :: web where
  "redirecting_web = \<lparr>wb_parses = (\<lambda>_. True), wb_site = (\<lambda>url.
     if url = ''https://idp/me.png''
     then \<lparr>st_dials = [(Some (Some [10, 0, 0, 1]), True), (Some (Some [8, 8, 8, 8]), True)],
            st_answer = Moved ''https://cdn/me.png''\<rparr>
     else \<lparr>st_dials = [(Some (Some (ipv4 8 8 4 4)), True)],
            st_answer = Answered 200 ''image/png; q=1'' (Some ''PNG'')\<rparr>)\<rparr>"


end
