(* ===== verification/Jwt.thy ===== *)
theory Jwt
  imports Sealer
begin

text \<open>
  The verifier of bearer tokens (\<open>oidc/jwt\<close>): the checks of a token (\<open>jwt.go\<close>), the cache of the
  signing keys with its two reasons to fetch (\<open>cache.go\<close>), and what is read of the provider's
  documents (\<open>jwks.go\<close>). RSA verification of \<open>crypto/rsa\<close> and the reading of a JSON text into a
  struct are arguments; a fetch is a function of the world it happens in.
\<close>

section \<open>Signed tokens\<close>

record rsa_key =
  rk_modulus :: nat
  rk_exponent :: nat

definition be_value :: "string \<Rightarrow> nat" where
  "be_value bytes = foldl (\<lambda>a c. a * 256 + of_char c) 0 bytes"

text \<open>
  \<open>time.Unix(sec, 0)\<close> counts its seconds from the zero time in an \<open>int64\<close>, which wraps.
\<close>

definition unix_epoch :: int where "unix_epoch = 62135596800"

definition unix_time :: "int \<Rightarrow> time" where
  "unix_time sec = ((sec + unix_epoch + 2 ^ 63) mod 2 ^ 64 - 2 ^ 63) * second"

lemma unix_time_exact:
  "- (2 ^ 63) \<le> sec \<Longrightarrow> sec \<le> 2 ^ 62 \<Longrightarrow> unix_time sec = (sec + unix_epoch) * second"
  by (simp add: unix_time_def unix_epoch_def mod_pos_pos_trivial)

text \<open>
  The \<open>aud\<close> claim as it was sent. A \<open>null\<close> reads as one empty string; an absent claim leaves no
  audience.
\<close>

datatype json_audience = NoAudience | NullAudience | OneAudience string | ManyAudiences "string list" | OtherAudience

definition read_audience :: "json_audience \<Rightarrow> string list option" where
  "read_audience j = (case j of
     NoAudience \<Rightarrow> Some [] | NullAudience \<Rightarrow> Some [[]] | OneAudience a \<Rightarrow> Some [a]
   | ManyAudiences as \<Rightarrow> Some as | OtherAudience \<Rightarrow> None)"

section \<open>The documents of the provider\<close>

record jwk =
  jk_kid :: string
  jk_n :: string
  jk_e :: string

definition rsa_key_of :: "jwk \<Rightarrow> rsa_key option" where
  "rsa_key_of k =
     (if jk_kid k = [] \<or> jk_n k = [] \<or> jk_e k = [] then None
      else case b64_decode (jk_n k) of
        None \<Rightarrow> None
      | Some n \<Rightarrow>
          if n = [] then None
          else (case b64_decode (jk_e k) of
              None \<Rightarrow> None
            | Some e \<Rightarrow>
                if e = [] \<or> 4 < length e then None
                else if be_value e < 2 then None
                else Some \<lparr>rk_modulus = be_value n, rk_exponent = be_value e\<rparr>))"

record discovery =
  ds_issuer :: string
  ds_jwks_uri :: string

text \<open>
  What the verifier reaches: \<open>get\<close> of a document, its status, size and JSON checked, and the clock.
  \<open>jn_header\<close> and \<open>jn_payload\<close> read the JSON of a token, \<open>None\<close> when it does not parse.
\<close>

record jwt_header =
  jh_alg :: string
  jh_kid :: string

record jwt_payload =
  jp_issuer :: string
  jp_audience :: json_audience
  jp_expires :: int
  jp_not_before :: int
  jp_issued :: int
  jp_subject :: string
  jp_email :: string
  jp_name :: string
  jp_roles :: "string list"
  jp_scope :: string
  jp_actor :: string

record 'w jwt_net =
  jn_discovery :: "string \<Rightarrow> 'w \<Rightarrow> discovery result \<times> 'w"
  jn_jwks :: "string \<Rightarrow> 'w \<Rightarrow> jwk list result \<times> 'w"
  jn_now :: "'w \<Rightarrow> time"
  jn_header :: "string \<Rightarrow> jwt_header option"
  jn_payload :: "string \<Rightarrow> jwt_payload option"
  jn_rsa :: "rsa_key \<Rightarrow> string \<Rightarrow> string \<Rightarrow> bool"

record jwt_config =
  jv_issuer :: string
  jv_audience :: string
  jv_cache_ttl :: duration

text \<open>The verifier: what \<open>New\<close> fixes, and the cache under the lock.\<close>

record jwt_verifier =
  jv_cfg :: jwt_config
  jv_jwks :: string
  jv_keys :: "(string \<times> rsa_key) list option"
  jv_fetched_at :: time
  jv_refetched_at :: time

definition trim_one_slash :: "string \<Rightarrow> string" where
  "trim_one_slash s = (if s \<noteq> [] \<and> last s = CHR ''/'' then butlast s else s)"

definition discover_jwks :: "'w jwt_net \<Rightarrow> jwt_config \<Rightarrow> 'w \<Rightarrow> string result \<times> 'w" where
  "discover_jwks net cfg w =
     (case jn_discovery net (trim_one_slash (jv_issuer cfg) @ ''/.well-known/openid-configuration'') w of
        (Inl e, w1) \<Rightarrow> (Inl (Wrap ''porte/jwt: discovery failed'' e), w1)
      | (Inr doc, w1) \<Rightarrow>
          (if ds_issuer doc \<noteq> [] \<and> ds_issuer doc \<noteq> jv_issuer cfg
             then Inl (Plain ''porte/jwt: the document publishes another issuer'')
           else if ds_jwks_uri doc = [] then Inl (Plain ''porte/jwt: no jwks_uri is advertised'')
           else Inr (ds_jwks_uri doc), w1))"

definition new_jwt_verifier :: "'w jwt_net \<Rightarrow> jwt_config \<Rightarrow> 'w \<Rightarrow> jwt_verifier result \<times> 'w" where
  "new_jwt_verifier net cfg w =
     (if jv_issuer cfg = [] then (Inl (Plain ''porte/jwt: an issuer is required''), w)
      else if jv_audience cfg = [] then (Inl (Plain ''porte/jwt: an audience is required''), w)
      else case discover_jwks net cfg w of
        (Inl e, w1) \<Rightarrow> (Inl e, w1)
      | (Inr jwks, w1) \<Rightarrow> (Inr \<lparr>jv_cfg = cfg, jv_jwks = jwks, jv_keys = None, jv_fetched_at = 0,
          jv_refetched_at = 0\<rparr>, w1))"

section \<open>The cache\<close>

definition default_cache_ttl :: duration where "default_cache_ttl = hour"
definition min_refetch_interval :: duration where "min_refetch_interval = 30 * second"
definition jwt_leeway :: duration where "jwt_leeway = 30 * second"

definition err_invalid_token :: error where
  "err_invalid_token = Plain ''porte/jwt: invalid token''"

definition refuse_token :: "string \<Rightarrow> error" where
  "refuse_token why = Wrap why err_invalid_token"

definition cache_ttl :: "jwt_verifier \<Rightarrow> duration" where
  "cache_ttl v = (if jv_cache_ttl (jv_cfg v) = 0 then default_cache_ttl else jv_cache_ttl (jv_cfg v))"

text \<open>The last of two keys with one id wins, as in a map.\<close>

definition usable_keys :: "jwk list \<Rightarrow> (string \<times> rsa_key) list" where
  "usable_keys ks = rev (List.map_filter (\<lambda>k. map_option (Pair (jk_kid k)) (rsa_key_of k)) ks)"

definition fetch_keys :: "'w jwt_net \<Rightarrow> jwt_verifier \<Rightarrow> 'w \<Rightarrow> unit result \<times> jwt_verifier \<times> 'w" where
  "fetch_keys net v w = (case jn_jwks net (jv_jwks v) w of
     (Inl e, w1) \<Rightarrow> (Inl (Wrap ''porte/jwt: JWKS fetch failed'' e), v, w1)
   | (Inr ks, w1) \<Rightarrow> (Inr (), v\<lparr>jv_keys := Some (usable_keys ks), jv_fetched_at := jn_now net w1\<rparr>, w1))"

definition cached_key :: "jwt_verifier \<Rightarrow> string \<Rightarrow> rsa_key option" where
  "cached_key v kid = (case jv_keys v of None \<Rightarrow> None | Some ks \<Rightarrow> map_of ks kid)"

definition stale :: "'w jwt_net \<Rightarrow> jwt_verifier \<Rightarrow> 'w \<Rightarrow> bool" where
  "stale net v w = (jv_keys v = None \<or> cache_ttl v \<le> time_sub (jn_now net w) (jv_fetched_at v))"

definition take_refetch_slot :: "'w jwt_net \<Rightarrow> jwt_verifier \<Rightarrow> 'w \<Rightarrow> bool \<times> jwt_verifier" where
  "take_refetch_slot net v w =
     (if jv_refetched_at v \<noteq> 0 \<and> time_sub (jn_now net w) (jv_refetched_at v) < min_refetch_interval
      then (False, v) else (True, v\<lparr>jv_refetched_at := jn_now net w\<rparr>))"

definition no_key :: "string \<Rightarrow> error" where
  "no_key kid = refuse_token (''no key for kid '' @ kid)"

definition refetched_key :: "'w jwt_net \<Rightarrow> string \<Rightarrow> jwt_verifier \<Rightarrow> 'w \<Rightarrow> rsa_key result \<times> jwt_verifier \<times> 'w" where
  "refetched_key net kid v w = (case take_refetch_slot net v w of
     (False, v1) \<Rightarrow> (Inl (no_key kid), v1, w)
   | (True, v1) \<Rightarrow> (case fetch_keys net v1 w of
       (Inl e, v2, w1) \<Rightarrow> (Inl e, v2, w1)
     | (Inr _, v2, w1) \<Rightarrow> (case cached_key v2 kid of
         Some key \<Rightarrow> (Inr key, v2, w1)
       | None \<Rightarrow> (Inl (no_key kid), v2, w1))))"

definition signing_key :: "'w jwt_net \<Rightarrow> string \<Rightarrow> jwt_verifier \<Rightarrow> 'w \<Rightarrow> rsa_key result \<times> jwt_verifier \<times> 'w" where
  "signing_key net kid v w =
     (if stale net v w
      then (case fetch_keys net v w of
          (Inl e, v1, w1) \<Rightarrow> (Inl e, v1, w1)
        | (Inr _, v1, w1) \<Rightarrow> (case cached_key v1 kid of
            Some key \<Rightarrow> (Inr key, v1, w1)
          | None \<Rightarrow> (Inl (no_key kid), v1, w1)))
      else (case cached_key v kid of
          Some key \<Rightarrow> (Inr key, v, w)
        | None \<Rightarrow> refetched_key net kid v w))"

section \<open>Verify\<close>

record jwt_claims =
  jc_subject :: string
  jc_email :: string
  jc_name :: string
  jc_roles :: "string list"
  jc_scopes :: "string list"
  jc_actor :: string

text \<open>\<open>strings.Fields\<close>.\<close>

function fields :: "string \<Rightarrow> string list" where
  "fields s = (let t = dropWhile is_space s in
     if t = [] then [] else takeWhile (\<lambda>c. \<not> is_space c) t # fields (dropWhile (\<lambda>c. \<not> is_space c) t))"
  by pat_completeness auto
termination
proof (relation "measure length")
  fix s t :: string
  assume t: "t = dropWhile is_space s" "t \<noteq> []"
  then have "\<not> is_space (hd t)" by (simp add: hd_dropWhile)
  then have "length (dropWhile (\<lambda>c. \<not> is_space c) t) < length t"
    using t(2) length_dropWhile_le [of "\<lambda>c. \<not> is_space c" "tl t"] by (cases t) auto
  also have "length t \<le> length s" using t(1) by (simp add: length_dropWhile_le)
  finally show "(dropWhile (\<lambda>c. \<not> is_space c) t, s) \<in> measure length" by simp
qed simp

declare fields.simps [simp del]

definition within_validity :: "time \<Rightarrow> jwt_payload \<Rightarrow> unit result" where
  "within_validity now p =
     (if unix_time (jp_expires p) + jwt_leeway < now then Inl (refuse_token ''token expired'')
      else if jp_not_before p \<noteq> 0 \<and> now + jwt_leeway < unix_time (jp_not_before p)
      then Inl (refuse_token ''token is not valid yet'')
      else if jp_issued p \<noteq> 0 \<and> now + jwt_leeway < unix_time (jp_issued p)
      then Inl (refuse_token ''token was issued in the future'')
      else Inr ())"

definition verify_signature ::
  "'w jwt_net \<Rightarrow> string \<Rightarrow> string \<Rightarrow> string \<Rightarrow> jwt_verifier \<Rightarrow> 'w \<Rightarrow> unit result \<times> jwt_verifier \<times> 'w" where
  "verify_signature net header payload signature v w = (case b64_decode header of
     None \<Rightarrow> (Inl (refuse_token ''undecodable header''), v, w)
   | Some raw \<Rightarrow> (case jn_header net raw of
       None \<Rightarrow> (Inl (refuse_token ''unparsable header''), v, w)
     | Some h \<Rightarrow>
         if jh_alg h \<noteq> ''RS256'' then (Inl (refuse_token ''signing algorithm is not accepted''), v, w)
         else (case signing_key net (jh_kid h) v w of
             (Inl e, v1, w1) \<Rightarrow> (Inl e, v1, w1)
           | (Inr key, v1, w1) \<Rightarrow> (case b64_decode signature of
               None \<Rightarrow> (Inl (refuse_token ''undecodable signature''), v1, w1)
             | Some sig \<Rightarrow>
                 (if jn_rsa net key (sha256 (header @ ''.'' @ payload)) sig then Inr ()
                  else Inl (refuse_token ''bad signature''), v1, w1)))))"

definition claims_of_payload :: "jwt_payload \<Rightarrow> jwt_claims" where
  "claims_of_payload p = \<lparr>jc_subject = jp_subject p, jc_email = jp_email p, jc_name = jp_name p,
     jc_roles = jp_roles p, jc_scopes = fields (jp_scope p), jc_actor = jp_actor p\<rparr>"

text \<open>A payload whose \<open>aud\<close> claim is neither form does not parse.\<close>

definition check_claims :: "'w jwt_net \<Rightarrow> jwt_config \<Rightarrow> time \<Rightarrow> string \<Rightarrow> jwt_claims result" where
  "check_claims net cfg now payload = (case b64_decode payload of
     None \<Rightarrow> Inl (refuse_token ''undecodable payload'')
   | Some raw \<Rightarrow> (case jn_payload net raw of
       None \<Rightarrow> Inl (refuse_token ''unparsable payload'')
     | Some p \<Rightarrow> (case read_audience (jp_audience p) of
         None \<Rightarrow> Inl (refuse_token ''unparsable payload'')
       | Some audience \<Rightarrow>
           if jp_issuer p \<noteq> jv_issuer cfg then Inl (refuse_token ''issuer'')
           else if \<not> List.member audience (jv_audience cfg) then Inl (refuse_token ''audience'')
           else (case within_validity now p of Inl e \<Rightarrow> Inl e | Inr _ \<Rightarrow> Inr (claims_of_payload p)))))"

definition verify_token :: "'w jwt_net \<Rightarrow> string \<Rightarrow> jwt_verifier \<Rightarrow> 'w \<Rightarrow> jwt_claims result \<times> jwt_verifier \<times> 'w" where
  "verify_token net raw v w = (case split_on (CHR ''.'') raw of
     [header, payload, signature] \<Rightarrow> (case verify_signature net header payload signature v w of
         (Inl e, v1, w1) \<Rightarrow> (Inl e, v1, w1)
       | (Inr _, v1, w1) \<Rightarrow> (check_claims net (jv_cfg v1) (jn_now net w1) payload, v1, w1))
   | _ \<Rightarrow> (Inl (refuse_token ''not three segments''), v, w))"

section \<open>What a verified token is\<close>

lemma fetch_keys_fields:
  "fetch_keys net v w = (r, v', w') \<Longrightarrow> jv_cfg v' = jv_cfg v \<and> jv_refetched_at v' = jv_refetched_at v \<and>
    (r = Inr () \<longrightarrow> jv_keys v' \<noteq> None \<and> jv_fetched_at v' = jn_now net w')"
  by (auto simp: fetch_keys_def split: prod.splits sum.splits)

text \<open>Keys are trusted that were fetched now, or less than the lifetime of the cache ago.\<close>

definition fresh_keys :: "'w jwt_net \<Rightarrow> 'w \<Rightarrow> jwt_verifier \<Rightarrow> 'w \<Rightarrow> bool" where
  "fresh_keys net w v' w' = (jv_keys v' \<noteq> None \<and> (jv_fetched_at v' = jn_now net w' \<or>
     time_sub (jn_now net w) (jv_fetched_at v') < cache_ttl v'))"

lemma signing_key_Inr:
  "signing_key net kid v w = (Inr key, v', w') \<Longrightarrow>
    jv_cfg v' = jv_cfg v \<and> cached_key v' kid = Some key \<and> fresh_keys net w v' w'"
  by (auto simp: signing_key_def refetched_key_def take_refetch_slot_def fresh_keys_def stale_def
      split: if_splits prod.splits sum.splits option.splits dest: fetch_keys_fields)

lemma usable_keys_kid: "map_of (usable_keys ks) kid = Some key \<Longrightarrow> kid \<noteq> []"
  by (auto dest!: map_of_SomeD simp: usable_keys_def map_filter_def rsa_key_of_def split: if_splits)


section \<open>How often the provider is asked\<close>

text \<open>A provider that answers, requests that arrive one after the other, and a count of the fetches.\<close>

record clocked =
  cw_now :: time
  cw_fetches :: nat

definition answering ::
  "(time \<Rightarrow> jwk list) \<Rightarrow> (string \<Rightarrow> jwt_header option) \<Rightarrow> (string \<Rightarrow> jwt_payload option)
    \<Rightarrow> (rsa_key \<Rightarrow> string \<Rightarrow> string \<Rightarrow> bool) \<Rightarrow> clocked jwt_net" where
  "answering ks hdr pay rsa = \<lparr>jn_discovery = (\<lambda>url w. (Inl (Plain ''asked at boot only''), w)),
     jn_jwks = (\<lambda>url w. (Inr (ks (cw_now w)), w\<lparr>cw_fetches := Suc (cw_fetches w)\<rparr>)),
     jn_now = cw_now, jn_header = hdr, jn_payload = pay, jn_rsa = rsa\<rparr>"

fun serve :: "clocked jwt_net \<Rightarrow> (time \<times> string) list \<Rightarrow> jwt_verifier \<times> clocked \<Rightarrow> jwt_verifier \<times> clocked" where
  "serve net [] x = x"
| "serve net ((t, raw) # rs) (v, w) = serve net rs (snd (verify_token net raw v (w\<lparr>cw_now := t\<rparr>)))"

text \<open>How many times an event can still happen by \<open>T\<close>, when the next is at \<open>a\<close> and each \<open>d\<close> after the last.\<close>

definition left_by :: "time \<Rightarrow> duration \<Rightarrow> time \<Rightarrow> nat" where
  "left_by T d a = (if T < a then 0 else Suc (nat ((T - a) div d)))"

lemma left_by_mono: "0 < d \<Longrightarrow> a \<le> b \<Longrightarrow> left_by T d b \<le> left_by T d a"
  by (auto simp: left_by_def zdiv_mono1 nat_mono)

lemma left_by_step: "0 < d \<Longrightarrow> a \<le> T \<Longrightarrow> Suc (left_by T d (a + d)) \<le> left_by T d a"
proof -
  assume d: "0 < d" "a \<le> T"
  have "(T - a) div d = (T - (a + d) + d) div d" by simp
  also have "\<dots> = (T - (a + d)) div d + 1" using d by (simp only: div_add_self2)
  finally have "(T - (a + d)) div d = (T - a) div d - 1" by simp
  moreover have "\<not> T < a + d \<Longrightarrow> 0 \<le> (T - (a + d)) div d" using d by (simp add: pos_imp_zdiv_nonneg_iff)
  ultimately show ?thesis using d by (auto simp: left_by_def)
qed

definition stale_from :: "jwt_verifier \<Rightarrow> time \<Rightarrow> time" where
  "stale_from v t = (if jv_keys v = None then t else max t (jv_fetched_at v + cache_ttl v))"

definition slot_from :: "jwt_verifier \<Rightarrow> time \<Rightarrow> time" where
  "slot_from v t = (if jv_refetched_at v = 0 then t else max t (jv_refetched_at v + min_refetch_interval))"

definition fetches_left :: "time \<Rightarrow> jwt_verifier \<Rightarrow> time \<Rightarrow> nat" where
  "fetches_left T v t = left_by T (cache_ttl v) (stale_from v t) + left_by T min_refetch_interval (slot_from v t)"

definition timely :: "jwt_verifier \<Rightarrow> time \<Rightarrow> bool" where
  "timely v t = (0 < t \<and> (jv_keys v \<noteq> None \<longrightarrow> jv_fetched_at v \<le> t) \<and> 0 < cache_ttl v \<and> cache_ttl v \<le> max_duration)"

lemma interval_pos: "0 < min_refetch_interval"
  by (simp add: min_refetch_interval_def duration_units)

lemma interval_bounds: "min_duration < min_refetch_interval" "min_refetch_interval \<le> max_duration"
  by (simp_all add: min_refetch_interval_def min_duration_def max_duration_def duration_units)

lemma answering_fetch:
  "fetch_keys (answering ks hdr pay rsa) v w =
    (Inr (), v\<lparr>jv_keys := Some (usable_keys (ks (cw_now w))), jv_fetched_at := cw_now w\<rparr>,
     w\<lparr>cw_fetches := Suc (cw_fetches w)\<rparr>)"
  by (simp add: fetch_keys_def answering_def)

lemma stale_iff:
  assumes "timely v t" and "cw_now w = t"
  shows "stale (answering ks hdr pay rsa) v w \<longleftrightarrow> stale_from v t = t"
proof -
  have "min_duration < cache_ttl v" using assms(1) by (simp add: timely_def min_duration_def)
  with assms show ?thesis
    by (auto simp: stale_def stale_from_def timely_def answering_def time_sub_ge)
qed

lemma slot_iff:
  "fst (take_refetch_slot (answering ks hdr pay rsa) v w) \<longleftrightarrow> slot_from v (cw_now w) = cw_now w"
  using time_sub_ge [OF interval_bounds, of "cw_now w" "jv_refetched_at v"]
  by (auto simp: take_refetch_slot_def slot_from_def answering_def not_less [symmetric])

text \<open>A call spends what it fetches.\<close>

lemma signing_key_spends:
  assumes "timely v t" and w: "cw_now w = t" and "t \<le> T"
    and k: "signing_key (answering ks hdr pay rsa) kid v w = (r, v', w')"
  shows "timely v' t \<and> jv_cfg v' = jv_cfg v \<and> cw_fetches w' + fetches_left T v' t \<le> cw_fetches w + fetches_left T v t"
proof -
  let ?net = "answering ks hdr pay rsa"
  let ?new = "\<lambda>v. v\<lparr>jv_keys := Some (usable_keys (ks t)), jv_fetched_at := t\<rparr>"
  note ttl = assms(1) [unfolded timely_def]
  have ttl_new: "cache_ttl (?new v) = cache_ttl v" "cache_ttl (?new (v\<lparr>jv_refetched_at := t\<rparr>)) = cache_ttl v"
    "stale_from (?new v) t = t + cache_ttl v" "stale_from (?new (v\<lparr>jv_refetched_at := t\<rparr>)) t = t + cache_ttl v"
    "slot_from (?new v) t = slot_from v t" "slot_from (?new (v\<lparr>jv_refetched_at := t\<rparr>)) t = t + min_refetch_interval"
    using ttl interval_pos by (auto simp: cache_ttl_def stale_from_def slot_from_def)
  show ?thesis
  proof (cases "stale ?net v w")
    case True
    then have "v' = ?new v" "cw_fetches w' = Suc (cw_fetches w)"
      using k w by (auto simp: signing_key_def answering_fetch split: option.splits)
    moreover have "stale_from v t = t" using True stale_iff assms(1) w by blast
    ultimately show ?thesis
      using ttl ttl_new left_by_step [of "cache_ttl v" t T] \<open>t \<le> T\<close> by (simp add: fetches_left_def timely_def)
  next
    case False
    show ?thesis
    proof (cases "cached_key v kid = None \<and> slot_from v t = t")
      case True
      then have "v' = ?new (v\<lparr>jv_refetched_at := t\<rparr>)" "cw_fetches w' = Suc (cw_fetches w)"
        using k w False slot_iff [of ks hdr pay rsa v w]
        by (auto simp: signing_key_def refetched_key_def take_refetch_slot_def answering_fetch
            split: option.splits if_splits) (auto simp: answering_def)
      moreover have "stale_from v t \<le> t + cache_ttl v" using ttl by (auto simp: stale_from_def)
      then have "left_by T (cache_ttl v) (t + cache_ttl v) \<le> left_by T (cache_ttl v) (stale_from v t)"
        using ttl by (intro left_by_mono) auto
      moreover have "Suc (left_by T min_refetch_interval (t + min_refetch_interval)) \<le>
          left_by T min_refetch_interval (slot_from v t)"
        using True left_by_step [OF interval_pos \<open>t \<le> T\<close>] by simp
      ultimately show ?thesis
        using ttl ttl_new by (simp add: fetches_left_def timely_def)
    next
      case False': False
      then have "v' = v" "w' = w"
        using k w False slot_iff [of ks hdr pay rsa v w]
        by (auto simp: signing_key_def refetched_key_def take_refetch_slot_def split: option.splits if_splits)
      then show ?thesis using assms(1) by simp
    qed
  qed
qed

lemma verify_token_state:
  obtains "snd (verify_token net raw v w) = (v, w)"
  | kid r where "signing_key net kid v w = (r, snd (verify_token net raw v w))"
proof -
  have "snd (verify_token net raw v w) = (v, w) \<or> (\<exists>kid r. signing_key net kid v w = (r, snd (verify_token net raw v w)))"
    by (auto simp: verify_token_def verify_signature_def split: list.splits option.splits prod.splits sum.splits)
  with that show thesis by blast
qed

lemma verify_token_spends:
  assumes "timely v t" and "cw_now w = t" and "t \<le> T"
    and "snd (verify_token (answering ks hdr pay rsa) raw v w) = (v', w')"
  shows "timely v' t \<and> jv_cfg v' = jv_cfg v \<and> cw_fetches w' + fetches_left T v' t \<le> cw_fetches w + fetches_left T v t"
proof (cases rule: verify_token_state [of "answering ks hdr pay rsa" raw v w])
  case 1
  with assms show ?thesis by simp
next
  case (2 kid r)
  with assms(4) show ?thesis by (intro signing_key_spends [OF assms(1-3)]) simp
qed

lemma fetches_left_mono:
  "timely v t \<Longrightarrow> t \<le> u \<Longrightarrow> timely v u \<and> fetches_left T v u \<le> fetches_left T v t"
  by (auto simp: timely_def fetches_left_def stale_from_def slot_from_def intro!: add_mono left_by_mono interval_pos)

lemma serve_spends:
  "sorted (map fst rs) \<Longrightarrow> \<forall>t \<in> fst ` set rs. u \<le> t \<and> t \<le> T \<Longrightarrow> timely v u \<Longrightarrow>
    cw_fetches (snd (serve (answering ks hdr pay rsa) rs (v, w))) \<le> cw_fetches w + fetches_left T v u"
proof (induction rs arbitrary: u v w)
  case (Cons x rs)
  obtain t raw where x: "x = (t, raw)" by (cases x)
  obtain v' w' where s: "snd (verify_token (answering ks hdr pay rsa) raw v (w\<lparr>cw_now := t\<rparr>)) = (v', w')"
    by (cases "snd (verify_token (answering ks hdr pay rsa) raw v (w\<lparr>cw_now := t\<rparr>))")
  have t: "timely v t" "fetches_left T v t \<le> fetches_left T v u" "t \<le> T"
    using fetches_left_mono [OF Cons.prems(3), of t T] Cons.prems(2) by (auto simp: x)
  have v': "timely v' t" "cw_fetches w' + fetches_left T v' t \<le> cw_fetches w + fetches_left T v t"
    using verify_token_spends [OF t(1) _ t(3) s] by auto
  have "cw_fetches (snd (serve (answering ks hdr pay rsa) rs (v', w'))) \<le> cw_fetches w' + fetches_left T v' t"
    using Cons.prems(1,2) by (intro Cons.IH v'(1)) (auto simp: x)
  with v'(2) t(2) s show ?case by (simp add: x)
qed simp


section \<open>A provider with one key\<close>

definition one_payload :: jwt_payload where
  "one_payload = \<lparr>jp_issuer = ''i'', jp_audience = OneAudience ''a'', jp_expires = 1000, jp_not_before = 0,
     jp_issued = 0, jp_subject = ''s'', jp_email = [], jp_name = [], jp_roles = [], jp_scope = [], jp_actor = []\<rparr>"

definition one_key_net :: "clocked jwt_net" where
  "one_key_net = answering (\<lambda>t. [\<lparr>jk_kid = ''k'', jk_n = ''Aw'', jk_e = ''Aw''\<rparr>])
     (\<lambda>h. Some \<lparr>jh_alg = ''RS256'', jh_kid = ''k''\<rparr>) (\<lambda>p. Some one_payload) (\<lambda>key digest sig. sig \<noteq> [])"

definition one_verifier :: jwt_verifier where
  "one_verifier = \<lparr>jv_cfg = \<lparr>jv_issuer = ''i'', jv_audience = ''a'', jv_cache_ttl = 0\<rparr>, jv_jwks = ''u'', jv_keys = None,
     jv_fetched_at = 0, jv_refetched_at = 0\<rparr>"

definition one_clock :: clocked where
  "one_clock = \<lparr>cw_now = unix_time 900, cw_fetches = 0\<rparr>"

lemma one_token_verifies:
  "\<exists>v' w'. verify_token one_key_net ''AQAB.AQAB.AQAB'' one_verifier one_clock = (Inr (claims_of_payload one_payload), v', w')"
proof -
  have d: "b64_decode ''AQAB'' = Some [CHR 0x01, CHR 0x00, CHR 0x01]" by code_simp
  have s: "split_on (CHR ''.'') ''AQAB.AQAB.AQAB'' = [''AQAB'', ''AQAB'', ''AQAB'']" by code_simp
  have k: "usable_keys [\<lparr>jk_kid = ''k'', jk_n = ''Aw'', jk_e = ''Aw''\<rparr>] =
    [(''k'', \<lparr>rk_modulus = 3, rk_exponent = 3\<rparr>)]" by code_simp
  have net: "jn_header one_key_net h = Some \<lparr>jh_alg = ''RS256'', jh_kid = ''k''\<rparr>"
    "jn_payload one_key_net x = Some one_payload" "jn_rsa one_key_net key digest sig = (sig \<noteq> [])"
    "jn_now one_key_net = cw_now" for h x key digest sig
    by (simp_all add: one_key_net_def answering_def)
  let ?v = "one_verifier\<lparr>jv_keys := Some [(''k'', \<lparr>rk_modulus = 3, rk_exponent = 3\<rparr>)], jv_fetched_at := unix_time 900\<rparr>"
  let ?w = "one_clock\<lparr>cw_fetches := Suc 0\<rparr>"
  have "stale one_key_net one_verifier one_clock" by (simp add: stale_def one_verifier_def)
  moreover have "fetch_keys one_key_net one_verifier one_clock = (Inr (), ?v, ?w)"
    unfolding one_key_net_def by (simp add: answering_fetch k one_clock_def)
  ultimately have "signing_key one_key_net ''k'' one_verifier one_clock = (Inr \<lparr>rk_modulus = 3, rk_exponent = 3\<rparr>, ?v, ?w)"
    by (simp add: signing_key_def cached_key_def)
  then have "verify_signature one_key_net ''AQAB'' ''AQAB'' ''AQAB'' one_verifier one_clock = (Inr (), ?v, ?w)"
    by (simp add: verify_signature_def d net)
  moreover have "check_claims one_key_net (jv_cfg ?v) (cw_now ?w) ''AQAB'' = Inr (claims_of_payload one_payload)"
    by (simp add: check_claims_def d net one_payload_def read_audience_def one_verifier_def one_clock_def
        within_validity_def unix_time_exact unix_epoch_def jwt_leeway_def duration_units)
  ultimately show ?thesis by (simp add: verify_token_def s net)
qed



end
