(* ===== verification/Oidc.thy ===== *)
theory Oidc
  imports Oidc_Flow Avatar Accounts Pg_Codes Jwt
begin

text \<open>
  The OIDC kit: its construction (\<open>oidc/oidc.go\<close>), the login and its callback, the exchanges of a
  one-time code and of a device token, back-channel logout and the profile sync
  (\<open>oidc/handlers.go\<close>), the roles of a request (\<open>oidc/middleware.go\<close>) and the resolution of a bearer
  token (\<open>oidc/bearer.go\<close>). The provider is what \<open>go-oidc\<close> and \<open>oauth2\<close> answer, a record of
  arguments; the stores are any that implement the interfaces. An error message keeps its words
  but not the values it quotes; an internal error never shows its message to a caller.
\<close>

section \<open>The provider, the stores and the kit\<close>

record oauth_token =
  ot_access :: string
  ot_refresh :: string
  ot_expiry :: time
  ot_id_token :: "string option"

record user_info =
  ui_subject :: string
  ui_claims :: claim_set

record provider =
  pv_scopes :: "string list result"
  pv_auth_url :: "string \<Rightarrow> string \<Rightarrow> string \<Rightarrow> (string \<times> string) list \<Rightarrow> string"
  pv_exchange :: "string \<Rightarrow> string \<Rightarrow> oauth_token result"
  pv_verify :: "string \<Rightarrow> id_token result"
  pv_token :: "token_set \<Rightarrow> oauth_token result"
  pv_user_info :: "token_set \<Rightarrow> user_info result"

record 's bearer_verifier =
  bv_tokens :: "string \<Rightarrow> jwt_claims result"
  bv_identities :: "'s identity_store_ops"
  bv_issuer :: string

record oidc_world =
  ow_url :: net_url
  ow_json :: flow_json
  ow_web :: web

type_synonym 's oidc_users = "claims \<Rightarrow> 's \<Rightarrow> int result \<times> 's"
type_synonym avatar_store = "string \<Rightarrow> string \<Rightarrow> string \<Rightarrow> string result"

record 's oidc_deps =
  od_users :: "'s oidc_users option"
  od_identities :: "'s identity_store_ops option"
  od_codes :: "'s login_code_store_ops option"
  od_avatars :: "avatar_store option"
  od_sessions :: "'s manager option"
  od_config_extra :: "(string \<times> json_any) list option"

text \<open>
  \<open>ko_machine\<close> is the verifier \<open>New\<close> hands to the manager's \<open>WithJWT\<close>, and \<open>ko_attaches\<close> whether
  it hands itself to \<open>WithClaims\<close>.
\<close>

record 's oidc_kit =
  ko_cfg :: config
  ko_users :: "'s oidc_users"
  ko_identities :: "'s identity_store_ops"
  ko_codes :: "'s login_code_store_ops"
  ko_avatars :: "avatar_store option"
  ko_sessions :: "'s manager"
  ko_config_extra :: "(string \<times> json_any) list option"
  ko_provider :: "provider option"
  ko_cli_tokens :: "'s bearer_verifier option"
  ko_machine :: "'s bearer_verifier option"
  ko_attaches :: bool
  ko_world :: oidc_world

section \<open>New\<close>

definition agreement_names :: "string list" where
  "agreement_names = [''OIDC_REDIRECT_URL'', ''OIDC_SUCCESS_URL'', ''SessionTTL'', ''SessionIdleTTL'']"

text \<open>Two durations print alike exactly when they are equal.\<close>

definition disagree :: "config \<Rightarrow> config \<Rightarrow> string \<Rightarrow> bool" where
  "disagree kit manager name =
     (let r = resolved kit in
      (name = ''OIDC_REDIRECT_URL'' \<and> redirect_url r \<noteq> redirect_url manager) \<or>
      (name = ''OIDC_SUCCESS_URL'' \<and> success_url r \<noteq> success_url manager) \<or>
      (name = ''SessionTTL'' \<and> session_ttl r \<noteq> session_ttl manager) \<or>
      (name = ''SessionIdleTTL'' \<and> idle_timeout r \<noteq> idle_timeout manager))"

definition agrees_with :: "string list \<Rightarrow> config \<Rightarrow> config \<Rightarrow> unit result" where
  "agrees_with order kit manager = (case find (disagree kit manager) order of
     Some name \<Rightarrow> Inl (Plain (''porte/oidc: the kit and its session manager disagree about '' @ name))
   | None \<Rightarrow> Inr ())"

definition guard_claims_scope :: "config \<Rightarrow> provider \<Rightarrow> unit result" where
  "guard_claims_scope cfg p =
     (if \<not> claims_enabled cfg then Inr ()
      else case pv_scopes p of
        Inl e \<Rightarrow> Inl (Wrap ''porte/oidc: cannot read the discovery document'' e)
      | Inr supported \<Rightarrow>
          if supported = [] then Inr ()
          else if List.member supported (claims_scope cfg) then Inr ()
          else Inl (Plain ''porte/oidc: the roles scope is not offered''))"

definition new_bearer_verifier ::
  "(string \<Rightarrow> string \<Rightarrow> (string \<Rightarrow> jwt_claims result) result) \<Rightarrow> config \<Rightarrow> string \<Rightarrow> 's identity_store_ops
    \<Rightarrow> 's bearer_verifier result" where
  "new_bearer_verifier jwt cfg audience ids = (case jwt (issuer cfg) audience of
     Inl e \<Rightarrow> Inl (Wrap ''porte/oidc: bearer-token verification failed to configure'' e)
   | Inr verify \<Rightarrow> Inr \<lparr>bv_tokens = verify, bv_identities = ids, bv_issuer = issuer cfg\<rparr>)"

text \<open>A verifier for an audience, when it is set.\<close>

definition audience_verifier where
  "audience_verifier jwt cfg audience ids =
     (if audience = [] then Inr None
      else case new_bearer_verifier jwt cfg audience ids of Inl e \<Rightarrow> Inl e | Inr v \<Rightarrow> Inr (Some v))"

definition store_names :: "string list" where
  "store_names = [''UserStore'', ''IdentityStore'', ''LoginCodeStore'']"

definition store_missing :: "'s oidc_deps \<Rightarrow> string \<Rightarrow> bool" where
  "store_missing deps name =
     ((name = ''UserStore'' \<and> od_users deps = None) \<or> (name = ''IdentityStore'' \<and> od_identities deps = None) \<or>
      (name = ''LoginCodeStore'' \<and> od_codes deps = None))"

text \<open>
  The orders are those in which the ranges over map literals visit them; \<open>discover\<close> is
  \<open>gooidc.NewProvider\<close> with the endpoints it found, \<open>jwt\<close> is \<open>oidc/jwt.New\<close>.
\<close>

record visits =
  vi_audiences :: "string list"
  vi_required :: "string list"
  vi_agreement :: "string list"
  vi_stores :: "string list"

definition bare_kit :: "oidc_world \<Rightarrow> config \<Rightarrow> 's oidc_deps \<Rightarrow> 's oidc_kit" where
  "bare_kit world cfg deps = \<lparr>ko_cfg = resolved cfg, ko_users = the (od_users deps),
     ko_identities = the (od_identities deps), ko_codes = the (od_codes deps), ko_avatars = od_avatars deps,
     ko_sessions = the (od_sessions deps), ko_config_extra = od_config_extra deps, ko_provider = None,
     ko_cli_tokens = None, ko_machine = None, ko_attaches = False, ko_world = world\<rparr>"

definition new_oidc_kit ::
  "oidc_world \<Rightarrow> visits \<Rightarrow> (string \<Rightarrow> provider result)
    \<Rightarrow> (string \<Rightarrow> string \<Rightarrow> (string \<Rightarrow> jwt_claims result) result) \<Rightarrow> config \<Rightarrow> 's oidc_deps \<Rightarrow> 's oidc_kit result" where
  "new_oidc_kit world vi discover jwt cfg deps =
     (case validate_config (ow_url world) (vi_audiences vi) (vi_required vi) cfg of
        Inl e \<Rightarrow> Inl e
      | Inr _ \<Rightarrow> (case od_sessions deps of
          None \<Rightarrow> Inl (Plain ''porte/oidc: Deps.Sessions is required; build one with session.New'')
        | Some m \<Rightarrow> (case agrees_with (vi_agreement vi) cfg (m_cfg m) of
            Inl e \<Rightarrow> Inl e
          | Inr _ \<Rightarrow>
              if \<not> enabled cfg then Inr (bare_kit world cfg deps)
              else case find (store_missing deps) (vi_stores vi) of
                Some name \<Rightarrow> Inl (Plain (''porte/oidc: OIDC is enabled but Deps.'' @ name @ '' is nil''))
              | None \<Rightarrow> (case discover (issuer cfg) of
                  Inl e \<Rightarrow> Inl (Wrap (''porte/oidc: discovery failed for '' @ issuer cfg) e)
                | Inr p \<Rightarrow> (case guard_claims_scope (resolved cfg) p of
                    Inl e \<Rightarrow> Inl e
                  | Inr _ \<Rightarrow> (case audience_verifier jwt cfg (machine_audience cfg) (the (od_identities deps)) of
                      Inl e \<Rightarrow> Inl e
                    | Inr machine \<Rightarrow> (case audience_verifier jwt cfg (cli_audience cfg) (the (od_identities deps)) of
                        Inl e \<Rightarrow> Inl e
                      | Inr cli \<Rightarrow> Inr ((bare_kit world cfg deps)\<lparr>ko_provider := Some p,
                          ko_machine := machine, ko_cli_tokens := cli, ko_attaches := claims_enabled cfg\<rparr>))))))))"

section \<open>Routes and answers\<close>

text \<open>What a browser is answered with; a JSON answer is a result.\<close>

datatype page = Found string | CodePage string string string duration

definition failed :: "'s oidc_kit \<Rightarrow> string \<Rightarrow> page" where
  "failed k reason = Found (login_failure (ow_url (ko_world k)) (ko_cfg k) reason)"

text \<open>\<open>errors.As\<close> finds the first error of the \<open>tronc\<close> package in the chain.\<close>

fun api_error :: "error \<Rightarrow> (code \<times> string) option" where
  "api_error (Api c m e) = Some (c, m)"
| "api_error (Wrap m e) = api_error e"
| "api_error _ = None"

definition failure_reason :: "error \<Rightarrow> string" where
  "failure_reason e = (case api_error e of
     Some (c, m) \<Rightarrow>
       if c \<in> {InvalidArgument, AlreadyExists, Unauthenticated, PermissionDenied} then m
       else ''could not sign you in''
   | None \<Rightarrow> ''could not sign you in'')"

definition handle_config :: "'s oidc_kit \<Rightarrow> (string \<times> json_any) list" where
  "handle_config k =
     (let on = (ko_provider k \<noteq> None);
          own = [(''sso_only'', JBool (sso_only (ko_cfg k) \<or> on)), (''oidc_enabled'', JBool on)] in
      case ko_config_extra k of
        None \<Rightarrow> own
      | Some extra \<Rightarrow> filter (\<lambda>e. fst e \<notin> set (map fst own)) extra @ own)"

definition mounted :: "'s oidc_kit \<Rightarrow> string list" where
  "mounted k = ''/auth/config'' #
     (if ko_provider k = None then []
      else [''/auth/sync-profile'', ''/auth/oidc'', ''/auth/oidc/callback'', ''/auth/oidc/exchange'',
            ''/auth/backchannel-logout''] @
           (if ko_cli_tokens k \<noteq> None then [''/auth/oidc/device/exchange''] else []))"

section \<open>The login\<close>

text \<open>\<open>q\<close> is \<open>r.URL.Query().Get\<close>; \<open>None\<close> is a mobile login that may not start.\<close>

definition pending_login :: "'s oidc_kit \<Rightarrow> flow \<Rightarrow> (string \<Rightarrow> string) \<Rightarrow> flow option" where
  "pending_login k base q =
     (if q ''flow'' = ''cli''
      then Some (base\<lparr>fl_cli := True, fl_port := loopback_port (q ''port''), fl_cli_state := cli_state (q ''cli_state'')\<rparr>)
      else if q ''flow'' = ''mobile''
      then (if mobile_redirect (ko_cfg k) = [] \<or> \<not> valid_challenge (q ''challenge'') then None
        else Some (base\<lparr>fl_mobile := True, fl_challenge := q ''challenge'', fl_cli_state := cli_state (q ''state'')\<rparr>))
      else Some base)"

definition handle_login_page ::
  "'s oidc_kit \<Rightarrow> provider \<Rightarrow> string option \<Rightarrow> string option \<Rightarrow> string \<Rightarrow> request \<Rightarrow> (string \<Rightarrow> string)
    \<Rightarrow> page \<times> cookie list" where
  "handle_login_page k p entropy entropy' verifier r q =
     (let stop = (failed k ''could not start the login'', []) in
      case new_token entropy of Inl _ \<Rightarrow> stop
      | Inr state \<Rightarrow> (case new_token entropy' of Inl _ \<Rightarrow> stop
        | Inr nonce \<Rightarrow> (case pending_login k \<lparr>fl_state = state, fl_nonce = nonce, fl_verifier = verifier,
              fl_cli = False, fl_port = [], fl_cli_state = [], fl_mobile = False, fl_challenge = []\<rparr> q of
            None \<Rightarrow> stop
          | Some pending \<Rightarrow> (case encode_flow (ow_json (ko_world k)) pending of
              Inl _ \<Rightarrow> stop
            | Inr encoded \<Rightarrow>
                (Found (pv_auth_url p state verifier nonce (ui_locales (q ''ui_locales''))),
                 set_cookie (ko_sessions k) r flow_cookie encoded (whole_seconds flow_ttl))))))"

section \<open>The callback\<close>

definition to_token_set :: "oauth_token \<Rightarrow> token_set" where
  "to_token_set t = \<lparr>ts_access = ot_access t, ts_refresh = ot_refresh t, ts_expiry = ot_expiry t\<rparr>"

definition complete_login :: "'s oidc_kit \<Rightarrow> provider \<Rightarrow> string \<Rightarrow> flow \<Rightarrow> (claims \<times> token_set) result" where
  "complete_login k p authorization pending =
     (if authorization = [] then Inl (invalid ''missing authorization code'')
      else case pv_exchange p authorization (fl_verifier pending) of
        Inl e \<Rightarrow> Inl (internal ''failed to exchange the authorization code'' e)
      | Inr token \<Rightarrow> (case ot_id_token token of
          None \<Rightarrow> Inl (Api InternalCode ''the provider returned no id_token'' None)
        | Some raw \<Rightarrow> (case pv_verify p raw of
            Inl _ \<Rightarrow> Inl (unauthorized ''invalid id_token'')
          | Inr idt \<Rightarrow>
              if \<not> secure_compare (it_nonce idt) (fl_nonce pending)
              then Inl (unauthorized ''id_token nonce mismatch'')
              else case claims_from_id_token (ko_cfg k) idt of
                Inl e \<Rightarrow> Inl (internal ''id_token claims'' e)
              | Inr c \<Rightarrow>
                  if c_email c = [] then Inl (invalid ''the identity provider returned no email'')
                  else Inr (c, to_token_set token))))"

definition sync_avatar :: "'s oidc_kit \<Rightarrow> claims \<Rightarrow> string" where
  "sync_avatar k c = (case ko_avatars k of
     None \<Rightarrow> []
   | Some put \<Rightarrow>
       if c_picture c = [] then []
       else case fst (fetch_avatar (ow_web (ko_world k)) (c_picture c)) of
         Inl _ \<Rightarrow> []
       | Inr (data, content_type) \<Rightarrow> (case put (avatar_key c) data content_type of Inl _ \<Rightarrow> [] | Inr url \<Rightarrow> url))"

definition login_binding :: "int \<Rightarrow> claims \<Rightarrow> session" where
  "login_binding user c = zero_session\<lparr>s_user := user, s_provider := c_provider c, s_subject := c_subject c\<rparr>"

definition login_identity :: "'s oidc_kit \<Rightarrow> int \<Rightarrow> claims \<Rightarrow> token_set \<Rightarrow> time \<Rightarrow> stored_identity" where
  "login_identity k user c tokens now = zero_stored\<lparr>si_user := user, si_provider := c_provider c,
     si_subject := c_subject c, si_tokens := tokens, si_roles := c_roles c, si_synced_at := now,
     si_roles_synced_at := (if claims_enabled (ko_cfg k) then now else 0)\<rparr>"

definition persist :: "'s oidc_kit \<Rightarrow> claims \<Rightarrow> token_set \<Rightarrow> time \<Rightarrow> 's \<Rightarrow> session result \<times> 's" where
  "persist k c0 tokens now s =
     (let c = c0\<lparr>c_avatar_url := sync_avatar k c0, c_tokens := tokens\<rparr> in
      case ko_users k c s of
        (Inl e, s1) \<Rightarrow> (Inl e, s1)
      | (Inr user, s1) \<Rightarrow> (case is_save (ko_identities k) (login_identity k user c tokens now) s1 of
          (Inl e, s2) \<Rightarrow> (Inl (internal ''failed to record the identity'' e), s2)
        | (Inr _, s2) \<Rightarrow> (Inr (login_binding user c), s2)))"

definition pending_code :: "'s oidc_kit \<Rightarrow> time \<Rightarrow> string \<Rightarrow> session \<Rightarrow> login_code" where
  "pending_code k now hash bound = \<lparr>lc_code_hash = hash, lc_user = s_user bound,
     lc_expires_at = now + login_code_ttl (ko_cfg k), lc_provider = s_provider bound, lc_subject = s_subject bound\<rparr>"

text \<open>Only the port of the target comes from the request.\<close>

definition loopback_url :: "string \<Rightarrow> string \<Rightarrow> string \<Rightarrow> string" where
  "loopback_url port code cstate = ''http://127.0.0.1:'' @ port @ ''/?'' @
     values_encode (let v = [(''code'', [code])] in if cstate \<noteq> [] then values_set ''state'' cstate v else v)"

definition code_page :: "'s oidc_kit \<Rightarrow> string \<Rightarrow> page" where
  "code_page k code = CodePage (app_label (ow_url (ko_world k)) (ko_cfg k)) (logo (ow_url (ko_world k)) (ko_cfg k))
     code (login_code_ttl (ko_cfg k))"

text \<open>The two ends of a login for a program; the flag is \<open>Cache-Control: no-store\<close>.\<close>

definition issue_login_code ::
  "'s oidc_kit \<Rightarrow> string option \<Rightarrow> time \<Rightarrow> session \<Rightarrow> string \<Rightarrow> string \<Rightarrow> 's \<Rightarrow> (page \<times> bool) \<times> 's" where
  "issue_login_code k entropy now bound port cstate s =
     (let stop = (failed k ''could not complete the login'', False) in
      case new_token entropy of
        Inl _ \<Rightarrow> (stop, s)
      | Inr code \<Rightarrow> (case lcs_create (ko_codes k) (pending_code k now (hash_token code) bound) s of
          (Inl _, s1) \<Rightarrow> (stop, s1)
        | (Inr _, s1) \<Rightarrow>
            if port \<noteq> [] then ((Found (loopback_url port code cstate), False), s1)
            else ((code_page k code, True), s1)))"

definition mobile_lookup :: "string \<Rightarrow> string \<Rightarrow> string" where
  "mobile_lookup code challenge = code @ '':'' @ challenge"

definition mobile_url :: "net_url \<Rightarrow> url \<Rightarrow> string \<Rightarrow> string \<Rightarrow> string" where
  "mobile_url nu target code cstate = nu_string nu (target\<lparr>url_raw_query := values_encode
     (let v = values_set ''code'' code (parse_query (url_raw_query target)) in
      if cstate \<noteq> [] then values_set ''state'' cstate v else v)\<rparr>)"

definition issue_mobile_code ::
  "'s oidc_kit \<Rightarrow> string option \<Rightarrow> time \<Rightarrow> session \<Rightarrow> flow \<Rightarrow> 's \<Rightarrow> (page \<times> bool) \<times> 's" where
  "issue_mobile_code k entropy now bound pending s =
     (let stop = (failed k ''could not complete the login'', False) in
      case new_token entropy of
        Inl _ \<Rightarrow> (stop, s)
      | Inr code \<Rightarrow>
          (case lcs_create (ko_codes k)
              (pending_code k now (hash_token (mobile_lookup code (fl_challenge pending))) bound) s of
             (Inl _, s1) \<Rightarrow> (stop, s1)
           | (Inr _, s1) \<Rightarrow> (case nu_parse (ow_url (ko_world k)) (mobile_redirect (ko_cfg k)) of
               None \<Rightarrow> (stop, s1)
             | Some target \<Rightarrow>
                 ((Found (mobile_url (ow_url (ko_world k)) target code (fl_cli_state pending)), True), s1))))"

text \<open>The flow of a callback whose cookie and state agree.\<close>

definition pending_of :: "'s oidc_kit \<Rightarrow> string \<Rightarrow> (string \<Rightarrow> string) \<Rightarrow> flow option" where
  "pending_of k encoded q = (case decode_flow (ow_json (ko_world k)) encoded of
     None \<Rightarrow> None
   | Some pending \<Rightarrow> if secure_compare (fl_state pending) (q ''state'') then Some pending else None)"

definition finish_login ::
  "'s oidc_kit \<Rightarrow> string option \<Rightarrow> time \<Rightarrow> request \<Rightarrow> flow \<Rightarrow> session \<Rightarrow> 's \<Rightarrow> (page \<times> bool) \<times> cookie list \<times> 's" where
  "finish_login k entropy now r pending bound s =
     (if fl_cli pending
      then (case issue_login_code k entropy now bound (fl_port pending) (fl_cli_state pending) s of (a, s1) \<Rightarrow> (a, [], s1))
      else if fl_mobile pending
      then (case issue_mobile_code k entropy now bound pending s of (a, s1) \<Rightarrow> (a, [], s1))
      else case issue_cookie_for (ko_sessions k) entropy (rq_identity r) r bound now s of
        (Inl _, cs, s1) \<Rightarrow> ((failed k ''could not sign you in'', False), cs, s1)
      | (Inr _, cs, s1) \<Rightarrow> ((Found (success_url (ko_cfg k)), False), cs, s1))"

definition handle_callback ::
  "'s oidc_kit \<Rightarrow> provider \<Rightarrow> string option \<Rightarrow> time \<Rightarrow> request \<Rightarrow> (string \<Rightarrow> string) \<Rightarrow> 's
    \<Rightarrow> (page \<times> bool) \<times> cookie list \<times> 's" where
  "handle_callback k p entropy now r q s =
     (case read_cookie (ko_sessions k) r flow_cookie of
        (_, False) \<Rightarrow> ((failed k ''the login has expired, start again'', False), [], s)
      | (encoded, True) \<Rightarrow>
          (let cleared = clear_cookie (ko_sessions k) r flow_cookie in
           case pending_of k encoded q of
             None \<Rightarrow> ((failed k ''the login could not be verified, start again'', False), cleared, s)
           | Some pending \<Rightarrow> (case complete_login k p (q ''code'') pending of
               Inl e \<Rightarrow> ((failed k (failure_reason e), False), cleared, s)
             | Inr (c, tokens) \<Rightarrow> (case persist k c tokens now s of
                 (Inl e, s1) \<Rightarrow> ((failed k (failure_reason e), False), cleared, s1)
               | (Inr bound, s1) \<Rightarrow>
                   (case finish_login k entropy now r pending bound s1 of (a, cs, s2) \<Rightarrow> (a, cleared @ cs, s2))))))"

section \<open>The exchanges\<close>

record exchange_request =
  xq_code :: string
  xq_verifier :: string

text \<open>
  The bodies are what \<open>httpjson.DecodeJSON\<close> decoded. Every answer of these handlers is
  \<open>no-store\<close>; a success is the user id in decimal and the token.
\<close>

definition exchange_lookup :: "exchange_request \<Rightarrow> string result" where
  "exchange_lookup x =
     (if xq_verifier x = [] then Inr (xq_code x)
      else if \<not> valid_verifier (xq_verifier x) then Inl (unauthorized ''invalid or expired code'')
      else Inr (mobile_lookup (xq_code x) (pkce_challenge (xq_verifier x))))"

definition code_session :: "login_code \<Rightarrow> session" where
  "code_session c = zero_session\<lparr>s_user := lc_user c, s_provider := lc_provider c, s_subject := lc_subject c\<rparr>"

definition handle_exchange ::
  "'s oidc_kit \<Rightarrow> string option \<Rightarrow> time \<Rightarrow> request \<Rightarrow> exchange_request result \<Rightarrow> 's \<Rightarrow> (string \<times> string) result \<times> 's" where
  "handle_exchange k entropy now r body s = (case body of
     Inl e \<Rightarrow> (Inl e, s)
   | Inr x \<Rightarrow>
       if xq_code x = [] then (Inl (invalid ''missing code''), s)
       else case exchange_lookup x of
         Inl e \<Rightarrow> (Inl e, s)
       | Inr lookup \<Rightarrow> (case lcs_consume (ko_codes k) (hash_token lookup) s of
           (Inl e, s1) \<Rightarrow>
             (Inl (if is_err e ErrCodeConsumed then unauthorized ''invalid or expired code''
                   else if is_not_found e then unauthorized ''invalid or expired code''
                   else internal ''failed to read the login code'' e), s1)
         | (Inr c, s1) \<Rightarrow>
             if login_code_expired c now then (Inl (unauthorized ''invalid or expired code''), s1)
             else (case issue_for (ko_sessions k) entropy (rq_identity r) (code_session c) now s1 of
                 (Inl e, s2) \<Rightarrow> (Inl e, s2)
               | (Inr (token, _), s2) \<Rightarrow> (Inr (format_int (lc_user c), token), s2))))"

definition verify_jwt :: "'s bearer_verifier \<Rightarrow> string \<Rightarrow> 's \<Rightarrow> identity result \<times> 's" where
  "verify_jwt b raw s = (case bv_tokens b raw of
     Inl e \<Rightarrow> (Inl e, s)
   | Inr c \<Rightarrow>
       if jc_subject c = [] then (Inl (Plain ''porte/oidc: the token asserts no subject''), s)
       else (case is_find (bv_identities b) (bv_issuer b) (jc_subject c) s of
           (Inl e, s1) \<Rightarrow> (Inl (Wrap ''porte/oidc: no local identity for subject'' e), s1)
         | (Inr stored, s1) \<Rightarrow>
             if si_user stored = 0 then (Inl (Plain ''porte/oidc: the identity row names no account''), s1)
             else (Inr (zero_identity\<lparr>id_user := si_user stored, id_subject := jc_subject c, id_email := jc_email c,
                 id_name := jc_name c, id_roles := jc_roles c, id_scopes := jc_scopes c, id_actor := jc_actor c\<rparr>), s1)))"

definition handle_device_exchange ::
  "'s oidc_kit \<Rightarrow> 's bearer_verifier \<Rightarrow> string option \<Rightarrow> time \<Rightarrow> request \<Rightarrow> string result \<Rightarrow> 's
    \<Rightarrow> (string \<times> string) result \<times> 's" where
  "handle_device_exchange k cli entropy now r body s = (case body of
     Inl e \<Rightarrow> (Inl e, s)
   | Inr access \<Rightarrow>
       if access = [] then (Inl (invalid ''missing access_token''), s)
       else (case verify_jwt cli access s of
           (Inl _, s1) \<Rightarrow> (Inl (unauthorized ''invalid access token''), s1)
         | (Inr i, s1) \<Rightarrow>
             (case issue_for (ko_sessions k) entropy (rq_identity r)
                 (zero_session\<lparr>s_user := id_user i, s_provider := issuer (ko_cfg k), s_subject := id_subject i\<rparr>) now s1 of
                (Inl e, s2) \<Rightarrow> (Inl e, s2)
              | (Inr (token, _), s2) \<Rightarrow> (Inr (format_int (id_user i), token), s2))))"

section \<open>Back-channel logout\<close>

definition backchannel_logout_event :: string where
  "backchannel_logout_event = ''http://schemas.openid.net/event/backchannel-logout''"

definition verify_logout_token :: "provider \<Rightarrow> string \<Rightarrow> string result" where
  "verify_logout_token p raw = (case pv_verify p raw of
     Inl _ \<Rightarrow> Inl (unauthorized ''invalid logout token'')
   | Inr t \<Rightarrow>
       if it_nonce t \<noteq> [] then Inl (unauthorized ''a logout token must not carry a nonce'')
       else (case cs_events (it_claims t) of
           Inl _ \<Rightarrow> Inl (unauthorized ''unreadable logout token'')
         | Inr events \<Rightarrow>
             if backchannel_logout_event \<notin> set events
             then Inl (unauthorized ''logout token is missing the back-channel logout event'')
             else if it_subject t = [] then Inl (unauthorized ''logout token carries no subject'')
             else Inr (it_subject t)))"

text \<open>\<open>form\<close> is the posted \<open>logout_token\<close>, or the error of a body that is no form.\<close>

definition handle_backchannel_logout :: "'s oidc_kit \<Rightarrow> provider \<Rightarrow> string result \<Rightarrow> 's \<Rightarrow> bool result \<times> 's" where
  "handle_backchannel_logout k p form s = (case form of
     Inl _ \<Rightarrow> (Inl (invalid ''malformed logout request''), s)
   | Inr raw \<Rightarrow>
       if raw = [] then (Inl (invalid ''missing logout_token''), s)
       else (case verify_logout_token p raw of
           Inl e \<Rightarrow> (Inl e, s)
         | Inr subject \<Rightarrow> (case is_find (ko_identities k) (issuer (ko_cfg k)) subject s of
             (Inl e, s1) \<Rightarrow> if is_not_found e then (Inr True, s1)
               else (Inl (internal ''failed to resolve the identity'' e), s1)
           | (Inr stored, s1) \<Rightarrow> (case revoke_user (ko_sessions k) (si_user stored) s1 of
               (Inl e, s2) \<Rightarrow> (Inl (internal ''failed to revoke the sessions'' e), s2)
             | (Inr _, s2) \<Rightarrow> (Inr True, s2)))))"

section \<open>The profile sync and the roles of a request\<close>

fun candidate_for :: "string \<Rightarrow> stored_identity list \<Rightarrow> stored_identity option" where
  "candidate_for iss [] = None"
| "candidate_for iss (x # xs) = (if si_provider x = iss then Some x else candidate_for iss xs)"

definition identity_for :: "'s oidc_kit \<Rightarrow> int \<Rightarrow> 's \<Rightarrow> stored_identity option result \<times> 's" where
  "identity_for k user s = (case is_list_by_user (ko_identities k) user s of
     (Inl e, s1) \<Rightarrow> (if is_not_found e then Inr None else Inl e, s1)
   | (Inr xs, s1) \<Rightarrow> (Inr (candidate_for (issuer (ko_cfg k)) xs), s1))"

definition synced_claims :: "'s oidc_kit \<Rightarrow> identity \<Rightarrow> stored_identity \<Rightarrow> raw_claims \<Rightarrow> (string \<times> string) list \<Rightarrow> claims" where
  "synced_claims k i stored raw extra =
     (let c = profile_claims (ko_cfg k) (si_provider stored) (si_subject stored) raw (si_roles stored) extra in
      if c_email c = [] then c\<lparr>c_email := id_email i\<rparr> else c)"

text \<open>The handler behind \<open>RequireAuth\<close>. The error of the save after a failed refresh is dropped.\<close>

definition handle_sync_profile :: "'s oidc_kit \<Rightarrow> provider \<Rightarrow> time \<Rightarrow> request \<Rightarrow> 's \<Rightarrow> bool result \<times> 's" where
  "handle_sync_profile k p now r s = (case rq_identity r of
     None \<Rightarrow> (Inl (unauthorized ''missing auth''), s)
   | Some i \<Rightarrow> (case identity_for k (id_user i) s of
       (Inl e, s1) \<Rightarrow> (Inl (internal ''failed to load the identity'' e), s1)
     | (Inr None, s1) \<Rightarrow> (Inr False, s1)
     | (Inr (Some stored), s1) \<Rightarrow>
         if ts_access (si_tokens stored) = [] then (Inr False, s1)
         else if si_synced_at stored \<noteq> 0 \<and> time_sub now (si_synced_at stored) < default_profile_sync_interval
         then (Inr False, s1)
         else (case pv_user_info p (si_tokens stored) of
             Inl _ \<Rightarrow> (Inr False,
               snd (is_save (ko_identities k) (stored\<lparr>si_tokens := zero_tokens, si_synced_at := now\<rparr>) s1))
           | Inr info \<Rightarrow>
               if \<not> secure_compare (ui_subject info) (si_subject stored)
               then (Inl (unauthorized ''the userinfo response is for a different subject''), s1)
               else (case cs_profile (ui_claims info) of
                   Inl e \<Rightarrow> (Inl (internal ''failed to parse the userinfo claims'' e), s1)
                 | Inr raw \<Rightarrow> (case extra_claims_of (extra_claims (ko_cfg k)) (ui_claims info) of
                     Inl e \<Rightarrow> (Inl (internal ''failed to parse the extra userinfo claims'' e), s1)
                   | Inr extra \<Rightarrow>
                       (let c = synced_claims k i stored raw extra;
                            stored1 = (case pv_token p (si_tokens stored) of
                              Inr t \<Rightarrow> stored\<lparr>si_tokens := to_token_set t\<rparr> | Inl _ \<Rightarrow> stored);
                            c1 = c\<lparr>c_avatar_url := sync_avatar k c, c_tokens := si_tokens stored1\<rparr> in
                        case ko_users k c1 s1 of
                          (Inl e, s2) \<Rightarrow> (Inl e, s2)
                        | (Inr _, s2) \<Rightarrow> (case is_save (ko_identities k) (stored1\<lparr>si_synced_at := now\<rparr>) s2 of
                            (Inl e, s3) \<Rightarrow> (Inl (internal ''failed to record the identity'' e), s3)
                          | (Inr _, s3) \<Rightarrow> (Inr True, s3))))))))"

definition refreshed :: "stored_identity \<Rightarrow> oauth_token \<Rightarrow> claims \<Rightarrow> time \<Rightarrow> stored_identity" where
  "refreshed stored token c now =
     stored\<lparr>si_tokens := to_token_set token, si_roles := c_roles c, si_roles_synced_at := now\<rparr>"

text \<open>What the provider answers to the refresh token, and the row it is saved as.\<close>

definition refresh_answer :: "'s oidc_kit \<Rightarrow> provider \<Rightarrow> stored_identity \<Rightarrow> (oauth_token \<times> claims) result" where
  "refresh_answer k p stored =
     (if ts_refresh (si_tokens stored) = [] then Inl (Api FailedPrecondition ''no refresh token'' None)
      else case pv_token p (si_tokens stored) of
        Inl e \<Rightarrow> Inl e
      | Inr token \<Rightarrow> (case ot_id_token token of
          None \<Rightarrow> Inl (Api FailedPrecondition ''the refresh response carried no id_token'' None)
        | Some raw \<Rightarrow> (case pv_verify p raw of
            Inl e \<Rightarrow> Inl e
          | Inr t \<Rightarrow> (case claims_from_id_token (ko_cfg k) t of Inl e \<Rightarrow> Inl e | Inr c \<Rightarrow> Inr (token, c)))))"

definition refresh_roles :: "'s oidc_kit \<Rightarrow> provider \<Rightarrow> time \<Rightarrow> stored_identity \<Rightarrow> 's \<Rightarrow> stored_identity result \<times> 's" where
  "refresh_roles k p now stored s = (case refresh_answer k p stored of
     Inl e \<Rightarrow> (Inl e, s)
   | Inr (token, c) \<Rightarrow> (case is_save (ko_identities k) (refreshed stored token c now) s of
       (Inl e, s1) \<Rightarrow> (Inl e, s1)
     | (Inr _, s1) \<Rightarrow> (Inr (refreshed stored token c now), s1)))"

text \<open>A nil slice of roles reads as an empty one.\<close>

definition with_roles :: "stored_identity \<Rightarrow> identity \<Rightarrow> identity" where
  "with_roles x i = i\<lparr>id_roles := (case si_roles x of Some roles \<Rightarrow> roles | None \<Rightarrow> []),
     id_roles_synced_at := si_roles_synced_at x\<rparr>"

definition attach_roles :: "'s oidc_kit \<Rightarrow> provider \<Rightarrow> time \<Rightarrow> identity \<Rightarrow> 's \<Rightarrow> identity \<times> 's" where
  "attach_roles k p now i s =
     (if \<not> claims_enabled (ko_cfg k) then (i, s)
      else case identity_for k (id_user i) s of
        (Inl _, s1) \<Rightarrow> (i, s1)
      | (Inr None, s1) \<Rightarrow> (i, s1)
      | (Inr (Some stored), s1) \<Rightarrow>
          if \<not> roles_stale stored now (claims_ttl (ko_cfg k)) then (with_roles stored i, s1)
          else (case refresh_roles k p now stored s1 of
              (Inl _, s2) \<Rightarrow> (with_roles stored i,
                snd (is_mark_roles_synced (ko_identities k) (si_provider stored) (si_subject stored) now s2))
            | (Inr fresh, s2) \<Rightarrow> (with_roles fresh i, s2)))"

end
