(* ===== verification/Federation.thy ===== *)
theory Federation
  imports Oidc
begin

text \<open>
  The OIDC kit over its stores. \<open>login_code_store\<close> is the contract of \<open>LoginCodeStore\<close>
  (\<open>session.go\<close>), \<open>federation\<close> puts it beside the identity and the session store over one state; the
  lemmas about the kit's handlers are proved there and hold of \<open>porte/pg\<close> through its
  interpretation. The properties say what a callback, an exchange, a back-channel logout and a
  bearer token can and cannot do.
\<close>

section \<open>LoginCodeStore\<close>

text \<open>A stored code and whether it was spent. Without a provider there is no binding to keep.\<close>

type_synonym stored_code = "login_code \<times> bool"

definition kept_code :: "login_code \<Rightarrow> login_code" where
  "kept_code c = (if lc_provider c = [] then c\<lparr>lc_subject := []\<rparr> else c)"

definition code_hash :: "stored_code \<Rightarrow> string" where
  "code_hash r = lc_code_hash (fst r)"

locale login_code_store =
  fixes lcs :: "'s login_code_store_ops"
    and ktable :: "'s \<Rightarrow> stored_code list"
    and kvouches :: "login_code \<Rightarrow> 's \<Rightarrow> bool"
    and ok :: "'s \<Rightarrow> bool"
  assumes code_hashes: "ok s \<Longrightarrow> distinct (map code_hash (ktable s))"
    and mint_ok: "ok s \<Longrightarrow> ok (snd (lcs_create lcs c s))"
    and mint_row: "ok s \<Longrightarrow> lcs_create lcs c s = (Inr (), s') \<Longrightarrow>
      kvouches c s \<and> ktable s' = ktable s @ [(kept_code c, False)]"
    and mint_failed: "ok s \<Longrightarrow> lcs_create lcs c s = (Inl e, s') \<Longrightarrow> ktable s' = ktable s"
    and redeem_ok: "ok s \<Longrightarrow> ok (snd (lcs_consume lcs h s))"
    and redeem_row: "ok s \<Longrightarrow> lcs_consume lcs h s = (Inr c, s') \<Longrightarrow> (c, False) \<in> set (ktable s) \<and> lc_code_hash c = h \<and>
      ktable s' = update_where (\<lambda>r. code_hash r = h) (\<lambda>r. (fst r, True)) (ktable s)"
    and redeem_failed: "ok s \<Longrightarrow> lcs_consume lcs h s = (Inl e, s') \<Longrightarrow> ktable s' = ktable s \<and>
      (is_err e ErrNotFound \<longrightarrow> h \<notin> code_hash ` set (ktable s)) \<and>
      (is_err e ErrCodeConsumed \<longrightarrow> (\<exists>r \<in> set (ktable s). code_hash r = h \<and> snd r))"
    and expire_ok: "ok s \<Longrightarrow> ok (snd (lcs_delete_expired lcs now s))"
    and expire_rows: "ok s \<Longrightarrow> lcs_delete_expired lcs now s = (Inr n, s') \<Longrightarrow>
      ktable s' = delete_where (\<lambda>r. lc_expires_at (fst r) < now) (ktable s)"
begin

lemma spent_refused:
  assumes "ok s" and "\<forall>r \<in> set (ktable s). code_hash r = h \<longrightarrow> snd r"
  shows "\<exists>e. fst (lcs_consume lcs h s) = Inl e"
proof (cases "lcs_consume lcs h s")
  case (Pair r s')
  show ?thesis
  proof (cases r)
    case (Inr c)
    with Pair redeem_row [OF assms(1)] have "(c, False) \<in> set (ktable s)" "lc_code_hash c = h" by auto
    with assms(2) show ?thesis by (force simp: code_hash_def)
  qed (use Pair in simp)
qed

lemma redeemed_spent:
  assumes "ok s" and "lcs_consume lcs h s = (Inr c, s')"
  shows "\<forall>r \<in> set (ktable s'). code_hash r = h \<longrightarrow> snd r"
  using redeem_row [OF assms] by (auto simp: set_update_where code_hash_def)

end

section \<open>The stores of a federated login\<close>

locale federation =
  creds: identity_store ids ctable ok + logins: session_store st table vouches ok +
  codes: login_code_store lcs ktable kvouches ok
  for ids :: "'s identity_store_ops" and ctable ok st table vouches lcs ktable kvouches +
  assumes redeem_others: "ok s \<Longrightarrow> table (snd (lcs_consume lcs h s)) = table s \<and>
      ctable (snd (lcs_consume lcs h s)) = ctable s"
    and mint_others: "ok s \<Longrightarrow> table (snd (lcs_create lcs c s)) = table s \<and> ctable (snd (lcs_create lcs c s)) = ctable s"
    and login_others: "ok s \<Longrightarrow> ctable (snd (ss_create st y s)) = ctable s \<and> ktable (snd (ss_create st y s)) = ktable s"
    and read_others: "ok s \<Longrightarrow> table (snd (is_find ids p j s)) = table s \<and> table (snd (is_list_by_user ids u s)) = table s"
    and write_others: "ok s \<Longrightarrow> table (snd (is_save ids x s)) = table s \<and>
      table (snd (is_mark_roles_synced ids p j at s)) = table s"

definition served_by :: "'s oidc_kit \<Rightarrow> 's identity_store_ops \<Rightarrow> 's session_store_ops \<Rightarrow> 's login_code_store_ops \<Rightarrow> bool" where
  "served_by k ids st lcs = (ko_identities k = ids \<and> m_store (ko_sessions k) = st \<and> ko_codes k = lcs)"

text \<open>A session that was just issued for a user: its row is the only change of the table.\<close>

definition signs_in :: "int \<Rightarrow> string \<Rightarrow> session list \<Rightarrow> session list \<Rightarrow> bool" where
  "signs_in user token before after = (\<exists>x. after = before @ [x] \<and> s_user x = user \<and>
     s_token_hash x = hash_token token \<and> s_label x = [])"

context federation begin

lemma issue_signs_in:
  assumes "ok s" and "m_store m = st" and "issue_for m entropy ctx template now s = (Inr (tok, sess), s')"
    and "s_label template = []"
  shows "ok s' \<and> signs_in (s_user template) tok (table s) (table s') \<and> ctable s' = ctable s \<and> ktable s' = ktable s"
proof -
  from logins.issue_for_Inr [OF assms(1-3)] have ok: "ok s'" and tok: "new_token entropy = Inr tok"
    and sess: "sess = (to_issue m ctx template tok now)\<lparr>s_id := s_id sess\<rparr>"
    and tab: "table s' = table s @ [unbound sess]" by auto
  have f: "s_user sess = s_user template" "s_token_hash sess = hash_token tok" "s_label sess = s_label template"
    by (subst sess, simp)+
  have "snd (ss_create st (to_issue m ctx template tok now) s) = s'"
    using assms(2,3) tok by (auto simp: issue_for_unfold split: prod.splits sum.splits)
  with login_others [OF assms(1), of "to_issue m ctx template tok now"]
  have "ctable s' = ctable s" "ktable s' = ktable s" by auto
  with ok tab f assms(4) show ?thesis by (auto simp: signs_in_def)
qed

lemma exchange_Inr:
  assumes "ok s" and "served_by k ids st lcs" and "handle_exchange k entropy now r (Inr x) s = (Inr (u, tok), s')"
  shows "ok s' \<and> (\<exists>lookup c. exchange_lookup x = Inr lookup \<and> (c, False) \<in> set (ktable s) \<and>
      lc_code_hash c = hash_token lookup \<and> \<not> login_code_expired c now \<and> u = format_int (lc_user c) \<and>
      signs_in (lc_user c) tok (table s) (table s') \<and>
      (\<forall>r \<in> set (ktable s'). code_hash r = hash_token lookup \<longrightarrow> snd r)) \<and> ctable s' = ctable s"
proof -
  from assms(2,3) obtain lookup c s1 sess where l: "exchange_lookup x = Inr lookup"
    and c: "lcs_consume lcs (hash_token lookup) s = (Inr c, s1)" and e: "\<not> login_code_expired c now"
    and u: "u = format_int (lc_user c)"
    and i: "issue_for (ko_sessions k) entropy (rq_identity r) (code_session c) now s1 = (Inr (tok, sess), s')"
    by (auto simp: handle_exchange_def served_by_def split: sum.splits if_splits prod.splits)
  have ok1: "ok s1" "table s1 = table s" "ctable s1 = ctable s"
    using codes.redeem_ok [OF assms(1), of "hash_token lookup"] redeem_others [OF assms(1), of "hash_token lookup"] c by auto
  have "s_user (code_session c) = lc_user c" "s_label (code_session c) = []" "m_store (ko_sessions k) = st"
    using assms(2) by (simp_all add: code_session_def zero_session_def served_by_def)
  with issue_signs_in [OF ok1(1) _ i] ok1
  have "ok s'" "signs_in (lc_user c) tok (table s) (table s')" "ctable s' = ctable s" "ktable s' = ktable s1" by auto
  with codes.redeem_row [OF assms(1) c] codes.redeemed_spent [OF assms(1) c] l e u show ?thesis by auto
qed

text \<open>Whatever its outcome, an exchange touches the codes of the hash it looked up and no other.\<close>

lemma exchange_codes:
  assumes "ok s" and "served_by k ids st lcs" and "handle_exchange k entropy now r (Inr x) s = (res, s')"
  shows "ktable s' = ktable s \<or> (\<exists>lookup. exchange_lookup x = Inr lookup \<and>
    ktable s' = update_where (\<lambda>r. code_hash r = hash_token lookup) (\<lambda>r. (fst r, True)) (ktable s))"
proof (cases "xq_code x = [] \<or> (\<exists>e. exchange_lookup x = Inl e)")
  case True
  with assms(3) show ?thesis by (auto simp: handle_exchange_def split: sum.splits if_splits)
next
  case False
  then obtain lookup where l: "exchange_lookup x = Inr lookup" "xq_code x \<noteq> []" by (cases "exchange_lookup x") auto
  obtain cr s1 where c: "lcs_consume lcs (hash_token lookup) s = (cr, s1)" by (cases "lcs_consume lcs (hash_token lookup) s")
  have ok1: "ok s1" using codes.redeem_ok [OF assms(1), of "hash_token lookup"] c by simp
  have created: "ktable (snd (issue_for (ko_sessions k) entropy ctx t now s1)) = ktable s1" for ctx t
    using login_others [OF ok1] assms(2)
    by (auto simp: issue_for_unfold served_by_def split: sum.splits prod.splits) (metis snd_conv)+
  show ?thesis
  proof (cases cr)
    case (Inl e)
    with assms(2,3) l c codes.redeem_failed [OF assms(1)] show ?thesis
      by (auto simp: handle_exchange_def served_by_def)
  next
    case (Inr g)
    have "s' = s1 \<or> s' = snd (issue_for (ko_sessions k) entropy (rq_identity r) (code_session g) now s1)"
      using assms(2,3) l c Inr
      by (auto simp: handle_exchange_def served_by_def split: if_splits prod.splits sum.splits)
    with created codes.redeem_row [OF assms(1)] c Inr l show ?thesis by auto
  qed
qed

lemma exchange_spent:
  assumes "ok s" and "served_by k ids st lcs" and "exchange_lookup x = Inr lookup"
    and "\<forall>r \<in> set (ktable s). code_hash r = hash_token lookup \<longrightarrow> snd r"
  shows "\<exists>e. fst (handle_exchange k entropy now r (Inr x) s) = Inl e \<and>
    table (snd (handle_exchange k entropy now r (Inr x) s)) = table s"
proof -
  obtain e s1 where c: "lcs_consume lcs (hash_token lookup) s = (Inl e, s1)"
    using codes.spent_refused [OF assms(1,4)] by (cases "lcs_consume lcs (hash_token lookup) s") auto
  with redeem_others [OF assms(1), of "hash_token lookup"] have "table s1 = table s" by auto
  with c assms(2,3) show ?thesis by (simp add: handle_exchange_def served_by_def)
qed

lemma verify_jwt_Inr:
  assumes "ok s" and "bv_identities b = ids" and "verify_jwt b raw s = (Inr i, s')"
  shows "ok s' \<and> table s' = table s \<and> (\<exists>c x. bv_tokens b raw = Inr c \<and> jc_subject c \<noteq> [] \<and> x \<in> set (ctable s) \<and>
    stored_key x = (bv_issuer b, jc_subject c) \<and> si_user x \<noteq> 0 \<and> id_user i = si_user x \<and>
    id_subject i = jc_subject c \<and> id_session i = 0 \<and> id_scopes i = jc_scopes c) \<and> ctable s' = ctable s"
proof -
  from assms(2,3) obtain c x where c: "bv_tokens b raw = Inr c" "jc_subject c \<noteq> []"
    and f: "is_find ids (bv_issuer b) (jc_subject c) s = (Inr x, s')" and x: "si_user x \<noteq> 0"
    and i: "i = zero_identity\<lparr>id_user := si_user x, id_subject := jc_subject c, id_email := jc_email c,
      id_name := jc_name c, id_roles := jc_roles c, id_scopes := jc_scopes c, id_actor := jc_actor c\<rparr>"
    by (auto simp: verify_jwt_def split: sum.splits if_splits prod.splits)
  have "ok s' \<and> ctable s' = ctable s \<and> table s' = table s"
    using creds.find_identity_ok [OF assms(1), of "bv_issuer b" "jc_subject c"]
      read_others [OF assms(1), of "bv_issuer b" "jc_subject c"] f by auto
  with creds.find_identity_row [OF assms(1) f] c x i show ?thesis by (auto simp: zero_identity_def)
qed

lemma device_exchange_Inr:
  assumes "ok s" and "served_by k ids st lcs" and "bv_identities b = ids"
    and "handle_device_exchange k b entropy now r (Inr access) s = (Inr (u, tok), s')"
  shows "\<exists>c x. bv_tokens b access = Inr c \<and> jc_subject c \<noteq> [] \<and> x \<in> set (ctable s) \<and>
    stored_key x = (bv_issuer b, jc_subject c) \<and> si_user x \<noteq> 0 \<and> u = format_int (si_user x) \<and>
    signs_in (si_user x) tok (table s) (table s') \<and> ctable s' = ctable s"
proof -
  from assms(2,4) obtain i s1 sess where v: "verify_jwt b access s = (Inr i, s1)"
    and i: "issue_for (ko_sessions k) entropy (rq_identity r)
      (zero_session\<lparr>s_user := id_user i, s_provider := issuer (ko_cfg k), s_subject := id_subject i\<rparr>) now s1 = (Inr (tok, sess), s')"
    and u: "u = format_int (id_user i)"
    by (auto simp: handle_device_exchange_def split: sum.splits if_splits prod.splits)
  from verify_jwt_Inr [OF assms(1,3) v] obtain c x where ok1: "ok s1" "table s1 = table s" "ctable s1 = ctable s"
    and x: "bv_tokens b access = Inr c" "jc_subject c \<noteq> []" "x \<in> set (ctable s)"
      "stored_key x = (bv_issuer b, jc_subject c)" "si_user x \<noteq> 0" "id_user i = si_user x" by auto
  have "m_store (ko_sessions k) = st" using assms(2) by (simp add: served_by_def)
  from issue_signs_in [OF ok1(1) this i] ok1 x u show ?thesis by (auto simp: zero_session_def)
qed

lemma backchannel_Inr:
  assumes "ok s" and "served_by k ids st lcs" and "handle_backchannel_logout k p form s = (Inr b, s')"
  shows "\<exists>raw subject. form = Inr raw \<and> verify_logout_token p raw = Inr subject \<and>
    (\<forall>x \<in> set (ctable s). stored_key x = (issuer (ko_cfg k), subject) \<longrightarrow>
      table s' = delete_where (\<lambda>y. s_user y = si_user x) (table s))"
proof -
  let ?iss = "issuer (ko_cfg k)"
  have k: "ko_identities k = ids" "m_store (ko_sessions k) = st" using assms(2) by (simp_all add: served_by_def)
  from assms(3) obtain raw subject where raw: "form = Inr raw" "raw \<noteq> []" "verify_logout_token p raw = Inr subject"
    by (auto simp: handle_backchannel_logout_def split: sum.splits if_splits)
  obtain fr s1 where f: "is_find ids ?iss subject s = (fr, s1)" by (cases "is_find ids ?iss subject s")
  have ok1: "ok s1" "table s1 = table s"
    using creds.find_identity_ok [OF assms(1), of ?iss subject] read_others [OF assms(1), of ?iss subject] f by auto
  show ?thesis
  proof (cases fr)
    case (Inl e)
    with assms(3) raw f k have "is_not_found e"
      by (auto simp: handle_backchannel_logout_def split: if_splits)
    with creds.find_identity_absent [OF assms(1)] f Inl raw show ?thesis
      by (force simp: is_not_found_def)
  next
    case (Inr y)
    with assms(3) raw f k obtain n where d: "ss_delete_by_user st (si_user y) s1 = (Inr n, s')"
      by (auto simp: handle_backchannel_logout_def revoke_user_def split: sum.splits prod.splits)
    have "table s' = delete_where (\<lambda>z. s_user z = si_user y) (table s)"
      using logins.delete_by_user_row [OF ok1(1) d] ok1(2) by simp
    moreover have "x = y" if "x \<in> set (ctable s)" "stored_key x = (?iss, subject)" for x
      using creds.find_identity_row [OF assms(1)] f Inr that creds.identity_keys [OF assms(1)]
      by (auto simp: distinct_map inj_on_def)
    ultimately show ?thesis using raw by blast
  qed
qed

end

lemma candidate_for_Some: "candidate_for iss xs = Some x \<Longrightarrow> x \<in> set xs \<and> si_provider x = iss"
  by (induction xs) (auto split: if_splits)

context federation begin

lemma identity_for_cases:
  assumes "ok s" and "ko_identities k = ids" and "identity_for k u s = (r, s')"
  shows "ok s' \<and> table s' = table s \<and> ctable s' = ctable s \<and>
    (\<forall>x. r = Inr (Some x) \<longrightarrow> x \<in> set (ctable s) \<and> si_user x = u \<and> si_provider x = issuer (ko_cfg k))"
proof -
  obtain lr s1 where l: "is_list_by_user ids u s = (lr, s1)" by (cases "is_list_by_user ids u s")
  have s1: "ok s1" "table s1 = table s" "ctable s1 = ctable s"
    using creds.list_identities_ok [OF assms(1), of u] read_others [OF assms(1), of _ _ u] l by auto
  show ?thesis
  proof (cases lr)
    case (Inl e)
    with assms(2,3) l s1 show ?thesis by (auto simp: identity_for_def split: if_splits)
  next
    case (Inr xs)
    have "mset xs = mset (filter (\<lambda>x. si_user x = u) (ctable s))"
      using creds.list_identities_rows [OF assms(1)] l Inr by blast
    then have xs: "set xs = set (filter (\<lambda>x. si_user x = u) (ctable s))" by (rule mset_eq_setD)
    have "r = Inr (candidate_for (issuer (ko_cfg k)) xs)" "s' = s1"
      using assms(2,3) l Inr by (auto simp: identity_for_def)
    with s1 xs show ?thesis by (auto dest: candidate_for_Some)
  qed
qed

lemma refresh_roles_cases:
  assumes "ok s" and "ko_identities k = ids" and "refresh_roles k p now stored s = (r, s')"
  shows "ok s' \<and> table s' = table s \<and> (\<forall>x. r = Inr x \<longrightarrow> stored_key x = stored_key stored \<and> si_user x = si_user stored \<and>
    (\<exists>y \<in> set (ctable s'). same_credential y x))"
proof -
  have save: "ok s2 \<and> table s2 = table s \<and> (\<forall>x. (case sr of Inl e \<Rightarrow> Inl e | Inr _ \<Rightarrow> Inr f) = Inr x \<longrightarrow>
      stored_key x = stored_key stored \<and> si_user x = si_user stored \<and> (\<exists>y \<in> set (ctable s2). same_credential y x))"
    if "is_save ids f s = (sr, s2)" "stored_key f = stored_key stored" "si_user f = si_user stored" for f sr s2
    using creds.save_identity_ok [OF assms(1), of f] write_others [OF assms(1), of f]
      creds.save_identity_row [OF assms(1), of f] that by (cases sr) auto
  show ?thesis
  proof (cases "s' = s \<and> (\<exists>e. r = Inl e)")
    case False
    then obtain token c where a: "refresh_answer k p stored = Inr (token, c)"
      using assms(3) by (auto simp: refresh_roles_def split: sum.splits)
    obtain sr s2 where sv: "is_save ids (refreshed stored token c now) s = (sr, s2)"
      by (cases "is_save ids (refreshed stored token c now) s")
    from assms(3) have e: "s' = s2" "r = (case sr of Inl e \<Rightarrow> Inl e | Inr _ \<Rightarrow> Inr (refreshed stored token c now))"
      unfolding refresh_roles_def a assms(2) by (cases sr, simp_all add: sv)+
    show ?thesis unfolding e by (rule save [OF sv]) (simp_all add: refreshed_def stored_key_def)
  qed (use assms(1) in auto)
qed

text \<open>Attaching roles leaves the account and the session of an identity alone.\<close>

lemma attach_roles_cases:
  assumes "ok s" and "ko_identities k = ids" and "attach_roles k p now i s = (i', s')"
  shows "ok s' \<and> table s' = table s \<and>
    (i' = i \<or> (\<exists>x. i' = with_roles x i \<and> si_user x = id_user i \<and> si_provider x = issuer (ko_cfg k)))"
proof (cases "claims_enabled (ko_cfg k)")
  case True
  obtain fr s1 where f: "identity_for k (id_user i) s = (fr, s1)" by (cases "identity_for k (id_user i) s")
  note fc = identity_for_cases [OF assms(1,2) f]
  show ?thesis
  proof (cases "\<exists>x. fr = Inr (Some x)")
    case False
    with assms(3) True f fc show ?thesis
      by (auto simp: attach_roles_def split: sum.splits option.splits)
  next
    case st: True
    then obtain x where x: "fr = Inr (Some x)" by blast
    with fc have key: "si_user x = id_user i" "si_provider x = issuer (ko_cfg k)" by auto
    obtain rr s2 where rf: "refresh_roles k p now x s1 = (rr, s2)" by (cases "refresh_roles k p now x s1")
    note rc = refresh_roles_cases [OF _ assms(2) rf]
    have "table s2 = table s" "ok s2" using rc fc by auto
    then show ?thesis
      using assms(2,3) True f x rf rc fc key write_others [of s2] creds.mark_roles_ok [of s2]
      by (auto simp: attach_roles_def stored_key_def split: sum.splits if_splits)
  qed
qed (use assms in \<open>simp add: attach_roles_def\<close>)

end

section \<open>\<open>porte/pg\<close> behind it\<close>

definition pg_codes :: "time \<Rightarrow> db login_code_store_ops" where
  "pg_codes now = \<lparr>lcs_create = code_create, lcs_consume = code_consume now, lcs_delete_expired = code_delete_expired\<rparr>"

definition code_table :: "db \<Rightarrow> stored_code list" where
  "code_table d = map (\<lambda>r. (scan_code r, cr_consumed_at r \<noteq> None)) (codes d)"

definition code_vouched :: "login_code \<Rightarrow> db \<Rightarrow> bool" where
  "code_vouched c d = voucher_holds (code_binding c) d"

lemma code_hash_row [simp]: "code_hash (scan_code r, b) = cr_hash r"
  by (simp add: code_hash_def scan_code_def)

lemma scan_code_fields [simp]: "lc_code_hash (scan_code r) = cr_hash r" "lc_expires_at (scan_code r) = cr_expires_at r"
  by (simp_all add: scan_code_def)

lemma scan_code_spent [simp]: "scan_code (r\<lparr>cr_consumed_at := x\<rparr>) = scan_code r"
  by (simp add: scan_code_def)

lemma scan_code_of: "scan_code (code_row_of c) = kept_code c"
  by (cases c) (simp add: scan_code_def code_row_of_def kept_code_def)

lemma code_table_same_rows: "same_rows d d' \<Longrightarrow> code_table d' = code_table d"
  by (simp add: same_rows_def code_table_def)

lemma code_table_spent:
  "map (\<lambda>r. (scan_code r, cr_consumed_at r \<noteq> None)) (update_where (unspent_code h) (\<lambda>c. c\<lparr>cr_consumed_at := Some now\<rparr>) rs) =
   update_where (\<lambda>r. code_hash r = h) (\<lambda>r. (fst r, True)) (map (\<lambda>r. (scan_code r, cr_consumed_at r \<noteq> None)) rs)"
  by (induction rs) (auto simp: update_where_def unspent_code_def)

text \<open>A code operation writes no table but its own.\<close>

lemma code_create_others: "users (snd (code_create c d)) = users d \<and> identities (snd (code_create c d)) = identities d \<and>
    sessions (snd (code_create c d)) = sessions d"
proof -
  let ?w = "stmt (insert_code (code_row_of c))"
  have ins: "stmt (insert_code row) d0 = (r, d1) \<Longrightarrow> users d1 = users d0 \<and> identities d1 = identities d0 \<and> sessions d1 = sessions d0"
    for row d0 r d1 by (auto simp: stmt_def insert_code_def split: if_splits)
  obtain r d' where w: "while_bound (code_binding c) ?w d = (r, d')" by (cases "while_bound (code_binding c) ?w d")
  have "users d' = users d \<and> identities d' = identities d \<and> sessions d' = sessions d"
  proof (cases r)
    case (Inr u)
    with w obtain d1 d2 where "same_rows d d1" "?w d1 = (Inr u, d2)" "d' = d2 \<or> d' = tick d2"
      by (auto elim: while_bound_Inr)
    with ins [of "code_row_of c" d1 "Inr u" d2] show ?thesis by (auto simp: same_rows_def)
  next
    case (Inl e)
    show ?thesis
    proof (cases "s_provider (code_binding c) = [] \<and> s_issued_by (code_binding c) = 0")
      case True
      with w ins [of "code_row_of c" d] show ?thesis by (simp add: while_bound_def)
    next
      case False
      with w Inl have "with_user_lock (s_user (code_binding c)) True (checked_insert (code_binding c) ?w) d = (Inl e, d')"
        by (simp add: while_bound_def split: if_splits)
      from with_user_lock_error [OF this] show ?thesis by (simp add: same_rows_def)
    qed
  qed
  with w show ?thesis by (auto simp: code_create_def split: sum.splits)
qed

lemma code_consume_others: "users (snd (code_consume now h d)) = users d \<and>
    identities (snd (code_consume now h d)) = identities d \<and> sessions (snd (code_consume now h d)) = sessions d"
proof (cases "code_consume now h d")
  case (Pair r d')
  then show ?thesis
    using code_consume_Inr [of now h d _ d'] code_consume_Inl [of now h d _ d'] by (cases r) (auto simp: same_rows_def)
qed

interpretation pgk: login_code_store "pg_codes now" code_table code_vouched db_ok for now
proof unfold_locales
  fix s s' :: db and c e h and at :: time and n
  assume ok: "db_ok s"
  show "distinct (map code_hash (code_table s))"
    using ok by (simp add: db_ok_defs code_table_def comp_def)
  show "db_ok (snd (lcs_create (pg_codes now) c s))" "db_ok (snd (lcs_consume (pg_codes now) h s))"
    "db_ok (snd (lcs_delete_expired (pg_codes now) at s))"
    using code_create_ok [OF ok] code_consume_ok [OF ok] code_delete_expired_ok [OF ok] by (simp_all add: pg_codes_def)
  show "lcs_create (pg_codes now) c s = (Inr (), s') \<Longrightarrow> code_vouched c s \<and> code_table s' = code_table s @ [(kept_code c, False)]"
    using code_create_Inr [of c s "()" s']
    by (simp add: pg_codes_def code_vouched_def code_table_def scan_code_of) (simp add: code_row_of_def)
  show "lcs_create (pg_codes now) c s = (Inl e, s') \<Longrightarrow> code_table s' = code_table s"
    using code_create_Inl [of c s e s'] by (simp add: pg_codes_def code_table_def)
  show "lcs_consume (pg_codes now) h s = (Inr c, s') \<Longrightarrow> (c, False) \<in> set (code_table s) \<and> lc_code_hash c = h \<and>
      code_table s' = update_where (\<lambda>r. code_hash r = h) (\<lambda>r. (fst r, True)) (code_table s)"
    using code_consume_Inr [of now h s c s'] code_table_spent [of h now "codes s"]
    by (force simp: pg_codes_def code_table_def unspent_code_def)
  show "lcs_consume (pg_codes now) h s = (Inl e, s') \<Longrightarrow> code_table s' = code_table s \<and>
      (is_err e ErrNotFound \<longrightarrow> h \<notin> code_hash ` set (code_table s)) \<and>
      (is_err e ErrCodeConsumed \<longrightarrow> (\<exists>r \<in> set (code_table s). code_hash r = h \<and> snd r))"
    using code_consume_Inl [of now h s e s'] code_table_same_rows [of s s']
    by (force simp: pg_codes_def code_table_def image_image)
  show "lcs_delete_expired (pg_codes now) at s = (Inr n, s') \<Longrightarrow>
      code_table s' = delete_where (\<lambda>r. lc_expires_at (fst r) < at) (code_table s)"
    by (auto simp: pg_codes_def code_delete_expired_def code_table_def delete_where_def filter_map comp_def dest!: stmt_Inr)
qed

lemma identity_reads_sessions: "sessions (snd (identity_find sealer p j d)) = sessions d"
  "sessions (snd (identity_list_by_user sealer u d)) = sessions d"
  by (auto simp: identity_find_def identity_list_by_user_def query_def stmt_def split: option.splits)

lemma mark_roles_sessions: "sessions (snd (mark_roles_synced p j at d)) = sessions d"
  by (simp add: mark_roles_synced_def stmt_def)

lemma session_create_codes: "codes (snd (session_create x d)) = codes d"
proof (cases "session_create x d")
  case (Pair r d')
  then show ?thesis
    using session_create_Inr [of x d _ d'] session_create_Inl [of x d _ d'] by (cases r) (auto simp: same_rows_def)
qed

interpretation pgf: federation "pg_identities sealer entropy" "cred_table sealer" db_ok pg_sessions session_table
    voucher_holds "pg_codes now" code_table code_vouched for sealer entropy now
proof unfold_locales
  fix s :: db and h c y p j u x and at :: time
  show "session_table (snd (lcs_consume (pg_codes now) h s)) = session_table s \<and>
      cred_table sealer (snd (lcs_consume (pg_codes now) h s)) = cred_table sealer s"
    using code_consume_others [of now h s] by (simp add: pg_codes_def session_table_def cred_table_def)
  show "session_table (snd (lcs_create (pg_codes now) c s)) = session_table s \<and>
      cred_table sealer (snd (lcs_create (pg_codes now) c s)) = cred_table sealer s"
    using code_create_others [of c s] by (simp add: pg_codes_def session_table_def cred_table_def)
  show "cred_table sealer (snd (ss_create pg_sessions y s)) = cred_table sealer s \<and>
      code_table (snd (ss_create pg_sessions y s)) = code_table s"
    using session_ops_others(1) [of y s sealer] session_create_codes [of y s] by (simp add: pg_sessions_def code_table_def)
  show "session_table (snd (is_find (pg_identities sealer entropy) p j s)) = session_table s \<and>
      session_table (snd (is_list_by_user (pg_identities sealer entropy) u s)) = session_table s"
    by (simp add: pg_identities_def session_table_def identity_reads_sessions)
  show "session_table (snd (is_save (pg_identities sealer entropy) x s)) = session_table s \<and>
      session_table (snd (is_mark_roles_synced (pg_identities sealer entropy) p j at s)) = session_table s"
    using identity_ops_others(1) [of sealer entropy x s] by (simp add: pg_identities_def session_table_def mark_roles_sessions)
qed

end
