(* ===== verification/Federated_Login.thy ===== *)
theory Federated_Login
  imports Federation
begin

text \<open>
  What the OIDC kit guarantees over \<open>porte/pg\<close>: what a callback must present, whom an exchanged
  code or a device token signs in, what a mobile code is bound to, whom a back-channel logout
  reaches and what an address the provider does not vouch for leads to. Each property has an
  instance on a small database and a provider that answers one login.
\<close>

section \<open>A provider and a kit\<close>

definition idp_claims :: claim_set where
  "idp_claims = \<lparr>cs_profile = Inr \<lparr>rc_email = ''C@x '', rc_email_verified = JBool False, rc_name = ''B'',
       rc_preferred_username = [], rc_given_name = [], rc_family_name = [], rc_picture = [], rc_locale = JNull\<rparr>,
     cs_roles = Inr None, cs_all = Inr [], cs_events = Inr [backchannel_logout_event]\<rparr>"

definition idp :: provider where
  "idp = \<lparr>pv_scopes = Inr [], pv_auth_url = (\<lambda>state verifier nonce options. ''https://id/auth''),
     pv_exchange = (\<lambda>code verifier. Inr \<lparr>ot_access = ''at'', ot_refresh = [], ot_expiry = 0, ot_id_token = Some ''login''\<rparr>),
     pv_verify = (\<lambda>raw. Inr \<lparr>it_subject = ''t'', it_nonce = (if raw = ''login'' then ''n0nce'' else []), it_claims = idp_claims\<rparr>),
     pv_token = (\<lambda>_. Inl (Plain ''refused'')), pv_user_info = (\<lambda>_. Inl (Plain ''refused''))\<rparr>"

definition idp_flow :: flow where
  "idp_flow = \<lparr>fl_state = ''st4te'', fl_nonce = ''n0nce'', fl_verifier = ''verifier'', fl_cli = False, fl_port = [],
     fl_cli_state = [], fl_mobile = False, fl_challenge = []\<rparr>"

definition idp_world :: oidc_world where
  "idp_world = \<lparr>ow_url = host_urls,
     ow_json = \<lparr>fj_marshal = (\<lambda>_. Inr ''flow''), fj_unmarshal = (\<lambda>_. Some idp_flow)\<rparr>, ow_web = redirecting_web\<rparr>"

definition idp_config :: config where
  "idp_config = web_config\<lparr>issuer := ''idp'', login_code_ttl := default_login_code_ttl\<rparr>"

definition plain_sealer :: token_sealer where
  "plain_sealer = None"

definition idp_kit :: "db oidc_kit" where
  "idp_kit = \<lparr>ko_cfg = idp_config, ko_users = upsert_from_oidc, ko_identities = pg_identities plain_sealer (None, None),
     ko_codes = pg_codes 1000, ko_avatars = None, ko_sessions = web_manager, ko_config_extra = None,
     ko_provider = Some idp, ko_cli_tokens = None, ko_machine = None, ko_attaches = False, ko_world = idp_world\<rparr>"

text \<open>Whose stores are \<open>porte/pg\<close>'s.\<close>

definition kit_on_pg :: "db oidc_kit \<Rightarrow> token_sealer \<Rightarrow> bool" where
  "kit_on_pg k sealer = (ko_users k = upsert_from_oidc \<and> (\<exists>entropy now. served_by k (pg_identities sealer entropy) pg_sessions (pg_codes now)))"

section \<open>The callback\<close>

lemma secure_compare_iff [simp]: "secure_compare a b \<longleftrightarrow> a = b"
  by (simp add: secure_compare_def list_all2_conv_all_nth nth_equalityI)

lemma complete_login_Inr:
  assumes "complete_login k p authorization pending = Inr (c, tokens)"
  shows "authorization \<noteq> [] \<and> c_email c \<noteq> [] \<and> (\<exists>token raw t. pv_exchange p authorization (fl_verifier pending) = Inr token \<and>
    ot_id_token token = Some raw \<and> pv_verify p raw = Inr t \<and> it_nonce t = fl_nonce pending \<and>
    claims_from_id_token (ko_cfg k) t = Inr c \<and> tokens = to_token_set token)"
  using assms by (auto simp: complete_login_def split: if_splits sum.splits option.splits)

text \<open>
  C12: what a callback must present. Unless it is a refusal that wrote nothing, the request carried
  a flow cookie of this kit whose state is the state in the query, the provider exchanged the
  code for the verifier of that flow, and the claims are those of an ID token that verified and
  carries the nonce of that flow.
\<close>

theorem callback_needs_its_flow:
  assumes "handle_callback k p entropy now r q s = (out, cs, s')"
    and "s' \<noteq> s \<or> (\<forall>reason. fst out \<noteq> failed k reason)"
  shows "\<exists>encoded pending token raw t c. read_cookie (ko_sessions k) r flow_cookie = (encoded, True) \<and>
    decode_flow (ow_json (ko_world k)) encoded = Some pending \<and> q ''state'' = fl_state pending \<and>
    pv_exchange p (q ''code'') (fl_verifier pending) = Inr token \<and> ot_id_token token = Some raw \<and>
    pv_verify p raw = Inr t \<and> it_nonce t = fl_nonce pending \<and> claims_from_id_token (ko_cfg k) t = Inr c \<and>
    take (length (clear_cookie (ko_sessions k) r flow_cookie)) cs = clear_cookie (ko_sessions k) r flow_cookie"
proof -
  from assms obtain encoded where rc: "read_cookie (ko_sessions k) r flow_cookie = (encoded, True)"
    by (cases "read_cookie (ko_sessions k) r flow_cookie"; cases "snd (read_cookie (ko_sessions k) r flow_cookie)")
      (auto simp: handle_callback_def)
  with assms obtain pending where p: "pending_of k encoded q = Some pending"
    by (cases "pending_of k encoded q") (auto simp: handle_callback_def Let_def)
  with rc assms obtain c tokens where cl: "complete_login k p (q ''code'') pending = Inr (c, tokens)"
    by (cases "complete_login k p (q ''code'') pending") (auto simp: handle_callback_def Let_def)
  have "take (length (clear_cookie (ko_sessions k) r flow_cookie)) cs = clear_cookie (ko_sessions k) r flow_cookie"
    using assms(1) rc p cl by (auto simp: handle_callback_def Let_def split: prod.splits sum.splits)
  moreover have "decode_flow (ow_json (ko_world k)) encoded = Some pending \<and> q ''state'' = fl_state pending"
    using p by (auto simp: pending_of_def split: option.splits if_splits)
  ultimately show ?thesis using rc complete_login_Inr [OF cl] by blast
qed

lemma upsert_identity_users: "users (snd (upsert_identity row f d)) = users d"
  by (simp add: upsert_identity_def)

lemma identity_save_users:
  assumes "identity_save sealer entropy x d = (Inr (), d')"
  shows "users d' = users d"
proof (cases "si_provider x = provider_local")
  case True
  with assms show ?thesis
    by (auto simp: identity_save_def upsert_identity_def split: sum.splits prod.splits if_splits dest!: stmt_Inr)
next
  case False
  from identity_save_federated [OF assms False] obtain a b where
    sv: "save_federated (identity_row_of x a b) d = (Inr (), d')" by auto
  from save_federated_Inr [OF sv] obtain n d1 where
    "insert_federated (identity_row_of x a b) d = (Inr n, d1)" "n \<noteq> 0" and same: "same_rows d1 d'"
    by (cases "insert_federated (identity_row_of x a b) d") auto
  from insert_federated_wrote [OF this(1,2), of sealer] same show ?thesis by (simp add: same_rows_def)
qed

definition credentials_of :: "int \<Rightarrow> token_sealer \<Rightarrow> db \<Rightarrow> stored_identity set" where
  "credentials_of u sealer d = {x \<in> set (cred_table sealer d). si_user x = u}"

lemma credentials_owned: "owned u d' = owned u d \<Longrightarrow> credentials_of u sealer d' = credentials_of u sealer d"
proof -
  assume "owned u d' = owned u d"
  then have "filter (\<lambda>i. i_user i = u) (identities d') = filter (\<lambda>i. i_user i = u) (identities d)"
    by (simp add: owned_def)
  then have "{i \<in> set (identities d'). i_user i = u} = {i \<in> set (identities d). i_user i = u}"
    by (metis set_filter)
  then show ?thesis by (auto simp: credentials_of_def cred_table_def)
qed

lemma sessions_owned: "owned u d' = owned u d \<Longrightarrow>
    filter (\<lambda>y. s_user y = u) (session_table d') = filter (\<lambda>y. s_user y = u) (session_table d)"
  by (simp add: owned_def session_table_def filter_map comp_def)

lemma persist_Inr:
  assumes "kit_on_pg k sealer" and "persist k c tokens now d = (Inr bound, d')"
  obtains c' user d1 sent where "c' = c\<lparr>c_avatar_url := sync_avatar k c, c_tokens := tokens\<rparr>"
    and "upsert_from_oidc c' d = (Inr user, d1)"
    and "identity_save sealer sent (login_identity k user c' tokens now) d1 = (Inr (), d')"
    and "bound = login_binding user c'"
  using assms
  by (auto simp: persist_def Let_def kit_on_pg_def served_by_def pg_identities_def split: prod.splits sum.splits)

text \<open>
  An address the provider does not vouch for. When the email claim of a login is not to be
  trusted and nobody has linked its subject, a login that is recorded signs in to an account that
  did not exist, and every account that did keeps its profile, its credentials and its sessions.
\<close>

theorem unvouched_login_is_fresh:
  assumes "kit_on_pg k sealer" and "db_ok d"
    and "claims_from_id_token (ko_cfg k) t = Inr c" and "cs_profile (it_claims t) = Inr raw"
    and "\<not> email_trusted (ko_cfg k) (rc_email_verified raw)"
    and "(issuer (ko_cfg k), it_subject t) \<notin> stored_key ` set (cred_table sealer d)"
    and "persist k c tokens now d = (Inr bound, d')"
  shows "\<not> user_exists (s_user bound) d \<and> s_provider bound = issuer (ko_cfg k) \<and> s_subject bound = it_subject t \<and>
    (\<forall>u \<in> set (users d). profile (u_id u) d' = profile (u_id u) d \<and>
      credentials_of (u_id u) sealer d' = credentials_of (u_id u) sealer d \<and>
      filter (\<lambda>y. s_user y = u_id u) (session_table d') = filter (\<lambda>y. s_user y = u_id u) (session_table d))"
proof -
  from claims_from_id_token_fields [OF assms(3)] assms(4,5)
  have c: "c_provider c = issuer (ko_cfg k)" "c_subject c = it_subject t" "\<not> c_email_verified c" by auto
  from persist_Inr [OF assms(1,7)] obtain c' user d1 sent where c': "c' = c\<lparr>c_avatar_url := sync_avatar k c, c_tokens := tokens\<rparr>"
    and up: "upsert_from_oidc c' d = (Inr user, d1)"
    and sv: "identity_save sealer sent (login_identity k user c' tokens now) d1 = (Inr (), d')"
    and b: "bound = login_binding user c'" .
  let ?x = "login_identity k user c' tokens now"
  have key: "stored_key ?x = (issuer (ko_cfg k), it_subject t)" "si_user ?x = user"
    using c c' by (simp_all add: login_identity_def stored_key_def)
  have none: "\<not> has_row (\<lambda>i. identity_key i = (c_provider c', c_subject c')) (identities d)"
    using assms(6) c c' by (force simp: has_row_iff cred_table_def image_iff)
  have "\<not> c_email_verified c'" using c c' by simp
  from unverified_creates [OF assms(2) this none up]
  have fresh: "\<not> user_exists user d" and kept: "\<And>u. u \<in> set (users d) \<Longrightarrow>
      profile (u_id u) d1 = profile (u_id u) d \<and> owned (u_id u) d1 = owned (u_id u) d" by auto
  have ok1: "db_ok d1" using keeps_okD [OF upsert_from_oidc_ok assms(2), of c'] up by simp
  have save: "is_save (pg_identities sealer sent) ?x d1 = (Inr (), d')" using sv by (simp add: pg_identities_def)
  have ok2: "db_ok d'" using pgi.save_identity_ok [OF ok1, of sealer sent ?x] save by simp
  have creds: "credentials_of (u_id u) sealer d' = credentials_of (u_id u) sealer d1" if u: "u \<in> set (users d)" for u
  proof -
    have other: "u_id u \<noteq> user" using fresh u by (auto simp: user_exists_iff)
    from pgi.save_identity_row [OF ok1 save] obtain y where y: "y \<in> set (cred_table sealer d')" "same_credential y ?x" by blast
    have keyed: "stored_key z \<noteq> stored_key ?x" if "z \<in> set (cred_table sealer d')" "si_user z = u_id u" for z
      using pgi.identity_keys [OF ok2, of sealer] y that other key
      by (auto simp: same_credential_def distinct_map inj_on_def)
    have before: "stored_key z \<noteq> stored_key ?x" if "z \<in> credentials_of (u_id u) sealer d1" for z
      using that assms(6) key credentials_owned [of "u_id u" d1 d sealer] kept [OF u] by (force simp: credentials_of_def)
    show ?thesis
      using pgi.find_other_saved [OF ok1 save] keyed before by (auto simp: credentials_of_def)
  qed
  have same: "users d' = users d1" "session_table d' = session_table d1"
    using identity_save_users [OF sv] identity_save_Inr [OF sv] by simp_all
  have "profile (u_id u) d' = profile (u_id u) d \<and> credentials_of (u_id u) sealer d' = credentials_of (u_id u) sealer d \<and>
      filter (\<lambda>y. s_user y = u_id u) (session_table d') = filter (\<lambda>y. s_user y = u_id u) (session_table d)"
    if u: "u \<in> set (users d)" for u
    using kept [OF u] creds [OF u] credentials_owned [of "u_id u" d1 d sealer] sessions_owned [of "u_id u" d1 d] same
    by (simp add: profile_def)
  with fresh b c c' show ?thesis by (simp add: login_binding_def zero_session_def)
qed

section \<open>The exchange of a one-time code\<close>


text \<open>
  A mobile code needs its verifier. A code minted for a challenge and presented as it was
  handed out is spent only by an exchange whose verifier has that challenge, or that found
  another string with the hash the code is stored under.
\<close>

theorem mobile_code_needs_verifier:
  assumes "kit_on_pg k sealer" and "db_ok d"
    and "(c, False) \<in> set (code_table d)" and "lc_code_hash c = hash_token (mobile_lookup code challenge)"
    and "handle_exchange k entropy now r (Inr \<lparr>xq_code = code, xq_verifier = v\<rparr>) d = (res, d')"
    and "(c, False) \<notin> set (code_table d')"
  shows "(valid_verifier v \<and> pkce_challenge v = challenge) \<or>
    (\<exists>lookup. exchange_lookup \<lparr>xq_code = code, xq_verifier = v\<rparr> = Inr lookup \<and>
       lookup \<noteq> mobile_lookup code challenge \<and> hash_token lookup = hash_token (mobile_lookup code challenge))"
proof -
  from assms(1) obtain sent at where k: "served_by k (pg_identities sealer sent) pg_sessions (pg_codes at)"
    by (auto simp: kit_on_pg_def)
  from pgf.exchange_codes [OF assms(2) k assms(5)] assms(3,6) obtain lookup where
    l: "exchange_lookup \<lparr>xq_code = code, xq_verifier = v\<rparr> = Inr lookup"
    and t: "code_table d' = update_where (\<lambda>r. code_hash r = hash_token lookup) (\<lambda>r. (fst r, True)) (code_table d)" by auto
  have "hash_token lookup = lc_code_hash c"
    using assms(3,6) unfolding t by (force simp: set_update_where code_hash_def)
  moreover have "lookup = code \<or> lookup = mobile_lookup code (pkce_challenge v) \<and> valid_verifier v"
    using l by (auto simp: exchange_lookup_def split: if_splits)
  ultimately show ?thesis
    using assms(4) l by (cases "lookup = mobile_lookup code challenge") (auto simp: mobile_lookup_def)
qed

text \<open>
  The challenge is as good as the verifier. The exchange hashes what it is given, so a caller
  who holds a mobile code and its challenge, which travels in the login URL, redeems the code
  without the verifier by sending the two joined as the code.
\<close>

theorem challenge_redeems_mobile_code:
  assumes "valid_verifier v" and "code \<noteq> []"
  shows "handle_exchange k entropy now r (Inr \<lparr>xq_code = mobile_lookup code (pkce_challenge v), xq_verifier = []\<rparr>) s =
    handle_exchange k entropy now r (Inr \<lparr>xq_code = code, xq_verifier = v\<rparr>) s"
proof -
  have "v \<noteq> []" using assms(1) by (auto simp: valid_verifier_def)
  then show ?thesis using assms by (simp add: handle_exchange_def exchange_lookup_def mobile_lookup_def)
qed

section \<open>Device tokens and back-channel logout\<close>

text \<open>
  A device token opens an account that is already linked. An exchange that answers with a
  token verified the access token, found the identity its subject has at the verifier's issuer,
  signed in the account of that identity, never account zero, and linked and created nothing.
\<close>

theorem device_exchange_needs_identity:
  assumes "kit_on_pg k sealer" and "db_ok d" and "bv_identities b = ko_identities k"
    and "handle_device_exchange k b entropy now r (Inr access) d = (Inr (u, tok), d')"
  shows "\<exists>c x. bv_tokens b access = Inr c \<and> jc_subject c \<noteq> [] \<and> x \<in> set (cred_table sealer d) \<and>
    stored_key x = (bv_issuer b, jc_subject c) \<and> si_user x \<noteq> 0 \<and> u = format_int (si_user x) \<and>
    signs_in (si_user x) tok (session_table d) (session_table d') \<and> cred_table sealer d' = cred_table sealer d"
proof -
  from assms(1) obtain sent at where k: "served_by k (pg_identities sealer sent) pg_sessions (pg_codes at)"
    by (auto simp: kit_on_pg_def)
  then have "bv_identities b = pg_identities sealer sent" using assms(3) by (simp add: served_by_def)
  from pgf.device_exchange_Inr [OF assms(2) k this assms(4)] show ?thesis by auto
qed

text \<open>
  C14: a back-channel logout that is acknowledged carried a token the provider signed, with the
  logout event, without a nonce and with a subject, and no session of the account linked to that
  subject is left, while every other account keeps its own.
\<close>

theorem backchannel_logout_ends_sessions:
  assumes "kit_on_pg k sealer" and "db_ok d" and "handle_backchannel_logout k p form d = (Inr b, d')"
  shows "\<exists>raw t events. form = Inr raw \<and> pv_verify p raw = Inr t \<and> it_nonce t = [] \<and> it_subject t \<noteq> [] \<and>
    cs_events (it_claims t) = Inr events \<and> backchannel_logout_event \<in> set events \<and>
    (\<forall>x \<in> set (cred_table sealer d). stored_key x = (issuer (ko_cfg k), it_subject t) \<longrightarrow>
      (\<forall>y \<in> set (session_table d'). s_user y \<noteq> si_user x) \<and>
      (\<forall>y \<in> set (session_table d). s_user y \<noteq> si_user x \<longrightarrow> y \<in> set (session_table d')))"
proof -
  from assms(1) obtain sent at where k: "served_by k (pg_identities sealer sent) pg_sessions (pg_codes at)"
    by (auto simp: kit_on_pg_def)
  from pgf.backchannel_Inr [OF assms(2) k assms(3)] obtain raw subject where raw: "form = Inr raw"
    and v: "verify_logout_token p raw = Inr subject"
    and gone: "\<forall>x \<in> set (cred_table sealer d). stored_key x = (issuer (ko_cfg k), subject) \<longrightarrow>
      session_table d' = delete_where (\<lambda>y. s_user y = si_user x) (session_table d)" by auto
  from v obtain t events where t: "pv_verify p raw = Inr t" "it_nonce t = []" "it_subject t = subject" "subject \<noteq> []"
    "cs_events (it_claims t) = Inr events" "backchannel_logout_event \<in> set events"
    by (auto simp: verify_logout_token_def split: sum.splits if_splits)
  with raw gone show ?thesis by (auto simp: set_delete_where)
qed

section \<open>At a concrete login\<close>

lemma idp_kit_on_pg [simp]: "kit_on_pg idp_kit plain_sealer"
  by (auto simp: kit_on_pg_def idp_kit_def served_by_def)

text \<open>A kit over an app's own stores, which keep the codes they mint.\<close>

definition refusing_sessions :: "'s session_store_ops" where
  "refusing_sessions =
     \<lparr>ss_create = (\<lambda>_ s. (Inl (Plain ''refused''), s)), ss_find = (\<lambda>_ s. (Inl (Plain ''refused''), s)),
      ss_touch = (\<lambda>_ _ s. (Inl (Plain ''refused''), s)), ss_delete = (\<lambda>_ s. (Inl (Plain ''refused''), s)),
      ss_delete_by_user = (\<lambda>_ s. (Inl (Plain ''refused''), s)), ss_delete_logins = (\<lambda>_ _ s. (Inl (Plain ''refused''), s)),
      ss_list_by_user = (\<lambda>_ s. (Inl (Plain ''refused''), s)), ss_delete_by_id = (\<lambda>_ _ s. (Inl (Plain ''refused''), s)),
      ss_delete_expired = (\<lambda>_ s. (Inl (Plain ''refused''), s))\<rparr>"

definition cli_kit :: "login_code list oidc_kit" where
  "cli_kit = \<lparr>ko_cfg = idp_config, ko_users = (\<lambda>c s. (Inr 7, s)),
     ko_identities = \<lparr>is_find = (\<lambda>_ _ s. (Inl (Sentinel ErrNotFound), s)), is_save = (\<lambda>_ s. (Inr (), s)),
       is_mark_roles_synced = (\<lambda>_ _ _ s. (Inr (), s)), is_list_by_user = (\<lambda>_ s. (Inr [], s))\<rparr>,
     ko_codes = \<lparr>lcs_create = (\<lambda>c s. (Inr (), c # s)), lcs_consume = (\<lambda>_ s. (Inl (Sentinel ErrNotFound), s)),
       lcs_delete_expired = (\<lambda>_ s. (Inr 0, s))\<rparr>,
     ko_avatars = None, ko_sessions = \<lparr>m_cfg = web_config, m_store = refusing_sessions, m_claims = None, m_jwt = None\<rparr>,
     ko_config_extra = None, ko_provider = Some idp, ko_cli_tokens = None, ko_machine = None, ko_attaches = False,
     ko_world = idp_world\<lparr>ow_json := \<lparr>fj_marshal = (\<lambda>_. Inr ''flow''), fj_unmarshal = (\<lambda>_. Some (idp_flow\<lparr>fl_cli := True\<rparr>))\<rparr>\<rparr>\<rparr>"

definition flow_value :: string where "flow_value = b64_encode ''flow''"

lemma flow_value_decodes: "decode_flow (ow_json (ko_world cli_kit)) flow_value = Some (idp_flow\<lparr>fl_cli := True\<rparr>)"
  "flow_value \<noteq> []"
proof -
  have "b64_decode flow_value = Some ''flow''" unfolding flow_value_def by (rule b64_round_trip)
  then show "decode_flow (ow_json (ko_world cli_kit)) flow_value = Some (idp_flow\<lparr>fl_cli := True\<rparr>)"
    by (simp add: decode_flow_def cli_kit_def complete_flow_def idp_flow_def)
  show "flow_value \<noteq> []" by (simp add: flow_value_def)
qed

definition back_request :: request where
  "back_request = web_request ''GET'' [(''__Host-oidc_state'', flow_value)]"

definition back_query :: "string \<Rightarrow> string" where
  "back_query name = (if name = ''state'' then ''st4te'' else if name = ''code'' then ''c'' else [])"

lemma cli_callback:
  "\<exists>cs s'. handle_callback cli_kit idp web_entropy 1000 back_request back_query [] = ((code_page cli_kit web_token, True), cs, s')"
proof -
  have m: "secure (ko_sessions cli_kit) back_request" "accept_legacy_cookie (m_cfg (ko_sessions cli_kit)) = False"
    by (simp_all add: secure_def is_secure_def back_request_def web_request_def cli_kit_def web_config_def
        resolved_def zero_config_def Let_def)
  have rc: "read_cookie (ko_sessions cli_kit) back_request flow_cookie = (flow_value, True)"
    using flow_value_decodes(2)
    by (simp add: read_cookie_def m host_prefix_def request_cookie_def flow_cookie_def)
      (simp add: back_request_def web_request_def)
  have p: "pending_of cli_kit flow_value back_query = Some (idp_flow\<lparr>fl_cli := True\<rparr>)"
    by (simp add: pending_of_def flow_value_decodes(1) back_query_def) (simp add: idp_flow_def)
  obtain c tokens where cl: "complete_login cli_kit idp ''c'' (idp_flow\<lparr>fl_cli := True\<rparr>) = Inr (c, tokens)"
    by (simp add: complete_login_def idp_def idp_flow_def claims_from_id_token_def idp_claims_def granted_roles_def
        extra_claims_of_def profile_claims_def normalize_claimed_email_def trim_space_def is_space_def to_lower_def
        lower_char_def cli_kit_def idp_config_def web_config_def resolved_def zero_config_def claims_enabled_def Let_def)
  have "finish_login cli_kit web_entropy 1000 back_request (idp_flow\<lparr>fl_cli := True\<rparr>) b [] =
      ((code_page cli_kit web_token, True), [], [pending_code cli_kit 1000 (hash_token web_token) b])" for b
    by (simp add: finish_login_def issue_login_code_def idp_flow_def web_token_new Let_def) (simp add: cli_kit_def)
  moreover have "persist cli_kit c tokens 1000 [] = (Inr (login_binding 7 (c\<lparr>c_avatar_url := [], c_tokens := tokens\<rparr>)), [])"
    by (simp add: persist_def Let_def sync_avatar_def cli_kit_def)
  ultimately show ?thesis using rc p cl by (simp add: handle_callback_def Let_def back_query_def)
qed

theorem callback_needs_its_flow_witness:
  "\<exists>encoded pending. read_cookie (ko_sessions cli_kit) back_request flow_cookie = (encoded, True) \<and>
    decode_flow (ow_json (ko_world cli_kit)) encoded = Some pending \<and> fl_state pending = ''st4te''"
proof -
  obtain cs s' where c: "handle_callback cli_kit idp web_entropy 1000 back_request back_query [] =
    ((code_page cli_kit web_token, True), cs, s')" using cli_callback by blast
  have "\<forall>reason. code_page cli_kit web_token \<noteq> failed cli_kit reason" by (simp add: failed_def code_page_def)
  with callback_needs_its_flow [OF c] show ?thesis by (auto simp: back_query_def)
qed

text \<open>A login of an unverified address that another account has.\<close>

definition idp_login :: "db \<Rightarrow> session result \<times> db" where
  "idp_login d = (case claims_from_id_token idp_config \<lparr>it_subject = ''new'', it_nonce = ''n0nce'', it_claims = idp_claims\<rparr> of
     Inl e \<Rightarrow> (Inl e, d) | Inr c \<Rightarrow> persist idp_kit c zero_tokens 1000 d)"

lemma idp_login_fresh: "map_sum id s_user (fst (idp_login login_db)) = Inr 3"
  by code_simp

theorem unvouched_login_is_fresh_witness:
  "\<exists>bound d'. idp_login login_db = (Inr bound, d') \<and> profile 1 d' = profile 1 login_db \<and> \<not> user_exists (s_user bound) login_db"
proof -
  let ?t = "\<lparr>it_subject = ''new'', it_nonce = ''n0nce'', it_claims = idp_claims\<rparr>"
  obtain raw where raw: "cs_profile (it_claims ?t) = Inr raw" "rc_email_verified raw = JBool False" by (simp add: idp_claims_def)
  obtain c where c: "claims_from_id_token (ko_cfg idp_kit) ?t = Inr c"
    by (simp add: claims_from_id_token_def idp_claims_def granted_roles_def extra_claims_of_def idp_kit_def idp_config_def
        web_config_def resolved_def zero_config_def claims_enabled_def Let_def)
  then have c': "claims_from_id_token idp_config ?t = Inr c" by (simp add: idp_kit_def)
  obtain bound d' where p: "persist idp_kit c zero_tokens 1000 login_db = (Inr bound, d')"
    using idp_login_fresh by (cases "persist idp_kit c zero_tokens 1000 login_db"; cases "fst (persist idp_kit c zero_tokens 1000 login_db)")
      (auto simp: idp_login_def c')
  have iss: "issuer (ko_cfg idp_kit) = ''idp''" by (simp add: idp_kit_def idp_config_def)
  have no: "(issuer (ko_cfg idp_kit), it_subject ?t) \<notin> stored_key ` set (cred_table plain_sealer login_db)"
    by (simp add: iss cred_table_def login_db_def identity_key_def new_identity_def)
  have "hd (users login_db) \<in> set (users login_db)" "u_id (hd (users login_db)) = 1" by (simp_all add: login_db_def)
  with unvouched_login_is_fresh [OF idp_kit_on_pg login_db_ok(1) c raw(1) _ no p] raw(2) p c'
  show ?thesis by (force simp: email_trusted_def email_claim_asserted_def idp_login_def)
qed

text \<open>An account linked at the provider, with a code and a session.\<close>

definition sample_verifier :: string where
  "sample_verifier = ''abcdefghijklmnopqrstuvwxyz0123456789-._~ABCDEFG''"

definition sample_lookup :: string where
  "sample_lookup = mobile_lookup ''c0de'' (pkce_challenge sample_verifier)"

definition coded_db :: db where
  "coded_db = web_db\<lparr>identities := [new_identity 1 ''idp'' ''t''],
     codes := [\<lparr>cr_hash = hash_token sample_lookup, cr_user = 1, cr_expires_at = 2000, cr_consumed_at = None,
       cr_provider = ''idp'', cr_subject = ''t''\<rparr>]\<rparr>"

definition sample_code :: login_code where
  "sample_code = \<lparr>lc_code_hash = hash_token sample_lookup, lc_user = 1, lc_expires_at = 2000, lc_provider = ''idp'', lc_subject = ''t''\<rparr>"

definition sample_exchange :: exchange_request where
  "sample_exchange = \<lparr>xq_code = ''c0de'', xq_verifier = sample_verifier\<rparr>"

lemma coded_db_ok [simp]: "db_ok coded_db"
  by (simp add: db_ok_defs coded_db_def web_db_def empty_db_def new_identity_def user_exists_def has_row_def)

lemma coded_db_fields: "faults coded_db = []" "sessions coded_db = []" "code_table coded_db = [(sample_code, False)]"
  "identities coded_db = [new_identity 1 ''idp'' ''t'']" "user_exists 1 coded_db"
  by (simp_all add: coded_db_def web_db_def empty_db_def code_table_def scan_code_def sample_code_def user_exists_def has_row_def)

lemma sample_verifier_valid: "valid_verifier sample_verifier" "sample_verifier \<noteq> []"
  by (simp_all add: valid_verifier_def sample_verifier_def is_alnum_def Let_def)

lemma sample_exchange_lookup: "exchange_lookup sample_exchange = Inr sample_lookup"
  using sample_verifier_valid by (simp add: exchange_lookup_def sample_exchange_def sample_lookup_def)

text \<open>A session bound to the identity of the account is issued.\<close>

lemma bound_issue:
  assumes "faults d = []" and "sessions d = []" and "identities d = [new_identity 1 ''idp'' ''t'']" and "user_exists 1 d"
    and "s_user t = 1" and "s_provider t = ''idp''" and "s_subject t = ''t''" and "s_label t = []" and "s_issued_by t = 0"
  shows "\<exists>sess d'. issue_for web_manager web_entropy None t 1000 d = (Inr (web_token, sess), d') \<and> codes d' = codes d"
proof -
  let ?t = "to_issue web_manager None t web_token 1000"
  have "voucher_holds ?t d"
    using assms by (simp add: to_issue_def bind_to_caller_def voucher_holds_def identity_exists_def has_row_def
        new_identity_def identity_key_def)
  from pg_create_row [OF assms(1) _ _ this] assms
  have "session_create ?t d = (Inr (?t\<lparr>s_id := session_seq d + 1\<rparr>), d\<lparr>session_seq := session_seq d + 1,
    sessions := [(session_row_of ?t)\<lparr>r_id := session_seq d + 1\<rparr>]\<rparr>)" by simp
  then have "issue_for web_manager web_entropy None t 1000 d = (Inr (web_token, ?t\<lparr>s_id := session_seq d + 1\<rparr>),
      d\<lparr>session_seq := session_seq d + 1, sessions := [(session_row_of ?t)\<lparr>r_id := session_seq d + 1\<rparr>]\<rparr>)"
    by (simp add: issue_for_unfold web_token_new pg_sessions_def)
  then show ?thesis by simp
qed

lemma idp_kit_fields: "ko_sessions idp_kit = web_manager" "ko_codes idp_kit = pg_codes 1000"
  "ko_identities idp_kit = pg_identities plain_sealer (None, None)" "issuer (ko_cfg idp_kit) = ''idp''"
  by (simp_all add: idp_kit_def idp_config_def)

lemma one_text [simp]: "format_int 1 = ''1''"
  by code_simp

lemma sample_exchanged:
  "\<exists>d'. handle_exchange idp_kit web_entropy 1000 back_request (Inr sample_exchange) coded_db = (Inr (''1'', web_token), d') \<and>
    code_table d' = [(sample_code, True)]"
proof -
  let ?d1 = "coded_db\<lparr>codes := update_where (unspent_code (hash_token sample_lookup))
    (\<lambda>c. c\<lparr>cr_consumed_at := Some 1000\<rparr>) (codes coded_db)\<rparr>"
  have c: "code_consume 1000 (hash_token sample_lookup) coded_db = (Inr sample_code, ?d1)"
    using coded_db_fields(1)
    by (simp add: code_consume_def) (simp add: coded_db_def unspent_code_def scan_code_def sample_code_def)
  obtain sess d' where i: "issue_for web_manager web_entropy None (code_session sample_code) 1000 ?d1 =
      (Inr (web_token, sess), d')" and k: "codes d' = codes ?d1"
    using bound_issue [of ?d1 "code_session sample_code"] coded_db_fields
    by (auto simp: code_session_def sample_code_def zero_session_def user_exists_def)
  have "xq_code sample_exchange \<noteq> []" by (simp add: sample_exchange_def)
  moreover have "\<not> login_code_expired sample_code 1000" "lc_user sample_code = 1" "rq_identity back_request = None"
    by (simp_all add: login_code_expired_def sample_code_def back_request_def web_request_def)
  moreover have "code_table d' = [(sample_code, True)]"
    by (simp add: code_table_def k) (simp add: coded_db_def update_where_def unspent_code_def scan_code_def sample_code_def)
  ultimately show ?thesis
    using c i by (simp add: handle_exchange_def sample_exchange_lookup idp_kit_fields)
      (simp add: pg_codes_def idp_kit_fields)
qed


theorem mobile_code_needs_verifier_witness:
  "(valid_verifier sample_verifier \<and> pkce_challenge sample_verifier = pkce_challenge sample_verifier) \<or>
    (\<exists>lookup. exchange_lookup sample_exchange = Inr lookup \<and> lookup \<noteq> sample_lookup \<and>
       hash_token lookup = hash_token sample_lookup)"
proof -
  obtain d' where h: "handle_exchange idp_kit web_entropy 1000 back_request
      (Inr \<lparr>xq_code = ''c0de'', xq_verifier = sample_verifier\<rparr>) coded_db = (Inr (''1'', web_token), d')"
    and t: "code_table d' = [(sample_code, True)]"
    using sample_exchanged by (auto simp: sample_exchange_def)
  have m: "(sample_code, False) \<in> set (code_table coded_db)" "(sample_code, False) \<notin> set (code_table d')"
    by (simp_all add: coded_db_fields t)
  have k: "lc_code_hash sample_code = hash_token (mobile_lookup ''c0de'' (pkce_challenge sample_verifier))"
    by (simp add: sample_code_def sample_lookup_def)
  from mobile_code_needs_verifier [OF idp_kit_on_pg coded_db_ok m(1) k h m(2)] show ?thesis
    unfolding sample_exchange_def sample_lookup_def .
qed

theorem challenge_redeems_mobile_code_witness:
  "\<exists>d'. handle_exchange idp_kit web_entropy 1000 back_request (Inr \<lparr>xq_code = sample_lookup, xq_verifier = []\<rparr>) coded_db =
    (Inr (''1'', web_token), d')"
  using sample_exchanged challenge_redeems_mobile_code [OF sample_verifier_valid(1), of "''c0de''" idp_kit web_entropy 1000 back_request coded_db]
  by (auto simp: sample_exchange_def sample_lookup_def)

definition device_verifier :: "db bearer_verifier" where
  "device_verifier = \<lparr>bv_tokens = (\<lambda>raw. if raw = ''jwt'' then Inr \<lparr>jc_subject = ''t'', jc_email = [], jc_name = [],
       jc_roles = [], jc_scopes = [], jc_actor = []\<rparr> else Inl (Plain ''bad signature'')),
     bv_identities = pg_identities plain_sealer (None, None), bv_issuer = ''idp''\<rparr>"

lemma coded_identity: "identity_find plain_sealer ''idp'' ''t'' coded_db =
    (Inr (scan_identity plain_sealer (new_identity 1 ''idp'' ''t'')), coded_db)"
  using coded_db_fields(1,4)
  by (simp add: identity_find_def row_with_def identity_key_def new_identity_def)

theorem device_exchange_needs_identity_witness:
  "\<exists>d' x. handle_device_exchange idp_kit device_verifier web_entropy 1000 back_request (Inr ''jwt'') coded_db =
      (Inr (''1'', web_token), d') \<and> x \<in> set (cred_table plain_sealer coded_db) \<and> si_user x \<noteq> 0"
proof -
  have v: "verify_jwt device_verifier ''jwt'' coded_db = (Inr (zero_identity\<lparr>id_user := 1, id_subject := ''t''\<rparr>), coded_db)"
    by (simp add: verify_jwt_def device_verifier_def pg_identities_def coded_identity)
      (simp add: zero_identity_def new_identity_def)
  obtain sess d' where i: "issue_for web_manager web_entropy None
      (zero_session\<lparr>s_user := 1, s_provider := ''idp'', s_subject := ''t''\<rparr>) 1000 coded_db = (Inr (web_token, sess), d')"
    using bound_issue [of coded_db "zero_session\<lparr>s_user := 1, s_provider := ''idp'', s_subject := ''t''\<rparr>"] coded_db_fields
    by (auto simp: zero_session_def)
  have e: "handle_device_exchange idp_kit device_verifier web_entropy 1000 back_request (Inr ''jwt'') coded_db =
      (Inr (''1'', web_token), d')"
    using v i by (simp add: handle_device_exchange_def idp_kit_fields)
      (simp add: zero_identity_def back_request_def web_request_def)
  have "bv_identities device_verifier = ko_identities idp_kit" by (simp add: device_verifier_def idp_kit_fields)
  from device_exchange_needs_identity [OF idp_kit_on_pg coded_db_ok this e] e show ?thesis by blast
qed

theorem backchannel_logout_ends_sessions_witness:
  "\<exists>d'. handle_backchannel_logout idp_kit idp (Inr ''logout'') (coded_db\<lparr>sessions := [\<lparr>r_id = 1, r_token_hash = ''h'',
      r_user = 1, r_label = [], r_created_at = 5, r_last_used_at = 5, r_expires_at = None\<rparr>], session_seq := 1\<rparr>) = (Inr True, d') \<and>
    (\<forall>y \<in> set (session_table d'). s_user y \<noteq> 1)"
proof -
  let ?d = "coded_db\<lparr>sessions := [\<lparr>r_id = 1, r_token_hash = ''h'', r_user = 1, r_label = [], r_created_at = 5,
      r_last_used_at = 5, r_expires_at = None\<rparr>], session_seq := 1\<rparr>"
  have ok: "db_ok ?d"
    by (simp add: db_ok_defs coded_db_def web_db_def empty_db_def new_identity_def user_exists_def has_row_def)
  have v: "verify_logout_token idp ''logout'' = Inr ''t''"
    by (simp add: verify_logout_token_def idp_def idp_claims_def)
  have f: "identity_find plain_sealer ''idp'' ''t'' ?d = (Inr (scan_identity plain_sealer (new_identity 1 ''idp'' ''t'')), ?d)"
    using coded_db_fields(1,4)
    by (simp add: identity_find_def row_with_def identity_key_def new_identity_def)
  obtain n d' where r: "session_delete_by_user 1 ?d = (Inr n, d')"
    using coded_db_fields(1) by (simp add: session_delete_ops delete_sessions_def)
  have h: "handle_backchannel_logout idp_kit idp (Inr ''logout'') ?d = (Inr True, d')"
    using v f r by (simp add: handle_backchannel_logout_def idp_kit_fields pg_identities_def revoke_user_def)
      (simp add: new_identity_def pg_sessions_def)
  have x: "scan_identity plain_sealer (new_identity 1 ''idp'' ''t'') \<in> set (cred_table plain_sealer ?d)"
    using coded_db_fields(4) by (simp add: cred_table_def)
  have "it_subject t = ''t''" if "pv_verify idp raw = Inr t" for raw t using that by (auto simp: idp_def)
  with backchannel_logout_ends_sessions [OF idp_kit_on_pg ok h] x h show ?thesis
    by (force simp: idp_kit_fields identity_key_def new_identity_def)
qed

end
