(* ===== verification/Directory.thy ===== *)
theory Directory
  imports Gostd
begin

text \<open>
  The shared spaces as Registre serves them: the snapshot and the client that fetches it
  (\<open>directory/directory.go\<close>), and the loop that keeps an app equal to it (\<open>directory/syncer.go\<close>,
  \<open>directory/wait.go\<close>). An HTTP exchange is its answer; the loop is a step relation, in which nudges,
  ticks, changes at Registre and other callers of \<open>Sync\<close> interleave with its own steps.
\<close>

section \<open>The snapshot\<close>

type_synonym entitlements = "(string \<times> string) list"

record member =
  mb_subject :: string
  mb_email :: string
  mb_name :: string
  mb_picture :: string
  mb_role :: string

record space =
  sp_id :: string
  sp_name :: string
  sp_members :: "member list"
  sp_entitlements :: entitlements

record person =
  pp_subject :: string
  pp_entitlements :: entitlements

record snapshot =
  sn_version :: int
  sn_revision :: int
  sn_spaces :: "space list"
  sn_people :: "person list"

record import_member =
  im_subject :: string
  im_email :: string
  im_role :: string

record import_space =
  is_name :: string
  is_members :: "import_member list"

definition max_snapshot_bytes :: nat where "max_snapshot_bytes = 8 * 2 ^ 20"

section \<open>The client\<close>

definition err_unavailable :: error where "err_unavailable = Plain ''directory: registre unavailable''"
definition err_snapshot_too_large :: error where
  "err_snapshot_too_large = Plain ''directory: snapshot exceeds MaxSnapshotBytes''"

text \<open>\<open>errors.Is\<close> against an error made by \<open>errors.New\<close>.\<close>

fun wraps :: "error \<Rightarrow> error \<Rightarrow> bool" where
  "wraps (Wrap m e) t = (Wrap m e = t \<or> wraps e t)"
| "wraps (Api c m (Some e)) t = (Api c m (Some e) = t \<or> wraps e t)"
| "wraps e t = (e = t)"

definition unavailable :: "string \<Rightarrow> error" where
  "unavailable why = Wrap why err_unavailable"

text \<open>
  What one request comes to: it cannot be built, no answer, or a status and a body, of which
  \<open>None\<close> is one that breaks off.
\<close>

datatype exchange = BadRequest | NoAnswer | Answered int "string option"

definition client_do :: "exchange \<Rightarrow> string option result" where
  "client_do x = (case x of
     BadRequest \<Rightarrow> Inl (Plain ''directory: build the request'')
   | NoAnswer \<Rightarrow> Inl (unavailable ''do'')
   | Answered status body \<Rightarrow> if status \<noteq> 200 then Inl (unavailable ''answered another status'') else Inr body)"

text \<open>\<open>io.LimitReader\<close> stops one byte past the cap.\<close>

definition read_all :: "string option \<Rightarrow> nat \<Rightarrow> string result" where
  "read_all body limit = (case body of
     None \<Rightarrow> Inl (Plain ''read'')
   | Some bytes \<Rightarrow> (let data = take (limit + 1) bytes in
       if limit < length data then Inl (Plain ''body over the limit'') else Inr data))"

definition client_fetch :: "exchange \<Rightarrow> string result" where
  "client_fetch x = (case client_do x of
     Inl e \<Rightarrow> Inl e
   | Inr body \<Rightarrow> (case read_all body max_snapshot_bytes of
       Inl e \<Rightarrow> Inl (unavailable ''read'') | Inr data \<Rightarrow> Inr data))"

definition decode_snapshot :: "(string \<Rightarrow> snapshot option) \<Rightarrow> string option \<Rightarrow> snapshot result" where
  "decode_snapshot json body = (case body of
     None \<Rightarrow> Inl (unavailable ''read the snapshot'')
   | Some bytes \<Rightarrow> (let data = take (max_snapshot_bytes + 1) bytes in
       if max_snapshot_bytes < length data then Inl err_snapshot_too_large
       else case json data of
         None \<Rightarrow> Inl (unavailable ''decode the snapshot'')
       | Some snapshot \<Rightarrow> Inr snapshot))"

definition client_call :: "(string \<Rightarrow> snapshot option) \<Rightarrow> exchange \<Rightarrow> snapshot result" where
  "client_call json x = (case client_do x of Inl e \<Rightarrow> Inl e | Inr body \<Rightarrow> decode_snapshot json body)"

lemma client_call_Inr:
  "client_call json x = Inr snap \<Longrightarrow>
    \<exists>bytes. x = Answered 200 (Some bytes) \<and> length bytes \<le> max_snapshot_bytes \<and> json bytes = Some snap"
  by (auto simp: client_call_def client_do_def decode_snapshot_def Let_def min_def
      split: exchange.splits if_splits option.splits)

section \<open>Sync\<close>

text \<open>The app's \<open>Apply\<close> may fail and may leave its tables partly changed.\<close>

record 'a syncer =
  sy_applied :: int
  sy_tables :: 'a

definition sync ::
  "(snapshot \<Rightarrow> 'a \<Rightarrow> unit result \<times> 'a) \<Rightarrow> snapshot result \<Rightarrow> 'a syncer \<Rightarrow> unit result \<times> 'a syncer" where
  "sync app fetched s = (case fetched of
     Inl e \<Rightarrow> (Inl e, s)
   | Inr snap \<Rightarrow>
       if sn_version snap \<noteq> 0 \<and> sn_version snap = sy_applied s then (Inr (), s)
       else (case app snap (sy_tables s) of
           (Inl e, t) \<Rightarrow> (Inl e, s\<lparr>sy_tables := t\<rparr>)
         | (Inr _, t) \<Rightarrow> (Inr (), s\<lparr>sy_tables := t, sy_applied := sn_version snap\<rparr>)))"

definition default_interval :: duration where "default_interval = 5 * minute"
definition debounce :: duration where "debounce = 2 * second"

definition sync_interval :: "duration \<Rightarrow> duration" where
  "sync_interval configured = (if 0 < configured then configured else default_interval)"

section \<open>Run and its callers\<close>

text \<open>
  Where \<open>Run\<close> is: about to pull, holding a fetched snapshot with the lock, waiting for a trigger,
  in the debounce of a nudge, or returned.
\<close>

datatype phase = Pulling | Holding "snapshot result" | Waiting | Debouncing | Returned

record 'a sync_world =
  wd_phase :: phase
  wd_nudged :: bool
  wd_syncer :: "'a syncer"
  wd_registre :: snapshot

text \<open>
  \<open>Nudge\<close> fills the channel of one place or finds it full. A fetch reads what Registre holds then,
  or fails. \<open>drain\<close> empties the channel before the pull that follows a debounce. Another caller's
  \<open>Sync\<close> runs whole while \<open>Run\<close> does not hold the lock.
\<close>

inductive sync_step :: "(snapshot \<Rightarrow> 'a \<Rightarrow> unit result \<times> 'a) \<Rightarrow> 'a sync_world \<Rightarrow> 'a sync_world \<Rightarrow> bool" for app where
  change: "sync_step app w (w\<lparr>wd_registre := snap\<rparr>)"
    if "sn_version (wd_registre w) < sn_version snap"
| nudge: "sync_step app w (w\<lparr>wd_nudged := True\<rparr>)"
| pull: "sync_step app w (w\<lparr>wd_phase := Holding r\<rparr>)"
    if "wd_phase w = Pulling" and "r = Inr (wd_registre w) \<or> (\<exists>e. r = Inl e)"
| finish: "sync_step app w (w\<lparr>wd_phase := Waiting, wd_syncer := snd (sync app r (wd_syncer w))\<rparr>)"
    if "wd_phase w = Holding r"
| tick: "sync_step app w (w\<lparr>wd_phase := Pulling\<rparr>)" if "wd_phase w = Waiting"
| wake: "sync_step app w (w\<lparr>wd_phase := Debouncing, wd_nudged := False\<rparr>)"
    if "wd_phase w = Waiting" and "wd_nudged w"
| drain: "sync_step app w (w\<lparr>wd_phase := Pulling, wd_nudged := False\<rparr>)" if "wd_phase w = Debouncing"
| other_sync: "sync_step app w (w\<lparr>wd_syncer := snd (sync app r (wd_syncer w))\<rparr>)"
    if "\<And>f. wd_phase w \<noteq> Holding f" and "r = Inr (wd_registre w) \<or> (\<exists>e. r = Inl e)"
| return: "sync_step app w (w\<lparr>wd_phase := Returned\<rparr>)"
    if "wd_phase w = Waiting \<or> wd_phase w = Debouncing"

section \<open>The app never goes back\<close>

definition in_order :: "'a sync_world \<Rightarrow> bool" where
  "in_order w = (sy_applied (wd_syncer w) \<le> sn_version (wd_registre w) \<and>
     (\<forall>snap. wd_phase w = Holding (Inr snap) \<longrightarrow>
        sy_applied (wd_syncer w) \<le> sn_version snap \<and> sn_version snap \<le> sn_version (wd_registre w)))"

lemma sync_applied:
  "\<forall>snap. r = Inr snap \<longrightarrow> sy_applied s \<le> sn_version snap \<and> sn_version snap \<le> v \<Longrightarrow> sy_applied s \<le> v \<Longrightarrow>
    sy_applied s \<le> sy_applied (snd (sync app r s)) \<and> sy_applied (snd (sync app r s)) \<le> v"
  by (auto simp: sync_def split: sum.splits prod.splits)

lemma sync_step_order:
  assumes "sync_step app w w'" and "in_order w"
  shows "in_order w' \<and> sy_applied (wd_syncer w) \<le> sy_applied (wd_syncer w')"
  using assms
proof (cases rule: sync_step.cases)
  case (finish r)
  with assms(2) sync_applied [of r "wd_syncer w" "sn_version (wd_registre w)" app]
  show ?thesis by (auto simp: in_order_def)
next
  case (other_sync r)
  with assms(2) sync_applied [of r "wd_syncer w" "sn_version (wd_registre w)" app]
  show ?thesis by (auto simp: in_order_def)
qed (use assms(2) in \<open>auto simp: in_order_def\<close>)

lemma sync_run_order:
  "(sync_step app)\<^sup>*\<^sup>* w w' \<Longrightarrow> in_order w \<Longrightarrow> in_order w' \<and> sy_applied (wd_syncer w) \<le> sy_applied (wd_syncer w')"
  by (induction rule: rtranclp_induct) (auto dest: sync_step_order)

text \<open>A step in which no fetch fails.\<close>

definition fetching_step :: "(snapshot \<Rightarrow> 'a \<Rightarrow> unit result \<times> 'a) \<Rightarrow> 'a sync_world \<Rightarrow> 'a sync_world \<Rightarrow> bool" where
  "fetching_step app w w' = (sync_step app w w' \<and> (\<forall>e. wd_phase w' \<noteq> Holding (Inl e)))"

text \<open>What is left of a nudge for a change that Registre holds as version \<open>v\<close>.\<close>

definition on_its_way :: "int \<Rightarrow> 'a sync_world \<Rightarrow> bool" where
  "on_its_way v w = (v \<le> sn_version (wd_registre w) \<and>
     (wd_nudged w \<or> wd_phase w \<in> {Debouncing, Pulling, Returned} \<or>
      (\<exists>snap. wd_phase w = Holding (Inr snap) \<and> v \<le> sn_version snap) \<or> v \<le> sy_applied (wd_syncer w)))"

lemma on_its_way_step:
  assumes app: "\<And>snap t. fst (app snap t) = Inr ()"
    and "fetching_step app w w'" and "in_order w" and "on_its_way v w"
  shows "on_its_way v w'"
proof -
  from assms(2) have step: "sync_step app w w'" and ok: "\<And>e. wd_phase w' \<noteq> Holding (Inl e)"
    by (auto simp: fetching_step_def)
  have mono: "sy_applied (wd_syncer w) \<le> sy_applied (wd_syncer w')"
    using sync_step_order [OF step assms(3)] by simp
  from step show ?thesis
  proof (cases rule: sync_step.cases)
    case (finish r)
    have "r = Inr snap \<Longrightarrow> v \<le> sn_version snap \<Longrightarrow> v \<le> sy_applied (snd (sync app r (wd_syncer w)))" for snap
      using app [of snap "sy_tables (wd_syncer w)"] by (auto simp: sync_def split: prod.splits sum.splits)
    with finish mono assms(4) show ?thesis by (auto simp: on_its_way_def)
  next
    case (pull r)
    with ok assms(4) show ?thesis by (auto simp: on_its_way_def)
  next
    case (other_sync r)
    with mono assms(4) show ?thesis by (auto simp: on_its_way_def)
  qed (use assms(4) in \<open>auto simp: on_its_way_def\<close>)
qed

text \<open>
  C19: a nudge is not lost. From any moment at which one is pending, whatever interleaves, changes
  at Registre, further nudges, ticks, other callers of \<open>Sync\<close>, once \<open>Run\<close> waits again with no
  nudge pending the app has applied at least the version Registre held at that moment, when no fetch
  and no \<open>Apply\<close> failed since; and whatever failed, it never went back to an older version.
\<close>

theorem nudge_not_lost:
  assumes "in_order w" and "wd_nudged w"
    and "(fetching_step app)\<^sup>*\<^sup>* w w'" and "\<And>snap t. fst (app snap t) = Inr ()"
    and "wd_phase w' = Waiting" and "\<not> wd_nudged w'"
  shows "sn_version (wd_registre w) \<le> sy_applied (wd_syncer w')"
proof -
  have "in_order w' \<and> on_its_way (sn_version (wd_registre w)) w'"
    using assms(3)
  proof (induction rule: rtranclp_induct)
    case base
    with assms(1,2) show ?case by (simp add: on_its_way_def)
  next
    case (step x y)
    then show ?case using on_its_way_step [OF assms(4) step(2)] sync_step_order [of app x y]
      by (auto simp: fetching_step_def)
  qed
  with assms(5,6) show ?thesis by (auto simp: on_its_way_def)
qed

text \<open>
  An app never goes back. Whatever interleaves and fails, the version an app has applied never
  falls and never passes Registre's.
\<close>

theorem applied_never_falls:
  assumes "(sync_step app)\<^sup>*\<^sup>* w w'" and "in_order w"
  shows "sy_applied (wd_syncer w) \<le> sy_applied (wd_syncer w') \<and>
    sy_applied (wd_syncer w') \<le> sn_version (wd_registre w')"
  using sync_run_order [OF assms] by (auto simp: in_order_def)

definition version_two :: snapshot where
  "version_two = \<lparr>sn_version = 2, sn_revision = 0, sn_spaces = [], sn_people = []\<rparr>"

definition nudged_world :: "unit sync_world" where
  "nudged_world = \<lparr>wd_phase = Waiting, wd_nudged = True, wd_syncer = \<lparr>sy_applied = 1, sy_tables = ()\<rparr>,
     wd_registre = version_two\<rparr>"

definition synced_world :: "unit sync_world" where
  "synced_world = nudged_world\<lparr>wd_nudged := False, wd_syncer := \<lparr>sy_applied = 2, sy_tables = ()\<rparr>\<rparr>"

lemma nudged_run: "(fetching_step (\<lambda>snap t. (Inr (), t)))\<^sup>*\<^sup>* nudged_world synced_world"
proof -
  let ?app = "\<lambda>snap t. (Inr (), t)"
  let ?w = "nudged_world\<lparr>wd_nudged := False\<rparr>"
  have a: "fetching_step ?app nudged_world (?w\<lparr>wd_phase := Debouncing\<rparr>)"
    using sync_step.wake [of nudged_world ?app] by (simp add: fetching_step_def nudged_world_def)
  have b: "fetching_step ?app (?w\<lparr>wd_phase := Debouncing\<rparr>) (?w\<lparr>wd_phase := Pulling\<rparr>)"
    using sync_step.drain [of "?w\<lparr>wd_phase := Debouncing\<rparr>" ?app] by (simp add: fetching_step_def nudged_world_def)
  have c: "fetching_step ?app (?w\<lparr>wd_phase := Pulling\<rparr>) (?w\<lparr>wd_phase := Holding (Inr version_two)\<rparr>)"
    using sync_step.pull [of "?w\<lparr>wd_phase := Pulling\<rparr>" "Inr version_two" ?app]
    by (simp add: fetching_step_def nudged_world_def)
  have d: "fetching_step ?app (?w\<lparr>wd_phase := Holding (Inr version_two)\<rparr>) synced_world"
    using sync_step.finish [of "?w\<lparr>wd_phase := Holding (Inr version_two)\<rparr>" "Inr version_two" ?app]
    by (simp add: fetching_step_def nudged_world_def synced_world_def sync_def version_two_def)
  from a b c d show ?thesis by (meson converse_rtranclp_into_rtranclp rtranclp.rtrancl_refl)
qed

theorem nudge_not_lost_witness: "sy_applied (wd_syncer synced_world) = 2 \<and> (2 :: int) \<le> sy_applied (wd_syncer synced_world)"
proof -
  have "in_order nudged_world" "wd_nudged nudged_world" "wd_phase synced_world = Waiting" "\<not> wd_nudged synced_world"
    by (simp_all add: in_order_def nudged_world_def synced_world_def version_two_def)
  from nudge_not_lost [OF this(1,2) nudged_run _ this(3,4)] show ?thesis
    by (simp add: nudged_world_def version_two_def synced_world_def)
qed

theorem applied_never_falls_witness:
  "sy_applied (wd_syncer nudged_world) \<le> sy_applied (wd_syncer synced_world) \<and> sy_applied (wd_syncer synced_world) \<le> 2"
proof -
  have "(sync_step (\<lambda>snap t. (Inr (), t)))\<^sup>*\<^sup>* nudged_world synced_world"
    by (rule mono_rtranclp [rule_format, OF _ nudged_run]) (simp add: fetching_step_def)
  moreover have "in_order nudged_world" by (simp add: in_order_def nudged_world_def version_two_def)
  ultimately show ?thesis using applied_never_falls [of "\<lambda>snap t. (Inr (), t)" nudged_world synced_world]
    by (simp add: nudged_world_def version_two_def synced_world_def)
qed

end
