(* ===== verification/Forfait.thy ===== *)
theory Forfait
  imports Directory "HOL-Library.AList"
begin

text \<open>
  The plan a space pays for: the features an app declares, the entitlements of the last snapshot
  (\<open>forfait/store.go\<close>, \<open>forfait/decode.go\<close>), the refusals (\<open>forfait/forfait.go\<close>), the document
  saved across restarts (\<open>forfait/persist.go\<close>) and the reset (\<open>forfait/recovery.go\<close>). A Go map is an
  association list with one entry per key. A JSON value is its text; a document is what
  \<open>encoding/json\<close> decoded. The warnings are not modelled.
\<close>

section \<open>Features and values\<close>

text \<open>\<open>Kind\<close> is an integer type: one that is neither constant is possible and decodes nothing.\<close>

datatype kind = BoolKind | LimitKind | OtherKind int

record feature =
  ft_key :: string
  ft_kind :: kind
  ft_default :: string

record plan_value =
  pv_enabled :: bool
  pv_limit :: int

definition no_value :: plan_value where
  "no_value = \<lparr>pv_enabled = False, pv_limit = 0\<rparr>"

definition everything :: plan_value where
  "everything = \<lparr>pv_enabled = True, pv_limit = - 1\<rparr>"

definition max_keys :: nat where "max_keys = 200"

definition key_char :: "char \<Rightarrow> bool" where
  "key_char c = (let n = (of_char c :: nat) in (97 \<le> n \<and> n \<le> 122) \<or> (48 \<le> n \<and> n \<le> 57) \<or> c = CHR ''_'')"

definition key_pattern :: "string \<Rightarrow> bool" where
  "key_pattern key = (case split_on (CHR ''.'') key of
     [a, b] \<Rightarrow> a \<noteq> [] \<and> b \<noteq> [] \<and> list_all key_char (a @ b) | _ \<Rightarrow> False)"

text \<open>
  \<open>json.Unmarshal\<close> of a text that starts as a number into an \<open>int64\<close>: the literal must be a JSON
  integer, without a leading zero, and fit.
\<close>

definition json_digits :: "string \<Rightarrow> bool" where
  "json_digits s = (s \<noteq> [] \<and> list_all (\<lambda>c. 48 \<le> (of_char c :: nat) \<and> (of_char c :: nat) \<le> 57) s \<and>
     (hd s = CHR ''0'' \<longrightarrow> tl s = []))"

definition min_int64 :: int where "min_int64 = - (2 ^ 63)"
definition max_int64 :: int where "max_int64 = 2 ^ 63 - 1"

definition wrap64 :: "int \<Rightarrow> int" where
  "wrap64 i = (i + 2 ^ 63) mod 2 ^ 64 - 2 ^ 63"

definition json_int64 :: "string \<Rightarrow> int option" where
  "json_int64 s =
     (let negative = (s \<noteq> [] \<and> hd s = CHR ''-''); digits = (if negative then tl s else s);
          n = (if negative then - int (undec digits) else int (undec digits)) in
      if json_digits digits \<and> min_int64 \<le> n \<and> n \<le> max_int64 then Some n else None)"

definition starts_as_integer :: "string \<Rightarrow> bool" where
  "starts_as_integer raw = (raw \<noteq> [] \<and> (hd raw = CHR ''-'' \<or>
     (48 \<le> (of_char (hd raw) :: nat) \<and> (of_char (hd raw) :: nat) \<le> 57)))"

definition decode_value :: "kind \<Rightarrow> string \<Rightarrow> plan_value option" where
  "decode_value k raw =
     (let trimmed = trim_space raw in
      if k = BoolKind \<and> (trimmed = ''true'' \<or> trimmed = ''false'')
      then Some (no_value\<lparr>pv_enabled := (trimmed = ''true'')\<rparr>)
      else if k = LimitKind \<and> starts_as_integer trimmed
      then (case json_int64 trimmed of
          None \<Rightarrow> None
        | Some limit \<Rightarrow> if limit < - 1 then None else Some (no_value\<lparr>pv_limit := limit\<rparr>))
      else None)"

type_synonym features = "(string \<times> feature) list"
type_synonym scope_values = "(string \<times> plan_value) list"

definition index_entry :: "features \<Rightarrow> string \<times> string \<Rightarrow> (string \<times> plan_value) option" where
  "index_entry fs e = (case map_of fs (fst e) of
     None \<Rightarrow> None
   | Some f \<Rightarrow> map_option (Pair (fst e)) (decode_value (ft_kind f) (snd e)))"

definition index_scope :: "features \<Rightarrow> entitlements \<Rightarrow> scope_values" where
  "index_scope fs es = (if max_keys < length es then [] else List.map_filter (index_entry fs) es)"

section \<open>The store\<close>

record plan_store =
  ps_issuer :: string
  ps_features :: features
  ps_defaults :: scope_values
  ps_version :: int
  ps_revision :: int
  ps_spaces :: "(string \<times> scope_values) list"
  ps_people :: "(string \<times> scope_values) list"

record plan_scope =
  sc_space :: string
  sc_subject :: string

fun declare_features :: "feature list \<Rightarrow> features \<times> scope_values \<Rightarrow> features \<times> scope_values" where
  "declare_features [] m = m"
| "declare_features (f # fs) (m, d) =
     (if map_of m (ft_key f) \<noteq> None \<or> \<not> key_pattern (ft_key f) then declare_features fs (m, d)
      else declare_features fs (AList.update (ft_key f) f m,
        AList.update (ft_key f)
          (case decode_value (ft_kind f) (ft_default f) of Some v \<Rightarrow> v | None \<Rightarrow> no_value) d))"

definition new_plan_store :: "feature list \<Rightarrow> plan_store" where
  "new_plan_store fs = (case declare_features fs ([], []) of (m, d) \<Rightarrow>
     \<lparr>ps_issuer = [], ps_features = m, ps_defaults = d, ps_version = 0, ps_revision = 0,
      ps_spaces = [], ps_people = []\<rparr>)"

text \<open>The map a list of scopes is read into; a scope without a key is skipped, the last of two wins.\<close>

definition scope_map :: "features \<Rightarrow> (string \<times> entitlements) list \<Rightarrow> (string \<times> scope_values) list" where
  "scope_map fs xs =
     fold (\<lambda>(key, es) m. if key \<noteq> [] then AList.update key (index_scope fs es) m else m) xs []"

definition accepts :: "plan_store \<Rightarrow> int \<Rightarrow> int \<Rightarrow> bool" where
  "accepts s version revision =
     (if revision \<le> 0 \<or> revision < ps_revision s then False
      else if ps_revision s < revision then True
      else version = 0 \<or> ps_version s \<le> version)"

definition space_entries :: "snapshot \<Rightarrow> (string \<times> entitlements) list" where
  "space_entries snap = map (\<lambda>x. (sp_id x, sp_entitlements x)) (sn_spaces snap)"

definition people_entries :: "snapshot \<Rightarrow> (string \<times> entitlements) list" where
  "people_entries snap = map (\<lambda>x. (pp_subject x, pp_entitlements x)) (sn_people snap)"

definition apply_snapshot :: "snapshot \<Rightarrow> plan_store \<Rightarrow> plan_store" where
  "apply_snapshot snap s =
     (let spaces = scope_map (ps_features s) (space_entries snap);
          people = scope_map (ps_features s) (people_entries snap) in
      if accepts s (sn_version snap) (sn_revision snap)
      then s\<lparr>ps_spaces := spaces, ps_people := people, ps_version := sn_version snap,
             ps_revision := sn_revision snap\<rparr>
      else s)"

definition scope_of :: "plan_store \<Rightarrow> plan_scope \<Rightarrow> scope_values" where
  "scope_of s sc = (case (if sc_space sc = [] then map_of (ps_people s) (sc_subject sc)
                          else map_of (ps_spaces s) (sc_space sc)) of
     Some vs \<Rightarrow> vs | None \<Rightarrow> [])"

definition resolve_value :: "plan_store \<Rightarrow> plan_scope \<Rightarrow> string \<Rightarrow> kind \<Rightarrow> plan_value" where
  "resolve_value s sc key k = (case map_of (ps_features s) key of
     None \<Rightarrow> no_value
   | Some f \<Rightarrow>
       if ft_kind f \<noteq> k then no_value
       else if ps_revision s = 0 then everything
       else (case map_of (scope_of s sc) key of
           Some v \<Rightarrow> v
         | None \<Rightarrow> (case map_of (ps_defaults s) key of Some v \<Rightarrow> v | None \<Rightarrow> no_value)))"

definition feature_enabled :: "plan_store \<Rightarrow> plan_scope \<Rightarrow> string \<Rightarrow> bool" where
  "feature_enabled s sc key = pv_enabled (resolve_value s sc key BoolKind)"

definition feature_limit :: "plan_store \<Rightarrow> plan_scope \<Rightarrow> string \<Rightarrow> int" where
  "feature_limit s sc key = pv_limit (resolve_value s sc key LimitKind)"

definition reset_store :: "plan_store \<Rightarrow> plan_store" where
  "reset_store s = s\<lparr>ps_spaces := [], ps_people := [], ps_version := 0, ps_revision := 0\<rparr>"

section \<open>Refusals\<close>

datatype plan_error = ErrInvalidUsage | LimitError string int string

text \<open>\<open>url.PathEscape\<close>.\<close>

definition path_plain :: "char \<Rightarrow> bool" where
  "path_plain c = (let n = (of_char c :: nat) in (48 \<le> n \<and> n \<le> 57) \<or> (65 \<le> n \<and> n \<le> 90) \<or>
     (97 \<le> n \<and> n \<le> 122) \<or> c \<in> set ''-_.~$&+=:@'')"

definition escape_hex :: "nat \<Rightarrow> char" where
  "escape_hex n = (if n < 10 then char_of (48 + n) else char_of (55 + n))"

definition path_escape :: "string \<Rightarrow> string" where
  "path_escape s = concat (map (\<lambda>c. if path_plain c then [c]
     else [CHR ''%'', escape_hex (of_char c div 16), escape_hex (of_char c mod 16)]) s)"

definition trim_slash :: "string \<Rightarrow> string" where
  "trim_slash s = (if s \<noteq> [] \<and> last s = CHR ''/'' then butlast s else s)"

definition upgrade_url :: "string \<Rightarrow> string \<Rightarrow> string" where
  "upgrade_url issuer space =
     (let base = trim_slash issuer @ ''/spaces'' in
      if space = [] then base else base @ ''/'' @ path_escape space)"

definition check_usage :: "plan_store \<Rightarrow> plan_scope \<Rightarrow> string \<Rightarrow> int \<Rightarrow> int \<Rightarrow> plan_error + unit" where
  "check_usage s sc key used adding =
     (if used < 0 \<or> adding < 0 then Inl ErrInvalidUsage
      else let limit = feature_limit s sc key in
        if adding = 0 \<or> limit = - 1 \<or> used \<le> wrap64 (limit - adding) then Inr ()
        else Inl (LimitError key limit
          (if ps_issuer s \<noteq> [] then upgrade_url (ps_issuer s) (sc_space sc) else [])))"

section \<open>The saved document\<close>

record exported =
  ex_document :: int
  ex_version :: int
  ex_revision :: int
  ex_spaces :: "(string \<times> entitlements) list"
  ex_people :: "(string \<times> entitlements) list"

definition export_version :: int where "export_version = 1"
definition max_export :: nat where "max_export = 4 * max_snapshot_bytes"

definition encode_value :: "kind \<Rightarrow> plan_value \<Rightarrow> string" where
  "encode_value k v = (if k = BoolKind then (if pv_enabled v then ''true'' else ''false'')
     else format_int (pv_limit v))"

text \<open>An undeclared key reads a zero \<open>Feature\<close>, whose kind is neither constant.\<close>

definition kind_of_key :: "features \<Rightarrow> string \<Rightarrow> kind" where
  "kind_of_key fs key = (case map_of fs key of Some f \<Rightarrow> ft_kind f | None \<Rightarrow> OtherKind 0)"

definition encode_scope :: "features \<Rightarrow> scope_values \<Rightarrow> entitlements" where
  "encode_scope fs vs = map (\<lambda>(key, v). (key, encode_value (kind_of_key fs key) v)) vs"

definition encode_scopes :: "features \<Rightarrow> (string \<times> scope_values) list \<Rightarrow> (string \<times> entitlements) list" where
  "encode_scopes fs xs = map (\<lambda>(key, vs). (key, encode_scope fs vs)) xs"

definition export_store :: "plan_store \<Rightarrow> exported" where
  "export_store s = \<lparr>ex_document = export_version, ex_version = ps_version s, ex_revision = ps_revision s,
     ex_spaces = (if 0 < ps_revision s then encode_scopes (ps_features s) (ps_spaces s) else []),
     ex_people = (if 0 < ps_revision s then encode_scopes (ps_features s) (ps_people s) else [])\<rparr>"

datatype import_error = TooLarge | Undecodable | TrailingData | OtherVersion | NegativeVersion | AlreadyApplied

text \<open>
  The bytes as the decoder sees them: how many there are, the document it read, with no unknown
  field, and whether anything follows. Blank bytes are \<open>None\<close>.
\<close>

record saved =
  sv_length :: nat
  sv_document :: "exported option"
  sv_trailing :: bool

definition decode_export :: "saved \<Rightarrow> import_error + exported" where
  "decode_export b =
     (if max_export < sv_length b then Inl TooLarge
      else case sv_document b of
        None \<Rightarrow> Inl Undecodable
      | Some doc \<Rightarrow>
          if sv_trailing b then Inl TrailingData
          else if ex_document doc \<noteq> export_version then Inl OtherVersion
          else if ex_version doc < 0 \<or> ex_revision doc < 0 then Inl NegativeVersion
          else Inr doc)"

definition index_scopes :: "features \<Rightarrow> (string \<times> entitlements) list \<Rightarrow> (string \<times> scope_values) list" where
  "index_scopes fs xs = map (\<lambda>(key, es). (key, index_scope fs es)) xs"

definition import_store :: "saved option \<Rightarrow> plan_store \<Rightarrow> (import_error + unit) \<times> plan_store" where
  "import_store b s = (case b of
     None \<Rightarrow> (Inr (), s)
   | Some bytes \<Rightarrow> (case decode_export bytes of
       Inl e \<Rightarrow> (Inl e, s)
     | Inr doc \<Rightarrow>
         if 0 < ps_revision s then (Inl AlreadyApplied, s)
         else if ex_revision doc = 0 then (Inr (), s)
         else (Inr (), s\<lparr>ps_spaces := index_scopes (ps_features s) (ex_spaces doc),
            ps_people := index_scopes (ps_features s) (ex_people doc),
            ps_version := ex_version doc, ps_revision := ex_revision doc\<rparr>)))"

section \<open>Typed values\<close>

definition value_ok :: "kind \<Rightarrow> plan_value \<Rightarrow> bool" where
  "value_ok k v = (case k of
     BoolKind \<Rightarrow> pv_limit v = 0
   | LimitKind \<Rightarrow> \<not> pv_enabled v \<and> - 1 \<le> pv_limit v \<and> pv_limit v \<le> max_int64
   | OtherKind i \<Rightarrow> False)"

lemma decode_value_ok: "decode_value k raw = Some v \<Longrightarrow> value_ok k v"
  by (auto simp: decode_value_def value_ok_def json_int64_def no_value_def Let_def
      split: if_splits option.splits)

lemma dec_hd_zero: "hd (dec n) = CHR ''0'' \<Longrightarrow> n = 0"
proof (induction n rule: dec.induct)
  case (1 n)
  show ?case
  proof (cases "n < 10")
    case True
    with "1.prems" show ?thesis by (simp add: dec.simps [of n] char_eq_iff of_char_digit)
  next
    case False
    with "1.prems" have "hd (dec (n div 10)) = CHR ''0''" by (simp add: dec.simps [of n])
    with "1.IH" [OF False] False show ?thesis by auto
  qed
qed

lemma json_digits_dec [simp]: "json_digits (dec n)"
proof -
  have "hd (dec n) = CHR ''0'' \<longrightarrow> tl (dec n) = []"
    using dec_hd_zero [of n] by (auto simp: dec.simps [of 0])
  then show ?thesis by (auto simp: json_digits_def list_all_iff dest: dec_digits)
qed

lemma hd_dec_digit: "48 \<le> (of_char (hd (dec n)) :: nat) \<and> (of_char (hd (dec n)) :: nat) \<le> 57"
  using dec_digits [of "hd (dec n)" n] by (cases "dec n") simp_all

lemma hd_dec_neq: "hd (dec n) \<noteq> CHR ''-''"
  using hd_dec_digit [of n] by auto

lemma starts_format_int [simp]: "starts_as_integer (format_int i)"
  using hd_dec_digit by (auto simp: starts_as_integer_def format_int_def)

lemma json_int64_format_int:
  "min_int64 \<le> i \<Longrightarrow> i \<le> max_int64 \<Longrightarrow> json_int64 (format_int i) = Some i"
  by (auto simp: json_int64_def format_int_def Let_def hd_dec_neq)

lemma trim_space_plain: "\<forall>c \<in> set s. \<not> is_space c \<Longrightarrow> trim_space s = s"
proof -
  assume a: "\<forall>c \<in> set s. \<not> is_space c"
  have dw: "\<forall>c \<in> set t. \<not> is_space c \<Longrightarrow> dropWhile is_space t = t" for t by (cases t) auto
  from a show ?thesis by (simp add: trim_space_def dw)
qed

lemma trim_format_int [simp]: "trim_space (format_int i) = format_int i"
proof (rule trim_space_plain, rule ballI)
  fix c assume "c \<in> set (format_int i)"
  then have "c = CHR ''-'' \<or> (48 \<le> (of_char c :: nat) \<and> (of_char c :: nat) \<le> 57)"
    by (auto simp: format_int_def split: if_splits dest: dec_digits)
  then show "\<not> is_space c" by (auto simp: is_space_def Let_def)
qed

lemma decode_encode_value:
  assumes "value_ok k v"
  shows "decode_value k (encode_value k v) = Some v"
proof (cases k)
  case BoolKind
  have "trim_space ''true'' = ''true''" "trim_space ''false'' = ''false''"
    by (rule trim_space_plain, simp add: is_space_def)+
  with assms BoolKind show ?thesis by (cases v) (auto simp: value_ok_def decode_value_def encode_value_def no_value_def)
next
  case LimitKind
  with assms have "min_int64 \<le> pv_limit v" by (simp add: value_ok_def min_int64_def)
  with assms LimitKind show ?thesis
    by (cases v) (auto simp: value_ok_def decode_value_def encode_value_def json_int64_format_int no_value_def)
qed (use assms in \<open>simp add: value_ok_def\<close>)

text \<open>A scope as the store keeps it.\<close>

definition scope_ok :: "features \<Rightarrow> scope_values \<Rightarrow> bool" where
  "scope_ok fs vs = (length vs \<le> max_keys \<and>
     (\<forall>(key, v) \<in> set vs. \<exists>f. map_of fs key = Some f \<and> value_ok (ft_kind f) v))"

lemma index_scope_ok: "scope_ok fs (index_scope fs es)"
proof -
  have "length (List.map_filter (index_entry fs) es) \<le> length es"
    by (induction es) (auto simp: List.map_filter_simps split: option.splits)
  then have "length (index_scope fs es) \<le> max_keys" by (simp add: index_scope_def)
  moreover have "\<forall>(key, v) \<in> set (index_scope fs es). \<exists>f. map_of fs key = Some f \<and> value_ok (ft_kind f) v"
    by (auto simp: index_scope_def map_filter_def index_entry_def decode_value_ok split: option.splits)
  ultimately show ?thesis by (simp add: scope_ok_def)
qed

lemma index_encode_scope:
  assumes "scope_ok fs vs"
  shows "index_scope fs (encode_scope fs vs) = vs"
proof -
  from assms have "\<forall>(key, v) \<in> set vs. \<exists>f. map_of fs key = Some f \<and> value_ok (ft_kind f) v"
    by (simp add: scope_ok_def)
  then have "List.map_filter (index_entry fs) (encode_scope fs vs) = vs"
    by (induction vs) (auto simp: encode_scope_def List.map_filter_simps index_entry_def kind_of_key_def decode_encode_value)
  with assms show ?thesis by (simp add: index_scope_def scope_ok_def encode_scope_def)
qed

lemma index_encode_scopes:
  "\<forall>(key, vs) \<in> set xs. scope_ok fs vs \<Longrightarrow> index_scopes fs (encode_scopes fs xs) = xs"
  by (induction xs) (auto simp: index_scopes_def encode_scopes_def index_encode_scope)

lemma scope_map_ok: "\<forall>(key, vs) \<in> set (scope_map fs xs). scope_ok fs vs"
proof -
  have "\<forall>(key, vs) \<in> set m. scope_ok fs vs \<Longrightarrow>
    \<forall>(key, vs) \<in> set (fold (\<lambda>(key, es) m. if key \<noteq> [] then AList.update key (index_scope fs es) m else m) xs m).
      scope_ok fs vs" for m
  proof (induction xs arbitrary: m)
    case (Cons x xs)
    obtain k es where x: "x = (k, es)" by (cases x)
    have "\<forall>(key, vs) \<in> set (AList.update k (index_scope fs es) m). scope_ok fs vs"
      using Cons.prems index_scope_ok [of fs es] by (induction m) auto
    then show ?case using Cons by (simp add: x)
  qed simp
  from this [of "[]"] show ?thesis by (simp add: scope_map_def)
qed

section \<open>The last accepted snapshot\<close>

text \<open>
  What a store promises: it holds the last snapshot it accepted, if any, and answers from it. The
  state of the specification is that snapshot, an answer is read off it.
\<close>

datatype plan_event = Applied snapshot | Restarted nat | Forgotten

definition spec_accepts :: "snapshot option \<Rightarrow> snapshot \<Rightarrow> bool" where
  "spec_accepts held snap = (0 < sn_revision snap \<and> (case held of
     None \<Rightarrow> True
   | Some h \<Rightarrow> sn_revision h < sn_revision snap \<or>
       (sn_revision h = sn_revision snap \<and> (sn_version snap = 0 \<or> sn_version h \<le> sn_version snap))))"

fun spec_step :: "plan_event \<Rightarrow> snapshot option \<Rightarrow> snapshot option" where
  "spec_step (Applied snap) held = (if spec_accepts held snap then Some snap else held)"
| "spec_step (Restarted n) held = held"
| "spec_step Forgotten held = None"

definition last_entry :: "string \<Rightarrow> (string \<times> entitlements) list \<Rightarrow> entitlements" where
  "last_entry key xs = (if key = [] then [] else case map_of (rev xs) key of Some es \<Rightarrow> es | None \<Rightarrow> [])"

definition plan_entitlements :: "snapshot \<Rightarrow> plan_scope \<Rightarrow> entitlements" where
  "plan_entitlements h sc = (if sc_space sc = [] then last_entry (sc_subject sc) (people_entries h)
     else last_entry (sc_space sc) (space_entries h))"

definition declared :: "feature list \<Rightarrow> string \<Rightarrow> feature option" where
  "declared fs key = find (\<lambda>f. ft_key f = key \<and> key_pattern key) fs"

definition spec_value :: "feature list \<Rightarrow> snapshot option \<Rightarrow> plan_scope \<Rightarrow> string \<Rightarrow> kind \<Rightarrow> plan_value" where
  "spec_value fs held sc key k = (case declared fs key of
     None \<Rightarrow> no_value
   | Some f \<Rightarrow>
       if ft_kind f \<noteq> k then no_value
       else case held of
         None \<Rightarrow> everything
       | Some h \<Rightarrow>
           let es = plan_entitlements h sc;
               own = (if max_keys < length es then None else Option.bind (map_of es key) (decode_value k)) in
           case own of
             Some v \<Rightarrow> v
           | None \<Rightarrow> (case decode_value k (ft_default f) of Some v \<Rightarrow> v | None \<Rightarrow> no_value))"

text \<open>
  A run of the store: a snapshot arrives, the process restarts from the saved document of \<open>n\<close>
  bytes, or the operator resets the store.
\<close>

definition saved_as :: "nat \<Rightarrow> plan_store \<Rightarrow> saved" where
  "saved_as n s = \<lparr>sv_length = n, sv_document = Some (export_store s), sv_trailing = False\<rparr>"

fun store_step :: "feature list \<Rightarrow> plan_event \<Rightarrow> plan_store \<Rightarrow> plan_store" where
  "store_step fs (Applied snap) s = apply_snapshot snap s"
| "store_step fs (Restarted n) s = snd (import_store (Some (saved_as n s)) (new_plan_store fs))"
| "store_step fs Forgotten s = reset_store s"

text \<open>What a decoded snapshot and a saved document of the source satisfy.\<close>

fun event_ok :: "plan_event \<Rightarrow> bool" where
  "event_ok (Applied snap) = (0 \<le> sn_version snap \<and>
     (\<forall>(key, es) \<in> set (space_entries snap) \<union> set (people_entries snap). distinct (map fst es)))"
| "event_ok (Restarted n) = (n \<le> max_export)"
| "event_ok Forgotten = True"

text \<open>The store that holds a snapshot.\<close>

definition holds :: "feature list \<Rightarrow> snapshot option \<Rightarrow> plan_store \<Rightarrow> bool" where
  "holds fs held s = (ps_features s = fst (declare_features fs ([], [])) \<and>
     ps_defaults s = snd (declare_features fs ([], [])) \<and>
     (case held of
        None \<Rightarrow> ps_revision s = 0 \<and> ps_version s = 0
      | Some h \<Rightarrow> 0 < sn_revision h \<and> event_ok (Applied h) \<and> ps_revision s = sn_revision h \<and>
          ps_version s = sn_version h \<and> ps_spaces s = scope_map (ps_features s) (space_entries h) \<and>
          ps_people s = scope_map (ps_features s) (people_entries h)))"

lemma holds_new: "holds fs None (new_plan_store fs)"
  by (simp add: holds_def new_plan_store_def split: prod.split)

lemma holds_apply:
  assumes "holds fs held s" and "event_ok (Applied snap)"
  shows "holds fs (spec_step (Applied snap) held) (apply_snapshot snap s)"
  using assms
  by (auto simp: holds_def apply_snapshot_def accepts_def spec_accepts_def Let_def split: option.splits)

lemma holds_reset: "holds fs held s \<Longrightarrow> holds fs None (reset_store s)"
  by (auto simp: holds_def reset_store_def)

lemma holds_restart:
  assumes "holds fs held s" and "n \<le> max_export"
  shows "holds fs held (store_step fs (Restarted n) s)"
proof (cases held)
  case None
  with assms show ?thesis
    by (auto simp: holds_def import_store_def saved_as_def decode_export_def export_store_def
        new_plan_store_def export_version_def split: prod.split)
next
  case (Some h)
  with assms have h: "ps_spaces s = scope_map (ps_features s) (space_entries h)"
      "ps_people s = scope_map (ps_features s) (people_entries h)"
      "ps_features (new_plan_store fs) = ps_features s"
      "ps_defaults (new_plan_store fs) = ps_defaults s" "ps_revision (new_plan_store fs) = 0"
    by (auto simp: holds_def new_plan_store_def split: prod.splits)
  have "index_scopes (ps_features s) (encode_scopes (ps_features s) (ps_spaces s)) = ps_spaces s"
    "index_scopes (ps_features s) (encode_scopes (ps_features s) (ps_people s)) = ps_people s"
    unfolding h by (rule index_encode_scopes [OF scope_map_ok])+
  with assms Some h show ?thesis
    by (auto simp: holds_def import_store_def saved_as_def decode_export_def export_store_def export_version_def)
qed

lemma holds_step:
  "holds fs held s \<Longrightarrow> event_ok e \<Longrightarrow> holds fs (spec_step e held) (store_step fs e s)"
  by (cases e) (simp_all only: store_step.simps(1,3) spec_step.simps(2,3) event_ok.simps(2) holds_apply holds_reset holds_restart)

lemma holds_run:
  "holds fs held s \<Longrightarrow> list_all event_ok es \<Longrightarrow> holds fs (fold spec_step es held) (fold (store_step fs) es s)"
  by (induction es arbitrary: held s) (auto intro: holds_step)

section \<open>The answers\<close>

lemma map_of_declare:
  assumes "map_of m key = None \<longleftrightarrow> map_of d key = None"
  shows "map_of (fst (declare_features fs (m, d))) key =
      (case map_of m key of Some f \<Rightarrow> Some f | None \<Rightarrow> declared fs key)"
    and "map_of (snd (declare_features fs (m, d))) key =
      (case map_of d key of Some v \<Rightarrow> Some v | None \<Rightarrow>
        map_option (\<lambda>f. case decode_value (ft_kind f) (ft_default f) of Some v \<Rightarrow> v | None \<Rightarrow> no_value) (declared fs key))"
  using assms
proof (induction fs arbitrary: m d)
  case Nil
  case 1 show ?case by (simp add: declared_def split: option.split)
  case 2 show ?case by (simp add: declared_def split: option.split)
next
  case (Cons f fs)
  { case 1
    then show ?case
      by (cases "ft_key f = key") (auto simp: Cons.IH update_conv' declared_def split: option.splits) }
  { case 2
    then show ?case
      by (cases "ft_key f = key") (auto simp: Cons.IH update_conv' declared_def split: option.splits) }
qed

lemma map_of_scope_map:
  "map_of (scope_map fs xs) key = (if key = [] then None else map_option (index_scope fs) (map_of (rev xs) key))"
proof (induction xs rule: rev_induct)
  case Nil
  show ?case by (simp add: scope_map_def)
next
  case (snoc x xs)
  then show ?case by (cases x) (auto simp: scope_map_def update_conv')
qed

lemma map_of_index_scope:
  assumes "distinct (map fst es)" and "map_of fs key = Some f"
  shows "map_of (index_scope fs es) key =
    (if max_keys < length es then None else Option.bind (map_of es key) (decode_value (ft_kind f)))"
proof -
  have "map_of (List.map_filter (index_entry fs) es) key = Option.bind (map_of es key) (decode_value (ft_kind f))"
    using assms(1)
  proof (induction es)
    case (Cons e es)
    obtain k raw where e: "e = (k, raw)" by (cases e)
    have none: "map_of es key = None" if "k = key"
      using Cons.prems that by (force simp: e map_of_eq_None_iff)
    show ?case using Cons assms(2) none
      by (cases "k = key") (auto simp: e List.map_filter_simps index_entry_def split: option.splits)
  qed (simp add: List.map_filter_simps)
  then show ?thesis by (simp add: index_scope_def)
qed

lemma holds_scope:
  assumes "holds fs (Some h) s" and "map_of (ps_features s) key = Some f"
  shows "map_of (scope_of s sc) key =
    (let es = plan_entitlements h sc in
     if max_keys < length es then None else Option.bind (map_of es key) (decode_value (ft_kind f)))"
proof -
  have "map_of (case map_of (scope_map (ps_features s) xs) sub of Some vs \<Rightarrow> vs | None \<Rightarrow> []) key =
      (let es = last_entry sub xs in
       if max_keys < length es then None else Option.bind (map_of es key) (decode_value (ft_kind f)))"
    if d: "\<forall>(key, es) \<in> set xs. distinct (map fst es)" for xs sub
  proof (cases "map_of (rev xs) sub")
    case None
    then show ?thesis by (auto simp: map_of_scope_map last_entry_def Let_def)
  next
    case (Some es)
    with map_of_SomeD [OF Some] d have "distinct (map fst es)" by auto
    with Some assms(2) show ?thesis
      by (auto simp: map_of_scope_map last_entry_def Let_def map_of_index_scope)
  qed
  with assms(1) show ?thesis by (auto simp: holds_def scope_of_def plan_entitlements_def)
qed

lemma holds_value:
  assumes "holds fs held s"
  shows "resolve_value s sc key k = spec_value fs held sc key k"
proof (cases "declared fs key")
  case None
  with assms show ?thesis by (simp add: resolve_value_def spec_value_def holds_def map_of_declare(1))
next
  case (Some f)
  with assms have f: "map_of (ps_features s) key = Some f"
    and d: "map_of (ps_defaults s) key =
      Some (case decode_value (ft_kind f) (ft_default f) of Some v \<Rightarrow> v | None \<Rightarrow> no_value)"
    by (simp_all add: holds_def map_of_declare)
  show ?thesis
  proof (cases held)
    case None
    with assms f Some show ?thesis by (simp add: resolve_value_def spec_value_def holds_def)
  next
    case (Some h)
    with assms have "ps_revision s \<noteq> 0" by (auto simp: holds_def)
    with holds_scope [of fs h s key f sc] assms f d Some \<open>declared fs key = Some f\<close> show ?thesis
      by (auto simp: resolve_value_def spec_value_def Let_def split: option.splits)
  qed
qed

lemma spec_value_limit:
  "- 1 \<le> pv_limit (spec_value fs held sc key k) \<and> pv_limit (spec_value fs held sc key k) \<le> max_int64"
proof -
  have bound: "decode_value j raw = Some v \<Longrightarrow> - 1 \<le> pv_limit v \<and> pv_limit v \<le> max_int64" for j raw v
    by (drule decode_value_ok) (auto simp: value_ok_def max_int64_def split: kind.splits)
  have "- 1 \<le> pv_limit no_value \<and> pv_limit no_value \<le> max_int64"
    "- 1 \<le> pv_limit everything \<and> pv_limit everything \<le> max_int64"
    by (simp_all add: no_value_def everything_def max_int64_def)
  then show ?thesis
    by (auto simp: spec_value_def Let_def Option.bind_eq_Some_conv dest!: bound split: option.splits if_splits)
qed

lemma resolve_issuer [simp]: "resolve_value (s\<lparr>ps_issuer := iss\<rparr>) sc key k = resolve_value s sc key k"
proof -
  have "scope_of (s\<lparr>ps_issuer := iss\<rparr>) sc = scope_of s sc" by (simp add: scope_of_def)
  then show ?thesis by (simp add: resolve_value_def split: option.split)
qed

lemma wrap64_exact: "min_int64 \<le> i \<Longrightarrow> i \<le> max_int64 \<Longrightarrow> wrap64 i = i"
  by (simp add: wrap64_def min_int64_def max_int64_def mod_pos_pos_trivial)

section \<open>Properties\<close>

text \<open>
  C20: a store answers from the last snapshot it accepted. Over any history of snapshots, restarts
  from the saved document and resets, every value it resolves is the one read off that snapshot:
  the scope's own well-formed value, else the default of the feature, and everything as long as
  no snapshot was accepted. The tables, the versions and the document implement no more than that.
\<close>

theorem plan_refines_last_snapshot:
  assumes "list_all event_ok es"
  shows "resolve_value (fold (store_step fs) es (new_plan_store fs)) sc key k =
    spec_value fs (fold spec_step es None) sc key k"
  using holds_run [OF holds_new assms] by (rule holds_value)

definition plan_features :: "feature list" where
  "plan_features = [\<lparr>ft_key = ''a.n'', ft_kind = LimitKind, ft_default = ''1''\<rparr>,
     \<lparr>ft_key = ''a.b'', ft_kind = BoolKind, ft_default = ''false''\<rparr>]"

definition plan_snapshot :: "int \<Rightarrow> string \<Rightarrow> snapshot" where
  "plan_snapshot revision limit = \<lparr>sn_version = 1, sn_revision = revision,
     sn_spaces = [\<lparr>sp_id = ''s'', sp_name = [], sp_members = [], sp_entitlements = [(''a.n'', limit), (''a.b'', ''yes'')]\<rparr>], sn_people = []\<rparr>"

lemma plan_history_ok: "list_all event_ok [Applied (plan_snapshot 2 ''5''), Applied (plan_snapshot 1 ''9''), Restarted 90]"
  by (simp add: plan_snapshot_def space_entries_def people_entries_def max_export_def max_snapshot_bytes_def)

theorem plan_refines_last_snapshot_witness:
  "resolve_value (fold (store_step plan_features)
      [Applied (plan_snapshot 2 ''5''), Applied (plan_snapshot 1 ''9''), Restarted 90] (new_plan_store plan_features))
    \<lparr>sc_space = ''s'', sc_subject = []\<rparr> ''a.n'' LimitKind = \<lparr>pv_enabled = False, pv_limit = 5\<rparr>"
proof -
  have "spec_value plan_features (Some (plan_snapshot 2 ''5'')) \<lparr>sc_space = ''s'', sc_subject = []\<rparr> ''a.n'' LimitKind =
    \<lparr>pv_enabled = False, pv_limit = 5\<rparr>" by code_simp
  then show ?thesis
    unfolding plan_refines_last_snapshot [OF plan_history_ok]
    by (simp add: spec_accepts_def) (simp add: plan_snapshot_def)
qed

text \<open>
  The ceiling is compared exactly. Whatever 64-bit counts \<open>Check\<close> is asked about, and whatever
  the store went through, it allows the addition exactly when no count is negative and nothing is
  added, the plan is unlimited or the sum is at or under the ceiling, the sum of integers, which no
  wrap-around reaches.
\<close>

theorem check_exact:
  assumes "list_all event_ok es" and "s = (fold (store_step fs) es (new_plan_store fs))\<lparr>ps_issuer := iss\<rparr>"
    and "min_int64 \<le> used" and "used \<le> max_int64" and "min_int64 \<le> adding" and "adding \<le> max_int64"
  shows "check_usage s sc key used adding = Inr () \<longleftrightarrow> 0 \<le> used \<and> 0 \<le> adding \<and>
    (adding = 0 \<or> feature_limit s sc key = - 1 \<or> used + adding \<le> feature_limit s sc key)"
proof -
  have "feature_limit s sc key = pv_limit (spec_value fs (fold spec_step es None) sc key LimitKind)"
    using holds_value [OF holds_run [OF holds_new assms(1)]] by (simp add: assms(2) feature_limit_def)
  with spec_value_limit have "- 1 \<le> feature_limit s sc key" "feature_limit s sc key \<le> max_int64" by metis+
  then have "0 \<le> adding \<Longrightarrow> wrap64 (feature_limit s sc key - adding) = feature_limit s sc key - adding"
    using assms(6) by (intro wrap64_exact) (simp_all add: min_int64_def max_int64_def)
  then show ?thesis by (auto simp: check_usage_def Let_def)
qed

theorem check_exact_witness:
  "check_usage ((fold (store_step plan_features) [] (new_plan_store plan_features))\<lparr>ps_issuer := ''i''\<rparr>)
    \<lparr>sc_space = ''s'', sc_subject = []\<rparr> ''a.n'' max_int64 max_int64 = Inr ()"
proof -
  have "feature_limit ((fold (store_step plan_features) [] (new_plan_store plan_features))\<lparr>ps_issuer := ''i''\<rparr>)
    \<lparr>sc_space = ''s'', sc_subject = []\<rparr> ''a.n'' = - 1" by code_simp
  with check_exact [of "[]" _ "''i''" plan_features max_int64 max_int64, OF _ refl] show ?thesis
    by (simp add: min_int64_def max_int64_def)
qed

end
