(* ===== verification/Deletions.thy ===== *)
theory Deletions
  imports Gostd "HOL-Library.AList"
begin

text \<open>
  The receiver of deletion notices: the poll and its pages (\<open>directory/deletions_poll.go\<close>), the
  record of who was handled (\<open>directory/deletions_state.go\<close>), and how one person is erased
  (\<open>directory/deletions.go\<close>). Everything outside the process, Registre's list, the app's callback, the
  erasure of porte's rows, the saved state and the clock, is a function of a world; the mutex makes
  every call one step. Bytes are what \<open>encoding/json\<close> reads of them.
\<close>

section \<open>The record of a receiver\<close>

definition deletion_retention :: duration where "deletion_retention = 60 * (24 * hour)"
definition overlap :: duration where "overlap = minute"
definition list_limit :: nat where "list_limit = 1000"
definition microsecond :: duration where "microsecond = 1000"

record deleted =
  de_subject :: string
  de_at :: time

record deletion_state =
  dl_cursor :: time
  dl_done :: "(string \<times> time) list"

datatype saved_state = NoState | BadState | StateDoc time "(string \<times> time) list option"

record 'w state_store =
  ss_load :: "'w \<Rightarrow> saved_state result \<times> 'w"
  ss_save :: "deletion_state \<Rightarrow> 'w \<Rightarrow> unit result \<times> 'w"

record 'w deletions =
  dn_issuer :: string
  dn_list :: "time \<Rightarrow> 'w \<Rightarrow> deleted list result \<times> 'w"
  dn_callback :: "(string \<Rightarrow> string \<Rightarrow> 'w \<Rightarrow> unit result \<times> 'w) option"
  dn_erase :: "(string \<Rightarrow> string \<Rightarrow> 'w \<Rightarrow> unit result \<times> 'w) option"
  dn_store :: "'w state_store option"
  dn_now :: "'w \<Rightarrow> time"

text \<open>What a call leaves: the copy of the state in memory, if there is one, and the world.\<close>

type_synonym 'w receiver = "deletion_state option \<times> 'w"

definition since_of :: "deletion_state \<Rightarrow> time \<Rightarrow> time" where
  "since_of s now = (if dl_cursor s = 0 then now - deletion_retention else dl_cursor s - overlap)"

definition is_done :: "deletion_state \<Rightarrow> string \<Rightarrow> bool" where
  "is_done s subject = (map_of (dl_done s) subject \<noteq> None)"

definition record_done :: "string \<Rightarrow> time \<Rightarrow> deletion_state \<Rightarrow> deletion_state" where
  "record_done subject now s = s\<lparr>dl_done :=
     filter (\<lambda>e. \<not> deletion_retention + overlap < time_sub now (snd e)) (AList.update subject now (dl_done s))\<rparr>"

definition decode_state :: "saved_state \<Rightarrow> deletion_state result" where
  "decode_state raw = (case raw of
     NoState \<Rightarrow> Inr \<lparr>dl_cursor = 0, dl_done = []\<rparr>
   | BadState \<Rightarrow> Inl (Wrap ''directory: decode the deletion state'' (Plain ''json''))
   | StateDoc cursor done \<Rightarrow> Inr \<lparr>dl_cursor = cursor, dl_done = (case done of Some m \<Rightarrow> m | None \<Rightarrow> [])\<rparr>)"

definition load_state :: "'w deletions \<Rightarrow> 'w receiver \<Rightarrow> deletion_state result \<times> 'w receiver" where
  "load_state d x = (case x of
     (Some s, w) \<Rightarrow> (Inr s, (Some s, w))
   | (None, w) \<Rightarrow> (case dn_store d of
       None \<Rightarrow> (let s = \<lparr>dl_cursor = 0, dl_done = []\<rparr> in (Inr s, (Some s, w)))
     | Some store \<Rightarrow> (case ss_load store w of
         (Inl e, w1) \<Rightarrow> (Inl (Wrap ''directory: load the deletion state'' e), (None, w1))
       | (Inr raw, w1) \<Rightarrow> (case decode_state raw of
           Inl e \<Rightarrow> (Inl e, (None, w1))
         | Inr s \<Rightarrow> (Inr s, (Some s, w1))))))"

definition save_state :: "'w deletions \<Rightarrow> deletion_state \<Rightarrow> 'w \<Rightarrow> unit result \<times> 'w" where
  "save_state d s w = (case dn_store d of
     None \<Rightarrow> (Inr (), w)
   | Some store \<Rightarrow> (case ss_save store s w of
       (Inl e, w1) \<Rightarrow> (Inl (Wrap ''directory: save the deletion state'' e), w1)
     | (Inr _, w1) \<Rightarrow> (Inr (), w1)))"

text \<open>\<open>persist\<close> is never called without a state in memory.\<close>

definition persist_state :: "'w deletions \<Rightarrow> 'w receiver \<Rightarrow> unit result \<times> 'w receiver" where
  "persist_state d x = (case x of
     (None, w) \<Rightarrow> (Inr (), (None, w))
   | (Some s, w) \<Rightarrow> (case save_state d s w of
       (Inl e, w1) \<Rightarrow> (Inl e, (None, w1))
     | (Inr _, w1) \<Rightarrow> (Inr (), (Some s, w1))))"

section \<open>One person\<close>

definition err_no_callback :: error where
  "err_no_callback = Plain ''directory: Deletions.OnPersonDeleted is nil''"

text \<open>A nil callback is refused before any person is handled.\<close>

definition erase_person :: "'w deletions \<Rightarrow> string \<Rightarrow> 'w \<Rightarrow> unit result \<times> 'w" where
  "erase_person d subject w = (case dn_callback d of
     None \<Rightarrow> (Inl err_no_callback, w)
   | Some callback \<Rightarrow> (case callback (dn_issuer d) subject w of
       (Inl e, w1) \<Rightarrow> (Inl (Wrap (''directory: erase '' @ subject) e), w1)
     | (Inr _, w1) \<Rightarrow> (case dn_erase d of
         None \<Rightarrow> (Inr (), w1)
       | Some erase \<Rightarrow> (case erase (dn_issuer d) subject w1 of
           (Inl e, w2) \<Rightarrow> (Inl (Wrap (''directory: erase porte rows of '' @ subject) e), w2)
         | (Inr _, w2) \<Rightarrow> (Inr (), w2)))))"

definition handle_person :: "'w deletions \<Rightarrow> string \<Rightarrow> 'w receiver \<Rightarrow> unit result \<times> 'w receiver" where
  "handle_person d subject x = (case load_state d x of
     (Inl e, x1) \<Rightarrow> (Inl e, x1)
   | (Inr s, (m, w1)) \<Rightarrow>
       if is_done s subject then (Inr (), (m, w1))
       else (case erase_person d subject w1 of
           (Inl e, w2) \<Rightarrow> (Inl e, (m, w2))
         | (Inr _, w2) \<Rightarrow> (Inr (), (Some (record_done subject (dn_now d w2) s), w2))))"

section \<open>The poll\<close>

record poll_result =
  pr_handled :: "time list"
  pr_failed :: time
  pr_errs :: "error list"

definition poll_fail :: "time \<Rightarrow> error \<Rightarrow> poll_result \<Rightarrow> poll_result" where
  "poll_fail at e r = r\<lparr>pr_errs := pr_errs r @ [e],
     pr_failed := (if pr_failed r = 0 \<or> at < pr_failed r then at else pr_failed r)\<rparr>"

fun handle_all :: "'w deletions \<Rightarrow> deleted list \<Rightarrow> poll_result \<Rightarrow> 'w receiver \<Rightarrow> poll_result \<times> 'w receiver" where
  "handle_all d [] r x = (r, x)"
| "handle_all d (p # ps) r x = (case handle_person d (de_subject p) x of
     (Inl e, x1) \<Rightarrow> handle_all d ps (poll_fail (de_at p) e r) x1
   | (Inr _, x1) \<Rightarrow> handle_all d ps (r\<lparr>pr_handled := pr_handled r @ [de_at p]\<rparr>) x1)"

definition err_same_instant :: error where
  "err_same_instant = Plain ''directory: 1000 or more deletion notices share one timestamp, the rest cannot be listed''"

text \<open>Where the next page starts, \<open>None\<close> when there is none, and the error of a page without progress.\<close>

definition next_page :: "deleted list \<Rightarrow> time \<Rightarrow> time option \<times> error list" where
  "next_page ps since =
     (if length ps < list_limit then (None, [])
      else let next = de_at (last ps) - microsecond in
        if \<not> since < next then (None, [err_same_instant]) else (Some next, []))"

definition poll_errors :: "error list \<Rightarrow> poll_result \<Rightarrow> poll_result" where
  "poll_errors es r = r\<lparr>pr_errs := pr_errs r @ es\<rparr>"

text \<open>The loop over the pages; \<open>None\<close> is a poll that never returns.\<close>

partial_function (option) drain_pages ::
  "'w deletions \<Rightarrow> time \<Rightarrow> poll_result \<Rightarrow> 'w receiver \<Rightarrow> (poll_result \<times> 'w receiver) option" where
  "drain_pages d since r x = (case dn_list d since (snd x) of
     (Inl e, w1) \<Rightarrow> Some (poll_errors [e] r, (fst x, w1))
   | (Inr ps, w1) \<Rightarrow> (case handle_all d ps r (fst x, w1) of
       (r1, x1) \<Rightarrow> (case persist_state d x1 of
         (Inl e, x2) \<Rightarrow> Some (poll_errors [e] r1, x2)
       | (Inr _, x2) \<Rightarrow> (case next_page ps since of
           (None, es) \<Rightarrow> Some (poll_errors es r1, x2)
         | (Some next, es) \<Rightarrow> drain_pages d next (poll_errors es r1) x2))))"

declare drain_pages.simps [code]

text \<open>The newest handled time strictly before the earliest failure.\<close>

fun cursor_loop :: "time \<Rightarrow> time list \<Rightarrow> time \<Rightarrow> time" where
  "cursor_loop failed [] cursor = cursor"
| "cursor_loop failed (at # ats) cursor =
     cursor_loop failed ats (if (failed = 0 \<or> at < failed) \<and> cursor < at then at else cursor)"

definition cursor_after :: "time list \<Rightarrow> time \<Rightarrow> time" where
  "cursor_after handled failed = cursor_loop failed handled 0"

definition no_result :: poll_result where
  "no_result = \<lparr>pr_handled = [], pr_failed = 0, pr_errs = []\<rparr>"

definition poll :: "'w deletions \<Rightarrow> 'w receiver \<Rightarrow> (error list \<times> 'w receiver) option" where
  "poll d x =
     (if dn_callback d = None then Some ([err_no_callback], x)
      else case load_state d x of
        (Inl e, x1) \<Rightarrow> Some ([e], x1)
      | (Inr s, x1) \<Rightarrow> (case drain_pages d (since_of s (dn_now d (snd x1))) no_result x1 of
          None \<Rightarrow> None
        | Some (r, (None, w2)) \<Rightarrow> Some (pr_errs r, (None, w2))
        | Some (r, (Some s2, w2)) \<Rightarrow>
            (let cursor = cursor_after (pr_handled r) (pr_failed r) in
             if dl_cursor s2 < cursor
             then (case persist_state d (Some (s2\<lparr>dl_cursor := cursor\<rparr>), w2) of
                 (Inl e, x3) \<Rightarrow> Some (pr_errs r @ [e], x3)
               | (Inr _, x3) \<Rightarrow> Some (pr_errs r, x3))
             else Some (pr_errs r, (Some s2, w2)))))"

section \<open>A poll returns\<close>

lemma drain_returns:
  assumes "\<And>since w ps w'. dn_list d since w = (Inr ps, w') \<Longrightarrow> \<forall>p \<in> set ps. de_at p \<le> T"
  shows "\<exists>y. drain_pages d since r x = Some y"
proof (induction "nat (T - since)" arbitrary: since r x rule: less_induct)
  case less
  have step: "\<exists>y. drain_pages d nx r' x' = Some y"
    if l: "dn_list d since (snd x) = (Inr ps, w1)" and n: "next_page ps since = (Some nx, es)" for ps w1 nx es r' x'
  proof (rule less)
    from n have ps: "ps \<noteq> []" "nx = de_at (last ps) - 1000" "since < nx"
      by (auto simp: next_page_def list_limit_def microsecond_def Let_def split: if_splits)
    with assms [OF l] have "de_at (last ps) \<le> T" by simp
    with ps show "nat (T - nx) < nat (T - since)" by simp
  qed
  show ?case
    by (subst drain_pages.simps) (auto simp: step simp del: split_paired_Ex split: prod.splits sum.splits option.splits)
qed

section \<open>The cursor while the pages are drained\<close>

text \<open>Only \<open>Poll\<close> itself moves the cursor; a state that is lost ends the drain.\<close>

lemma handle_person_cursor:
  "handle_person d sub (Some s, w) = (r, x') \<Longrightarrow> \<exists>s'. fst x' = Some s' \<and> dl_cursor s' = dl_cursor s"
  by (auto simp: handle_person_def load_state_def record_done_def split: if_splits prod.splits sum.splits)

lemma handle_all_cursor:
  "handle_all d ps r (Some s, w) = (r', x') \<Longrightarrow> \<exists>s'. fst x' = Some s' \<and> dl_cursor s' = dl_cursor s"
proof (induction ps arbitrary: r s w)
  case (Cons p ps)
  obtain hr x1 where h: "handle_person d (de_subject p) (Some s, w) = (hr, x1)"
    by (cases "handle_person d (de_subject p) (Some s, w)")
  obtain s1 w1 where x1: "x1 = (Some s1, w1)" "dl_cursor s1 = dl_cursor s"
    using handle_person_cursor [OF h] by (cases x1) auto
  with Cons.prems h obtain r1 where "handle_all d ps r1 (Some s1, w1) = (r', x')" by (auto split: sum.splits)
  with Cons.IH x1 show ?case by metis
qed auto

lemma persist_cursor:
  "persist_state d (Some s, w) = (r, x') \<Longrightarrow> fst x' = (case r of Inl e \<Rightarrow> None | Inr u \<Rightarrow> Some s)"
  by (auto simp: persist_state_def split: prod.splits sum.splits)

lemma drain_cursor:
  assumes "drain_pages d since r x = Some y"
  shows "\<forall>s s'. fst x = Some s \<longrightarrow> fst (snd y) = Some s' \<longrightarrow> dl_cursor s' = dl_cursor s"
proof -
  let ?P = "\<lambda>(d :: 'a deletions) (since :: time) (r :: poll_result) (x :: 'a receiver) y.
    \<forall>s s'. fst x = Some s \<longrightarrow> fst (snd y) = Some s' \<longrightarrow> dl_cursor s' = dl_cursor s"
  have "?P d since r x y"
  proof (rule drain_pages.raw_induct [of ?P "(((d, since), r), x)" y, unfolded prod.case])
    show "drain_pages d since r x = Some y" by (rule assms)
  next
    fix f :: "'a deletions \<Rightarrow> time \<Rightarrow> poll_result \<Rightarrow> 'a receiver \<Rightarrow> (poll_result \<times> 'a receiver) option"
      and d since r x y
    assume ih: "\<And>d since r x y. f d since r x = Some y \<Longrightarrow> ?P d since r x y"
      and body: "(case dn_list d since (snd x) of (Inl e, w1) \<Rightarrow> Some (poll_errors [e] r, (fst x, w1))
        | (Inr ps, w1) \<Rightarrow> (case handle_all d ps r (fst x, w1) of (r1, x1) \<Rightarrow> (case persist_state d x1 of
            (Inl e, x2) \<Rightarrow> Some (poll_errors [e] r1, x2)
          | (Inr _, x2) \<Rightarrow> (case next_page ps since of
              (None, es) \<Rightarrow> Some (poll_errors es r1, x2)
            | (Some nx, es) \<Rightarrow> f d nx (poll_errors es r1) x2)))) = Some y"
    show "?P d since r x y"
    proof (intro allI impI)
    fix s s'
    assume s: "fst x = Some s" and s': "fst (snd y) = Some s'"
    obtain lr w1 where l: "dn_list d since (snd x) = (lr, w1)" by (cases "dn_list d since (snd x)")
    show "dl_cursor s' = dl_cursor s"
    proof (cases lr)
      case (Inl e)
      with body l s s' show ?thesis by auto
    next
      case (Inr ps)
      obtain r1 x1 where h: "handle_all d ps r (Some s, w1) = (r1, x1)" by (cases "handle_all d ps r (Some s, w1)")
      obtain s1 w2 where x1: "x1 = (Some s1, w2)" "dl_cursor s1 = dl_cursor s"
        using handle_all_cursor [OF h] by (cases x1) auto
      obtain pr x2 where p: "persist_state d (Some s1, w2) = (pr, x2)" by (cases "persist_state d (Some s1, w2)")
      note x2 = persist_cursor [OF p]
      obtain nx es where n: "next_page ps since = (nx, es)" by (cases "next_page ps since")
      from body l Inr h x1(1) p n s have b: "(case pr of Inl e \<Rightarrow> Some (poll_errors [e] r1, x2)
        | Inr u \<Rightarrow> (case nx of None \<Rightarrow> Some (poll_errors es r1, x2)
          | Some n \<Rightarrow> f d n (poll_errors es r1) x2)) = Some y" by (cases pr) simp_all
      show ?thesis
      proof (cases "\<exists>n u. pr = Inr u \<and> nx = Some n")
        case True
        then obtain n u where "pr = Inr u" "nx = Some n" by blast
        with b have "f d n (poll_errors es r1) x2 = Some y" by simp
        with ih [OF this] x2 x1(2) s' \<open>pr = Inr u\<close> show ?thesis by simp
      next
        case False
        with b have "fst (snd y) = fst x2" by (auto split: sum.splits option.splits)
        with x2 x1(2) s' show ?thesis by (cases pr) auto
      qed
    qed
    qed
  qed
  then show ?thesis .
qed

section \<open>The contract of a receiver's world\<close>

text \<open>
  What the poll relies on: \<open>gone subject w\<close> says that the person's data is erased, no call brings
  it back, an erasure that succeeds makes it so, and \<open>trusted w\<close> that the saved record names only
  people who are gone.
\<close>

locale erasure =
  fixes d :: "'w deletions"
    and gone :: "string \<Rightarrow> 'w \<Rightarrow> bool"
    and trusted :: "'w \<Rightarrow> bool"
  assumes listing: "dn_list d since w = (lr, w') \<Longrightarrow> trusted w \<Longrightarrow> trusted w' \<and> (gone sub w \<longrightarrow> gone sub w')"
    and erasing: "erase_person d who w = (r, w') \<Longrightarrow> trusted w \<Longrightarrow> trusted w' \<and> (gone sub w \<longrightarrow> gone sub w')"
    and erased: "erase_person d who w = (Inr (), w') \<Longrightarrow> trusted w \<Longrightarrow> gone who w'"
    and loading: "load_state d (None, w) = (sr, (m, w')) \<Longrightarrow> trusted w \<Longrightarrow>
      trusted w' \<and> (gone sub w \<longrightarrow> gone sub w') \<and> (\<forall>s. m = Some s \<longrightarrow> is_done s sub \<longrightarrow> gone sub w')"
    and saving: "save_state d s w = (r, w') \<Longrightarrow> trusted w \<Longrightarrow> (\<And>t. is_done s t \<Longrightarrow> gone t w) \<Longrightarrow>
      trusted w' \<and> (gone sub w \<longrightarrow> gone sub w')"
begin

definition honest :: "'w receiver \<Rightarrow> bool" where
  "honest x = (trusted (snd x) \<and> (\<forall>s t. fst x = Some s \<longrightarrow> is_done s t \<longrightarrow> gone t (snd x)))"

definition advances :: "'w receiver \<Rightarrow> 'w receiver \<Rightarrow> bool" where
  "advances x x' = (honest x' \<and> (\<forall>t. gone t (snd x) \<longrightarrow> gone t (snd x')))"

lemma honest_load:
  assumes "honest x" and "load_state d x = (r, x')"
  shows "advances x x'"
proof (cases "fst x")
  case None
  then obtain w where x: "x = (None, w)" by (cases x) auto
  with assms obtain m w' where x': "x' = (m, w')" "load_state d (None, w) = (r, (m, w'))" "trusted w"
    by (cases x') (auto simp: honest_def)
  then show ?thesis using loading [of w r m w'] by (auto simp: advances_def honest_def x)
next
  case (Some s)
  with assms show ?thesis by (cases x) (auto simp: load_state_def advances_def)
qed

lemma honest_list:
  "honest (m, w) \<Longrightarrow> dn_list d since w = (r, w') \<Longrightarrow> advances (m, w) (m, w')"
  using listing [of since w r w'] by (auto simp: honest_def advances_def)

lemma honest_persist:
  "honest x \<Longrightarrow> persist_state d x = (r, x') \<Longrightarrow> advances x x'"
  by (auto simp: persist_state_def honest_def advances_def split: prod.splits option.splits sum.splits
      dest!: saving)

lemma is_done_record: "is_done (record_done sub now s) t \<Longrightarrow> t = sub \<or> is_done s t"
proof -
  assume "is_done (record_done sub now s) t"
  then have "t \<in> fst ` set (AList.update sub now (dl_done s))"
    by (auto simp: is_done_def record_done_def map_of_eq_None_iff)
  then have "t \<in> dom (map_of (AList.update sub now (dl_done s)))" by (simp add: dom_map_of_conv_image_fst)
  then show ?thesis by (auto simp: update_conv' is_done_def split: if_splits)
qed

lemma advances_trans: "advances x y \<Longrightarrow> advances y z \<Longrightarrow> advances x z"
  by (simp add: advances_def)

lemma handle_person_step:
  assumes "honest x" and "handle_person d sub x = (r, x')"
  shows "advances x x' \<and> (r = Inr () \<longrightarrow> gone sub (snd x'))"
proof -
  obtain lr x1 where l: "load_state d x = (lr, x1)" by (cases "load_state d x")
  note a1 = honest_load [OF assms(1) l]
  show ?thesis
  proof (cases lr)
    case (Inl e)
    with assms(2) l a1 show ?thesis by (auto simp: handle_person_def)
  next
    case (Inr s)
    with l have x1: "fst x1 = Some s"
      by (auto simp: load_state_def Let_def split: prod.splits option.splits sum.splits)
    obtain w1 where w: "x1 = (Some s, w1)" using x1 by (cases x1) auto
    have h: "trusted w1" "\<And>t. is_done s t \<Longrightarrow> gone t w1" using a1 by (auto simp: advances_def honest_def w)
    show ?thesis
    proof (cases "is_done s sub")
      case True
      with assms(2) l Inr a1 h show ?thesis by (auto simp: handle_person_def w)
    next
      case False
      obtain er w2 where e: "erase_person d sub w1 = (er, w2)" by (cases "erase_person d sub w1")
      have g: "trusted w2" "gone t w1 \<Longrightarrow> gone t w2" "er = Inr () \<Longrightarrow> gone sub w2" for t
        using erasing [OF e h(1)] erased [of sub w1 w2] e h(1) by auto
      have "advances x1 x'"
        using assms(2) l Inr False e h g
        by (auto simp: handle_person_def w advances_def honest_def dest!: is_done_record split: sum.splits)
      moreover have "r = Inr () \<longrightarrow> gone sub (snd x')"
        using assms(2) l Inr False e g by (auto simp: handle_person_def w split: sum.splits)
      ultimately show ?thesis using a1 by (auto intro: advances_trans)
    qed
  qed
qed

text \<open>A person of a page is gone, or at or after the earliest failure.\<close>

definition covered :: "poll_result \<Rightarrow> 'w \<Rightarrow> deleted \<Rightarrow> bool" where
  "covered r w p = (gone (de_subject p) w \<or> (pr_failed r \<noteq> 0 \<and> pr_failed r \<le> de_at p))"

definition failing :: "poll_result \<Rightarrow> poll_result \<Rightarrow> bool" where
  "failing r r' = ((pr_failed r \<noteq> 0 \<longrightarrow> pr_failed r' \<noteq> 0 \<and> pr_failed r' \<le> pr_failed r) \<and>
     ((pr_errs r = [] \<longrightarrow> pr_failed r = 0) \<longrightarrow> (pr_errs r' = [] \<longrightarrow> pr_failed r' = 0)) \<and>
     (pr_errs r' = [] \<longrightarrow> pr_errs r = []))"

lemma failing_refl [simp]: "failing r r"
  by (simp add: failing_def)

lemma failing_trans: "failing r s \<Longrightarrow> failing s t \<Longrightarrow> failing r t"
  by (auto simp: failing_def)

lemma covered_mono: "covered r (snd x) p \<Longrightarrow> failing r r' \<Longrightarrow> advances x x' \<Longrightarrow> covered r' (snd x') p"
  by (auto simp: covered_def failing_def advances_def)

lemma handle_all_step:
  assumes "honest x" and "\<forall>p \<in> set ps. 0 < de_at p" and "handle_all d ps r x = (r', x')"
  shows "advances x x' \<and> failing r r' \<and> set (pr_handled r') \<subseteq> set (pr_handled r) \<union> de_at ` set ps \<and>
    (\<forall>p \<in> set ps. covered r' (snd x') p)"
  using assms
proof (induction ps arbitrary: r x)
  case Nil
  then show ?case by (simp add: advances_def)
next
  case (Cons p ps)
  obtain hr x1 where h: "handle_person d (de_subject p) x = (hr, x1)" by (cases "handle_person d (de_subject p) x")
  define r1 where "r1 = (case hr of Inl e \<Rightarrow> poll_fail (de_at p) e r | Inr u \<Rightarrow> r\<lparr>pr_handled := pr_handled r @ [de_at p]\<rparr>)"
  have p: "advances x x1" "hr = Inr () \<Longrightarrow> gone (de_subject p) (snd x1)"
    using handle_person_step [OF Cons.prems(1) h] by auto
  have rest: "handle_all d ps r1 x1 = (r', x')"
    using Cons.prems(3) h by (cases hr) (simp_all add: r1_def)
  have c: "covered r1 (snd x1) p" "failing r r1" "set (pr_handled r1) \<subseteq> insert (de_at p) (set (pr_handled r))"
    using p(2) Cons.prems(2) by (auto simp: r1_def covered_def failing_def poll_fail_def split: sum.splits)
  have "honest x1" using p(1) by (simp add: advances_def)
  with Cons.IH [OF _ _ rest] Cons.prems(2)
  have ih: "advances x1 x'" "failing r1 r'" "set (pr_handled r') \<subseteq> set (pr_handled r1) \<union> de_at ` set ps"
    "\<forall>q \<in> set ps. covered r' (snd x') q" by auto
  show ?case
    using p(1) ih c covered_mono [OF c(1) ih(2,1)] by (auto intro: advances_trans failing_trans)
qed

text \<open>
  A page of a sorted list: everyone after its start and before the last of it is on it, and on a
  page that is not full everyone after its start.
\<close>

lemma page_covers:
  assumes "sorted (map de_at log)" and "ps = take n (filter (\<lambda>p. since < de_at p) log)"
    and "p \<in> set log" and "since < de_at p" and "p \<notin> set ps"
  shows "length ps = n \<and> (\<forall>q \<in> set ps. de_at q \<le> de_at p)"
proof -
  let ?xs = "filter (\<lambda>p. since < de_at p) log"
  have split: "?xs = ps @ drop n ?xs" by (simp add: assms(2))
  moreover have "p \<in> set ?xs" using assms(3,4) by simp
  ultimately have p: "p \<in> set (drop n ?xs)" using assms(5) by (metis UnE set_append)
  then have "n < length ?xs" by (cases "n < length ?xs") auto
  then have "length ps = n" by (simp add: assms(2))
  moreover have "sorted (map de_at ?xs)" using assms(1) by (simp add: sorted_filter)
  then have "sorted (map de_at (ps @ drop n ?xs))" using split by simp
  then have "\<forall>q \<in> set ps. de_at q \<le> de_at p" using p by (auto simp: sorted_append)
  ultimately show ?thesis by simp
qed

lemma page_step:
  assumes "sorted (map de_at log)" and "ps = take list_limit (filter (\<lambda>p. since < de_at p) log)"
    and old: "\<forall>h \<in> set (pr_handled r). \<forall>p \<in> set log. start < de_at p \<longrightarrow> de_at p < h \<longrightarrow> covered r (snd x) p"
    and before: "\<forall>p \<in> set log. start < de_at p \<longrightarrow> de_at p \<le> since \<longrightarrow> covered r (snd x) p"
    and step: "advances x x'" "failing r r'" "set (pr_handled r') \<subseteq> set (pr_handled r) \<union> de_at ` set ps"
      "\<forall>p \<in> set ps. covered r' (snd x') p"
  shows "\<forall>h \<in> set (pr_handled r'). \<forall>p \<in> set log. start < de_at p \<longrightarrow> de_at p < h \<longrightarrow> covered r' (snd x') p"
    and "\<forall>p \<in> set log. start < de_at p \<longrightarrow> (length ps < list_limit \<or> (\<exists>q \<in> set ps. de_at p < de_at q)) \<longrightarrow>
      covered r' (snd x') p"
proof -
  have fresh: "covered r' (snd x') p"
    if "p \<in> set log" "start < de_at p" "length ps < list_limit \<or> (\<exists>q \<in> set ps. de_at p < de_at q)" for p
  proof (cases "de_at p \<le> since")
    case True
    with before that show ?thesis by (blast intro: covered_mono [OF _ step(2,1)])
  next
    case False
    with that have "p \<in> set ps" using page_covers [OF assms(1,2), of p] by force
    with step(4) show ?thesis by blast
  qed
  then show "\<forall>p \<in> set log. start < de_at p \<longrightarrow> (length ps < list_limit \<or> (\<exists>q \<in> set ps. de_at p < de_at q)) \<longrightarrow>
    covered r' (snd x') p" by blast
  show "\<forall>h \<in> set (pr_handled r'). \<forall>p \<in> set log. start < de_at p \<longrightarrow> de_at p < h \<longrightarrow> covered r' (snd x') p"
    using old step(3) fresh by (blast intro: covered_mono [OF _ step(2,1)])
qed

lemma covered_errors [simp]: "covered (poll_errors es r) w p = covered r w p"
  by (simp add: covered_def poll_errors_def)

lemma poll_errors_simps [simp]:
  "pr_handled (poll_errors es r) = pr_handled r" "pr_errs (poll_errors es r) = pr_errs r @ es"
  "pr_failed (poll_errors es r) = pr_failed r"
  by (simp_all add: poll_errors_def)

lemma failing_errors [simp]: "failing r (poll_errors es r)"
  by (simp add: failing_def)

lemma drain_covers:
  assumes feed: "\<And>since w ps w'. dn_list d since w = (Inr ps, w') \<Longrightarrow>
      ps = take list_limit (filter (\<lambda>p. since < de_at p) log)"
    and log: "sorted (map de_at log)" "\<forall>p \<in> set log. 0 < de_at p \<and> de_at p \<le> T"
    and x: "honest x" "drain_pages d since r x = Some (r', x')"
    and old: "\<forall>h \<in> set (pr_handled r). \<forall>p \<in> set log. start < de_at p \<longrightarrow> de_at p < h \<longrightarrow> covered r (snd x) p"
    and before: "\<forall>p \<in> set log. start < de_at p \<longrightarrow> de_at p \<le> since \<longrightarrow> covered r (snd x) p"
  shows "advances x x' \<and> failing r r' \<and>
    (\<forall>h \<in> set (pr_handled r'). \<forall>p \<in> set log. start < de_at p \<longrightarrow> de_at p < h \<longrightarrow> covered r' (snd x') p) \<and>
    (pr_errs r' = [] \<longrightarrow> (\<forall>p \<in> set log. start < de_at p \<longrightarrow> covered r' (snd x') p))"
  using x old before
proof (induction "nat (T - since)" arbitrary: since r x rule: less_induct)
  case less
  obtain m w where xm: "x = (m, w)" by (cases x)
  obtain lr w1 where l: "dn_list d since w = (lr, w1)" by (cases "dn_list d since w")
  have a1: "advances x (m, w1)" using honest_list less.prems(1) l by (simp add: xm)
  show ?case
  proof (cases lr)
    case (Inl e)
    have "r' = poll_errors [e] r" "x' = (m, w1)"
      using less.prems(2) l Inl by (simp_all add: drain_pages.simps [of d since] xm)
    moreover have "covered r (snd x) p \<Longrightarrow> covered r w1 p" for p
      using covered_mono [OF _ failing_refl a1] by simp
    ultimately show ?thesis using a1 less.prems(3) by auto
  next
    case (Inr ps)
    have ps: "ps = take list_limit (filter (\<lambda>p. since < de_at p) log)" using feed l Inr by simp
    then have sub: "set ps \<subseteq> set log" by (auto dest: in_set_takeD)
    obtain r1 x1 where h: "handle_all d ps r (m, w1) = (r1, x1)" by (cases "handle_all d ps r (m, w1)")
    have h1: "honest (m, w1)" using a1 by (simp add: advances_def)
    have pos: "\<forall>p \<in> set ps. 0 < de_at p" using sub log(2) by blast
    note step = handle_all_step [OF h1 pos h]
    obtain pr x2 where p: "persist_state d x1 = (pr, x2)" by (cases "persist_state d x1")
    have "honest x1" using step by (simp add: advances_def)
    then have a2: "advances x1 x2" using p by (rule honest_persist)
    have all: "advances x x2" "failing r r1" "set (pr_handled r1) \<subseteq> set (pr_handled r) \<union> de_at ` set ps"
        "\<forall>p \<in> set ps. covered r1 (snd x2) p"
      using a1 a2 step by (auto intro: advances_trans covered_mono [OF _ failing_refl a2])
    note pg = page_step [OF log(1) ps less.prems(3,4) all]
    have unfold: "Some (r', x') = (case pr of Inl e \<Rightarrow> Some (poll_errors [e] r1, x2)
      | Inr u \<Rightarrow> (case next_page ps since of (None, es) \<Rightarrow> Some (poll_errors es r1, x2)
        | (Some nx, es) \<Rightarrow> drain_pages d nx (poll_errors es r1) x2))"
      using less.prems(2) l Inr h p by (simp add: drain_pages.simps [of d since] xm split: sum.splits)
    show ?thesis
    proof (cases "\<exists>nx es. pr = Inr () \<and> next_page ps since = (Some nx, es)")
      case True
      then obtain nx es where n: "pr = Inr ()" "next_page ps since = (Some nx, es)" by blast
      then have nx: "ps \<noteq> []" "nx = de_at (last ps) - 1000" "since < nx"
        by (auto simp: next_page_def list_limit_def microsecond_def Let_def split: if_splits)
      then have lst: "last ps \<in> set ps" by simp
      with sub log(2) have "de_at (last ps) \<le> T" by blast
      with nx have "nat (T - nx) < nat (T - since)" by simp
      moreover have "honest x2" using all(1) by (simp add: advances_def)
      moreover have "drain_pages d nx (poll_errors es r1) x2 = Some (r', x')" using unfold n by simp
      moreover have "\<forall>p \<in> set log. start < de_at p \<longrightarrow> de_at p \<le> nx \<longrightarrow> covered r1 (snd x2) p"
      proof (intro ballI impI)
        fix p assume "p \<in> set log" "start < de_at p" "de_at p \<le> nx"
        moreover from this have "de_at p < de_at (last ps)" using nx by simp
        ultimately show "covered r1 (snd x2) p" using pg(2) lst by blast
      qed
      ultimately have "advances x2 x' \<and> failing (poll_errors es r1) r' \<and>
          (\<forall>h \<in> set (pr_handled r'). \<forall>p \<in> set log. start < de_at p \<longrightarrow> de_at p < h \<longrightarrow> covered r' (snd x') p) \<and>
          (pr_errs r' = [] \<longrightarrow> (\<forall>p \<in> set log. start < de_at p \<longrightarrow> covered r' (snd x') p))"
        using less.hyps [of nx x2 "poll_errors es r1"] pg(1) by simp
      then show ?thesis using all(1,2) by (meson advances_trans failing_trans failing_errors)
    next
      case False
      then obtain es where r': "r' = poll_errors es r1" "x' = x2" "es = [] \<longrightarrow> length ps < list_limit"
        using unfold by (auto simp: next_page_def Let_def split: sum.splits prod.splits option.splits if_splits)
      have "failing r r'" using failing_trans [OF all(2) failing_errors] r'(1) by simp
      then show ?thesis using all(1) pg r' by auto
    qed
  qed
qed

lemma cursor_loop_cases:
  "cursor_loop failed ats c = c \<or>
   (cursor_loop failed ats c \<in> set ats \<and> (failed = 0 \<or> cursor_loop failed ats c < failed))"
  by (induction ats arbitrary: c) (auto split: if_splits, metis+)

text \<open>
  Nobody between the start of a poll and the cursor it leaves is skipped, whatever failed; nobody
  at all when nothing did.
\<close>

lemma poll_covers:
  assumes feed: "\<And>since w ps w'. dn_list d since w = (Inr ps, w') \<Longrightarrow>
      ps = take list_limit (filter (\<lambda>p. since < de_at p) log)"
    and log: "sorted (map de_at log)" "\<forall>p \<in> set log. 0 < de_at p"
    and x: "honest x" "poll d x = Some (errs, x')"
    and l: "load_state d x = (Inr s, x1)" and start: "start = since_of s (dn_now d (snd x1))"
  shows "advances x x' \<and> (errs = [] \<longrightarrow> (\<forall>p \<in> set log. start < de_at p \<longrightarrow> gone (de_subject p) (snd x'))) \<and>
    (\<forall>s'. fst x' = Some s' \<longrightarrow> dl_cursor s < dl_cursor s' \<longrightarrow>
      (\<forall>p \<in> set log. start < de_at p \<longrightarrow> de_at p < dl_cursor s' \<longrightarrow> gone (de_subject p) (snd x')))"
proof (cases "dn_callback d")
  case None
  then have "errs \<noteq> []" "x' = x" using x(2) by (auto simp: poll_def)
  moreover have "\<And>s'. fst x = Some s' \<Longrightarrow> s' = s"
    using l by (cases x) (auto simp: load_state_def split: option.splits)
  ultimately show ?thesis using x(1) by (auto simp: advances_def)
next
  case (Some cb)
  have x1: "fst x1 = Some s"
    using l by (auto simp: load_state_def Let_def split: prod.splits option.splits sum.splits)
  have a1: "advances x x1" using honest_load [OF x(1) l] .
  obtain r m w2 where dr: "drain_pages d start no_result x1 = Some (r, (m, w2))"
    using x(2) Some l by (auto simp: poll_def start split: option.splits)
  have "\<exists>T. \<forall>p \<in> set log. de_at p \<le> T"
    by (rule exI [of _ "Max (de_at ` set log)"]) simp
  then obtain T where "\<forall>p \<in> set log. 0 < de_at p \<and> de_at p \<le> T" using log(2) by blast
  with drain_covers [where T = T and start = start, OF feed log(1) _ _ dr] a1
  have drained: "advances x1 (m, w2)" "failing no_result r"
      "\<forall>h \<in> set (pr_handled r). \<forall>p \<in> set log. start < de_at p \<longrightarrow> de_at p < h \<longrightarrow> covered r w2 p"
      "pr_errs r = [] \<longrightarrow> (\<forall>p \<in> set log. start < de_at p \<longrightarrow> covered r w2 p)"
    by (simp_all add: advances_def no_result_def)
  have nofail: "pr_errs r = [] \<longrightarrow> pr_failed r = 0" using drained(2) by (simp add: failing_def no_result_def)
  define cursor where "cursor = cursor_after (pr_handled r) (pr_failed r)"
  have gone_at: "gone (de_subject p) w2"
    if "dl_cursor s < cursor" "cursor \<noteq> 0" "p \<in> set log" "start < de_at p" "de_at p < cursor" for p
  proof -
    have "cursor \<in> set (pr_handled r)" "pr_failed r = 0 \<or> cursor < pr_failed r"
      using that(2) cursor_loop_cases [of "pr_failed r" "pr_handled r" 0]
      by (auto simp: cursor_def cursor_after_def)
    with drained(3) that show ?thesis by (force simp: covered_def)
  qed
  have all_gone: "pr_errs r = [] \<Longrightarrow> p \<in> set log \<Longrightarrow> start < de_at p \<Longrightarrow> gone (de_subject p) w2" for p
    using drained(4) nofail by (simp add: covered_def)
  have zero: "cursor = 0 \<Longrightarrow> p \<in> set log \<Longrightarrow> \<not> de_at p < cursor" for p using log(2) by force
  have unfold: "Some (errs, x') = (case m of None \<Rightarrow> Some (pr_errs r, (None, w2))
    | Some s2 \<Rightarrow> if dl_cursor s2 < cursor
        then (case persist_state d (Some (s2\<lparr>dl_cursor := cursor\<rparr>), w2) of
            (Inl e, x3) \<Rightarrow> Some (pr_errs r @ [e], x3)
          | (Inr _, x3) \<Rightarrow> Some (pr_errs r, x3))
        else Some (pr_errs r, (Some s2, w2)))"
    using x(2) [symmetric] Some l dr by (cases m) (simp_all add: poll_def start cursor_def Let_def)
  show ?thesis
  proof (cases "\<exists>s2. m = Some s2 \<and> dl_cursor s2 < cursor")
    case False
    then have e: "errs = pr_errs r" "x' = (m, w2)" using unfold by (auto split: option.splits)
    have "\<And>s'. fst x' = Some s' \<Longrightarrow> dl_cursor s' = dl_cursor s" using drain_cursor [OF dr] x1 e(2) by simp
    then have "\<forall>s'. fst x' = Some s' \<longrightarrow> dl_cursor s < dl_cursor s' \<longrightarrow>
      (\<forall>p \<in> set log. start < de_at p \<longrightarrow> de_at p < dl_cursor s' \<longrightarrow> gone (de_subject p) (snd x'))" by (metis less_irrefl)
    moreover have "advances x x'" unfolding e(2) by (rule advances_trans [OF a1 drained(1)])
    moreover have "errs = [] \<longrightarrow> (\<forall>p \<in> set log. start < de_at p \<longrightarrow> gone (de_subject p) (snd x'))"
      using all_gone e by simp
    ultimately show ?thesis by (intro conjI)
  next
    case True
    then obtain s2 where s2: "m = Some s2" "dl_cursor s2 < cursor" by blast
    then have cs: "dl_cursor s2 = dl_cursor s" using drain_cursor [OF dr, rule_format, OF x1, of s2] by simp
    obtain pr x3 where p: "persist_state d (Some (s2\<lparr>dl_cursor := cursor\<rparr>), w2) = (pr, x3)"
      by (cases "persist_state d (Some (s2\<lparr>dl_cursor := cursor\<rparr>), w2)")
    have "honest (Some (s2\<lparr>dl_cursor := cursor\<rparr>), w2)"
      using drained(1) by (simp add: advances_def honest_def s2 is_done_def)
    from honest_persist [OF this p] have a3: "advances (m, w2) x3" by (simp add: advances_def)
    have e: "x' = x3" "errs = [] \<longrightarrow> pr_errs r = []" "fst x3 = (case pr of Inl e \<Rightarrow> None | Inr u \<Rightarrow> Some (s2\<lparr>dl_cursor := cursor\<rparr>))"
      using unfold s2 p persist_cursor [OF p] by (auto split: sum.splits)
    have "covered r w2 p \<Longrightarrow> pr_failed r = 0 \<Longrightarrow> gone (de_subject p) (snd x3)" for p
      using a3 by (auto simp: covered_def advances_def)
    moreover have "gone t w2 \<Longrightarrow> gone t (snd x3)" for t using a3 by (simp add: advances_def)
    moreover have "advances x x'" using a1 drained(1) a3 e(1) by (blast intro: advances_trans)
    moreover have "errs = [] \<longrightarrow> (\<forall>p \<in> set log. start < de_at p \<longrightarrow> gone (de_subject p) (snd x'))"
      using e(1,2) all_gone calculation(2) by simp
    moreover have "\<forall>s'. fst x' = Some s' \<longrightarrow> dl_cursor s' = cursor" using e(1,3) by (auto split: sum.splits)
    moreover have "\<forall>p \<in> set log. start < de_at p \<longrightarrow> de_at p < cursor \<longrightarrow> gone (de_subject p) (snd x')"
      using gone_at zero s2(2) cs calculation(2) e(1) by metis
    ultimately show ?thesis by auto
  qed
qed

end

lemma poll_returns:
  assumes "\<And>since w ps w'. dn_list d since w = (Inr ps, w') \<Longrightarrow> \<forall>p \<in> set ps. de_at p \<le> T"
  shows "\<exists>errs x'. poll d x = Some (errs, x')"
proof -
  obtain lr x1 where l: "load_state d x = (lr, x1)" by (cases "load_state d x")
  show ?thesis
  proof (cases lr)
    case (Inr s)
    have "\<exists>y. drain_pages d (since_of s (dn_now d (snd x1))) no_result x1 = Some y"
      by (rule drain_returns [OF assms])
    then obtain r m w2 where "drain_pages d (since_of s (dn_now d (snd x1))) no_result x1 = Some (r, (m, w2))"
      by (metis surj_pair)
    with l Inr show ?thesis by (auto simp: poll_def Let_def split: option.splits prod.splits sum.splits)
  qed (use l in \<open>auto simp: poll_def\<close>)
qed

text \<open>
  C18: a poll returns. Registre's answers are read from JSON, whose times end with the year 9999, so
  there is a last moment \<open>T\<close> a notice can carry; every page that asks for another one starts it
  later, and nothing else is unbounded.
\<close>

theorem poll_terminates:
  assumes "\<And>since w ps w'. dn_list d since w = (Inr ps, w') \<Longrightarrow> \<forall>p \<in> set ps. de_at p \<le> T"
  shows "\<exists>errs x'. poll d x = Some (errs, x')"
  using assms by (rule poll_returns)

text \<open>A Registre that answers every call with the same full page.\<close>

definition repeating :: "nat deletions" where
  "repeating = \<lparr>dn_issuer = ''i'', dn_list = (\<lambda>since w. (Inr (replicate 1000 \<lparr>de_subject = ''s'', de_at = 7\<rparr>), w)),
     dn_callback = Some (\<lambda>iss sub w. (Inr (), Suc w)), dn_erase = None, dn_store = None, dn_now = (\<lambda>w. 9)\<rparr>"

theorem poll_terminates_witness: "\<exists>errs x'. poll repeating (None, 0) = Some (errs, x')"
  by (rule poll_terminates [of repeating 7]) (auto simp: repeating_def)

end
