(* ===== verification/Erasure.thy ===== *)
theory Erasure
  imports Deletions Pg_Identities
begin

text \<open>
  A receiver whose \<open>Erase\<close> is \<open>pg.Store.EraseIdentity\<close>: the contract of the poll holds of it for any
  app callback, any list and any other process that does not bring an erased identity back, and so
  a poll skips nobody.
\<close>

section \<open>The world of an app on \<open>porte/pg\<close>\<close>

record 'a erase_world =
  ew_db :: db
  ew_app :: 'a
  ew_saved :: saved_state
  ew_full :: bool
  ew_now :: time

text \<open>The saved bytes are one row: a load reads them, a save replaces them unless the disk is full.\<close>

definition one_row :: "'a erase_world state_store" where
  "one_row = \<lparr>ss_load = (\<lambda>w. (Inr (ew_saved w), w)),
     ss_save = (\<lambda>s w. if ew_full w then (Inl (Plain ''disk full''), w)
       else (Inr (), w\<lparr>ew_saved := StateDoc (dl_cursor s) (Some (dl_done s))\<rparr>))\<rparr>"

definition erase_on_pg :: "(nat \<Rightarrow> db \<Rightarrow> db) \<Rightarrow> string \<Rightarrow> string \<Rightarrow> 'a erase_world \<Rightarrow> unit result \<times> 'a erase_world" where
  "erase_on_pg others prov sub w = (case erase_identity others prov sub (ew_db w) of
     (r, d) \<Rightarrow> (r, w\<lparr>ew_db := d\<rparr>))"

definition receiver_on_pg ::
  "string \<Rightarrow> (time \<Rightarrow> 'a erase_world \<Rightarrow> deleted list result \<times> 'a erase_world)
    \<Rightarrow> (string \<Rightarrow> string \<Rightarrow> 'a erase_world \<Rightarrow> unit result \<times> 'a erase_world) \<Rightarrow> (nat \<Rightarrow> db \<Rightarrow> db)
    \<Rightarrow> 'a erase_world deletions" where
  "receiver_on_pg iss listed callback others = \<lparr>dn_issuer = iss, dn_list = listed, dn_callback = Some callback,
     dn_erase = Some (erase_on_pg others), dn_store = Some one_row, dn_now = ew_now\<rparr>"

definition erased_for :: "string \<Rightarrow> string \<Rightarrow> 'a erase_world \<Rightarrow> bool" where
  "erased_for iss sub w = (owner_of iss sub (ew_db w) = None)"

definition trusts :: "string \<Rightarrow> 'a erase_world \<Rightarrow> bool" where
  "trusts iss w = (\<forall>s sub. decode_state (ew_saved w) = Inr s \<longrightarrow> is_done s sub \<longrightarrow> erased_for iss sub w)"

text \<open>A call that leaves the saved state alone and brings no erased identity back.\<close>

definition calm :: "string \<Rightarrow> 'a erase_world \<Rightarrow> 'a erase_world \<Rightarrow> bool" where
  "calm iss w w' = (ew_saved w' = ew_saved w \<and> (\<forall>sub. erased_for iss sub w \<longrightarrow> erased_for iss sub w'))"

lemma calm_trusts: "calm iss w w' \<Longrightarrow> trusts iss w \<Longrightarrow> trusts iss w'"
  by (auto simp: calm_def trusts_def)

lemma calm_trans: "calm iss w w' \<Longrightarrow> calm iss w' w'' \<Longrightarrow> calm iss w w''"
  by (simp add: calm_def)

section \<open>An erasure brings nobody back\<close>

lemma owner_of_None: "owner_of prov sub d = None \<longleftrightarrow> (\<forall>i \<in> set (identities d). identity_key i \<noteq> (prov, sub))"
  by (auto simp: owner_of_def row_with_None)

lemma owner_of_erased_other:
  "owner_of prov sub d = None \<Longrightarrow> owner_of prov sub (erased user prov' sub' d) = None"
  by (auto simp: owner_of_None erased_def without_user_def Let_def set_delete_where)

lemma erase_attempt_calm:
  assumes "with_user_lock user False (erase_locked user prov' sub') d = (r, d')" and "owner_of prov sub d = None"
  shows "owner_of prov sub d' = None"
proof (cases r)
  case (Inl e)
  with assms show ?thesis by (simp add: owner_of_same_rows [OF with_user_lock_error])
next
  case (Inr u)
  with assms erase_attempt_Inr [of user prov' sub' d u d'] show ?thesis
    by (auto simp: owner_of_same_rows owner_of_erased_other)
qed

lemma identity_owner_snd: "snd (identity_owner prov sub d) = tick d"
  by (simp add: identity_owner_def query_def wrapping_def stmt_def split: sum.splits)

lemma erase_loop_calm:
  assumes others: "\<And>n d. owner_of prov sub d = None \<Longrightarrow> owner_of prov sub (others n d) = None"
  shows "erase_loop n others prov' sub' d = (r, d') \<Longrightarrow> owner_of prov sub d = None \<Longrightarrow> owner_of prov sub d' = None"
proof (induction n arbitrary: d)
  case (Suc n)
  obtain lr d1 where o: "identity_owner prov' sub' d = (lr, d1)" by (cases "identity_owner prov' sub' d")
  have d1: "owner_of prov sub d1 = None" using identity_owner_snd [of prov' sub' d] o Suc.prems(2) by simp
  show ?case
  proof (cases "\<exists>user. lr = Inr (Some user)")
    case True
    then obtain user where u: "lr = Inr (Some user)" by blast
    obtain wr d2 where w: "with_user_lock user False (erase_locked user prov' sub') (others n d1) = (wr, d2)"
      by (cases "with_user_lock user False (erase_locked user prov' sub') (others n d1)")
    have "owner_of prov sub d2 = None" by (rule erase_attempt_calm [OF w others [OF d1]])
    with Suc.prems(1) Suc.IH o u w show ?thesis by (auto split: sum.splits if_splits)
  next
    case False
    with Suc.prems(1) o d1 show ?thesis by (auto split: sum.splits option.splits)
  qed
qed simp

section \<open>The contract holds on \<open>porte/pg\<close>\<close>

locale pg_receiver =
  fixes iss :: string
    and listed :: "time \<Rightarrow> 'a erase_world \<Rightarrow> deleted list result \<times> 'a erase_world"
    and callback :: "string \<Rightarrow> string \<Rightarrow> 'a erase_world \<Rightarrow> unit result \<times> 'a erase_world"
    and others :: "nat \<Rightarrow> db \<Rightarrow> db"
  assumes calm_list: "listed since w = (lr, w') \<Longrightarrow> calm iss w w'"
    and calm_callback: "callback iss who w = (r, w') \<Longrightarrow> calm iss w w'"
    and calm_others: "owner_of iss sub db = None \<Longrightarrow> owner_of iss sub (others n db) = None"
begin

lemma calm_erase: "erase_on_pg others iss who w = (r, w') \<Longrightarrow> calm iss w w'"
  by (auto simp: erase_on_pg_def calm_def erased_for_def erase_identity_def split: prod.splits
      intro: erase_loop_calm [OF calm_others])

lemma calm_erase_person:
  assumes "erase_person (receiver_on_pg iss listed callback others) who w = (r, w')"
  shows "calm iss w w' \<and> (r = Inr () \<longrightarrow> erased_for iss who w')"
proof -
  obtain cr w1 where c: "callback iss who w = (cr, w1)" by (cases "callback iss who w")
  obtain er w2 where e: "erase_on_pg others iss who w1 = (er, w2)" by (cases "erase_on_pg others iss who w1")
  have "er = Inr () \<Longrightarrow> erased_for iss who w2"
    using e by (auto simp: erase_on_pg_def erased_for_def erase_identity_def split: prod.splits dest: erase_loop_gone)
  with assms c e calm_callback [OF c] calm_erase [OF e] show ?thesis
    by (auto simp: erase_person_def receiver_on_pg_def split: sum.splits intro: calm_trans)
qed

end

sublocale pg_receiver \<subseteq> erasure "receiver_on_pg iss listed callback others" "erased_for iss" "trusts iss"
proof
  show "dn_list (receiver_on_pg iss listed callback others) since w = (lr, w') \<Longrightarrow> trusts iss w \<Longrightarrow>
      trusts iss w' \<and> (erased_for iss sub w \<longrightarrow> erased_for iss sub w')" for since w lr w' sub
    using calm_list [of since w lr w'] by (auto simp: receiver_on_pg_def calm_def intro: calm_trusts)
  show "erase_person (receiver_on_pg iss listed callback others) who w = (r, w') \<Longrightarrow> trusts iss w \<Longrightarrow>
      trusts iss w' \<and> (erased_for iss sub w \<longrightarrow> erased_for iss sub w')" for who w r w' sub
    using calm_erase_person [of who w r w'] by (auto simp: calm_def intro: calm_trusts)
  show "erase_person (receiver_on_pg iss listed callback others) who w = (Inr (), w') \<Longrightarrow> trusts iss w \<Longrightarrow>
      erased_for iss who w'" for who w w'
    using calm_erase_person [of who w "Inr ()" w'] by simp
  show "load_state (receiver_on_pg iss listed callback others) (None, w) = (sr, (m, w')) \<Longrightarrow> trusts iss w \<Longrightarrow>
      trusts iss w' \<and> (erased_for iss sub w \<longrightarrow> erased_for iss sub w') \<and>
      (\<forall>s. m = Some s \<longrightarrow> is_done s sub \<longrightarrow> erased_for iss sub w')" for w sr m w' sub
    by (auto simp: load_state_def receiver_on_pg_def one_row_def trusts_def split: sum.splits)
  show "save_state (receiver_on_pg iss listed callback others) s w = (r, w') \<Longrightarrow> trusts iss w \<Longrightarrow>
      (\<And>t. is_done s t \<Longrightarrow> erased_for iss t w) \<Longrightarrow>
      trusts iss w' \<and> (erased_for iss sub w \<longrightarrow> erased_for iss sub w')" for s w r w' sub
    by (auto simp: save_state_def receiver_on_pg_def one_row_def trusts_def decode_state_def erased_for_def
        is_done_def split: if_splits)
qed

context pg_receiver begin

lemma poll_on_pg:
  assumes listed: "\<And>since w ps w'. listed since w = (Inr ps, w') \<Longrightarrow>
      ps = take list_limit (filter (\<lambda>p. since < de_at p) log)"
    and "sorted (map de_at log)" and "\<forall>p \<in> set log. 0 < de_at p"
    and "trusts iss w" and "decode_state (ew_saved w) = Inr s"
    and "poll (receiver_on_pg iss listed callback others) (None, w) = Some (errs, (m, w'))"
  shows "trusts iss w' \<and> (\<forall>sub. erased_for iss sub w \<longrightarrow> erased_for iss sub w') \<and>
    (errs = [] \<longrightarrow> (\<forall>p \<in> set log. since_of s (ew_now w) < de_at p \<longrightarrow> erased_for iss (de_subject p) w')) \<and>
    (\<forall>s'. m = Some s' \<longrightarrow> dl_cursor s < dl_cursor s' \<longrightarrow> (\<forall>p \<in> set log.
      since_of s (ew_now w) < de_at p \<longrightarrow> de_at p < dl_cursor s' \<longrightarrow> erased_for iss (de_subject p) w'))"
proof -
  let ?d = "receiver_on_pg iss listed callback others"
  have l: "load_state ?d (None, w) = (Inr s, (Some s, w))"
    using assms(5) by (simp add: load_state_def receiver_on_pg_def one_row_def)
  have start: "since_of s (ew_now w) = since_of s (dn_now ?d (snd (Some s, w)))"
    by (simp add: receiver_on_pg_def)
  have "honest (None, w)" using assms(4) by (simp add: honest_def)
  from poll_covers [OF _ assms(2,3) this assms(6) l start] listed
  show ?thesis by (simp add: receiver_on_pg_def advances_def honest_def)
qed

end

text \<open>
  An app whose callback finds the account by its identity rows and drops what it holds of it, with
  Registre's list as its documentation gives it: oldest first, a thousand at most.
\<close>

definition registre_page :: "deleted list \<Rightarrow> time \<Rightarrow> 'a erase_world \<Rightarrow> deleted list result \<times> 'a erase_world" where
  "registre_page log since w = (Inr (take list_limit (filter (\<lambda>p. since < de_at p) log)), w)"

definition drop_account :: "string \<Rightarrow> string \<Rightarrow> int list erase_world \<Rightarrow> unit result \<times> int list erase_world" where
  "drop_account iss sub w = (case owner_of iss sub (ew_db w) of
     None \<Rightarrow> (Inr (), w)
   | Some user \<Rightarrow> (Inr (), w\<lparr>ew_app := filter (\<lambda>u. u \<noteq> user) (ew_app w)\<rparr>))"

interpretation app: pg_receiver iss "registre_page log" drop_account "\<lambda>n d. d" for iss log
  by unfold_locales (auto simp: registre_page_def drop_account_def calm_def erased_for_def split: option.splits)

text \<open>
  C16: a poll skips nobody. Whatever fails in it, the app's callback, a statement of the erasure, a
  page, a save, the cursor it leaves is one before which everybody Registre listed from the start of
  the poll has no porte identity left; when nothing failed that is everybody it lists. An identity
  that was erased stays so. The app's callback and other processes are asked only not to bring an
  erased identity back and to leave the receiver's state alone.
\<close>

theorem poll_skips_nobody:
  assumes listed: "\<And>since w lr w'. listed since w = (lr, w') \<Longrightarrow> calm iss w w' \<and>
      (\<forall>ps. lr = Inr ps \<longrightarrow> ps = take list_limit (filter (\<lambda>p. since < de_at p) log))"
    and "sorted (map de_at log)" and "\<forall>p \<in> set log. 0 < de_at p"
    and callback: "\<And>who w r w'. callback iss who w = (r, w') \<Longrightarrow> calm iss w w'"
    and others: "\<And>sub db n. owner_of iss sub db = None \<Longrightarrow> owner_of iss sub (others n db) = None"
    and "trusts iss w" and "decode_state (ew_saved w) = Inr s"
    and "poll (receiver_on_pg iss listed callback others) (None, w) = Some (errs, (m, w'))"
  shows "trusts iss w' \<and> (\<forall>sub. erased_for iss sub w \<longrightarrow> erased_for iss sub w') \<and>
    (errs = [] \<longrightarrow> (\<forall>p \<in> set log. since_of s (ew_now w) < de_at p \<longrightarrow> erased_for iss (de_subject p) w')) \<and>
    (\<forall>s'. m = Some s' \<longrightarrow> dl_cursor s < dl_cursor s' \<longrightarrow> (\<forall>p \<in> set log.
      since_of s (ew_now w) < de_at p \<longrightarrow> de_at p < dl_cursor s' \<longrightarrow> erased_for iss (de_subject p) w'))"
proof -
  have r: "pg_receiver iss listed callback others"
    using listed callback others by (unfold_locales) blast+
  show ?thesis
    by (rule pg_receiver.poll_on_pg [OF r _ assms(2,3) assms(6-8)]) (use listed in blast)
qed

definition erased_log :: "deleted list" where
  "erased_log = [\<lparr>de_subject = ''2'', de_at = 7 * minute\<rparr>]"

definition erasing_world :: "int list erase_world" where
  "erasing_world = \<lparr>ew_db = login_db, ew_app = [2], ew_saved = NoState, ew_full = False, ew_now = deletion_retention\<rparr>"

definition erasing_receiver :: "int list erase_world deletions" where
  "erasing_receiver = receiver_on_pg ''local'' (registre_page erased_log) drop_account (\<lambda>n d. d)"

lemma erasing_poll:
  "map_option fst (poll erasing_receiver (None, erasing_world)) = Some []"
  by code_simp


lemma erasing_sorted: "sorted (map de_at erased_log)" "\<forall>p \<in> set erased_log. 0 < de_at p"
  by (simp_all add: erased_log_def duration_units)

lemma erasing_calm:
  "registre_page log since w = (lr, w') \<Longrightarrow> calm iss w w' \<and>
     (\<forall>ps. lr = Inr ps \<longrightarrow> ps = take list_limit (filter (\<lambda>p. since < de_at p) log))"
  "drop_account iss who v = (r, v') \<Longrightarrow> calm iss v v'"
  by (auto simp: registre_page_def drop_account_def calm_def erased_for_def split: option.splits)

theorem poll_skips_nobody_witness:
  "\<exists>x'. poll erasing_receiver (None, erasing_world) = Some ([], x') \<and>
     \<not> erased_for ''local'' ''2'' erasing_world \<and> erased_for ''local'' ''2'' (snd x')"
proof -
  obtain x' where p: "poll erasing_receiver (None, erasing_world) = Some ([], x')"
    using erasing_poll by (cases "poll erasing_receiver (None, erasing_world)") auto
  obtain m w' where x': "x' = (m, w')" by (cases x')
  have t: "trusts ''local'' erasing_world"
    and l: "decode_state (ew_saved erasing_world) = Inr \<lparr>dl_cursor = 0, dl_done = []\<rparr>"
    by (auto simp: trusts_def erasing_world_def decode_state_def is_done_def)
  have "trusts ''local'' w' \<and> (\<forall>sub. erased_for ''local'' sub erasing_world \<longrightarrow> erased_for ''local'' sub w') \<and>
    (([] :: error list) = [] \<longrightarrow> (\<forall>p \<in> set erased_log. since_of \<lparr>dl_cursor = 0, dl_done = []\<rparr> (ew_now erasing_world) < de_at p \<longrightarrow>
      erased_for ''local'' (de_subject p) w')) \<and>
    (\<forall>s'. m = Some s' \<longrightarrow> dl_cursor \<lparr>dl_cursor = 0, dl_done = []\<rparr> < dl_cursor s' \<longrightarrow> (\<forall>p \<in> set erased_log.
      since_of \<lparr>dl_cursor = 0, dl_done = []\<rparr> (ew_now erasing_world) < de_at p \<longrightarrow> de_at p < dl_cursor s' \<longrightarrow>
      erased_for ''local'' (de_subject p) w'))"
    by (rule poll_skips_nobody [where others = "\<lambda>n d. d"], erule erasing_calm(1), rule erasing_sorted(1),
        rule erasing_sorted(2), erule erasing_calm(2), assumption, rule t, rule l, use p x' in \<open>simp add: erasing_receiver_def\<close>)
  then have "erased_for ''local'' ''2'' w'"
    by (simp add: erased_log_def erasing_world_def since_of_def duration_units)
  moreover have "\<not> erased_for ''local'' ''2'' erasing_world"
    unfolding erased_for_def by code_simp
  ultimately show ?thesis using p x' by auto
qed

end
