(* ===== verification/Notices.thy ===== *)
theory Notices
  imports Erasure Directory Jwt
begin

text \<open>
  Registre's pushed deletion notices: the signing keys and when they are fetched again
  (\<open>directory/keys.go\<close>), the checks of a notice and what the route answers (\<open>directory/secevent.go\<close>).
  The records of the JSON documents are what \<open>encoding/json\<close> read of them.
\<close>

section \<open>The keys of the issuer\<close>

record notice_jwk =
  nk_kty :: string
  nk_use :: string
  nk_alg :: string
  nk_kid :: string
  nk_n :: string
  nk_e :: string

text \<open>\<open>int\<close> of the value of at most four bytes.\<close>

definition notice_rsa_key :: "string \<Rightarrow> string \<Rightarrow> rsa_key option" where
  "notice_rsa_key n e =
     (let trim = (\<lambda>s. rev (dropWhile (\<lambda>c. c = CHR ''='') (rev s))) in
      case b64_decode (trim n) of
        None \<Rightarrow> None
      | Some modulus \<Rightarrow> (case b64_decode (trim e) of
          None \<Rightarrow> None
        | Some exponent \<Rightarrow>
            if exponent = [] \<or> 4 < length exponent then None
            else Some \<lparr>rk_modulus = be_value modulus, rk_exponent = be_value exponent\<rparr>))"

record 'w notice_net =
  nn_do :: "string \<Rightarrow> 'w \<Rightarrow> exchange \<times> 'w"
  nn_discovery :: "string \<Rightarrow> discovery option"
  nn_jwks :: "string \<Rightarrow> notice_jwk list option"
  nn_header :: "string \<Rightarrow> (string \<times> string \<times> string) option"
  nn_rsa :: "rsa_key \<Rightarrow> string \<Rightarrow> string \<Rightarrow> bool"
  nn_now :: "'w \<Rightarrow> time"

definition max_key_document :: nat where "max_key_document = 2 ^ 20"

text \<open>\<open>getJSON\<close>: only a request that cannot be built is an error of another kind.\<close>

definition read_json :: "(string \<Rightarrow> 'd option) \<Rightarrow> exchange \<Rightarrow> 'd result" where
  "read_json json x = (case x of
     BadRequest \<Rightarrow> Inl (Plain ''parse the url'')
   | NoAnswer \<Rightarrow> Inl (unavailable ''do'')
   | Answered status body \<Rightarrow>
       if status \<noteq> 200 then Inl (unavailable ''answered another status'')
       else (case read_all body max_key_document of
           Inl e \<Rightarrow> Inl (unavailable ''read'')
         | Inr data \<Rightarrow> (case json data of None \<Rightarrow> Inl (unavailable ''decode'') | Some doc \<Rightarrow> Inr doc)))"

definition get_json :: "'w notice_net \<Rightarrow> (string \<Rightarrow> 'd option) \<Rightarrow> string \<Rightarrow> 'w \<Rightarrow> 'd result \<times> 'w" where
  "get_json net json target w = (case nn_do net target w of (x, w1) \<Rightarrow> (read_json json x, w1))"

definition jwks_uri_of :: "string \<Rightarrow> discovery \<Rightarrow> string result" where
  "jwks_uri_of iss doc =
     (if trim_one_slash (ds_issuer doc) \<noteq> trim_one_slash iss then Inl (unavailable ''discovery names another issuer'')
      else if \<not> has_prefix (ds_jwks_uri doc) ''https://'' \<and> \<not> has_prefix iss ''http://''
      then Inl (unavailable ''jwks_uri is not https'')
      else Inr (ds_jwks_uri doc))"

definition jwks_uri :: "'w notice_net \<Rightarrow> string \<Rightarrow> 'w \<Rightarrow> string result \<times> 'w" where
  "jwks_uri net iss w = (case get_json net (nn_discovery net) (trim_one_slash iss @ ''/.well-known/openid-configuration'') w of
     (Inl e, w1) \<Rightarrow> (Inl e, w1) | (Inr doc, w1) \<Rightarrow> (jwks_uri_of iss doc, w1))"

definition signs :: "notice_jwk \<Rightarrow> bool" where
  "signs k = (nk_kty k = ''RSA'' \<and> nk_use k \<in> {[], ''sig''} \<and> nk_alg k \<in> {[], ''RS256''})"

definition notice_keys :: "notice_jwk list \<Rightarrow> (string \<times> rsa_key) list" where
  "notice_keys ks = rev (List.map_filter (\<lambda>k. if signs k
     then map_option (Pair (nk_kid k)) (notice_rsa_key (nk_n k) (nk_e k)) else None) ks)"

definition fetch_notice_keys :: "'w notice_net \<Rightarrow> string \<Rightarrow> 'w \<Rightarrow> (string \<times> rsa_key) list result \<times> 'w" where
  "fetch_notice_keys net iss w = (case jwks_uri net iss w of
     (Inl e, w1) \<Rightarrow> (Inl e, w1)
   | (Inr location, w1) \<Rightarrow> (case get_json net (nn_jwks net) location w1 of
       (Inl e, w2) \<Rightarrow> (Inl e, w2) | (Inr ks, w2) \<Rightarrow> (Inr (notice_keys ks), w2)))"

record key_set =
  ks_keys :: "(string \<times> rsa_key) list"
  ks_fetched :: time

definition jwks_refetch_gap :: duration where "jwks_refetch_gap = minute"
definition err_unknown_key :: error where "err_unknown_key = Plain ''directory: no signing key with that kid''"

definition key_lookup :: "'w notice_net \<Rightarrow> string \<Rightarrow> string \<Rightarrow> key_set \<times> 'w \<Rightarrow> rsa_key result \<times> key_set \<times> 'w" where
  "key_lookup net iss kid x = (case x of (ks, w) \<Rightarrow>
     (case map_of (ks_keys ks) kid of
        Some key \<Rightarrow> (Inr key, ks, w)
      | None \<Rightarrow>
          if time_sub (nn_now net w) (ks_fetched ks) < jwks_refetch_gap
          then (Inl (unavailable ''unknown kid, keys fetched less than a minute ago''), ks, w)
          else (case fetch_notice_keys net iss w of
              (Inl e, w1) \<Rightarrow> (Inl e, ks\<lparr>ks_fetched := nn_now net w1\<rparr>, w1)
            | (Inr keys, w1) \<Rightarrow>
                ((case map_of keys kid of Some key \<Rightarrow> Inr key | None \<Rightarrow> Inl err_unknown_key),
                 \<lparr>ks_keys = keys, ks_fetched = nn_now net w1\<rparr>, w1))))"

section \<open>A notice\<close>

record notice_claims =
  nc_issuer :: string
  nc_audience :: json_audience
  nc_subject :: string
  nc_issued :: int
  nc_expires :: int
  nc_events :: "string list"

definition user_deleted_event :: string where
  "user_deleted_event = ''https://schemas.facile.studio/event/user-deleted''"
definition secevent_type :: string where "secevent_type = ''secevent+jwt''"
definition max_notice_size :: nat where "max_notice_size = 16 * 2 ^ 10"
definition clock_leeway :: duration where "clock_leeway = minute"
definition max_notice_life :: duration where "max_notice_life = hour"
definition err_bad_notice :: error where "err_bad_notice = Plain ''directory: invalid deletion notice''"

definition has_audience :: "string list \<Rightarrow> string \<Rightarrow> bool" where
  "has_audience xs client = List.member xs client"

definition acceptable :: "string \<Rightarrow> string \<Rightarrow> notice_claims \<Rightarrow> string list \<Rightarrow> time \<Rightarrow> bool" where
  "acceptable iss client c audience now =
     (List.member (nc_events c) user_deleted_event \<and> nc_subject c \<noteq> [] \<and>
      trim_one_slash (nc_issuer c) = trim_one_slash iss \<and> has_audience audience client \<and>
      now - clock_leeway < unix_time (nc_expires c) \<and> unix_time (nc_issued c) \<le> now + clock_leeway \<and>
      time_sub (unix_time (nc_expires c)) (unix_time (nc_issued c)) \<le> max_notice_life)"

text \<open>\<open>nc_json\<close> reads the claims, the audience among them.\<close>

definition decode_claims :: "(string \<Rightarrow> notice_claims option) \<Rightarrow> string \<Rightarrow> (notice_claims \<times> string list) option" where
  "decode_claims json part = (case b64_decode part of
     None \<Rightarrow> None
   | Some raw \<Rightarrow> (case json raw of
       None \<Rightarrow> None
     | Some c \<Rightarrow> map_option (Pair c) (read_audience (nc_audience c))))"

definition valid_signature :: "'w notice_net \<Rightarrow> rsa_key \<Rightarrow> string \<Rightarrow> string \<Rightarrow> string \<Rightarrow> bool" where
  "valid_signature net key header payload signature = (case b64_decode signature of
     None \<Rightarrow> False | Some sig \<Rightarrow> nn_rsa net key (sha256 (header @ ''.'' @ payload)) sig)"

definition verify_notice ::
  "'w notice_net \<Rightarrow> (string \<Rightarrow> notice_claims option) \<Rightarrow> string \<Rightarrow> string \<Rightarrow> string \<Rightarrow> time \<Rightarrow> key_set \<times> 'w
    \<Rightarrow> notice_claims result \<times> key_set \<times> 'w" where
  "verify_notice net json iss client token now x = (case split_on (CHR ''.'') token of
     [header, payload, signature] \<Rightarrow> (case Option.bind (b64_decode header) (nn_header net) of
         None \<Rightarrow> (Inl err_bad_notice, x)
       | Some (alg, typ, kid) \<Rightarrow>
           if alg \<noteq> ''RS256'' \<or> typ \<noteq> secevent_type then (Inl err_bad_notice, x)
           else (case key_lookup net iss kid x of
               (Inl e, y) \<Rightarrow> (Inl (if wraps e err_unavailable then e else err_bad_notice), y)
             | (Inr key, y) \<Rightarrow>
                 if \<not> valid_signature net key header payload signature then (Inl err_bad_notice, y)
                 else (case decode_claims json payload of
                     None \<Rightarrow> (Inl err_bad_notice, y)
                   | Some (c, audience) \<Rightarrow>
                       (if acceptable iss client c audience now then Inr c else Inl err_bad_notice, y))))
   | _ \<Rightarrow> (Inl err_bad_notice, x))"

text \<open>The route: \<open>post\<close> is whether the method is POST, \<open>body\<close> what arrived. The answer is the status.\<close>

definition receive ::
  "'w notice_net \<Rightarrow> (string \<Rightarrow> notice_claims option) \<Rightarrow> string \<Rightarrow> 'w deletions \<Rightarrow> bool \<Rightarrow> string option
    \<Rightarrow> key_set \<times> 'w receiver \<Rightarrow> nat \<times> key_set \<times> 'w receiver" where
  "receive net json client d post body x = (case x of (ks, m, w) \<Rightarrow>
     if \<not> post then (405, x)
     else if dn_callback d = None then (500, x)
     else (case read_all body max_notice_size of
         Inl _ \<Rightarrow> (400, x)
       | Inr raw \<Rightarrow> (case verify_notice net json (dn_issuer d) client (trim_space raw) (nn_now net w) (ks, w) of
           (Inl e, ks1, w1) \<Rightarrow> (if wraps e err_unavailable then 503 else 400, ks1, m, w1)
         | (Inr c, ks1, w1) \<Rightarrow> (case handle_person d (nc_subject c) (m, w1) of
             (Inl e, y) \<Rightarrow> (500, ks1, y)
           | (Inr _, y) \<Rightarrow> (case persist_state d y of
               (Inl e, z) \<Rightarrow> (500, ks1, z) | (Inr _, z) \<Rightarrow> (202, ks1, z))))))"

section \<open>What a notice needs\<close>

text \<open>A signed notice: what \<open>verify\<close> has checked of the token whose claims it returns.\<close>

definition signed_notice ::
  "'w notice_net \<Rightarrow> (string \<Rightarrow> notice_claims option) \<Rightarrow> string \<Rightarrow> string \<Rightarrow> string \<Rightarrow> time \<Rightarrow> rsa_key \<Rightarrow> notice_claims \<Rightarrow> bool" where
  "signed_notice net json iss client token now key c = (case split_on (CHR ''.'') token of
     [header, payload, signature] \<Rightarrow>
       (\<exists>kid. Option.bind (b64_decode header) (nn_header net) = Some (''RS256'', secevent_type, kid)) \<and>
       (\<exists>sig. b64_decode signature = Some sig \<and> nn_rsa net key (sha256 (header @ ''.'' @ payload)) sig) \<and>
       (\<exists>audience. decode_claims json payload = Some (c, audience) \<and> acceptable iss client c audience now)
   | _ \<Rightarrow> False)"

lemma verify_notice_Inr:
  assumes "verify_notice net json iss client token now x = (Inr c, y)"
  shows "\<exists>key. key \<in> snd ` set (ks_keys (fst y)) \<and> signed_notice net json iss client token now key c"
proof -
  obtain header payload signature where parts: "split_on (CHR ''.'') token = [header, payload, signature]"
    using assms by (auto simp: verify_notice_def split: list.splits)
  obtain kid where h: "Option.bind (b64_decode header) (nn_header net) = Some (''RS256'', secevent_type, kid)"
    using assms parts by (auto simp: verify_notice_def split: option.splits if_splits)
  obtain kr y1 where k: "key_lookup net iss kid x = (kr, y1)" by (cases "key_lookup net iss kid x")
  obtain key where key: "kr = Inr key" using assms parts h k by (auto simp: verify_notice_def split: sum.splits)
  have "map_of (ks_keys (fst y1)) kid = Some key"
    using k key by (auto simp: key_lookup_def split: prod.splits option.splits if_splits sum.splits)
  moreover have "y = y1" "signed_notice net json iss client token now key c"
    using assms parts h k key
    by (auto simp: verify_notice_def signed_notice_def valid_signature_def split: option.splits if_splits)
  ultimately show ?thesis by (force dest: map_of_SomeD)
qed

text \<open>The requests for the keys are all that \<open>verify\<close> does to the world.\<close>

lemma get_json_inv:
  assumes "\<And>t w. I w \<Longrightarrow> I (snd (nn_do net t w))" and "get_json net json t w = (r, w')" and "I w"
  shows "I w'"
  using assms(1) [OF assms(3), of t] assms(2) by (auto simp: get_json_def split: prod.splits)

lemma fetch_notice_keys_inv:
  assumes "\<And>t w. I w \<Longrightarrow> I (snd (nn_do net t w))" and "fetch_notice_keys net iss w = (r, w')" and "I w"
  shows "I w'"
  using assms(2,3)
  by (auto simp: fetch_notice_keys_def jwks_uri_def split: prod.splits sum.splits intro: get_json_inv [of I net, OF assms(1)])

lemma verify_notice_inv:
  assumes "\<And>t w. I w \<Longrightarrow> I (snd (nn_do net t w))" and "verify_notice net json iss client token now (ks, w) = (r, ks', w')"
    and "I w"
  shows "I w'"
proof -
  have key: "I w1" if "key_lookup net iss kid (ks, w) = (kr, ks1, w1)" for kid kr ks1 w1
    using that assms(3)
    by (auto simp: key_lookup_def split: prod.splits option.splits if_splits sum.splits
        intro: fetch_notice_keys_inv [of I net, OF assms(1)])
  show ?thesis
    using assms(2,3)
    by (auto simp: verify_notice_def split: list.splits option.splits if_splits prod.splits sum.splits intro: key)
qed

text \<open>A receiver that trusts only what is so: the record it saved, and the copy it holds.\<close>

definition believes :: "string \<Rightarrow> deletion_state option \<Rightarrow> 'a erase_world \<Rightarrow> bool" where
  "believes iss m w = (trusts iss w \<and> (\<forall>s sub. m = Some s \<longrightarrow> is_done s sub \<longrightarrow> erased_for iss sub w))"

context pg_receiver begin

lemma honest_believes: "honest (m, w) = believes iss m w"
  by (auto simp: honest_def believes_def)

lemma calm_believes: "calm iss w w' \<Longrightarrow> believes iss m w \<Longrightarrow> believes iss m w'"
  by (auto simp: believes_def calm_def intro: calm_trusts [unfolded calm_def])

lemma handled_on_pg:
  assumes "handle_person (receiver_on_pg iss listed callback others) sub (m, w) = (Inr u, y)"
    and "persist_state (receiver_on_pg iss listed callback others) y = (Inr v, (m', w'))" and "believes iss m w"
  shows "erased_for iss sub w' \<and> believes iss m' w' \<and> (\<forall>t. erased_for iss t w \<longrightarrow> erased_for iss t w')"
proof -
  have a: "advances (m, w) y \<and> erased_for iss sub (snd y)"
    using handle_person_step [OF _ assms(1)] assms(3) by (simp add: honest_believes)
  then have "advances y (m', w')" using honest_persist [OF _ assms(2)] by (simp add: advances_def)
  with a show ?thesis by (auto simp: advances_def honest_believes)
qed

end

text \<open>
  C17: the route acknowledges nothing it has not verified and done. A \<open>202\<close> answers a POST whose body
  is a \<open>secevent+jwt\<close> notice with the issuer, the audience, the user-deleted event and the time
  window, signed by a key of the issuer's set, and the person it names has no porte identity left.
  An answer other than \<open>202\<close> and \<open>500\<close> leaves the rows and the record of the receiver as they were,
  and no answer brings an erased identity back. The requests for the keys are asked not to write.
\<close>

theorem receive_needs_notice:
  assumes "\<And>since w lr w'. listed since w = (lr, w') \<Longrightarrow> calm iss w w'"
    and "\<And>who w r w'. callback iss who w = (r, w') \<Longrightarrow> calm iss w w'"
    and "\<And>sub db n. owner_of iss sub db = None \<Longrightarrow> owner_of iss sub (others n db) = None"
    and fetch: "\<And>t v. ew_db (snd (nn_do net t v)) = ew_db v \<and> ew_saved (snd (nn_do net t v)) = ew_saved v"
    and b: "believes iss m w"
    and r: "receive net json client (receiver_on_pg iss listed callback others) post body (ks, m, w) = (st, ks', m', w')"
  shows "(st = 202 \<longrightarrow> post \<and> (\<exists>raw key c. read_all body max_notice_size = Inr raw \<and>
      key \<in> snd ` set (ks_keys ks') \<and>
      signed_notice net json iss client (trim_space raw) (nn_now net w) key c \<and>
      erased_for iss (nc_subject c) w' \<and> believes iss m' w')) \<and>
    (st \<notin> {202, 500} \<longrightarrow> m' = m \<and> ew_db w' = ew_db w \<and> ew_saved w' = ew_saved w)"
proof -
  let ?d = "receiver_on_pg iss listed callback others"
  have pg: "pg_receiver iss listed callback others" using assms(1-3) by unfold_locales blast+
  show ?thesis
  proof (cases "\<exists>raw. post \<and> read_all body max_notice_size = Inr raw")
    case False
    with r show ?thesis by (auto simp: receive_def receiver_on_pg_def split: if_splits sum.splits)
  next
    case True
    then obtain raw where post: "post" and raw: "read_all body max_notice_size = Inr raw" by blast
    obtain vr ks1 w1 where v: "verify_notice net json iss client (trim_space raw) (nn_now net w) (ks, w) = (vr, ks1, w1)"
      by (cases "verify_notice net json iss client (trim_space raw) (nn_now net w) (ks, w)") auto
    have same: "ew_db w1 = ew_db w \<and> ew_saved w1 = ew_saved w"
      using fetch by (intro verify_notice_inv [of "\<lambda>u. ew_db u = ew_db w \<and> ew_saved u = ew_saved w", OF _ v]) simp_all
    then have "calm iss w w1" by (simp add: calm_def erased_for_def)
    then have b1: "believes iss m w1" by (rule pg_receiver.calm_believes [OF pg _ b])
    show ?thesis
    proof (cases vr)
      case (Inl e)
      with r post raw v same show ?thesis by (auto simp: receive_def receiver_on_pg_def split: if_splits)
    next
      case (Inr c)
      obtain hr y where h: "handle_person ?d (nc_subject c) (m, w1) = (hr, y)" by (cases "handle_person ?d (nc_subject c) (m, w1)")
      obtain pr z where p: "persist_state ?d y = (pr, z)" by (cases "persist_state ?d y")
      have out: "(st, ks', m', w') = (case hr of Inl e \<Rightarrow> (500, ks1, y) | Inr u \<Rightarrow>
          (case pr of Inl e \<Rightarrow> (500, ks1, z) | Inr u \<Rightarrow> (202, ks1, z)))"
        using r post raw v Inr h p by (auto simp: receive_def receiver_on_pg_def split: sum.splits)
      show ?thesis
      proof (cases "\<exists>u v. hr = Inr u \<and> pr = Inr v")
        case True
        with out h p have "handle_person ?d (nc_subject c) (m, w1) = (Inr (), y)" "persist_state ?d y = (Inr (), (m', w'))"
            "ks' = ks1" "st = 202" by auto
        with pg_receiver.handled_on_pg [OF pg this(1,2) b1] verify_notice_Inr [OF v [unfolded Inr]] post raw
        show ?thesis by auto
      next
        case False
        with out show ?thesis by (auto split: sum.splits)
      qed
    qed
  qed
qed

definition pushed_claims :: notice_claims where
  "pushed_claims = \<lparr>nc_issuer = ''local'', nc_audience = OneAudience ''app'', nc_subject = ''2'', nc_issued = 890,
     nc_expires = 1000, nc_events = [user_deleted_event]\<rparr>"

definition pushing_net :: "int list erase_world notice_net" where
  "pushing_net = \<lparr>nn_do = (\<lambda>t w. (NoAnswer, w)), nn_discovery = (\<lambda>b. None), nn_jwks = (\<lambda>b. None),
     nn_header = (\<lambda>h. Some (''RS256'', secevent_type, ''k'')), nn_rsa = (\<lambda>key digest sig. sig \<noteq> []),
     nn_now = (\<lambda>w. unix_time 900)\<rparr>"

definition pushed_keys :: key_set where
  "pushed_keys = \<lparr>ks_keys = [(''k'', \<lparr>rk_modulus = 3, rk_exponent = 3\<rparr>)], ks_fetched = 0\<rparr>"

lemma pushed_notice_verifies:
  "verify_notice pushing_net (\<lambda>p. Some pushed_claims) ''local'' ''app'' (trim_space ''AQAB.AQAB.AQAB'')
     (unix_time 900) (pushed_keys, erasing_world) = (Inr pushed_claims, pushed_keys, erasing_world)"
proof -
  have d: "b64_decode ''AQAB'' = Some [CHR 0x01, CHR 0x00, CHR 0x01]" by code_simp
  have s: "split_on (CHR ''.'') (trim_space ''AQAB.AQAB.AQAB'') = [''AQAB'', ''AQAB'', ''AQAB'']" by code_simp
  have a: "acceptable ''local'' ''app'' pushed_claims [''app''] (unix_time 900)"
    by (simp add: acceptable_def pushed_claims_def has_audience_def unix_time_exact unix_epoch_def duration_units
        clock_leeway_def max_notice_life_def time_sub_def min_duration_def max_duration_def)
  have au: "read_audience (nc_audience pushed_claims) = Some [''app'']"
    by (simp add: pushed_claims_def read_audience_def)
  show ?thesis
    by (simp add: verify_notice_def s d key_lookup_def valid_signature_def decode_claims_def au a pushing_net_def
        pushed_keys_def)
qed

lemma erasing_receiver_fields:
  "dn_issuer erasing_receiver = ''local''" "dn_callback erasing_receiver \<noteq> None" "nc_subject pushed_claims = ''2''"
  by (simp_all add: erasing_receiver_def receiver_on_pg_def pushed_claims_def)

lemma pushed_notice_accepted:
  "\<exists>m' w'. receive pushing_net (\<lambda>p. Some pushed_claims) ''app'' erasing_receiver True (Some ''AQAB.AQAB.AQAB'')
     (pushed_keys, None, erasing_world) = (202, pushed_keys, m', w')"
proof -
  have r: "read_all (Some ''AQAB.AQAB.AQAB'') max_notice_size = Inr ''AQAB.AQAB.AQAB''"
    by (simp add: read_all_def max_notice_size_def)
  have n: "nn_now pushing_net erasing_world = unix_time 900" by (simp add: pushing_net_def)
  have "case handle_person erasing_receiver ''2'' (None, erasing_world) of (hr, y) \<Rightarrow>
      hr = Inr () \<and> fst (persist_state erasing_receiver y) = Inr ()"
    by code_simp
  then obtain y z where "handle_person erasing_receiver ''2'' (None, erasing_world) = (Inr (), y)"
      "persist_state erasing_receiver y = (Inr (), z)"
    by (cases "handle_person erasing_receiver ''2'' (None, erasing_world)") (auto simp: fst_def split: prod.splits)
  then show ?thesis
    using erasing_receiver_fields
    by (cases z) (simp add: receive_def r n pushed_notice_verifies del: One_nat_def)
qed

theorem receive_needs_notice_witness:
  "\<exists>m' w'. receive pushing_net (\<lambda>p. Some pushed_claims) ''app'' erasing_receiver True (Some ''AQAB.AQAB.AQAB'')
     (pushed_keys, None, erasing_world) = (202, pushed_keys, m', w') \<and>
     \<not> erased_for ''local'' ''2'' erasing_world \<and> erased_for ''local'' ''2'' w'"
proof -
  obtain m' w' where p: "receive pushing_net (\<lambda>p. Some pushed_claims) ''app''
      (receiver_on_pg ''local'' (registre_page erased_log) drop_account (\<lambda>n d. d)) True (Some ''AQAB.AQAB.AQAB'')
      (pushed_keys, None, erasing_world) = (202, pushed_keys, m', w')"
    using pushed_notice_accepted by (auto simp: erasing_receiver_def)
  have b: "believes ''local'' None erasing_world"
    by (auto simp: believes_def trusts_def erasing_world_def decode_state_def is_done_def)
  have n: "ew_db (snd (nn_do pushing_net t v)) = ew_db v \<and> ew_saved (snd (nn_do pushing_net t v)) = ew_saved v" for t v
    by (simp add: pushing_net_def)
  have calm: "registre_page erased_log since w = (lr, v) \<Longrightarrow> calm ''local'' w v"
    "drop_account ''local'' who u = (r, u') \<Longrightarrow> calm ''local'' u u'" for since w lr v who u r u'
    using erasing_calm by blast+
  note sound = receive_needs_notice [where others = "\<lambda>n d. d" and listed = "registre_page erased_log"
      and callback = drop_account, OF _ _ _ n b p]
  have "True \<and> (\<exists>raw key c. read_all (Some ''AQAB.AQAB.AQAB'') max_notice_size = Inr raw \<and>
      key \<in> snd ` set (ks_keys pushed_keys) \<and>
      signed_notice pushing_net (\<lambda>p. Some pushed_claims) ''local'' ''app'' (trim_space raw)
        (nn_now pushing_net erasing_world) key c \<and>
      erased_for ''local'' (nc_subject c) w' \<and> believes ''local'' m' w')"
    by (rule mp [OF conjunct1 [OF sound] refl]) (erule calm(1), erule calm(2), assumption)
  then obtain raw key c where c: "signed_notice pushing_net (\<lambda>p. Some pushed_claims) ''local'' ''app''
      (trim_space raw) (nn_now pushing_net erasing_world) key c" "erased_for ''local'' (nc_subject c) w'"
    by blast
  from c(1) have "c = pushed_claims"
    by (auto simp: signed_notice_def decode_claims_def split: list.splits option.splits)
  with c(2) have "erased_for ''local'' ''2'' w'" by (simp add: erasing_receiver_fields)
  moreover have "\<not> erased_for ''local'' ''2'' erasing_world" unfolding erased_for_def by code_simp
  ultimately show ?thesis using pushed_notice_accepted p by (auto simp: erasing_receiver_def)
qed

end
