(* ===== verification/Keys.thy ===== *)
theory Keys
  imports Stores "HOL-Library.Multiset"
begin

text \<open>
  API keys: minting (\<open>keys/keys.go\<close>), the administrative routes and the middleware
  (\<open>keys/manager.go\<close>). The store is any that implements \<open>keys.Store\<close>; what the manager relies on
  of it is the locale \<open>key_store\<close>. A nil slice of origins is the empty one. \<open>parse\<close> is the scheme
  and the host \<open>net/url\<close> reads of a referer. The context that carries the key (\<open>keys/context.go\<close>) is
  the result of the middleware.
\<close>

section \<open>Keys and their store\<close>

definition kind_secret :: string where "kind_secret = ''secret''"
definition kind_public :: string where "kind_public = ''public''"

record api_key =
  ak_id :: int
  ak_app :: string
  ak_kind :: string
  ak_prefix :: string
  ak_token_hash :: string
  ak_origins :: "string list"
  ak_daily_quota :: int
  ak_used_today :: int
  ak_created_at :: time
  ak_revoked_at :: "time option"

record create_request =
  cq_app :: string
  cq_kind :: string
  cq_origins :: "string list"
  cq_daily_quota :: int

record 's key_store_ops =
  kt_create :: "api_key \<Rightarrow> 's \<Rightarrow> api_key result \<times> 's"
  kt_find :: "string \<Rightarrow> 's \<Rightarrow> api_key result \<times> 's"
  kt_list :: "string \<Rightarrow> 's \<Rightarrow> api_key list result \<times> 's"
  kt_revoke :: "int \<Rightarrow> 's \<Rightarrow> unit result \<times> 's"
  kt_record_usage :: "int \<Rightarrow> int \<Rightarrow> 's \<Rightarrow> unit result \<times> 's"
  kt_usage_today :: "'s \<Rightarrow> (int \<rightharpoonup> int) result \<times> 's"

definition usage_of :: "(int \<rightharpoonup> int) \<Rightarrow> int \<Rightarrow> int" where
  "usage_of u i = (case u i of None \<Rightarrow> 0 | Some n \<Rightarrow> n)"

text \<open>The raw token, its prefix and its hash.\<close>

definition generate_token :: "string option \<Rightarrow> string \<Rightarrow> string \<Rightarrow> string \<Rightarrow> (string \<times> string \<times> string) result" where
  "generate_token entropy service app kind = (case entropy of
     None \<Rightarrow> Inl (Wrap ''porte/keys: generate entropy'' (Plain ''rand''))
   | Some e \<Rightarrow>
       (let raw = service @ (if kind = kind_public then ''_pub_'' else ''_'') @ app @ ''_'' @ hex_encode (take 32 e) in
        Inr (raw, take 16 raw, hash_token raw)))"

section \<open>The manager\<close>

record 's key_manager =
  km_store :: "'s key_store_ops"
  km_prefix :: string

definition new_key_manager :: "'s key_store_ops \<Rightarrow> string \<Rightarrow> 's key_manager" where
  "new_key_manager st service = \<lparr>km_store = st, km_prefix = (if service = [] then ''porte'' else service)\<rparr>"

definition list_keys :: "'s key_manager \<Rightarrow> string \<Rightarrow> 's \<Rightarrow> api_key list result \<times> 's" where
  "list_keys m app s = (case kt_list (km_store m) app s of
     (Inl e, s1) \<Rightarrow> (Inl e, s1)
   | (Inr ks, s1) \<Rightarrow> (case kt_usage_today (km_store m) s1 of
       (Inl e, s2) \<Rightarrow> (Inl e, s2)
     | (Inr u, s2) \<Rightarrow> (Inr (map (\<lambda>k. k\<lparr>ak_used_today := usage_of u (ak_id k)\<rparr>) ks), s2)))"

text \<open>\<open>body\<close> is what \<open>httpjson.DecodeJSON\<close> made of the request.\<close>

definition create_key ::
  "'s key_manager \<Rightarrow> string option \<Rightarrow> create_request result \<Rightarrow> time \<Rightarrow> 's \<Rightarrow> (api_key \<times> string) result \<times> 's" where
  "create_key m entropy body now s = (case body of
     Inl e \<Rightarrow> (Inl e, s)
   | Inr req \<Rightarrow>
       if trim_space (cq_app req) = [] then (Inl (invalid ''app is required''), s)
       else let kind = (if cq_kind req \<noteq> kind_public then kind_secret else cq_kind req) in
         (case generate_token entropy (km_prefix m) (cq_app req) kind of
            Inl e \<Rightarrow> (Inl e, s)
          | Inr (raw, start, hash) \<Rightarrow> (case kt_create (km_store m)
                \<lparr>ak_id = 0, ak_app = cq_app req, ak_kind = kind, ak_prefix = start, ak_token_hash = hash,
                  ak_origins = cq_origins req, ak_daily_quota = cq_daily_quota req, ak_used_today = 0,
                  ak_created_at = now, ak_revoked_at = None\<rparr> s of
              (Inl e, s1) \<Rightarrow> (Inl e, s1)
            | (Inr k, s1) \<Rightarrow> (Inr (k, raw), s1))))"

text \<open>\<open>strconv.ParseInt\<close> in base 10 at 64 bits.\<close>

definition parse_int64 :: "string \<Rightarrow> int option" where
  "parse_int64 s =
     (let neg = (s \<noteq> [] \<and> hd s = CHR ''-'');
          ds = (if s \<noteq> [] \<and> hd s \<in> {CHR ''-'', CHR ''+''} then tl s else s);
          n = int (undec ds) in
      if ds = [] \<or> (\<exists>c \<in> set ds. c \<notin> set ''0123456789'') then None
      else if neg then (if n \<le> 2 ^ 63 then Some (- n) else None)
      else (if n < 2 ^ 63 then Some n else None))"

definition revoke_key :: "'s key_manager \<Rightarrow> string \<Rightarrow> 's \<Rightarrow> unit result \<times> 's" where
  "revoke_key m param s = (case parse_int64 param of
     None \<Rightarrow> (Inl (invalid ''id must be an integer''), s)
   | Some i \<Rightarrow> (case kt_revoke (km_store m) i s of (Inl e, s1) \<Rightarrow> (Inl e, s1) | (Inr _, s1) \<Rightarrow> (Inr (), s1)))"

section \<open>The middleware\<close>

record key_request =
  kr_authorization :: string
  kr_query_key :: string
  kr_origin :: string
  kr_referer :: string

definition extract_token :: "key_request \<Rightarrow> string" where
  "extract_token r = (if has_prefix (kr_authorization r) ''Bearer '' then drop 7 (kr_authorization r) else kr_query_key r)"

definition request_origin :: "(string \<Rightarrow> (string \<times> string) option) \<Rightarrow> key_request \<Rightarrow> string" where
  "request_origin parse r =
     (if kr_origin r = [] \<and> kr_referer r \<noteq> []
      then (case parse (kr_referer r) of None \<Rightarrow> [] | Some (scheme, host) \<Rightarrow> scheme @ ''://'' @ host)
      else kr_origin r)"

definition origin_allowed :: "(string \<Rightarrow> (string \<times> string) option) \<Rightarrow> key_request \<Rightarrow> api_key \<Rightarrow> bool" where
  "origin_allowed parse r k =
     (ak_kind k \<noteq> kind_public \<or> ak_origins k = [] \<or>
      (\<exists>o1 \<in> set (ak_origins k). equal_fold o1 (request_origin parse r)))"

definition validate_origin :: "(string \<Rightarrow> (string \<times> string) option) \<Rightarrow> key_request \<Rightarrow> api_key \<Rightarrow> unit result" where
  "validate_origin parse r k =
     (if origin_allowed parse r k then Inr () else Inl (forbidden ''origin not allowed for this API key''))"

definition check_quota :: "'s key_store_ops \<Rightarrow> api_key \<Rightarrow> 's \<Rightarrow> unit result \<times> 's" where
  "check_quota st k s =
     (if ak_daily_quota k \<le> 0 then (Inr (), s)
      else case kt_usage_today st s of
        (Inl e, s1) \<Rightarrow> (Inl e, s1)
      | (Inr u, s1) \<Rightarrow>
          (if ak_daily_quota k \<le> usage_of u (ak_id k) then Inl (rate_limited ''daily API quota exceeded'') else Inr (), s1))"

text \<open>\<open>Authenticate\<close> up to the recording of the usage.\<close>

definition admit_key ::
  "'s key_manager \<Rightarrow> (string \<Rightarrow> (string \<times> string) option) \<Rightarrow> key_request \<Rightarrow> 's \<Rightarrow> api_key result \<times> 's" where
  "admit_key m parse r s =
     (if extract_token r = [] then (Inl (unauthorized ''missing API key''), s)
      else case kt_find (km_store m) (hash_token (extract_token r)) s of
        (Inl e, s1) \<Rightarrow> (Inl (unauthorized ''invalid or revoked API key''), s1)
      | (Inr k, s1) \<Rightarrow>
          if ak_revoked_at k \<noteq> None then (Inl (unauthorized ''invalid or revoked API key''), s1)
          else (case validate_origin parse r k of
            Inl e \<Rightarrow> (Inl e, s1)
          | Inr _ \<Rightarrow> (case check_quota (km_store m) k s1 of
              (Inl e, s2) \<Rightarrow> (Inl e, s2)
            | (Inr _, s2) \<Rightarrow> (Inr k, s2))))"

text \<open>The key the next handler finds in its context; the error of the recording is dropped.\<close>

definition authenticate_key ::
  "'s key_manager \<Rightarrow> (string \<Rightarrow> (string \<times> string) option) \<Rightarrow> key_request \<Rightarrow> 's \<Rightarrow> api_key result \<times> 's" where
  "authenticate_key m parse r s = (case admit_key m parse r s of
     (Inl e, s1) \<Rightarrow> (Inl e, s1)
   | (Inr k, s1) \<Rightarrow> (Inr k, snd (kt_record_usage (km_store m) (ak_id k) 1 s1)))"

section \<open>Histories\<close>

text \<open>
  A request to the routes or through the middleware, or something outside the manager: another day,
  the fate of the coming statements. \<open>kept\<close> are the keys nobody revokes.
\<close>

inductive key_step :: "'s key_manager \<Rightarrow> ('s \<Rightarrow> 's \<Rightarrow> bool) \<Rightarrow> int set \<Rightarrow> 's \<Rightarrow> 's \<Rightarrow> bool" for m beyond kept where
  created: "key_step m beyond kept s (snd (create_key m entropy body now s))"
| listed: "key_step m beyond kept s (snd (list_keys m app s))"
| revoked: "key_step m beyond kept s (snd (revoke_key m param s))" if "\<And>i. parse_int64 param = Some i \<Longrightarrow> i \<notin> kept"
| authenticated: "key_step m beyond kept s (snd (authenticate_key m parse r s))"
| beyond: "key_step m beyond kept s s'" if "beyond s s'"

text \<open>
  Requests of the middleware that overlap: one is admitted while at most \<open>n\<close> are between their check
  and their recording, and a recording that fails does not count as one. The last component counts
  the admissions of key \<open>i\<close>.
\<close>

inductive traffic :: "'s key_manager \<Rightarrow> nat \<Rightarrow> int \<Rightarrow> 's \<times> int list \<times> nat \<Rightarrow> 's \<times> int list \<times> nat \<Rightarrow> bool" for m n i where
  admitted: "traffic m n i (s, fl, c) (s', ak_id k # fl, if ak_id k = i then Suc c else c)"
    if "admit_key m parse r s = (Inr k, s')" and "length fl < n"
| refused: "traffic m n i (s, fl, c) (s', fl, c)" if "admit_key m parse r s = (Inl e, s')"
| recorded: "traffic m n i (s, fl, c) (s', remove1 j fl, c)"
    if "j \<in> set fl" and "kt_record_usage (km_store m) j 1 s = (Inr u, s')"

section \<open>What the manager relies on of its store\<close>

text \<open>\<open>used\<close> is what a key has consumed today.\<close>

locale key_store =
  fixes st :: "'s key_store_ops"
    and table :: "'s \<Rightarrow> api_key list"
    and used :: "'s \<Rightarrow> int \<Rightarrow> int"
    and ok :: "'s \<Rightarrow> bool"
  assumes unique: "ok s \<Longrightarrow> distinct (map ak_token_hash (table s)) \<and> distinct (map ak_id (table s))"
    and creates: "ok s \<Longrightarrow> kt_create st k s = (Inr k', s') \<Longrightarrow> \<exists>n. k' = k\<lparr>ak_id := n\<rparr> \<and>
      table s' = table s @ [k'\<lparr>ak_used_today := 0, ak_revoked_at := None\<rparr>] \<and> used s' = used s \<and> used s n = 0 \<and> ok s'"
    and create_fails: "ok s \<Longrightarrow> kt_create st k s = (Inl e, s') \<Longrightarrow> table s' = table s \<and> used s' = used s \<and> ok s'"
    and finds: "ok s \<Longrightarrow> kt_find st h s = (r, s') \<Longrightarrow> table s' = table s \<and> used s' = used s \<and> ok s' \<and>
      (\<forall>k. r = Inr k \<longrightarrow> k \<in> set (table s) \<and> ak_token_hash k = h)"
    and lists: "ok s \<Longrightarrow> kt_list st app s = (lr, s') \<Longrightarrow> table s' = table s \<and> used s' = used s \<and> ok s' \<and>
      (\<forall>ks. lr = Inr ks \<longrightarrow> set ks = {k \<in> set (table s). app = [] \<or> ak_app k = app})"
    and revokes: "ok s \<Longrightarrow> kt_revoke st i s = (Inr u, s') \<Longrightarrow> used s' = used s \<and> ok s' \<and> (\<exists>t.
      table s' = map (\<lambda>k. if ak_id k = i \<and> ak_revoked_at k = None then k\<lparr>ak_revoked_at := Some t\<rparr> else k) (table s))"
    and revoke_fails: "ok s \<Longrightarrow> kt_revoke st i s = (Inl e, s') \<Longrightarrow> table s' = table s \<and> used s' = used s \<and> ok s'"
    and records: "ok s \<Longrightarrow> kt_record_usage st i n s = (ur, s') \<Longrightarrow> table s' = table s \<and> ok s' \<and>
      used s' = (case ur of Inl e \<Rightarrow> used s | Inr u \<Rightarrow> (used s)(i := used s i + n))"
    and counts: "ok s \<Longrightarrow> kt_usage_today st s = (cr, s') \<Longrightarrow> table s' = table s \<and> used s' = used s \<and> ok s' \<and>
      (\<forall>u. cr = Inr u \<longrightarrow> (\<forall>i. usage_of u i = used s i))"
begin

lemma admit_sound:
  assumes "ok s" and "km_store m = st" and "admit_key m parse r s = (res, s')"
  shows "table s' = table s \<and> used s' = used s \<and> ok s' \<and> (\<forall>k. res = Inr k \<longrightarrow> extract_token r \<noteq> [] \<and>
    k \<in> set (table s) \<and> ak_token_hash k = hash_token (extract_token r) \<and> ak_revoked_at k = None \<and>
    origin_allowed parse r k \<and> (0 < ak_daily_quota k \<longrightarrow> used s (ak_id k) < ak_daily_quota k))"
proof (cases "extract_token r = []")
  case True
  with assms show ?thesis by (auto simp: admit_key_def)
next
  case False
  obtain fr s1 where f: "kt_find st (hash_token (extract_token r)) s = (fr, s1)"
    by (cases "kt_find st (hash_token (extract_token r)) s")
  note f1 = finds [OF assms(1) f]
  show ?thesis
  proof (cases "\<exists>k. fr = Inr k \<and> ak_revoked_at k = None \<and> origin_allowed parse r k")
    case False': False
    with False assms f f1 show ?thesis by (auto simp: admit_key_def validate_origin_def split: sum.splits if_splits)
  next
    case True
    then obtain k where k: "fr = Inr k" "ak_revoked_at k = None" "origin_allowed parse r k" by blast
    obtain q s2 where q: "check_quota st k s1 = (q, s2)" by (cases "check_quota st k s1")
    have "table s2 = table s \<and> used s2 = used s \<and> ok s2 \<and>
        (q = Inr () \<longrightarrow> 0 < ak_daily_quota k \<longrightarrow> used s (ak_id k) < ak_daily_quota k)"
      using q f1 counts [of s1] by (fastforce simp: check_quota_def split: if_splits prod.splits sum.splits)
    moreover have "res = (case q of Inl e \<Rightarrow> Inl e | Inr u \<Rightarrow> Inr k) \<and> s' = s2"
      using assms(2,3) False f k q by (auto simp: admit_key_def validate_origin_def split: sum.splits)
    ultimately show ?thesis using False f1 k by (auto split: sum.splits)
  qed
qed

lemma authenticate_state:
  assumes "ok s" and "km_store m = st" and "authenticate_key m parse r s = (res, s')"
  shows "table s' = table s \<and> ok s'"
proof -
  obtain ar s1 where a: "admit_key m parse r s = (ar, s1)" by (cases "admit_key m parse r s")
  note a1 = admit_sound [OF assms(1,2) a]
  show ?thesis
  proof (cases ar)
    case (Inl e)
    with assms(3) a a1 show ?thesis by (simp add: authenticate_key_def)
  next
    case (Inr k)
    obtain ur s2 where "kt_record_usage st (ak_id k) 1 s1 = (ur, s2)" by (cases "kt_record_usage st (ak_id k) 1 s1")
    with assms(2,3) a a1 Inr records [of s1] show ?thesis by (auto simp: authenticate_key_def)
  qed
qed

lemma create_key_rows:
  assumes "ok s" and "km_store m = st" and "create_key m entropy body now s = (res, s')"
  shows "ok s' \<and> used s' = used s \<and> (case res of Inl e \<Rightarrow> table s' = table s
    | Inr (k, raw) \<Rightarrow> table s' = table s @ [k] \<and> ak_token_hash k = hash_token raw \<and> ak_revoked_at k = None \<and>
        raw \<noteq> [] \<and> used s (ak_id k) = 0 \<and> (\<exists>req. body = Inr req \<and> ak_app k = cq_app req \<and>
          ak_daily_quota k = cq_daily_quota req \<and> ak_origins k = cq_origins req \<and>
          ak_kind k = (if cq_kind req = kind_public then kind_public else kind_secret)))"
proof (cases "\<exists>req gt. body = Inr req \<and> trim_space (cq_app req) \<noteq> [] \<and> generate_token entropy (km_prefix m) (cq_app req)
    (if cq_kind req \<noteq> kind_public then kind_secret else cq_kind req) = Inr gt")
  case False
  then have "\<exists>e. create_key m entropy body now s = (Inl e, s)"
    by (auto simp: create_key_def Let_def split: sum.splits)
  with assms show ?thesis by auto
next
  case True
  then obtain req raw start hash where b: "body = Inr req" "trim_space (cq_app req) \<noteq> []"
      "generate_token entropy (km_prefix m) (cq_app req)
        (if cq_kind req \<noteq> kind_public then kind_secret else cq_kind req) = Inr (raw, start, hash)" by auto
  then have raw: "hash = hash_token raw" "raw \<noteq> []" by (auto simp: generate_token_def Let_def split: option.splits)
  let ?key = "\<lparr>ak_id = 0, ak_app = cq_app req, ak_kind = (if cq_kind req \<noteq> kind_public then kind_secret else cq_kind req),
    ak_prefix = start, ak_token_hash = hash, ak_origins = cq_origins req, ak_daily_quota = cq_daily_quota req,
    ak_used_today = 0, ak_created_at = now, ak_revoked_at = None\<rparr>"
  obtain cr s1 where c: "kt_create st ?key s = (cr, s1)" by (cases "kt_create st ?key s")
  have res: "(res, s') = (case cr of Inl e \<Rightarrow> (Inl e, s1) | Inr k \<Rightarrow> (Inr (k, raw), s1))"
    using assms(2,3) b c by (simp add: create_key_def)
  show ?thesis
  proof (cases cr)
    case (Inl e)
    with res c create_fails [OF assms(1)] show ?thesis by auto
  next
    case (Inr k)
    with creates [OF assms(1), of ?key k s1] c obtain n where k: "k = ?key\<lparr>ak_id := n\<rparr>"
      "table s1 = table s @ [k\<lparr>ak_used_today := 0, ak_revoked_at := None\<rparr>]" "used s1 = used s" "used s n = 0" "ok s1"
      by blast
    have t: "table s1 = table s @ [k]" unfolding k(2) by (simp add: k(1))
    from res Inr have r: "res = Inr (k, raw)" "s' = s1" by simp_all
    show ?thesis
      unfolding r using t k(3-5) b(1) raw by (simp add: k(1))
  qed
qed

lemma list_keys_state:
  assumes "ok s" and "km_store m = st" and "list_keys m app s = (res, s')"
  shows "table s' = table s \<and> used s' = used s \<and> ok s'"
proof -
  obtain lr s1 where l: "kt_list st app s = (lr, s1)" by (cases "kt_list st app s")
  obtain ur s2 where u: "kt_usage_today st s1 = (ur, s2)" by (cases "kt_usage_today st s1")
  have s1: "table s1 = table s \<and> used s1 = used s \<and> ok s1" using lists [OF assms(1) l] by simp
  then have "table s2 = table s \<and> used s2 = used s \<and> ok s2" using counts [OF _ u] by simp
  moreover have "s' = s1 \<or> s' = s2"
    using assms(2,3) l u by (cases lr; cases ur) (auto simp: list_keys_def)
  ultimately show ?thesis using s1 by blast
qed

text \<open>A key nobody revokes stays as it is, and a revoked key stays revoked.\<close>

lemma key_step_keeps:
  assumes "key_step m beyond kept s s'" and "km_store m = st" and "ok s"
    and "\<And>u u'. beyond u u' \<Longrightarrow> ok u \<Longrightarrow> ok u' \<and> table u' = table u"
  shows "ok s' \<and> (\<forall>k \<in> set (table s). ak_revoked_at k \<noteq> None \<or> ak_id k \<in> kept \<longrightarrow> k \<in> set (table s'))"
  using assms(1)
proof cases
  case (created entropy body now)
  then show ?thesis using create_key_rows [OF assms(3,2), of entropy body now]
    by (cases "create_key m entropy body now s") (auto split: sum.splits)
next
  case (listed app)
  then show ?thesis using list_keys_state [OF assms(3,2), of app] by (cases "list_keys m app s") auto
next
  case (revoked param)
  show ?thesis
  proof (cases "parse_int64 param")
    case None
    with revoked assms(3) show ?thesis by (simp add: revoke_key_def)
  next
    case (Some i)
    obtain rr s1 where r: "kt_revoke st i s = (rr, s1)" by (cases "kt_revoke st i s")
    then have s': "s' = s1" using revoked(1) Some assms(2) by (auto simp: revoke_key_def split: sum.splits)
    show ?thesis
    proof (cases rr)
      case (Inl e)
      with revoke_fails [OF assms(3)] r s' show ?thesis by auto
    next
      case (Inr u)
      with revokes [OF assms(3)] r s' obtain t where "ok s'" and t: "table s' = map (\<lambda>k. if ak_id k = i \<and>
        ak_revoked_at k = None then k\<lparr>ak_revoked_at := Some t\<rparr> else k) (table s)" by blast
      moreover have "i \<notin> kept" using revoked(2) Some by blast
      ultimately show ?thesis by (force simp: image_iff)
    qed
  qed
next
  case (authenticated parse r)
  then show ?thesis using authenticate_state [OF assms(3,2), of parse r] by (cases "authenticate_key m parse r s") auto
next
  case beyond
  with assms(3,4) show ?thesis by auto
qed

lemma key_steps_keep:
  assumes "(key_step m beyond kept)\<^sup>*\<^sup>* s s'" and "km_store m = st" and "ok s"
    and "\<And>u u'. beyond u u' \<Longrightarrow> ok u \<Longrightarrow> ok u' \<and> table u' = table u"
  shows "ok s' \<and> (\<forall>k \<in> set (table s). ak_revoked_at k \<noteq> None \<or> ak_id k \<in> kept \<longrightarrow> k \<in> set (table s'))"
  using assms(1)
proof (induction rule: rtranclp_induct)
  case base
  with assms(3) show ?case by simp
next
  case (step u v)
  then show ?case using key_step_keeps [OF step(2) assms(2) _ assms(4)] by blast
qed

text \<open>
  Requests in flight are what a quota can be overrun by: every admission saw a usage below the
  quota, and each recorded admission is part of the usage.
\<close>

definition within_quota :: "'s \<Rightarrow> api_key \<Rightarrow> nat \<Rightarrow> 's \<times> int list \<times> nat \<Rightarrow> bool" where
  "within_quota s0 k n x = (case x of (s, fl, c) \<Rightarrow> ok s \<and> table s = table s0 \<and> length fl \<le> n \<and>
     used s (ak_id k) + int (count (mset fl) (ak_id k)) = used s0 (ak_id k) + int c \<and>
     used s0 (ak_id k) + int c \<le> ak_daily_quota k + int n - 1)"

lemma within_quota_step:
  assumes "within_quota s0 k n x" and "traffic m n (ak_id k) x y" and "km_store m = st"
    and "k \<in> set (table s0)" and "0 < ak_daily_quota k"
  shows "within_quota s0 k n y"
  using assms(2)
proof cases
  case (admitted parse r s k' s' fl c)
  have inv: "ok s" "table s = table s0" using assms(1) admitted(1) by (simp_all add: within_quota_def)
  note a = admit_sound [OF inv(1) assms(3) admitted(3)]
  have "count (mset fl) (ak_id k) \<le> length fl" by (metis count_le_size size_mset)
  moreover have "k' = k" if "ak_id k' = ak_id k"
    using unique [OF inv(1)] inv(2) assms(4) a that by (auto simp: distinct_map inj_on_def)
  ultimately show ?thesis
    using assms(1,5) admitted(1,2,4) a by (auto simp: within_quota_def)
next
  case (refused parse r s e s' fl c)
  with assms(1,3) admit_sound [of s m parse r "Inl e" s'] show ?thesis by (auto simp: within_quota_def)
next
  case (recorded j fl s u s' c)
  have "table s' = table s \<and> ok s' \<and> used s' = (used s)(j := used s j + 1)"
    using records [of s j 1 "Inr u" s'] recorded(4) assms(1,3) recorded(1) by (simp add: within_quota_def)
  moreover have "int (count (mset (remove1 j fl)) (ak_id k)) =
      int (count (mset fl) (ak_id k)) - (if j = ak_id k then 1 else 0)"
    using recorded(3) by (auto simp: of_nat_diff Suc_leI)
  moreover have "length (remove1 j fl) \<le> length fl" by (simp add: length_remove1)
  ultimately show ?thesis using assms(1) recorded(1,2) by (auto simp: within_quota_def)
qed

lemma traffic_within_quota:
  assumes "(traffic m n (ak_id k))\<^sup>*\<^sup>* (s, [], 0) (s', fl, c)" and "km_store m = st" and "ok s"
    and "k \<in> set (table s)" and "0 < ak_daily_quota k" and "used s (ak_id k) \<le> ak_daily_quota k" and "0 < n"
  shows "used s (ak_id k) + int c \<le> ak_daily_quota k + int n - 1"
proof -
  have "within_quota s k n (s, [], 0)" using assms(3,6,7) by (simp add: within_quota_def)
  with assms(1) have "within_quota s k n (s', fl, c)"
    by (induction rule: rtranclp_induct) (auto intro: within_quota_step [OF _ _ assms(2,4,5)])
  then show ?thesis by (simp add: within_quota_def)
qed

lemma revoked_refused:
  assumes "ok s" and "km_store m = st" and "revoke_key m param s = (Inr u, s1)" and "parse_int64 param = Some (ak_id k)"
    and "k \<in> set (table s)" and steps: "(key_step m beyond {})\<^sup>*\<^sup>* s1 s2"
    and frame: "\<And>u u'. beyond u u' \<Longrightarrow> ok u \<Longrightarrow> ok u' \<and> table u' = table u"
    and hash: "hash_token (extract_token r) = ak_token_hash k"
  shows "\<exists>e. fst (authenticate_key m parse r s2) = Inl e"
proof -
  have "kt_revoke st (ak_id k) s = (Inr (), s1)"
    using assms(2-4) by (auto simp: revoke_key_def split: prod.splits sum.splits)
  from revokes [OF assms(1) this] obtain t where ok1: "ok s1" and t: "table s1 = map (\<lambda>x. if ak_id x = ak_id k \<and>
      ak_revoked_at x = None then x\<lparr>ak_revoked_at := Some t\<rparr> else x) (table s)" by blast
  obtain k1 where k1: "k1 \<in> set (table s1)" "ak_revoked_at k1 \<noteq> None" "ak_token_hash k1 = ak_token_hash k"
  proof
    let ?k1 = "if ak_revoked_at k = None then k\<lparr>ak_revoked_at := Some t\<rparr> else k"
    show "?k1 \<in> set (table s1)" using assms(5) unfolding t by force
  qed simp_all
  with key_steps_keep [OF steps assms(2) ok1 frame] have ok2: "ok s2" "k1 \<in> set (table s2)" by auto
  show ?thesis
  proof (cases "admit_key m parse r s2")
    case (Pair res s3)
    have "res \<noteq> Inr k'" for k'
    proof
      assume "res = Inr k'"
      with admit_sound [OF ok2(1) assms(2) Pair] hash k1(3)
      have k': "k' \<in> set (table s2)" "ak_token_hash k' = ak_token_hash k1" "ak_revoked_at k' = None" by auto
      then have "k' = k1" using unique [OF ok2(1)] ok2(2) by (meson distinct_map inj_onD)
      with k' k1(2) show False by simp
    qed
    with Pair show ?thesis by (cases res) (auto simp: authenticate_key_def)
  qed
qed

lemma created_accepted:
  assumes "ok s" and "km_store m = st" and create: "create_key m entropy body now s = (Inr (k, token), s1)"
    and steps: "(key_step m beyond {ak_id k})\<^sup>*\<^sup>* s1 s2"
    and frame: "\<And>u u'. beyond u u' \<Longrightarrow> ok u \<Longrightarrow> ok u' \<and> table u' = table u"
    and "extract_token r = token" and "origin_allowed parse r k"
    and "ak_daily_quota k \<le> 0 \<or> used s2 (ak_id k) < ak_daily_quota k"
    and find: "\<exists>x s3. kt_find st (ak_token_hash k) s2 = (Inr x, s3) \<and> (\<exists>u s4. kt_usage_today st s3 = (Inr u, s4))"
  shows "fst (authenticate_key m parse r s2) = Inr k"
proof -
  have c: "ok s1" "k \<in> set (table s1)" "ak_token_hash k = hash_token token" "ak_revoked_at k = None" "token \<noteq> []"
    using create_key_rows [OF assms(1,2) create] by auto
  with key_steps_keep [OF steps assms(2) c(1) frame] have ok2: "ok s2" "k \<in> set (table s2)" by auto
  obtain x s3 u s4 where f: "kt_find st (ak_token_hash k) s2 = (Inr x, s3)" "kt_usage_today st s3 = (Inr u, s4)"
    using find by blast
  have "x = k"
    using finds [OF ok2(1) f(1)] unique [OF ok2(1)] ok2(2) by (auto simp: distinct_map inj_on_def)
  moreover have "usage_of u (ak_id k) = used s2 (ak_id k)"
    using finds [OF ok2(1) f(1)] counts [of s3, OF _ f(2)] by simp
  ultimately show ?thesis
    using f c(3-5) assms(2,6-8)
    by (auto simp: authenticate_key_def admit_key_def validate_origin_def check_quota_def)
qed

end

end
