(* ===== verification/Pg_Keys.thy ===== *)
theory Pg_Keys
  imports Keys
begin

text \<open>
  The API keys in PostgreSQL (\<open>pg/keys.go\<close>): the two tables of \<open>KeySchema\<close>, every method of
  \<open>KeyStore\<close>, the contract the manager relies on, and the properties of the manager over it. A
  statement that does not run is an entry of \<open>kd_faults\<close>; \<open>kd_today\<close> is \<open>CURRENT_DATE\<close>.
\<close>

section \<open>Tables and statements\<close>

record key_row =
  kw_id :: int
  kw_app :: string
  kw_kind :: string
  kw_prefix :: string
  kw_hash :: string
  kw_origins :: "string list"
  kw_quota :: int
  kw_created_at :: time
  kw_revoked_at :: "time option"

record usage_row =
  us_key :: int
  us_day :: int
  us_count :: int

record key_db =
  kd_keys :: "key_row list"
  kd_usage :: "usage_row list"
  kd_seq :: int
  kd_faults :: "bool list"
  kd_now :: time
  kd_today :: int

definition key_stmt :: "(key_db \<Rightarrow> 'a result \<times> key_db) \<Rightarrow> key_db \<Rightarrow> 'a result \<times> key_db" where
  "key_stmt f d = (let d1 = d\<lparr>kd_faults := tl (kd_faults d)\<rparr> in
     if kd_faults d \<noteq> [] \<and> hd (kd_faults d) then (Inl SqlFault, d1) else f d1)"

definition wrap_error :: "string \<Rightarrow> 'a result \<times> 'd \<Rightarrow> 'a result \<times> 'd" where
  "wrap_error what r = (case r of (Inl e, d) \<Rightarrow> (Inl (Wrap what e), d) | (Inr a, d) \<Rightarrow> (Inr a, d))"

definition scan_key :: "key_row \<Rightarrow> api_key" where
  "scan_key r = \<lparr>ak_id = kw_id r, ak_app = kw_app r, ak_kind = kw_kind r, ak_prefix = kw_prefix r,
     ak_token_hash = kw_hash r, ak_origins = kw_origins r, ak_daily_quota = kw_quota r, ak_used_today = 0,
     ak_created_at = kw_created_at r, ak_revoked_at = kw_revoked_at r\<rparr>"

section \<open>KeyStore\<close>

text \<open>\<open>daily_quota\<close> is a 32-bit column, and a number drawn from the sequence stays drawn.\<close>

definition key_row_of :: "int \<Rightarrow> api_key \<Rightarrow> key_row" where
  "key_row_of i k = \<lparr>kw_id = i, kw_app = ak_app k, kw_kind = ak_kind k, kw_prefix = ak_prefix k,
     kw_hash = ak_token_hash k, kw_origins = ak_origins k, kw_quota = ak_daily_quota k,
     kw_created_at = ak_created_at k, kw_revoked_at = None\<rparr>"

definition key_create :: "api_key \<Rightarrow> key_db \<Rightarrow> api_key result \<times> key_db" where
  "key_create k d = wrap_error ''porte/pg: create api key'' (key_stmt (\<lambda>d.
     if \<not> (- (2 ^ 31) \<le> ak_daily_quota k \<and> ak_daily_quota k < 2 ^ 31) then (Inl SqlConstraint, d)
     else let n = kd_seq d + 1; d1 = d\<lparr>kd_seq := n\<rparr> in
       if has_row (\<lambda>r. kw_hash r = ak_token_hash k) (kd_keys d) then (Inl SqlConstraint, d1)
       else (Inr (k\<lparr>ak_id := n\<rparr>), d1\<lparr>kd_keys := kd_keys d @ [key_row_of n k]\<rparr>)) d)"

definition key_find :: "string \<Rightarrow> key_db \<Rightarrow> api_key result \<times> key_db" where
  "key_find h d = (case key_stmt (\<lambda>d. (Inr (row_with kw_hash h (kd_keys d)), d)) d of
     (Inl e, d1) \<Rightarrow> (Inl (Wrap ''porte/pg: find api key'' e), d1)
   | (Inr None, d1) \<Rightarrow> (Inl (Sentinel ErrNotFound), d1)
   | (Inr (Some r), d1) \<Rightarrow> (Inr (scan_key r), d1))"

definition key_list :: "string \<Rightarrow> key_db \<Rightarrow> api_key list result \<times> key_db" where
  "key_list app d = wrap_error ''porte/pg: list api keys'' (key_stmt (\<lambda>d.
     (Inr (map scan_key (rev (sort_key kw_created_at (filter (\<lambda>r. app = [] \<or> kw_app r = app) (kd_keys d))))), d)) d)"

definition key_revoke :: "int \<Rightarrow> key_db \<Rightarrow> unit result \<times> key_db" where
  "key_revoke i d = (let live = (\<lambda>r. kw_id r = i \<and> kw_revoked_at r = None) in
     case key_stmt (\<lambda>d. (Inr (affected live (kd_keys d)),
         d\<lparr>kd_keys := update_where live (\<lambda>r. r\<lparr>kw_revoked_at := Some (kd_now d)\<rparr>) (kd_keys d)\<rparr>)) d of
       (Inl e, d1) \<Rightarrow> (Inl (Wrap ''porte/pg: revoke api key'' e), d1)
     | (Inr n, d1) \<Rightarrow> (if n = 0 then Inl (Sentinel ErrNotFound) else Inr (), d1))"

text \<open>The upsert: the row of today is inserted or adds up, unless its 64 bits overflow.\<close>

definition key_record_usage :: "int \<Rightarrow> int \<Rightarrow> key_db \<Rightarrow> unit result \<times> key_db" where
  "key_record_usage i n d = wrap_error ''porte/pg: record api key usage'' (key_stmt (\<lambda>d.
     let today = (\<lambda>u. us_key u = i \<and> us_day u = kd_today d) in
     if \<not> has_row (\<lambda>r. kw_id r = i) (kd_keys d) then (Inl SqlConstraint, d)
     else if has_row (\<lambda>u. today u \<and> 2 ^ 63 \<le> us_count u + n) (kd_usage d) then (Inl SqlFault, d)
     else if has_row today (kd_usage d)
     then (Inr (), d\<lparr>kd_usage := update_where today (\<lambda>u. u\<lparr>us_count := us_count u + n\<rparr>) (kd_usage d)\<rparr>)
     else (Inr (), d\<lparr>kd_usage := kd_usage d @ [\<lparr>us_key = i, us_day = kd_today d, us_count = n\<rparr>]\<rparr>)) d)"

definition usage_map :: "key_db \<Rightarrow> int \<rightharpoonup> int" where
  "usage_map d = map_of (map (\<lambda>u. (us_key u, us_count u)) (filter (\<lambda>u. us_day u = kd_today d) (kd_usage d)))"

definition key_usage_today :: "key_db \<Rightarrow> (int \<rightharpoonup> int) result \<times> key_db" where
  "key_usage_today d = wrap_error ''porte/pg: query api key usage today'' (key_stmt (\<lambda>d. (Inr (usage_map d), d)) d)"

definition pg_keys :: "key_db key_store_ops" where
  "pg_keys = \<lparr>kt_create = key_create, kt_find = key_find, kt_list = key_list, kt_revoke = key_revoke,
     kt_record_usage = key_record_usage, kt_usage_today = key_usage_today\<rparr>"

section \<open>The contract holds\<close>

definition key_table :: "key_db \<Rightarrow> api_key list" where
  "key_table d = map scan_key (kd_keys d)"

definition used_today :: "key_db \<Rightarrow> int \<Rightarrow> int" where
  "used_today d = usage_of (usage_map d)"

definition key_db_ok :: "key_db \<Rightarrow> bool" where
  "key_db_ok d = (distinct (map kw_hash (kd_keys d)) \<and> distinct (map kw_id (kd_keys d)) \<and>
     distinct (map (\<lambda>u. (us_key u, us_day u)) (kd_usage d)) \<and>
     (\<forall>r \<in> set (kd_keys d). kw_id r \<le> kd_seq d) \<and> (\<forall>u \<in> set (kd_usage d). us_key u \<le> kd_seq d))"

lemma scan_key_simps [simp]:
  "ak_id (scan_key r) = kw_id r" "ak_token_hash (scan_key r) = kw_hash r" "ak_app (scan_key r) = kw_app r"
  "ak_revoked_at (scan_key r) = kw_revoked_at r"
  by (simp_all add: scan_key_def)

lemma key_row_of_simps [simp]:
  "kw_id (key_row_of n k) = n" "kw_hash (key_row_of n k) = ak_token_hash k"
  by (simp_all add: key_row_of_def)

lemma scan_key_row_of [simp]:
  "scan_key (key_row_of n k) = k\<lparr>ak_id := n, ak_used_today := 0, ak_revoked_at := None\<rparr>"
  by (cases k) (simp add: key_row_of_def scan_key_def)

lemma key_stmt_cases:
  assumes "key_stmt f d = (r, d')"
  obtains "r = Inl SqlFault" "d' = d\<lparr>kd_faults := tl (kd_faults d)\<rparr>"
    | "f (d\<lparr>kd_faults := tl (kd_faults d)\<rparr>) = (r, d')"
  using assms unfolding key_stmt_def Let_def by (cases "kd_faults d \<noteq> [] \<and> hd (kd_faults d)") simp_all

lemma key_fault_simps [simp]:
  "key_table (d\<lparr>kd_faults := fs\<rparr>) = key_table d" "used_today (d\<lparr>kd_faults := fs\<rparr>) = used_today d"
  "key_db_ok (d\<lparr>kd_faults := fs\<rparr>) = key_db_ok d" "usage_map (d\<lparr>kd_faults := fs\<rparr>) = usage_map d"
  by (simp_all add: key_table_def used_today_def key_db_ok_def usage_map_def)

lemma key_stmt_same:
  assumes "key_stmt f d = (r, d')" and "\<And>d. snd (f d) = d"
  shows "key_table d' = key_table d \<and> used_today d' = used_today d \<and> (key_db_ok d \<longrightarrow> key_db_ok d')"
  using assms(1)
proof (rule key_stmt_cases)
  assume "f (d\<lparr>kd_faults := tl (kd_faults d)\<rparr>) = (r, d')"
  then have "d' = d\<lparr>kd_faults := tl (kd_faults d)\<rparr>" using assms(2) [of "d\<lparr>kd_faults := tl (kd_faults d)\<rparr>"] by simp
  then show ?thesis by simp
qed simp

lemma wrap_error_Inr [simp]: "wrap_error what x = (Inr a, d) \<longleftrightarrow> x = (Inr a, d)"
  by (auto simp: wrap_error_def split: prod.splits sum.splits)

lemma wrap_error_snd [simp]: "snd (wrap_error what x) = snd x"
  by (auto simp: wrap_error_def split: prod.splits sum.splits)

lemma used_upsert:
  "usage_of (map_of (map (\<lambda>u. (us_key u, us_count u)) (filter (\<lambda>u. us_day u = t)
     (update_where (\<lambda>u. us_key u = i \<and> us_day u = t) (\<lambda>u. u\<lparr>us_count := us_count u + n\<rparr>) us)))) j =
   (let old = usage_of (map_of (map (\<lambda>u. (us_key u, us_count u)) (filter (\<lambda>u. us_day u = t) us))) j in
    if j = i \<and> has_row (\<lambda>u. us_key u = i \<and> us_day u = t) us then old + n else old)"
  by (induction us) (auto simp: usage_of_def update_where_def has_row_def Let_def)

lemma used_insert:
  assumes "\<not> has_row (\<lambda>u. us_key u = i \<and> us_day u = t) us"
  shows "usage_of (map_of (map (\<lambda>u. (us_key u, us_count u)) (filter (\<lambda>u. us_day u = t)
      (us @ [\<lparr>us_key = i, us_day = t, us_count = n\<rparr>])))) j =
    (let old = usage_of (map_of (map (\<lambda>u. (us_key u, us_count u)) (filter (\<lambda>u. us_day u = t) us))) j in
     if j = i then old + n else old)"
  using assms by (induction us) (auto simp: usage_of_def has_row_def Let_def split: if_splits)

text \<open>No row of a key that does not exist.\<close>

lemma unused_key:
  assumes "key_db_ok d"
  shows "used_today d (kd_seq d + 1) = 0"
proof -
  have "usage_map d (kd_seq d + 1) = None"
    using assms by (fastforce simp: usage_map_def key_db_ok_def map_of_eq_None_iff)
  then show ?thesis by (simp add: used_today_def usage_of_def)
qed

lemma pg_key_creates:
  assumes "key_db_ok d" and "key_create k d = (r, d')"
  shows "key_db_ok d' \<and> used_today d' = used_today d \<and> (case r of Inl e \<Rightarrow> key_table d' = key_table d
    | Inr k' \<Rightarrow> k' = k\<lparr>ak_id := kd_seq d + 1\<rparr> \<and> key_table d' = key_table d @ [k'\<lparr>ak_used_today := 0, ak_revoked_at := None\<rparr>])"
proof -
  let ?d = "d\<lparr>kd_faults := tl (kd_faults d)\<rparr>"
  let ?n = "kd_seq d + 1"
  have bump: "key_db_ok (?d\<lparr>kd_seq := ?n\<rparr>)" using assms(1) by (auto simp: key_db_ok_def)
  have ins: "key_db_ok (?d\<lparr>kd_seq := ?n, kd_keys := kd_keys d @ [key_row_of ?n k]\<rparr>)"
    if "\<not> has_row (\<lambda>r. kw_hash r = ak_token_hash k) (kd_keys d)"
    using assms(1) that by (fastforce simp: key_db_ok_def has_row_iff)
  show ?thesis
    using assms bump ins
    by (auto simp: key_create_def wrap_error_def key_stmt_def Let_def key_table_def used_today_def usage_map_def
        split: if_splits)
qed

lemma pg_key_records:
  assumes "key_db_ok d" and "key_record_usage i n d = (r, d')"
  shows "key_table d' = key_table d \<and> key_db_ok d' \<and>
    used_today d' = (case r of Inl e \<Rightarrow> used_today d | Inr u \<Rightarrow> (used_today d)(i := used_today d i + n))"
proof -
  let ?d = "d\<lparr>kd_faults := tl (kd_faults d)\<rparr>"
  let ?today = "\<lambda>u. us_key u = i \<and> us_day u = kd_today d"
  let ?up = "?d\<lparr>kd_usage := update_where ?today (\<lambda>u. u\<lparr>us_count := us_count u + n\<rparr>) (kd_usage d)\<rparr>"
  let ?ins = "?d\<lparr>kd_usage := kd_usage d @ [\<lparr>us_key = i, us_day = kd_today d, us_count = n\<rparr>]\<rparr>"
  have up: "key_db_ok ?up" using assms(1) by (auto simp: key_db_ok_def map_update_where set_update_where)
  have upu: "used_today ?up = (used_today d)(i := used_today d i + n)" if "has_row ?today (kd_usage d)"
    using that by (auto simp: used_today_def usage_map_def used_upsert Let_def)
  have ins: "key_db_ok ?ins" if "\<not> has_row ?today (kd_usage d)" "has_row (\<lambda>r. kw_id r = i) (kd_keys d)"
    using assms(1) that by (auto simp: key_db_ok_def has_row_iff)
  have insu: "used_today ?ins = (used_today d)(i := used_today d i + n)" if "\<not> has_row ?today (kd_usage d)"
    using used_insert [OF that] by (auto simp: used_today_def usage_map_def Let_def simp del: filter_append map_append)
  show ?thesis
    using assms up upu ins insu
    by (auto simp: key_record_usage_def wrap_error_def key_stmt_def Let_def key_table_def split: if_splits)
qed

lemma pg_key_revokes:
  assumes "key_db_ok d" and "key_revoke i d = (r, d')"
  shows "used_today d' = used_today d \<and> key_db_ok d' \<and> (case r of Inl e \<Rightarrow> key_table d' = key_table d
    | Inr u \<Rightarrow> key_table d' = map (\<lambda>k. if ak_id k = i \<and> ak_revoked_at k = None
        then k\<lparr>ak_revoked_at := Some (kd_now d)\<rparr> else k) (key_table d))"
proof -
  let ?d = "d\<lparr>kd_faults := tl (kd_faults d)\<rparr>"
  let ?live = "\<lambda>r. kw_id r = i \<and> kw_revoked_at r = None"
  let ?up = "?d\<lparr>kd_keys := update_where ?live (\<lambda>r. r\<lparr>kw_revoked_at := Some (kd_now d)\<rparr>) (kd_keys d)\<rparr>"
  have up: "key_db_ok ?up \<and> used_today ?up = used_today d"
    using assms(1) by (auto simp: key_db_ok_def map_update_where set_update_where used_today_def usage_map_def)
  have t: "key_table ?up = map (\<lambda>k. if ak_id k = i \<and> ak_revoked_at k = None
        then k\<lparr>ak_revoked_at := Some (kd_now d)\<rparr> else k) (key_table d)"
    by (simp add: key_table_def update_where_def scan_key_def)
  have none: "key_table ?up = key_table d" if "affected ?live (kd_keys d) = 0"
    using that by (simp add: key_table_def affected_pos update_where_none)
  show ?thesis
    using assms(2) up t none by (auto simp: key_revoke_def key_stmt_def Let_def assms(1) split: if_splits)
qed

interpretation pgk: key_store pg_keys key_table used_today key_db_ok
proof
  show "key_db_ok s \<Longrightarrow> distinct (map ak_token_hash (key_table s)) \<and> distinct (map ak_id (key_table s))" for s
    by (simp add: key_db_ok_def key_table_def comp_def)
  show "key_db_ok s \<Longrightarrow> kt_create pg_keys k s = (Inr k', s') \<Longrightarrow> \<exists>n. k' = k\<lparr>ak_id := n\<rparr> \<and>
      key_table s' = key_table s @ [k'\<lparr>ak_used_today := 0, ak_revoked_at := None\<rparr>] \<and>
      used_today s' = used_today s \<and> used_today s n = 0 \<and> key_db_ok s'" for s k k' s'
    using pg_key_creates [of s k "Inr k'" s'] unused_key [of s] by (auto simp: pg_keys_def)
  show "key_db_ok s \<Longrightarrow> kt_create pg_keys k s = (Inl e, s') \<Longrightarrow>
      key_table s' = key_table s \<and> used_today s' = used_today s \<and> key_db_ok s'" for s k e s'
    using pg_key_creates [of s k "Inl e" s'] by (simp add: pg_keys_def)
  show "key_db_ok s \<Longrightarrow> kt_find pg_keys h s = (r, s') \<Longrightarrow> key_table s' = key_table s \<and> used_today s' = used_today s \<and>
      key_db_ok s' \<and> (\<forall>k. r = Inr k \<longrightarrow> k \<in> set (key_table s) \<and> ak_token_hash k = h)" for s h r s'
    by (auto simp: pg_keys_def key_find_def key_stmt_def Let_def key_table_def dest: row_with_Some
        split: if_splits option.splits)
  show "key_db_ok s \<Longrightarrow> kt_list pg_keys app s = (lr, s') \<Longrightarrow> key_table s' = key_table s \<and> used_today s' = used_today s \<and>
      key_db_ok s' \<and> (\<forall>ks. lr = Inr ks \<longrightarrow> set ks = {k \<in> set (key_table s). app = [] \<or> ak_app k = app})" for s app lr s'
    by (auto simp: pg_keys_def key_list_def wrap_error_def key_stmt_def Let_def key_table_def split: if_splits)
  show "key_db_ok s \<Longrightarrow> kt_revoke pg_keys i s = (Inr u, s') \<Longrightarrow> used_today s' = used_today s \<and> key_db_ok s' \<and> (\<exists>t.
      key_table s' = map (\<lambda>k. if ak_id k = i \<and> ak_revoked_at k = None then k\<lparr>ak_revoked_at := Some t\<rparr> else k) (key_table s))"
    for s i u s' using pg_key_revokes [of s i "Inr u" s'] by (auto simp: pg_keys_def)
  show "key_db_ok s \<Longrightarrow> kt_revoke pg_keys i s = (Inl e, s') \<Longrightarrow>
      key_table s' = key_table s \<and> used_today s' = used_today s \<and> key_db_ok s'" for s i e s'
    using pg_key_revokes [of s i "Inl e" s'] by (simp add: pg_keys_def)
  show "key_db_ok s \<Longrightarrow> kt_record_usage pg_keys i n s = (ur, s') \<Longrightarrow> key_table s' = key_table s \<and> key_db_ok s' \<and>
      used_today s' = (case ur of Inl e \<Rightarrow> used_today s | Inr u \<Rightarrow> (used_today s)(i := used_today s i + n))" for s i n ur s'
    using pg_key_records [of s i n ur s'] by (simp add: pg_keys_def)
  show "key_db_ok s \<Longrightarrow> kt_usage_today pg_keys s = (cr, s') \<Longrightarrow> key_table s' = key_table s \<and> used_today s' = used_today s \<and>
      key_db_ok s' \<and> (\<forall>u. cr = Inr u \<longrightarrow> (\<forall>i. usage_of u i = used_today s i))" for s cr s'
    by (auto simp: pg_keys_def key_usage_today_def wrap_error_def key_stmt_def Let_def used_today_def split: if_splits)
qed

section \<open>The manager over PostgreSQL\<close>

text \<open>
  C23: the middleware lets a request through only with a token whose hash is stored, for a key that is
  not revoked, from an origin the key allows and below its quota of today. The key the handler sees
  is the stored one, no key changes, and the usage grows by one unless its statement failed.
\<close>

theorem api_key_accepted_sound:
  assumes "key_db_ok d" and "authenticate_key (new_key_manager pg_keys service) parse r d = (Inr k, d')"
  shows "extract_token r \<noteq> [] \<and> k \<in> set (key_table d) \<and> ak_token_hash k = hash_token (extract_token r) \<and>
    ak_revoked_at k = None \<and> origin_allowed parse r k \<and>
    (0 < ak_daily_quota k \<longrightarrow> used_today d (ak_id k) < ak_daily_quota k) \<and> key_table d' = key_table d \<and> key_db_ok d' \<and>
    (used_today d' = (used_today d)(ak_id k := used_today d (ak_id k) + 1) \<or> used_today d' = used_today d)"
proof -
  let ?m = "new_key_manager pg_keys service"
  have st: "km_store ?m = pg_keys" by (simp add: new_key_manager_def)
  obtain ar d1 where a: "admit_key ?m parse r d = (ar, d1)" by (cases "admit_key ?m parse r d")
  have ar: "ar = Inr k" "d' = snd (kt_record_usage pg_keys (ak_id k) 1 d1)"
    using assms(2) a st by (auto simp: authenticate_key_def split: sum.splits)
  note a1 = pgk.admit_sound [OF assms(1) st a]
  obtain ur d2 where "kt_record_usage pg_keys (ak_id k) 1 d1 = (ur, d2)" by (cases "kt_record_usage pg_keys (ak_id k) 1 d1")
  with pgk.records [of d1] a1 ar show ?thesis by (cases ur) auto
qed

text \<open>Another day, another time, the fate of the coming statements.\<close>

definition key_time_passes :: "key_db \<Rightarrow> key_db \<Rightarrow> bool" where
  "key_time_passes d d' = (\<exists>fs now day. d' = d\<lparr>kd_faults := fs, kd_now := now, kd_today := day\<rparr>)"

lemma key_time_frame: "key_time_passes d d' \<Longrightarrow> key_db_ok d \<Longrightarrow> key_db_ok d' \<and> key_table d' = key_table d"
  by (auto simp: key_time_passes_def key_db_ok_def key_table_def)

text \<open>
  C24: a revoked key stays revoked. After a revocation that was acknowledged, no later history of
  requests, days and failing statements makes the middleware accept the key's token again.
\<close>

theorem revoked_key_refused:
  assumes "key_db_ok d" and "revoke_key (new_key_manager pg_keys service) param d = (Inr (), d1)"
    and "parse_int64 param = Some (ak_id k)" and "k \<in> set (key_table d)"
    and "(key_step (new_key_manager pg_keys service) key_time_passes {})\<^sup>*\<^sup>* d1 d2"
    and "hash_token (extract_token r) = ak_token_hash k"
  shows "\<exists>e. fst (authenticate_key (new_key_manager pg_keys service) parse r d2) = Inl e"
proof (rule pgk.revoked_refused [OF assms(1) _ assms(2-5) _ assms(6)])
  show "km_store (new_key_manager pg_keys service) = pg_keys" by (simp add: new_key_manager_def)
qed (rule key_time_frame)

text \<open>
  The token of a created key works. Over any later history in which nobody revokes the key, a
  request that carries the token it was created with is accepted as that key, from an origin it
  allows, below its quota and while the statements run.
\<close>

theorem created_key_works:
  assumes "key_db_ok d" and "create_key (new_key_manager pg_keys service) entropy body now d = (Inr (k, token), d1)"
    and "(key_step (new_key_manager pg_keys service) key_time_passes {ak_id k})\<^sup>*\<^sup>* d1 d2"
    and "extract_token r = token" and "origin_allowed parse r k"
    and "ak_daily_quota k \<le> 0 \<or> used_today d2 (ak_id k) < ak_daily_quota k" and "kd_faults d2 = []"
  shows "fst (authenticate_key (new_key_manager pg_keys service) parse r d2) = Inr k"
proof (rule pgk.created_accepted [OF assms(1) _ assms(2,3) _ assms(4-6)])
  let ?m = "new_key_manager pg_keys service"
  show st: "km_store ?m = pg_keys" by (simp add: new_key_manager_def)
  have "key_db_ok d1" "k \<in> set (key_table d1)"
    using pgk.create_key_rows [OF assms(1) st assms(2)] by auto
  with pgk.key_steps_keep [OF assms(3) st _ key_time_frame] have "k \<in> set (key_table d2)" by auto
  then obtain row where "row_with kw_hash (ak_token_hash k) (kd_keys d2) = Some row"
    by (cases "row_with kw_hash (ak_token_hash k) (kd_keys d2)") (auto simp: key_table_def row_with_None)
  then have "kt_find pg_keys (ak_token_hash k) d2 = (Inr (scan_key row), d2)"
      "kt_usage_today pg_keys d2 = (Inr (usage_map d2), d2)"
    using assms(7) by (simp_all add: pg_keys_def key_find_def key_usage_today_def key_stmt_def Let_def wrap_error_def)
  then show "\<exists>x s3. kt_find pg_keys (ak_token_hash k) d2 = (Inr x, s3) \<and> (\<exists>u s4. kt_usage_today pg_keys s3 = (Inr u, s4))"
    by blast
qed (rule key_time_frame)

text \<open>
  C25: how far a quota can be overrun. The check and the recording are two statements, so requests
  that overlap can each see a usage below the quota: with at most \<open>n\<close> of them between the two, a day
  admits no more than the quota and \<open>n - 1\<close>, which is the quota itself when they come one at a time.
\<close>

theorem quota_overrun_bounded:
  assumes "(traffic (new_key_manager pg_keys service) n (ak_id k))\<^sup>*\<^sup>* (d, [], 0) (d', fl, c)"
    and "key_db_ok d" and "k \<in> set (key_table d)" and "0 < ak_daily_quota k"
    and "used_today d (ak_id k) \<le> ak_daily_quota k" and "0 < n"
  shows "used_today d (ak_id k) + int c \<le> ak_daily_quota k + int n - 1"
  by (rule pgk.traffic_within_quota [OF assms(1) _ assms(2-6)]) (simp add: new_key_manager_def)

section \<open>A small database\<close>

definition sample_row :: key_row where
  "sample_row = \<lparr>kw_id = 1, kw_app = ''a'', kw_kind = kind_public, kw_prefix = ''p'', kw_hash = hash_token ''t'',
     kw_origins = [''https://a''], kw_quota = 1, kw_created_at = 4, kw_revoked_at = None\<rparr>"

definition sample_keys :: key_db where
  "sample_keys = \<lparr>kd_keys = [sample_row], kd_usage = [], kd_seq = 1, kd_faults = [], kd_now = 5, kd_today = 3\<rparr>"

definition sample_request :: key_request where
  "sample_request = \<lparr>kr_authorization = ''Bearer t'', kr_query_key = [], kr_origin = ''HTTPS://a'', kr_referer = []\<rparr>"

lemma sample_ok [simp]: "key_db_ok sample_keys"
  by (simp add: key_db_ok_def sample_keys_def sample_row_def)

lemma sample_token: "extract_token sample_request = ''t''" "origin_allowed parse sample_request (scan_key sample_row)"
proof -
  show "extract_token sample_request = ''t''" by code_simp
  have "equal_fold ''https://a'' ''HTTPS://a''" by code_simp
  then show "origin_allowed parse sample_request (scan_key sample_row)"
    by (simp add: origin_allowed_def request_origin_def sample_request_def sample_row_def scan_key_def)
qed

lemma sample_admitted:
  "admit_key (new_key_manager pg_keys service) parse sample_request sample_keys = (Inr (scan_key sample_row), sample_keys)"
proof -
  have f: "kt_find pg_keys (hash_token ''t'') sample_keys = (Inr (scan_key sample_row), sample_keys)"
    by (simp add: pg_keys_def key_find_def key_stmt_def sample_keys_def sample_row_def)
  have u: "kt_usage_today pg_keys sample_keys = (Inr (\<lambda>i. None), sample_keys)"
    by (simp add: pg_keys_def key_usage_today_def key_stmt_def wrap_error_def usage_map_def sample_keys_def)
  have q: "check_quota pg_keys (scan_key sample_row) sample_keys = (Inr (), sample_keys)"
    by (simp add: check_quota_def u usage_of_def scan_key_def sample_row_def)
  have "ak_revoked_at (scan_key sample_row) = None" by (simp add: sample_row_def)
  then show ?thesis
    by (simp add: admit_key_def sample_token f q validate_origin_def new_key_manager_def)
qed

theorem api_key_accepted_sound_witness:
  "\<exists>d'. authenticate_key (new_key_manager pg_keys []) (\<lambda>u. None) sample_request sample_keys = (Inr (scan_key sample_row), d') \<and>
     scan_key sample_row \<in> set (key_table sample_keys) \<and> key_db_ok d'"
proof -
  let ?m = "new_key_manager pg_keys []"
  obtain d' where a: "authenticate_key ?m (\<lambda>u. None) sample_request sample_keys = (Inr (scan_key sample_row), d')"
    by (simp add: authenticate_key_def sample_admitted)
  from api_key_accepted_sound [OF sample_ok a] a show ?thesis by blast
qed

theorem revoked_key_refused_witness:
  "\<exists>d1 e. revoke_key (new_key_manager pg_keys []) ''1'' sample_keys = (Inr (), d1) \<and>
     fst (authenticate_key (new_key_manager pg_keys []) (\<lambda>u. None) sample_request d1) = Inl e"
proof -
  let ?m = "new_key_manager pg_keys []"
  have p: "parse_int64 ''1'' = Some 1" by code_simp
  obtain d1 where r: "revoke_key ?m ''1'' sample_keys = (Inr (), d1)"
    by (simp add: revoke_key_def p new_key_manager_def pg_keys_def key_revoke_def key_stmt_def sample_keys_def
        sample_row_def affected_Cons)
  have k: "scan_key sample_row \<in> set (key_table sample_keys)" "ak_id (scan_key sample_row) = 1"
      "hash_token (extract_token sample_request) = ak_token_hash (scan_key sample_row)"
    by (simp_all add: key_table_def sample_keys_def sample_token) (simp_all add: sample_row_def)
  from revoked_key_refused [OF sample_ok r _ k(1) rtranclp.rtrancl_refl k(3)] p k(2) r show ?thesis by auto
qed

definition sample_create :: create_request where
  "sample_create = \<lparr>cq_app = ''a'', cq_kind = [], cq_origins = [], cq_daily_quota = 0\<rparr>"

definition bearing :: "string \<Rightarrow> key_request" where
  "bearing token = \<lparr>kr_authorization = ''Bearer '' @ token, kr_query_key = [], kr_origin = [], kr_referer = []\<rparr>"

theorem created_key_works_witness:
  "\<exists>k token d1. create_key (new_key_manager pg_keys []) (Some ''entropy'') (Inr sample_create) 9 (sample_keys\<lparr>kd_keys := []\<rparr>) =
       (Inr (k, token), d1) \<and>
     fst (authenticate_key (new_key_manager pg_keys []) (\<lambda>u. None) (bearing token) d1) = Inr k"
proof -
  let ?m = "new_key_manager pg_keys []"
  let ?d = "sample_keys\<lparr>kd_keys := []\<rparr>"
  have ok: "key_db_ok ?d" by (simp add: key_db_ok_def sample_keys_def)
  have trim: "trim_space ''a'' = ''a''" by code_simp
  obtain raw start hash where g: "generate_token (Some ''entropy'') ''porte'' ''a'' kind_secret = Inr (raw, start, hash)"
    by (simp add: generate_token_def Let_def)
  obtain k d1 where c: "create_key ?m (Some ''entropy'') (Inr sample_create) 9 ?d = (Inr (k, raw), d1)"
    and k: "ak_daily_quota k = 0" "ak_origins k = []" and d1: "kd_faults d1 = []"
    by (simp add: create_key_def sample_create_def trim new_key_manager_def kind_public_def g pg_keys_def key_create_def
        key_stmt_def wrap_error_def sample_keys_def has_row_def)
  have t: "extract_token (bearing raw) = raw" by (simp add: extract_token_def bearing_def has_prefix_def)
  have "origin_allowed (\<lambda>u. None) (bearing raw) k" by (simp add: origin_allowed_def k)
  with created_key_works [OF ok c rtranclp.rtrancl_refl t _ _ d1] k(1) c show ?thesis by auto
qed

text \<open>Two requests that overlap, on a key whose quota is one: both are admitted.\<close>

lemma two_admitted:
  "(traffic (new_key_manager pg_keys service) 2 1)\<^sup>*\<^sup>* (sample_keys, [], 0) (sample_keys, [1, 1], 2)"
proof -
  have step: "traffic (new_key_manager pg_keys service) 2 1 (sample_keys, fl, c) (sample_keys, 1 # fl, Suc c)"
    if "length fl < 2" for fl c
    using traffic.admitted [OF sample_admitted that, where i = 1] by (simp add: sample_row_def)
  show ?thesis using step [of "[]" 0] step [of "[1]" 1] by (simp add: numeral_2_eq_2)
qed

theorem quota_overrun_bounded_witness:
  "(traffic (new_key_manager pg_keys []) 2 1)\<^sup>*\<^sup>* (sample_keys, [], 0) (sample_keys, [1, 1], 2) \<and>
     used_today sample_keys 1 + 2 \<le> ak_daily_quota (scan_key sample_row) + 1"
proof -
  have k: "scan_key sample_row \<in> set (key_table sample_keys)" by (simp add: key_table_def sample_keys_def)
  have i: "ak_id (scan_key sample_row) = 1" "ak_daily_quota (scan_key sample_row) = 1"
    by (simp_all add: sample_row_def scan_key_def)
  have u: "used_today sample_keys 1 = 0" by (simp add: used_today_def usage_map_def usage_of_def sample_keys_def)
  have t: "(traffic (new_key_manager pg_keys []) 2 (ak_id (scan_key sample_row)))\<^sup>*\<^sup>* (sample_keys, [], 0) (sample_keys, [1, 1], 2)"
    unfolding i by (rule two_admitted)
  from quota_overrun_bounded [OF t sample_ok k] i u two_admitted [of "[]"] show ?thesis by simp
qed

end
