(* ===== verification/Reseal.thy ===== *)
theory Reseal
  imports Pg_Identities Sealer "HOL-Library.Product_Lexorder"
begin

text \<open>
  The reseal of stored tokens (\<open>pg/reseal.go\<close>): the keyset batches, the guarded update of a row and
  the loop over the batches. Rows are ordered as pairs of byte strings. \<open>draw\<close> gives the random
  bytes of the two seals of a row, and \<open>others\<close> is what other processes committed between the read
  of a row's batch and its update. The loop may not end, so it is a partial function.
\<close>

section \<open>Rows and batches\<close>

record token_row =
  tr_provider :: string
  tr_subject :: string
  tr_access :: string
  tr_refresh :: string

definition token_row_of :: "identity_row \<Rightarrow> token_row" where
  "token_row_of i = \<lparr>tr_provider = i_provider i, tr_subject = i_subject i, tr_access = i_access_token i,
     tr_refresh = i_refresh_token i\<rparr>"

definition tr_key :: "token_row \<Rightarrow> string \<times> string" where
  "tr_key r = (tr_provider r, tr_subject r)"

definition reseal_batch :: nat where "reseal_batch = 200"

definition has_tokens :: "identity_row \<Rightarrow> bool" where
  "has_tokens i = (i_access_token i \<noteq> [] \<or> i_refresh_token i \<noteq> [])"

definition rows_after :: "string \<times> string \<Rightarrow> db \<Rightarrow> identity_row list" where
  "rows_after after d = sort_key identity_key (filter (\<lambda>i. after < identity_key i \<and> has_tokens i) (identities d))"

definition token_batch :: "string \<times> string \<Rightarrow> db \<Rightarrow> token_row list result \<times> db" where
  "token_batch after d = wrapping ''porte/pg: reseal identities''
     (query (\<lambda>d. map token_row_of (take reseal_batch (rows_after after d))) d)"

type_synonym draws = "token_row \<Rightarrow> string option \<times> string option"

section \<open>The update of a row and the loop\<close>

definition set_tokens :: "string \<Rightarrow> string \<Rightarrow> identity_row \<Rightarrow> identity_row" where
  "set_tokens access refresh i = i\<lparr>i_access_token := access, i_refresh_token := refresh\<rparr>"

definition as_read :: "token_row \<Rightarrow> identity_row \<Rightarrow> bool" where
  "as_read row i = (token_row_of i = row)"

definition reseal_row :: "token_sealer \<Rightarrow> draws \<Rightarrow> token_row \<Rightarrow> db \<Rightarrow> int result \<times> db" where
  "reseal_row s draw row d =
     (case (reseal_value s (fst (draw row)) (tr_access row), reseal_value s (snd (draw row)) (tr_refresh row)) of
       ((access, access_changed), (refresh, refresh_changed)) \<Rightarrow>
         if \<not> access_changed \<and> \<not> refresh_changed then (Inr 0, d)
         else wrapping ''porte/pg: reseal identities'' (stmt (\<lambda>d. (Inr (affected (as_read row) (identities d)),
           d\<lparr>identities := update_where (as_read row) (set_tokens access refresh) (identities d)\<rparr>)) d))"

fun reseal_rows ::
  "token_sealer \<Rightarrow> draws \<Rightarrow> (token_row \<Rightarrow> db \<Rightarrow> db) \<Rightarrow> token_row list \<Rightarrow> db \<Rightarrow> (int \<times> error option) \<times> db" where
  "reseal_rows s draw others [] d = ((0, None), d)"
| "reseal_rows s draw others (row # rows) d = (case reseal_row s draw row (others row d) of
     (Inl e, d1) \<Rightarrow> ((0, Some e), d1)
   | (Inr n, d1) \<Rightarrow> (case reseal_rows s draw others rows d1 of ((m, e), d2) \<Rightarrow> ((n + m, e), d2)))"

partial_function (option) reseal_from ::
  "token_sealer \<Rightarrow> draws \<Rightarrow> (token_row \<Rightarrow> db \<Rightarrow> db) \<Rightarrow> string \<times> string \<Rightarrow> int \<Rightarrow> db \<Rightarrow> ((int \<times> error option) \<times> db) option" where
  "reseal_from s draw others after acc d = (case token_batch after d of
     (Inl e, d1) \<Rightarrow> Some ((acc, Some e), d1)
   | (Inr rows, d1) \<Rightarrow> (case reseal_rows s draw others rows d1 of
       ((n, e), d2) \<Rightarrow>
         if e \<noteq> None \<or> length rows < reseal_batch then Some ((acc + n, e), d2)
         else reseal_from s draw others (tr_key (last rows)) (acc + n) d2))"

declare reseal_from.simps [code]

definition reseal_identities ::
  "token_sealer \<Rightarrow> draws \<Rightarrow> (token_row \<Rightarrow> db \<Rightarrow> db) \<Rightarrow> db \<Rightarrow> ((int \<times> error option) \<times> db) option" where
  "reseal_identities s draw others d =
     (if s = None then Some ((0, Some (Plain ''porte/pg: reseal needs a token sealer'')), d)
      else reseal_from s draw others ([], []) 0 d)"

section \<open>The loop ends\<close>

lemma tr_key_of [simp]: "tr_key (token_row_of i) = identity_key i"
  by (simp add: tr_key_def token_row_of_def identity_key_def)

lemma set_rows_after: "set (rows_after after d) = {i \<in> set (identities d). after < identity_key i \<and> has_tokens i}"
  by (auto simp: rows_after_def)

lemma set_tokens_key [simp]: "identity_key (set_tokens a r i) = identity_key i"
  by (simp add: set_tokens_def identity_key_def)

lemma set_tokens_keys [simp]: "map identity_key (update_where p (set_tokens a r) is) = map identity_key is"
  by (rule map_update_where) simp

lemma set_tokens_keyset [simp]: "identity_key ` set (update_where p (set_tokens a r) is) = identity_key ` set is"
  by (simp flip: set_map)

lemma reseal_row_keys:
  "identity_key ` set (identities (snd (reseal_row s draw row d))) = identity_key ` set (identities d)"
  by (simp add: reseal_row_def wrapping_def stmt_def split: prod.splits sum.splits if_splits)

lemma reseal_rows_keys:
  assumes "\<And>row d. identity_key ` set (identities d) \<subseteq> K \<Longrightarrow> identity_key ` set (identities (others row d)) \<subseteq> K"
  shows "identity_key ` set (identities d) \<subseteq> K \<Longrightarrow>
    identity_key ` set (identities (snd (reseal_rows s draw others rows d))) \<subseteq> K"
proof (induction rows arbitrary: d)
  case (Cons row rows)
  obtain r d1 where r: "reseal_row s draw row (others row d) = (r, d1)" by (cases "reseal_row s draw row (others row d)")
  have "identity_key ` set (identities d1) \<subseteq> K"
    using reseal_row_keys [of s draw row "others row d"] assms [OF Cons.prems] r by simp
  with Cons.IH [of d1] r show ?case by (cases r) (auto split: prod.splits)
qed simp

lemma token_batch_Inr:
  assumes "token_batch after d = (Inr rows, d1)"
  shows "rows = map token_row_of (take reseal_batch (rows_after after d)) \<and> d1 = tick d"
  using assms by (auto simp: token_batch_def wrapping_def rows_after_def split: prod.splits sum.splits dest!: query_Inr)

lemma reseal_from_returns:
  assumes "finite K"
    and others: "\<And>row d. identity_key ` set (identities d) \<subseteq> K \<Longrightarrow> identity_key ` set (identities (others row d)) \<subseteq> K"
    and "identity_key ` set (identities d) \<subseteq> K"
  shows "\<exists>y. reseal_from s draw others after acc d = Some y"
  using assms(3)
proof (induction "card {k \<in> K. after < k}" arbitrary: after acc d rule: less_induct)
  case less
  obtain br d1 where b: "token_batch after d = (br, d1)" by (cases "token_batch after d")
  show ?case
  proof (cases br)
    case (Inl e)
    with b show ?thesis by (subst reseal_from.simps) simp
  next
    case (Inr rows)
    obtain n e d2 where r: "reseal_rows s draw others rows d1 = ((n, e), d2)"
      by (metis surj_pair)
    show ?thesis
    proof (cases "e \<noteq> None \<or> length rows < reseal_batch")
      case True
      with b Inr r show ?thesis by (subst reseal_from.simps) simp
    next
      case False
      note batch = token_batch_Inr [OF b [unfolded Inr]]
      have "rows \<noteq> []" using False by (auto simp: reseal_batch_def)
      then have "last rows \<in> set rows" by simp
      then obtain i where i: "last rows = token_row_of i" "i \<in> set (rows_after after d)"
        using batch by (auto dest: in_set_takeD)
      then have key: "after < identity_key i" "identity_key i \<in> K"
        using less.prems by (auto simp: set_rows_after)
      then have "{k \<in> K. tr_key (last rows) < k} \<subset> {k \<in> K. after < k}" using i(1) by auto
      then have "card {k \<in> K. tr_key (last rows) < k} < card {k \<in> K. after < k}"
        using assms(1) by (intro psubset_card_mono) auto
      moreover have "identity_key ` set (identities d2) \<subseteq> K"
        using reseal_rows_keys [where K = K and d = d1 and s = s and draw = draw and rows = rows and others = others, OF others] r batch less.prems by simp
      ultimately obtain y where "reseal_from s draw others (tr_key (last rows)) (acc + n) d2 = Some y"
        using less.hyps by blast
      with b Inr r False show ?thesis by (subst reseal_from.simps) simp
    qed
  qed
qed

section \<open>What a reseal leaves\<close>

definition resealed :: "token_sealer \<Rightarrow> draws \<Rightarrow> identity_row \<Rightarrow> identity_row" where
  "resealed s draw i = set_tokens (fst (reseal_value s (fst (draw (token_row_of i))) (i_access_token i)))
     (fst (reseal_value s (snd (draw (token_row_of i))) (i_refresh_token i))) i"

definition reseals :: "token_sealer \<Rightarrow> draws \<Rightarrow> identity_row \<Rightarrow> bool" where
  "reseals s draw i = (snd (reseal_value s (fst (draw (token_row_of i))) (i_access_token i)) \<or>
     snd (reseal_value s (snd (draw (token_row_of i))) (i_refresh_token i)))"

lemma resealed_key [simp]: "identity_key (resealed s draw i) = identity_key i"
  by (simp add: resealed_def)

lemma reseal_value_unchanged: "\<not> snd (reseal_value s e v) \<Longrightarrow> fst (reseal_value s e v) = v"
  by (auto simp: reseal_value_def split: sum.splits prod.splits if_splits)

lemma not_reseals: "\<not> reseals s draw i \<Longrightarrow> resealed s draw i = i"
  by (simp add: resealed_def reseals_def reseal_value_unchanged set_tokens_def)

lemma reseal_value_Nil [simp]: "reseal_value s e [] = ([], False)"
  by (simp add: reseal_value_def open_sealed_def)

lemma reseals_has_tokens: "reseals s draw i \<Longrightarrow> has_tokens i"
  by (auto simp: reseals_def has_tokens_def)

lemma no_tokens_resealed: "\<not> has_tokens i \<Longrightarrow> resealed s draw i = i"
  using not_reseals reseals_has_tokens by blast

abbreviation keys_distinct :: "identity_row list \<Rightarrow> bool" where
  "keys_distinct is \<equiv> distinct (map identity_key is)"

lemma keys_distinct_eq: "keys_distinct is \<Longrightarrow> i \<in> set is \<Longrightarrow> j \<in> set is \<Longrightarrow> identity_key i = identity_key j \<Longrightarrow> i = j"
  by (auto simp: distinct_map inj_on_def)

lemma as_read_iff:
  "keys_distinct is \<Longrightarrow> i \<in> set is \<Longrightarrow> j \<in> set is \<Longrightarrow> as_read (token_row_of i) j \<longleftrightarrow> j = i"
  unfolding as_read_def by (metis keys_distinct_eq tr_key_of)

lemma as_read_key: "as_read (token_row_of i) j \<Longrightarrow> identity_key j = identity_key i"
  unfolding as_read_def by (metis tr_key_of)

lemma as_read_refl: "as_read (token_row_of i) i"
  by (simp add: as_read_def)

lemma affected_one: "keys_distinct is \<Longrightarrow> i \<in> set is \<Longrightarrow> affected (as_read (token_row_of i)) is = 1"
proof (induction "is")
  case (Cons x xs)
  show ?case
  proof (cases "i = x")
    case True
    have "\<not> as_read (token_row_of i) j" if "j \<in> set xs" for j
      using Cons.prems(1) True that as_read_key [of i j] by (auto simp: image_iff)
    then have "affected (as_read (token_row_of i)) xs = 0" by (simp add: affected_pos)
    then show ?thesis using True by (simp add: affected_Cons as_read_refl)
  next
    case False
    have "\<not> as_read (token_row_of i) x"
      using Cons.prems False as_read_key [of i x] by (auto simp: image_iff)
    with Cons False show ?thesis by (simp add: affected_Cons)
  qed
qed simp

lemma reseal_row_effect:
  assumes "faults d = []" and "keys_distinct (identities d)" and "i \<in> set (identities d)"
  shows "reseal_row s draw (token_row_of i) d = (Inr (if reseals s draw i then 1 else 0),
    d\<lparr>identities := map (\<lambda>j. if j = i then resealed s draw j else j) (identities d)\<rparr>)"
proof -
  obtain a ac where a: "reseal_value s (fst (draw (token_row_of i))) (i_access_token i) = (a, ac)" by (metis surj_pair)
  obtain r rc where r: "reseal_value s (snd (draw (token_row_of i))) (i_refresh_token i) = (r, rc)" by (metis surj_pair)
  have tr: "tr_access (token_row_of i) = i_access_token i" "tr_refresh (token_row_of i) = i_refresh_token i"
    by (simp_all add: token_row_of_def)
  have new: "resealed s draw i = set_tokens a r i" "reseals s draw i \<longleftrightarrow> ac \<or> rc"
    by (simp_all add: resealed_def reseals_def a r)
  show ?thesis
  proof (cases "ac \<or> rc")
    case False
    then have "map (\<lambda>j. if j = i then resealed s draw j else j) (identities d) = identities d"
      using not_reseals [of s draw i] new by (simp add: map_idI)
    with False new show ?thesis by (simp add: reseal_row_def tr a r)
  next
    case True
    have "update_where (as_read (token_row_of i)) (set_tokens a r) (identities d) =
        map (\<lambda>j. if j = i then resealed s draw j else j) (identities d)"
      using assms(2,3) new(1) by (auto simp: update_where_def as_read_iff)
    with True new assms affected_one [OF assms(2,3)] show ?thesis
      by (auto simp: reseal_row_def tr a r wrapping_def)
  qed
qed

lemma reseal_rows_effect:
  assumes "faults d = []" and "keys_distinct (identities d)" and "set is \<subseteq> set (identities d)" and "distinct is"
  shows "reseal_rows s draw (\<lambda>row d. d) (map token_row_of is) d = ((int (length (filter (reseals s draw) is)), None),
    d\<lparr>identities := map (\<lambda>j. if j \<in> set is then resealed s draw j else j) (identities d)\<rparr>)"
  using assms
proof (induction "is" arbitrary: d)
  case (Cons i xs)
  let ?g = "\<lambda>j. if j = i then resealed s draw j else j"
  let ?d = "d\<lparr>identities := map ?g (identities d)\<rparr>"
  have keys: "map identity_key (map ?g (identities d)) = map identity_key (identities d)" by simp
  have i: "i \<in> set (identities d)" using Cons.prems(3) by simp
  have rest: "set xs \<subseteq> set (identities ?d)"
  proof
    fix x assume "x \<in> set xs"
    with Cons.prems(3,4) have "x \<in> set (identities d)" "x \<noteq> i" by auto
    then show "x \<in> set (identities ?d)" by force
  qed
  have new: "resealed s draw i \<notin> set xs"
  proof
    assume r: "resealed s draw i \<in> set xs"
    then have "resealed s draw i = i" using Cons.prems(2,3) by (intro keys_distinct_eq [of "identities d"]) auto
    with r Cons.prems(4) show False by simp
  qed
  have "keys_distinct (identities ?d)" using keys Cons.prems(2) by (simp del: map_map)
  from Cons.IH [OF _ this rest] Cons.prems(1,4) new
  have "reseal_rows s draw (\<lambda>row d. d) (map token_row_of xs) ?d = ((int (length (filter (reseals s draw) xs)), None),
      d\<lparr>identities := map (\<lambda>j. if j \<in> set (i # xs) then resealed s draw j else j) (identities d)\<rparr>)"
    by (auto simp: comp_def intro!: map_cong)
  with reseal_row_effect [OF Cons.prems(1,2) i, of s draw] show ?case by simp
qed simp

text \<open>A full batch is what lies after the cursor and not past its last row.\<close>

lemma batch_is_prefix:
  assumes "keys_distinct (identities d)" and "take m (rows_after after d) \<noteq> []" and "i \<in> set (identities d)"
    and "after < identity_key i" and "has_tokens i"
  shows "i \<in> set (take m (rows_after after d)) \<longleftrightarrow> identity_key i \<le> identity_key (last (take m (rows_after after d)))"
proof -
  let ?xs = "rows_after after d"
  have "keys_distinct ?xs"
  proof -
    have "mset (map identity_key ?xs) = mset (map identity_key (filter (\<lambda>i. after < identity_key i \<and> has_tokens i) (identities d)))"
      by (simp add: rows_after_def)
    then show ?thesis using assms(1) by (metis distinct_map_filter mset_eq_imp_distinct_iff)
  qed
  then have strict: "sorted_wrt (<) (map identity_key ?xs)"
    by (simp add: rows_after_def strict_sorted_iff)
  have split: "sorted_wrt (<) (map identity_key (take m ?xs) @ map identity_key (drop m ?xs))"
    using strict by (simp flip: map_append)
  have le: "identity_key x \<le> identity_key (last (take m ?xs))" if "x \<in> set (take m ?xs)" for x
  proof -
    obtain ys where ys: "take m ?xs = ys @ [last (take m ?xs)]" using assms(2) by (metis append_butlast_last_id)
    have "sorted_wrt (<) (map identity_key (take m ?xs))" using split by (simp add: sorted_wrt_append)
    then have "sorted_wrt (<) (map identity_key (ys @ [last (take m ?xs)]))" using ys by metis
    moreover have "x \<in> set (ys @ [last (take m ?xs)])" using that ys by metis
    ultimately show ?thesis by (auto simp: sorted_wrt_append less_imp_le)
  qed
  have gt: "identity_key (last (take m ?xs)) < identity_key x" if "x \<in> set (drop m ?xs)" for x
    using split that assms(2) by (simp add: sorted_wrt_append)
  have "i \<in> set ?xs" using assms(3-5) by (simp add: set_rows_after)
  then have "i \<in> set (take m ?xs) \<or> i \<in> set (drop m ?xs)" by (metis Un_iff append_take_drop_id set_append)
  with le gt show ?thesis by (meson leD)
qed

definition reseal_after :: "token_sealer \<Rightarrow> draws \<Rightarrow> string \<times> string \<Rightarrow> identity_row \<Rightarrow> identity_row" where
  "reseal_after s draw after i = (if after < identity_key i then resealed s draw i else i)"

definition resealable :: "token_sealer \<Rightarrow> draws \<Rightarrow> string \<times> string \<Rightarrow> db \<Rightarrow> identity_row set" where
  "resealable s draw after d = {i \<in> set (identities d). after < identity_key i \<and> reseals s draw i}"

lemma no_faults_batch:
  "faults d = [] \<Longrightarrow> token_batch after d = (Inr (map token_row_of (take reseal_batch (rows_after after d))), d)"
  by (simp add: token_batch_def wrapping_def)

lemma distinct_batch: "keys_distinct (identities d) \<Longrightarrow> distinct (take m (rows_after after d))"
  by (simp add: rows_after_def distinct_map)

lemma reseal_from_effect:
  assumes "faults d = []" and "keys_distinct (identities d)"
  shows "reseal_from s draw (\<lambda>row d. d) after acc d = Some ((acc + int (card (resealable s draw after d)), None),
    d\<lparr>identities := map (reseal_after s draw after) (identities d)\<rparr>)"
  using assms
proof (induction "card {k \<in> identity_key ` set (identities d). after < k}" arbitrary: after acc d rule: less_induct)
  case less
  let ?xs = "take reseal_batch (rows_after after d)"
  let ?g = "\<lambda>j. if j \<in> set ?xs then resealed s draw j else j"
  let ?d = "d\<lparr>identities := map ?g (identities d)\<rparr>"
  have sub: "set ?xs \<subseteq> set (identities d)" by (auto simp: set_rows_after dest: in_set_takeD)
  have run: "reseal_rows s draw (\<lambda>row d. d) (map token_row_of ?xs) d =
      ((int (length (filter (reseals s draw) ?xs)), None), ?d)"
    by (rule reseal_rows_effect [OF less.prems sub distinct_batch [OF less.prems(2)]])
  have num: "length (filter (reseals s draw) ?xs) = card {i \<in> set ?xs. reseals s draw i}"
    using distinct_batch [OF less.prems(2), of reseal_batch after]
    using distinct_card [OF distinct_filter, of ?xs "reseals s draw"] by simp
  have step: "reseal_from s draw (\<lambda>row d. d) after acc d =
      (if length ?xs < reseal_batch then Some ((acc + int (length (filter (reseals s draw) ?xs)), None), ?d)
       else reseal_from s draw (\<lambda>row d. d) (tr_key (last (map token_row_of ?xs)))
         (acc + int (length (filter (reseals s draw) ?xs))) ?d)"
    by (subst reseal_from.simps)
      (simp only: no_faults_batch [OF less.prems(1)] run prod.case sum.case length_map simp_thms)
  show ?case
  proof (cases "length ?xs < reseal_batch")
    case True
    then have "?xs = rows_after after d" by simp
    then have all: "set ?xs = {i \<in> set (identities d). after < identity_key i \<and> has_tokens i}"
      by (simp add: set_rows_after)
    have "map ?g (identities d) = map (reseal_after s draw after) (identities d)"
      using all by (intro map_cong) (auto simp: reseal_after_def no_tokens_resealed)
    moreover have "{i \<in> set ?xs. reseals s draw i} = resealable s draw after d"
      using all reseals_has_tokens [of s draw] by (auto simp: resealable_def)
    ultimately show ?thesis
      using True num by (simp only: step if_True)
  next
    case False
    then have "?xs \<noteq> []" by (auto simp: reseal_batch_def)
    then have l: "last ?xs \<in> set ?xs" by (rule last_in_set)
    let ?L = "identity_key (last ?xs)"
    have batch: "i \<in> set ?xs \<longleftrightarrow> identity_key i \<le> ?L" if "i \<in> set (identities d)" "after < identity_key i" "has_tokens i" for i
      using batch_is_prefix [OF less.prems(2) \<open>?xs \<noteq> []\<close> that] .
    have inxs: "i \<in> set (identities d) \<and> after < identity_key i \<and> has_tokens i" if "i \<in> set ?xs" for i
      using that by (auto simp: set_rows_after dest: in_set_takeD)
    have L: "after < ?L" using inxs [OF l] by simp
    have past: "?g i = i" if "i \<in> set (identities d)" "?L < identity_key i" for i
      using inxs [of i] batch [of i] that by (auto simp: not_le [symmetric])
    have keys: "map identity_key (map ?g (identities d)) = map identity_key (identities d)" by simp
    have prems: "faults ?d = []" "keys_distinct (identities ?d)" using less.prems keys by (simp_all del: map_map)
    have keyset: "identity_key ` set (identities ?d) = identity_key ` set (identities d)"
      using arg_cong [OF keys, of set] by (simp only: set_map) simp
    have smaller: "card {k \<in> identity_key ` set (identities ?d). ?L < k} < card {k \<in> identity_key ` set (identities d). after < k}"
      unfolding keyset
    proof (intro psubset_card_mono psubsetI)
      show "{k \<in> identity_key ` set (identities d). ?L < k} \<subseteq> {k \<in> identity_key ` set (identities d). after < k}"
        using L by auto
      have "?L \<in> {k \<in> identity_key ` set (identities d). after < k}" using L inxs [OF l] by simp
      moreover have "?L \<notin> {k \<in> identity_key ` set (identities d). ?L < k}" by simp
      ultimately show "{k \<in> identity_key ` set (identities d). ?L < k} \<noteq> {k \<in> identity_key ` set (identities d). after < k}"
        by blast
    qed simp
    have nxt: "reseal_from s draw (\<lambda>row d. d) ?L (acc + int (length (filter (reseals s draw) ?xs))) ?d =
        Some ((acc + int (length (filter (reseals s draw) ?xs)) + int (card (resealable s draw ?L ?d)), None),
          ?d\<lparr>identities := map (reseal_after s draw ?L) (identities ?d)\<rparr>)"
      by (rule less.hyps [OF smaller prems])
    have row: "reseal_after s draw ?L (?g i) = reseal_after s draw after i" if i: "i \<in> set (identities d)" for i
    proof (cases "?L < identity_key i")
      case True
      with past [OF i True] L show ?thesis by (simp add: reseal_after_def)
    next
      case False
      with batch [OF i] inxs [of i] show ?thesis
        by (cases "has_tokens i") (auto simp: reseal_after_def no_tokens_resealed)
    qed
    then have rows: "map (reseal_after s draw ?L) (map ?g (identities d)) = map (reseal_after s draw after) (identities d)"
      unfolding map_map comp_def by (intro map_cong refl) blast
    have later: "resealable s draw ?L ?d = resealable s draw ?L d"
    proof -
      have "?L < identity_key (?g i) \<longleftrightarrow> ?L < identity_key i" for i by simp
      then show ?thesis using past unfolding resealable_def by (force simp: image_iff)
    qed
    have mem: "i \<in> set ?xs \<longleftrightarrow> i \<in> set (identities d) \<and> after < identity_key i \<and> has_tokens i \<and> identity_key i \<le> ?L" for i
      using inxs [of i] batch [of i] by blast
    have now: "{i \<in> set ?xs. reseals s draw i} =
        {i \<in> set (identities d). after < identity_key i \<and> identity_key i \<le> ?L \<and> reseals s draw i}"
      unfolding mem using reseals_has_tokens [of s draw] by blast
    have "{i \<in> set ?xs. reseals s draw i} \<union> resealable s draw ?L d = resealable s draw after d"
      unfolding now resealable_def using L by auto
    moreover have "{i \<in> set ?xs. reseals s draw i} \<inter> resealable s draw ?L d = {}"
      unfolding now resealable_def by auto
    ultimately have cards: "card {i \<in> set ?xs. reseals s draw i} + card (resealable s draw ?L ?d) = card (resealable s draw after d)"
      unfolding later by (subst card_Un_disjoint [symmetric]) (auto simp: resealable_def)
    have last: "tr_key (last (map token_row_of ?xs)) = ?L" unfolding last_map [OF \<open>?xs \<noteq> []\<close>] by (rule tr_key_of)
    have d: "?d\<lparr>identities := map (reseal_after s draw ?L) (identities ?d)\<rparr> =
        d\<lparr>identities := map (reseal_after s draw after) (identities d)\<rparr>" using rows by simp
    have c: "acc + int (length (filter (reseals s draw) ?xs)) + int (card (resealable s draw ?L ?d)) =
        acc + int (card (resealable s draw after d))" unfolding num cards [symmetric] by simp
    show ?thesis
      using False unfolding step last nxt d c by (simp only: if_False)
  qed
qed

section \<open>The reseal as a whole\<close>

text \<open>
  C27: a reseal ends. Whatever the statements do and whatever other processes write between a batch
  and its updates, the loop returns as long as the identities are drawn from finitely many keys,
  because the cursor moves up with every full batch.
\<close>

theorem reseal_terminates:
  assumes "finite K" and "identity_key ` set (identities d) \<subseteq> K"
    and "\<And>row d. identity_key ` set (identities d) \<subseteq> K \<Longrightarrow> identity_key ` set (identities (others row d)) \<subseteq> K"
  shows "\<exists>n e d'. reseal_identities s draw others d = Some ((n, e), d')"
proof -
  obtain y where "reseal_from s draw others ([], []) 0 d = Some y"
    by (rule exE [OF reseal_from_returns [OF assms(1,3,2)]])
  then show ?thesis by (cases y) (auto simp: reseal_identities_def)
qed

definition clear_row :: identity_row where
  "clear_row = (new_identity 1 ''idp'' ''t'')\<lparr>i_access_token := ''clear''\<rparr>"

definition clear_db :: db where
  "clear_db = login_db\<lparr>identities := [clear_row]\<rparr>"

theorem reseal_terminates_witness:
  "\<exists>n e d'. reseal_identities (Some [tag_aead CHR ''n'']) (\<lambda>r. (None, None)) (\<lambda>row d. d\<lparr>identities := []\<rparr>) clear_db = Some ((n, e), d')"
  by (rule reseal_terminates [where K = "{(''idp'', ''t'')}"])
    (simp_all add: clear_db_def clear_row_def identity_key_def new_identity_def)

definition plain_of :: "token_sealer \<Rightarrow> string \<Rightarrow> string result" where
  "plain_of s v = map_sum id fst (open_sealed s v)"

definition row_view :: "token_sealer \<Rightarrow> identity_row \<Rightarrow> identity_row \<times> string result \<times> string result" where
  "row_view s i = (set_tokens [] [] i, plain_of s (i_access_token i), plain_of s (i_refresh_token i))"

definition full_draws :: "draws \<Rightarrow> bool" where
  "full_draws draw = (\<forall>r. full_nonce (fst (draw r)) \<and> full_nonce (snd (draw r)))"

lemma set_tokens_simps [simp]:
  "i_access_token (set_tokens a r i) = a" "i_refresh_token (set_tokens a r i) = r"
  "set_tokens a' r' (set_tokens a r i) = set_tokens a' r' i"
  by (simp_all add: set_tokens_def)

lemma plain_of_resealed:
  assumes "aead_sound a" and "full_nonce e"
  shows "plain_of (Some (a # as)) (fst (reseal_value (Some (a # as)) e v)) = plain_of (Some (a # as)) v"
    and "snd (reseal_value (Some (a # as)) e' (fst (reseal_value (Some (a # as)) e v))) = False"
  using reseal_value_idempotent [OF assms, of as v e'] by (simp_all add: plain_of_def)

lemma resealed_view:
  assumes "aead_sound a" and "full_draws draw"
  shows "row_view (Some (a # as)) (resealed (Some (a # as)) draw i) = row_view (Some (a # as)) i \<and>
    \<not> reseals (Some (a # as)) draw' (resealed (Some (a # as)) draw i)"
proof -
  have n: "full_nonce (fst (draw r))" "full_nonce (snd (draw r))" for r using assms(2) by (simp_all add: full_draws_def)
  note p = plain_of_resealed [OF assms(1) n(1)] plain_of_resealed [OF assms(1) n(2)]
  show ?thesis
    unfolding row_view_def reseals_def resealed_def set_tokens_simps p by simp
qed


definition twelve_bytes :: draws where
  "twelve_bytes r = (Some ''twelve bytes'', Some ''twelve bytes'')"


end
