(* ===== verification/Link_Memory.thy ===== *)
theory Link_Memory
  imports Pg_Codes
begin

text \<open>
  The in-memory store of the conformance suite (\<open>magiclink/magiclinktest/memory.go\<close>), and that
  \<open>porte/pg\<close> answers as it does: the database refines the reference the suite is written against.
  A zero \<open>consumedAt\<close> is a link that was not consumed.
\<close>

section \<open>Memory\<close>

record memory_row =
  mr_link :: magic_link
  mr_consumed_at :: time

type_synonym link_memory = "memory_row list"

definition memory_create :: "magic_link \<Rightarrow> link_memory \<Rightarrow> unit result \<times> link_memory" where
  "memory_create l rows = (Inr (), map (\<lambda>r. if ml_user (mr_link r) = ml_user l \<and> mr_consumed_at r = 0
     then r\<lparr>mr_consumed_at := ml_created_at l\<rparr> else r) rows @ [\<lparr>mr_link = l, mr_consumed_at = 0\<rparr>])"

fun memory_consume :: "string \<Rightarrow> time \<Rightarrow> link_memory \<Rightarrow> int result \<times> link_memory" where
  "memory_consume h now [] = (Inl (Sentinel ErrNotFound), [])"
| "memory_consume h now (r # rows) =
     (if ml_token_hash (mr_link r) = h \<and> mr_consumed_at r = 0 \<and> now < ml_expires_at (mr_link r)
      then (Inr (ml_user (mr_link r)), r\<lparr>mr_consumed_at := now\<rparr> # rows)
      else case memory_consume h now rows of (res, rows') \<Rightarrow> (res, r # rows'))"

definition memory_count_since :: "link_key \<Rightarrow> time \<Rightarrow> link_memory \<Rightarrow> int result \<times> link_memory" where
  "memory_count_since k since rows =
     (if k_user k = 0 \<and> k_ip k = [] then (Inr 0, rows)
      else (Inr (int (length (filter (\<lambda>r. (k_user k = 0 \<or> ml_user (mr_link r) = k_user k) \<and>
        (k_ip k = [] \<or> ml_ip (mr_link r) = k_ip k) \<and> \<not> ml_created_at (mr_link r) < since) rows))), rows))"

definition memory_delete_expired :: "time \<Rightarrow> link_memory \<Rightarrow> int result \<times> link_memory" where
  "memory_delete_expired cutoff rows =
     (let gone = (\<lambda>r. ml_expires_at (mr_link r) < cutoff) in
      (Inr (int (length (filter gone rows))), filter (\<lambda>r. \<not> gone r) rows))"

definition memory_links :: "link_memory magic_link_store_ops" where
  "memory_links = \<lparr>mk_create = memory_create, mk_consume = memory_consume, mk_count_since = memory_count_since,
     mk_delete_expired = memory_delete_expired\<rparr>"

section \<open>Calls and answers\<close>

datatype link_store_call =
    CreateLink magic_link
  | ConsumeLink string time
  | CountLinks link_key time
  | DeleteLinks time

datatype link_answer = Stored | Spent int | Counted int | Unknown | Broken

definition number_answer :: "int result \<Rightarrow> link_answer" where
  "number_answer r = (case r of Inl e \<Rightarrow> Broken | Inr n \<Rightarrow> Counted n)"

fun ask_links :: "'s magic_link_store_ops \<Rightarrow> link_store_call \<Rightarrow> 's \<Rightarrow> link_answer \<times> 's" where
  "ask_links st (CreateLink l) s = (case mk_create st l s of (r, s') \<Rightarrow> (case r of Inl e \<Rightarrow> Broken | Inr u \<Rightarrow> Stored, s'))"
| "ask_links st (ConsumeLink h now) s = (case mk_consume st h now s of
     (r, s') \<Rightarrow> (case r of Inl e \<Rightarrow> if is_err e ErrNotFound then Unknown else Broken | Inr u \<Rightarrow> Spent u, s'))"
| "ask_links st (CountLinks k since) s = (case mk_count_since st k since s of (r, s') \<Rightarrow> (number_answer r, s'))"
| "ask_links st (DeleteLinks cutoff) s = (case mk_delete_expired st cutoff s of (r, s') \<Rightarrow> (number_answer r, s'))"

text \<open>A zero time is never a time of the caller's clock.\<close>

fun clocked_call :: "link_store_call \<Rightarrow> bool" where
  "clocked_call (CreateLink l) = (ml_created_at l \<noteq> 0)"
| "clocked_call (ConsumeLink h now) = (now \<noteq> 0)"
| "clocked_call (CountLinks k since) = True"
| "clocked_call (DeleteLinks cutoff) = True"

definition stored_of :: "memory_row \<Rightarrow> stored_link" where
  "stored_of r = (mr_link r, if mr_consumed_at r = 0 then None else Some (mr_consumed_at r))"

definition agree :: "db \<Rightarrow> link_memory \<Rightarrow> bool" where
  "agree d rows = (db_ok d \<and> link_table d = map stored_of rows)"

section \<open>One call\<close>

lemma memory_creates:
  "ml_created_at l \<noteq> 0 \<Longrightarrow> map stored_of (snd (memory_create l rows)) =
    update_where (unspent_of (ml_user l)) (spend (ml_created_at l)) (map stored_of rows) @ [(l, None)]"
  by (auto simp: memory_create_def stored_of_def update_where_def unspent_of_def spend_def)

lemma memory_consumes_none:
  "\<forall>r \<in> set rows. \<not> live_link h now (stored_of r) \<Longrightarrow> memory_consume h now rows = (Inl (Sentinel ErrNotFound), rows)"
  by (induction rows) (auto simp: live_link_def stored_of_def split: if_splits)

lemma memory_consumes:
  assumes "now \<noteq> 0" and "distinct (map (ml_token_hash \<circ> mr_link) rows)" and "r \<in> set rows" and "live_link h now (stored_of r)"
  shows "fst (memory_consume h now rows) = Inr (ml_user (mr_link r)) \<and>
    map stored_of (snd (memory_consume h now rows)) = update_where (live_link h now) (spend now) (map stored_of rows)"
  using assms(2-4)
proof (induction rows)
  case (Cons x rows)
  show ?case
  proof (cases "live_link h now (stored_of x)")
    case True
    then have h: "ml_token_hash (mr_link x) = h" by (simp add: live_link_def stored_of_def)
    have other: "ml_token_hash (mr_link y) \<noteq> h" if "y \<in> set rows" for y
      using Cons.prems(1) h that by (auto simp: image_iff)
    have "ml_token_hash (mr_link r) = h" using Cons.prems(3) by (simp add: live_link_def stored_of_def)
    with other Cons.prems(2) have "r = x" by auto
    moreover have "\<not> live_link h now l" if l: "l \<in> set (map stored_of rows)" for l
    proof -
      obtain y where "y \<in> set rows" "l = stored_of y" using l by auto
      with other [of y] show ?thesis by (simp add: live_link_def stored_of_def)
    qed
    then have "update_where (live_link h now) (spend now) (map stored_of rows) = map stored_of rows"
      by (rule update_where_none)
    ultimately show ?thesis
      using True assms(1) by (auto simp: live_link_def stored_of_def update_where_def spend_def split: if_splits)
  next
    case False
    with Cons show ?thesis
      by (auto simp: live_link_def stored_of_def update_where_def spend_def split: if_splits prod.splits)
  qed
qed simp

lemma memory_counts:
  "fst (memory_count_since k since rows) = Inr (affected (key_matches k since) (map stored_of rows))"
proof -
  have "affected (key_matches k since) (map stored_of rows) =
      int (length (filter (\<lambda>r. (k_user k \<noteq> 0 \<or> k_ip k \<noteq> []) \<and> (k_user k = 0 \<or> ml_user (mr_link r) = k_user k) \<and>
        (k_ip k = [] \<or> ml_ip (mr_link r) = k_ip k) \<and> \<not> ml_created_at (mr_link r) < since) rows))"
    by (induction rows) (auto simp: affected_def key_matches_def stored_of_def)
  then show ?thesis by (auto simp: memory_count_since_def)
qed

lemma pg_sweep_count:
  "mk_delete_expired pg_links cutoff d = (Inr n, d') \<Longrightarrow> n = affected (\<lambda>l. ml_expires_at (fst l) < cutoff) (link_table d)"
  by (auto simp: pg_links_def link_delete_expired_def wrapping_def stmt_def link_table_def affected_def filter_map comp_def
      split: prod.splits sum.splits if_splits)

lemma agree_step:
  assumes "agree d rows" and "clocked_call c" and "ask_links pg_links c d = (a, d')"
  shows "if a = Broken then agree d' rows
    else agree d' (snd (ask_links memory_links c rows)) \<and> fst (ask_links memory_links c rows) = a"
proof -
  have ok: "db_ok d" and t: "link_table d = map stored_of rows" using assms(1) by (simp_all add: agree_def)
  show ?thesis
  proof (cases c)
    case (CreateLink l)
    obtain r d1 where r: "mk_create pg_links l d = (r, d1)" by (cases "mk_create pg_links l d")
    have "db_ok d1" using pgl.create_ok [OF ok, of l] r by simp
    with assms(2,3) CreateLink r t pgl.create_row [OF ok, of l d1] pgl.create_failed [OF ok, of l _ d1] memory_creates [of l rows]
    show ?thesis by (cases r) (auto simp: agree_def memory_links_def memory_create_def)
  next
    case (ConsumeLink h now)
    obtain r d1 where r: "mk_consume pg_links h now d = (r, d1)" by (cases "mk_consume pg_links h now d")
    have ok1: "db_ok d1" using pgl.consume_ok [OF ok, of h now] r by simp
    show ?thesis
    proof (cases r)
      case (Inl e)
      with pgl.consume_failed [OF ok, of h now e d1] r t
      have "link_table d1 = map stored_of rows"
        and "is_err e ErrNotFound \<longrightarrow> memory_consume h now rows = (Inl (Sentinel ErrNotFound), rows)"
        by (auto intro!: memory_consumes_none)
      with assms(3) ConsumeLink r Inl ok1 show ?thesis
        by (cases "is_err e ErrNotFound") (simp_all add: agree_def memory_links_def)
    next
      case (Inr u)
      with pgl.consume_row [OF ok, of h now u d1] r t obtain x where x: "x \<in> set rows" "live_link h now (stored_of x)"
        "ml_user (mr_link x) = u" and t1: "link_table d1 = update_where (live_link h now) (spend now) (map stored_of rows)"
        by (auto simp: stored_of_def)
      have "map (ml_token_hash \<circ> mr_link) rows = map (ml_token_hash \<circ> fst) (link_table d)"
        by (simp add: t stored_of_def)
      then have "distinct (map (ml_token_hash \<circ> mr_link) rows)" using pgl.link_hashes [OF ok] by metis
      with memory_consumes [of now rows x h] x assms(2) ConsumeLink
      have "fst (memory_consume h now rows) = Inr u \<and>
          map stored_of (snd (memory_consume h now rows)) = link_table d1" by (simp add: t1)
      with assms(3) ConsumeLink r Inr ok1 show ?thesis
        by (cases "memory_consume h now rows") (auto simp: agree_def memory_links_def)
    qed
  next
    case (CountLinks k since)
    obtain r d1 where r: "mk_count_since pg_links k since d = (r, d1)" by (cases "mk_count_since pg_links k since d")
    have "db_ok d1 \<and> link_table d1 = link_table d" using pgl.count_ok [OF ok, of k since] r by simp
    moreover have "snd (memory_count_since k since rows) = rows" by (simp add: memory_count_since_def)
    ultimately show ?thesis
      using assms(3) CountLinks r t pgl.count_rows [OF ok, of k since _ d1] memory_counts [of k since rows]
      by (cases r; cases "memory_count_since k since rows") (auto simp: agree_def memory_links_def number_answer_def)
  next
    case (DeleteLinks cutoff)
    obtain r d1 where r: "mk_delete_expired pg_links cutoff d = (r, d1)" by (cases "mk_delete_expired pg_links cutoff d")
    have "db_ok d1" using pgl.sweep_ok [OF ok, of cutoff] r by simp
    moreover have "map stored_of (snd (memory_delete_expired cutoff rows)) =
        delete_where (\<lambda>l. ml_expires_at (fst l) < cutoff) (map stored_of rows)"
      by (simp add: memory_delete_expired_def Let_def delete_where_def filter_map comp_def stored_of_def)
    moreover have "fst (memory_delete_expired cutoff rows) = Inr (affected (\<lambda>l. ml_expires_at (fst l) < cutoff) (map stored_of rows))"
      by (simp add: memory_delete_expired_def Let_def affected_def filter_map comp_def stored_of_def)
    ultimately show ?thesis
      using assms(3) DeleteLinks r t pgl.sweep_rows [OF ok, of cutoff _ d1] pgl.sweep_failed [OF ok, of cutoff _ d1]
        pg_sweep_count [of cutoff d _ d1]
      by (cases r; cases "memory_delete_expired cutoff rows") (auto simp: agree_def memory_links_def number_answer_def)
  qed
qed

section \<open>Histories\<close>

text \<open>
  The answers of the two stores to the same calls. A call that \<open>porte/pg\<close> could not carry out, a
  statement that did not run, a constraint, an account that is gone, is not made to the memory.
\<close>

fun both_answers :: "link_store_call list \<Rightarrow> db \<Rightarrow> link_memory \<Rightarrow> (link_answer \<times> link_answer) list" where
  "both_answers [] d rows = []"
| "both_answers (c # cs) d rows = (case ask_links pg_links c d of (a, d') \<Rightarrow>
     if a = Broken then both_answers cs d' rows
     else case ask_links memory_links c rows of (b, rows') \<Rightarrow> (a, b) # both_answers cs d' rows')"

text \<open>
  C28: \<open>porte/pg\<close> refines the reference store. From a database and a memory that hold the same links,
  every call of any history that the database carries out gets the answer the memory gives: the
  same links spent and refused, for the same users, and the same counts.
\<close>

theorem link_store_refines_memory:
  assumes "agree d rows" and "\<And>c. c \<in> set calls \<Longrightarrow> clocked_call c"
  shows "(a, b) \<in> set (both_answers calls d rows) \<Longrightarrow> a = b"
  using assms
proof (induction calls arbitrary: d rows)
  case (Cons c cs)
  obtain a1 d1 where a1: "ask_links pg_links c d = (a1, d1)" by (cases "ask_links pg_links c d")
  obtain b1 rows1 where b1: "ask_links memory_links c rows = (b1, rows1)" by (cases "ask_links memory_links c rows")
  have "if a1 = Broken then agree d1 rows else agree d1 rows1 \<and> b1 = a1"
    using agree_step [OF Cons.prems(2) _ a1] Cons.prems(3) [of c] b1 by (simp split: if_splits)
  with Cons.prems Cons.IH a1 b1 show ?case by (auto split: if_splits)
qed simp

definition one_user_db :: db where
  "one_user_db = empty_db\<lparr>users := [\<lparr>u_id = 2, u_email = ''a@x'', u_email_verified = True, u_name = [], u_avatar_url = [],
     u_avatar_source = [], u_locale = ''en'', u_updated_at = 0\<rparr>], user_seq := 2\<rparr>"

definition one_link :: magic_link where
  "one_link = \<lparr>ml_token_hash = ''h'', ml_user = 2, ml_created_at = 5, ml_expires_at = 9, ml_ip = []\<rparr>"

theorem link_store_refines_memory_witness:
  "\<exists>b. (Spent 2, b) \<in> set (both_answers [CreateLink one_link, ConsumeLink ''h'' 6, ConsumeLink ''h'' 7] one_user_db []) \<and>
     b = Spent 2"
proof -
  let ?calls = "[CreateLink one_link, ConsumeLink ''h'' 6, ConsumeLink ''h'' 7]"
  have "list_ex (\<lambda>(a, b). a = Spent 2) (both_answers ?calls one_user_db [])" by code_simp
  then obtain b where b: "(Spent 2, b) \<in> set (both_answers ?calls one_user_db [])" by (auto simp: list_ex_iff)
  have "agree one_user_db []"
    by (simp add: agree_def link_table_def one_user_db_def empty_db_def db_ok_defs)
  moreover have "clocked_call c" if "c \<in> set ?calls" for c using that by (auto simp: one_link_def)
  ultimately show ?thesis using link_store_refines_memory [OF _ _ b] b by blast
qed

end
