(* ===== verification/Query.thy ===== *)
theory Query
  imports Settings
begin

text \<open>
  Query strings survive the way through a URL: what \<open>Values.Encode\<close> writes of values with one string
  per key, \<open>ParseQuery\<close> reads back. The components that hand a URL to one another, the command-line
  login and the code pages, rest on it.
\<close>

section \<open>strings.TrimRight and strings.Trim of slashes\<close>

definition trim_right_slash :: "string \<Rightarrow> string" where
  "trim_right_slash s = rev (dropWhile (\<lambda>c. c = CHR ''/'') (rev s))"

definition trim_slashes :: "string \<Rightarrow> string" where
  "trim_slashes s = trim_right_slash (dropWhile (\<lambda>c. c = CHR ''/'') s)"

section \<open>Escapes\<close>

lemma upper_hex_value [simp]: "n < 16 \<Longrightarrow> hex_value (upper_hex n) = Some n"
  by (auto simp: upper_hex_def hex_value_def Let_def)

lemma upper_hex_unreserved [simp]: "n < 16 \<Longrightarrow> unreserved (upper_hex n)"
  by (auto simp: upper_hex_def unreserved_def Let_def)

lemma unreserved_is_plain: "unreserved c \<Longrightarrow> c \<noteq> CHR ''%'' \<and> c \<noteq> CHR ''+'' \<and> c \<noteq> CHR ''&'' \<and> c \<noteq> CHR ''='' \<and> c \<noteq> CHR '';''"
  by (auto simp: unreserved_def Let_def)

lemma query_round_trip [simp]: "query_unescape (query_escape s) = Some s"
proof (induction s)
  case (Cons c s)
  have "(of_char c :: nat) div 16 < 16" by simp
  with Cons unreserved_is_plain [of c] show ?case by auto
qed simp

lemma query_escape_plain: "c \<in> set (query_escape s) \<Longrightarrow> unreserved c \<or> c = CHR ''+'' \<or> c = CHR ''%''"
  by (induction s) (auto split: if_splits)

lemma query_escape_no_separator [simp]:
  "CHR ''&'' \<notin> set (query_escape s)" "CHR ''='' \<notin> set (query_escape s)" "CHR '';'' \<notin> set (query_escape s)"
  using query_escape_plain [of _ s] unreserved_is_plain by fastforce+

section \<open>Entries\<close>

definition query_entry :: "string \<Rightarrow> string \<Rightarrow> string" where
  "query_entry k v = query_escape k @ ''='' @ query_escape v"

lemma parse_query_entry [simp]: "parse_entry (query_entry k v) = Some (k, v)"
proof -
  have "takeWhile (\<lambda>x. x \<noteq> CHR ''='') (query_escape k @ CHR ''='' # query_escape v) = query_escape k"
    by (subst takeWhile_append2) (auto dest: query_escape_no_separator(2) [of k, THEN notE])
  then show ?thesis by (simp add: parse_entry_def query_entry_def cut_before_def)
qed

lemma query_entry_no_amp: "CHR ''&'' \<notin> set (query_entry k v)"
  by (simp add: query_entry_def)

lemma split_on_plain: "c \<notin> set x \<Longrightarrow> split_on c x = [x]"
  by (induction x) auto

lemma split_on_first: "c \<notin> set x \<Longrightarrow> split_on c (x @ c # r) = x # split_on c r"
  by (induction x) auto

lemma split_on_join: "xs \<noteq> [] \<Longrightarrow> \<forall>x \<in> set xs. c \<notin> set x \<Longrightarrow> split_on c (join_with [c] xs) = xs"
proof (induction "[c]" xs rule: join_with.induct)
  case (3 x y xs)
  then show ?case by (simp add: split_on_first)
qed (simp_all add: split_on_plain)

lemma split_on_join_sep: "split_on c (x @ c # y) = split_on c x @ split_on c y"
proof (induction x)
  case (Cons a x)
  then show ?case by (cases "split_on c x") auto
qed simp

lemma split_on_sep: "x \<in> set (split_on c s) \<Longrightarrow> c \<notin> set x"
  by (induction s arbitrary: x) (auto split: if_splits list.splits)

lemma join_split_on: "join_with [c] (split_on c s) = s"
proof (induction s)
  case (Cons a s)
  then show ?case by (cases "split_on c s" rule: remdups_adj.cases) auto
qed simp

lemma join_with_snoc: "xs \<noteq> [] \<Longrightarrow> join_with s (xs @ [x]) = join_with s xs @ s @ x"
  by (induction s xs rule: join_with.induct) auto

section \<open>Values with one string per key\<close>

definition single :: "(string \<times> string) list \<Rightarrow> url_values" where
  "single ps = map (\<lambda>p. (fst p, [snd p])) ps"

lemma add_entry_new: "k \<notin> fst ` set vs \<Longrightarrow> add_entry (k, v) vs = vs @ [(k, [v])]"
  by (induction vs) auto

lemma add_entries:
  "distinct (map fst ps) \<Longrightarrow> fst ` set ps \<inter> fst ` set vs = {} \<Longrightarrow> fold add_entry ps vs = vs @ single ps"
proof (induction ps arbitrary: vs)
  case (Cons p ps)
  then have "fold add_entry ps (vs @ [(fst p, [snd p])]) = (vs @ [(fst p, [snd p])]) @ single ps"
    by (intro Cons.IH) (auto simp: image_iff)
  with Cons.prems show ?case using add_entry_new [of "fst p" vs "snd p"] by (simp add: single_def)
qed (simp add: single_def)

lemma single_of_key:
  "distinct (map fst ps) \<Longrightarrow> (k, v) \<in> set ps \<Longrightarrow> concat (map encode_entry (filter (\<lambda>e. fst e = k) (single ps))) = [query_entry k v]"
proof (induction ps)
  case (Cons p ps)
  have none: "filter (\<lambda>e. fst e = l) (single qs) = []" if "l \<notin> fst ` set qs" for l and qs :: "(string \<times> string) list"
    using that by (auto simp: single_def filter_empty_conv)
  show ?case
  proof (cases "p = (k, v)")
    case True
    with Cons.prems(1) none [of k ps] show ?thesis
      by (simp add: single_def encode_entry_def query_entry_def)
  next
    case False
    with Cons.prems have "fst p \<noteq> k" by (auto simp: rev_image_eqI)
    with Cons False show ?thesis by (auto simp: single_def)
  qed
qed simp

lemma values_encode_single:
  assumes "distinct (map fst ps)"
  shows "values_encode (single ps) = join_with ''&'' (map (\<lambda>k. query_entry k (the (map_of ps k))) (sort (map fst ps)))"
proof -
  have keys: "sorted_go (remdups (map fst (single ps))) = sort (map fst ps)"
    using assms by (simp add: sorted_go_sort single_def comp_def distinct_remdups_id)
  have "concat (map encode_entry (filter (\<lambda>e. fst e = k) (single ps))) = [query_entry k (the (map_of ps k))]"
    if "k \<in> set (sort (map fst ps))" for k
  proof -
    from that obtain v where "(k, v) \<in> set ps" by auto
    with single_of_key [OF assms this] assms show ?thesis by simp
  qed
  then have "map (\<lambda>k. concat (map encode_entry (filter (\<lambda>e. fst e = k) (single ps)))) (sort (map fst ps)) =
      map (\<lambda>k. [query_entry k (the (map_of ps k))]) (sort (map fst ps))" by (intro map_cong refl)
  then have "concat (map (\<lambda>k. concat (map encode_entry (filter (\<lambda>e. fst e = k) (single ps)))) (sort (map fst ps))) =
      concat (map (\<lambda>k. [query_entry k (the (map_of ps k))]) (sort (map fst ps)))" by (rule arg_cong)
  then show ?thesis unfolding values_encode_def keys by (simp only: concat_map_singleton)
qed

lemma values_round_trip:
  assumes "distinct (map fst ps)"
  shows "values_get k (parse_query (values_encode (single ps))) = (case map_of ps k of None \<Rightarrow> [] | Some v \<Rightarrow> v)"
proof (cases "ps = []")
  case True
  then show ?thesis by (simp add: values_encode_def single_def parse_query_def parse_entry_def values_get_def
      sorted_go_sort List.map_filter_def)
next
  case False
  let ?ks = "sort (map fst ps)"
  let ?qs = "map (\<lambda>k. (k, the (map_of ps k))) ?ks"
  have "split_on (CHR ''&'') (values_encode (single ps)) = map (\<lambda>k. query_entry k (the (map_of ps k))) ?ks"
    unfolding values_encode_single [OF assms]
  proof (rule split_on_join)
    show "map (\<lambda>k. query_entry k (the (map_of ps k))) ?ks \<noteq> []"
      using False by (metis length_0_conv length_map length_sort)
  qed (auto simp: query_entry_no_amp)
  then have "parse_query (values_encode (single ps)) = fold add_entry ?qs []"
    by (simp add: parse_query_def List.map_filter_def comp_def)
  also have "\<dots> = single ?qs" using add_entries [of ?qs "[]"] assms by (simp add: comp_def)
  finally have "parse_query (values_encode (single ps)) = map (\<lambda>k. (k, [the (map_of ps k)])) ?ks"
    by (simp add: single_def comp_def)
  moreover have "map_of (map (\<lambda>k. (k, [the (map_of ps k)])) ?ks) k = (if k \<in> fst ` set ps then Some [the (map_of ps k)] else None)"
    by (simp add: map_of_map_restrict restrict_map_def)
  moreover have "k \<in> fst ` set ps \<longleftrightarrow> map_of ps k \<noteq> None" by (simp add: map_of_eq_None_iff)
  ultimately show ?thesis by (auto simp: values_get_def split: option.splits)
qed

end
