(* ===== verification/Handoff.thy ===== *)
theory Handoff
  imports Query
begin

text \<open>
  The page porte shows a person itself (\<open>internal/handoff/handoff.go\<close>): the template with its three
  conditions, and the escapes \<open>html/template\<close> puts on a value for the place it stands in, which are
  those of an element's text, of the title, and of an address in a quoted attribute.
\<close>

record handoff_page =
  hp_app_name :: string
  hp_logo_url :: string
  hp_heading :: string
  hp_body :: string
  hp_hint :: string
  hp_code :: string
  hp_warn :: bool

section \<open>Escapes (html/template)\<close>

text \<open>Text, a title and an attribute in quotes are escaped alike; a NUL becomes the replacement rune.\<close>

definition escape_char :: "char \<Rightarrow> string" where
  \<open>escape_char c =
     (if c = CHR 0x00 then [CHR 0xEF, CHR 0xBF, CHR 0xBD]
      else if c = CHR 0x22 then ''&#34;''
      else if c = CHR ''&'' then ''&amp;''
      else if c = CHR 0x27 then ''&#39;''
      else if c = CHR ''+'' then ''&#43;''
      else if c = CHR ''<'' then ''&lt;''
      else if c = CHR ''>'' then ''&gt;'' else [c])\<close>

definition html_escape :: "string \<Rightarrow> string" where
  "html_escape s = concat (map escape_char s)"

text \<open>An address names no protocol, or one of three.\<close>

definition safe_url :: "string \<Rightarrow> bool" where
  "safe_url s = (let protocol = cut_before (CHR '':'') s in
     CHR '':'' \<notin> set s \<or> CHR ''/'' \<in> set protocol \<or>
     equal_fold protocol ''http'' \<or> equal_fold protocol ''https'' \<or> equal_fold protocol ''mailto'')"

definition url_filter :: "string \<Rightarrow> string" where
  "url_filter s = (if safe_url s then s else ''#ZgotmplZ'')"

definition url_kept :: "char \<Rightarrow> bool" where
  "url_kept c = (unreserved c \<or> List.member ''!#$&*+,/:;=?@[]'' c)"

fun valid_escape :: "char \<Rightarrow> string \<Rightarrow> bool" where
  "valid_escape c (a # b # s) = (c = CHR ''%'' \<and> hex_value a \<noteq> None \<and> hex_value b \<noteq> None)"
| "valid_escape c s = False"

fun url_normalize :: "string \<Rightarrow> string" where
  "url_normalize [] = []"
| "url_normalize (c # s) =
     (if url_kept c \<or> valid_escape c s then c # url_normalize s
      else CHR ''%'' # hex_digit (of_char c div 16) # hex_digit (of_char c mod 16) # url_normalize s)"

definition url_attribute :: "string \<Rightarrow> string" where
  "url_attribute s = html_escape (url_normalize (url_filter s))"

section \<open>The template\<close>

definition markup_start :: string where
  \<open>markup_start = ''<!doctype html>
<html lang="en">
<meta charset="utf-8">
<meta name="viewport" content="width=device-width,initial-scale=1">
<title>''\<close>

definition markup_style :: string where
  \<open>markup_style = ''</title>
<style>
  :root{color-scheme:light dark;--bg:#fafafa;--fg:#18181b;--muted:#71717a;--card:#fff;--line:#e4e4e7;--btn:#18181b;--btn-fg:#fafafa;--warn:#b45309}
  @media (prefers-color-scheme:dark){:root{--bg:#09090b;--fg:#fafafa;--muted:#a1a1aa;--card:#18181b;--line:#27272a;--btn:#fafafa;--btn-fg:#18181b;--warn:#fbbf24}}
  *{box-sizing:border-box}
  body{margin:0;min-height:100dvh;display:flex;align-items:center;justify-content:center;padding:1.5rem;
       background:var(--bg);color:var(--fg);
       font:16px/1.6 ui-sans-serif,system-ui,-apple-system,"Segoe UI",Roboto,sans-serif}
  main{width:100%;max-width:26rem}
  .brand{display:flex;align-items:center;justify-content:center;gap:.625rem;margin-bottom:2rem}
  .brand img{display:block;width:28px;height:28px}
  .brand span{font-size:1.125rem;font-weight:650;letter-spacing:-.01em}
  .card{background:var(--card);border:1px solid var(--line);border-radius:.75rem;padding:1.75rem;text-align:center}
  h1{margin:0;font-size:1.25rem;font-weight:650;letter-spacing:-.01em}
  p{margin:.5rem 0 0;font-size:.875rem;color:var(--muted)}
  p.warn{color:var(--warn)}
  .code{display:flex;align-items:center;gap:.5rem;margin-top:1.25rem}
  .code output{flex:1;min-width:0;padding:.75rem;border:1px solid var(--line);border-radius:.5rem;
                background:var(--bg);font-family:ui-monospace,SFMono-Regular,Menlo,monospace;
                font-size:1.0625rem;letter-spacing:.15em;word-break:break-all}
  button{flex:none;height:2.75rem;padding:0 1rem;border:0;border-radius:.5rem;background:var(--btn);color:var(--btn-fg);
         font:inherit;font-size:.875rem;font-weight:500;cursor:pointer}
  button:hover{opacity:.9}
  .hint{margin-top:1.5rem;text-align:center;font-size:.8125rem;color:var(--muted)}
</style>
<main>
  <div class="brand">
    ''\<close>

definition markup_script :: string where
  \<open>markup_script = ''<script>
  const b=document.getElementById("b"),c=document.getElementById("c");
  b.addEventListener("click",async()=>{
    const t=c.textContent.trim();
    try{await navigator.clipboard.writeText(t)}
    catch{const s=document.createElement("textarea");s.value=t;document.body.append(s);s.select();document.execCommand("copy");s.remove()}
    b.textContent="Copied";setTimeout(()=>b.textContent="Copy",1600);
  });
</script>''\<close>

definition logo_markup :: "handoff_page \<Rightarrow> string" where
  \<open>logo_markup p = (if hp_logo_url p \<noteq> []
     then ''<img src="'' @ url_attribute (hp_logo_url p) @ ''" alt="" onerror="this.remove()">'' else [])\<close>

definition card_markup :: "handoff_page \<Rightarrow> string" where
  \<open>card_markup p =
     ''
    <span>'' @ html_escape (hp_app_name p) @ ''</span>
  </div>
  <div class="card">
    <h1>'' @ html_escape (hp_heading p) @ ''</h1>
    <p'' @ (if hp_warn p then '' class="warn"'' else []) @ ''>'' @ html_escape (hp_body p) @ ''</p>
    ''\<close>

definition code_markup :: "handoff_page \<Rightarrow> string" where
  \<open>code_markup p = (if hp_code p \<noteq> [] then
     ''
    <div class="code">
      '' @ ''<output id="c">'' @ html_escape (hp_code p) @ ''</output>'' @ ''
      <button type="button" id="b">Copy</button>
    </div>
    '' else [])\<close>

definition handoff_markup :: "handoff_page \<Rightarrow> string" where
  \<open>handoff_markup p =
     markup_start @ html_escape (hp_heading p) @ [CHR 0x20, CHR 0xC2, CHR 0xB7, CHR 0x20] @ html_escape (hp_app_name p) @
     markup_style @ logo_markup p @ card_markup p @ code_markup p @
     ''
  </div>
  <p class="hint">'' @ html_escape (hp_hint p) @ ''</p>
</main>
'' @ (if hp_code p \<noteq> [] then [CHR 0x0A] @ markup_script @ [CHR 0x0A] else []) @ [CHR 0x0A]\<close>

text \<open>\<open>Write\<close>: the status is the caller's.\<close>

record handoff_response =
  hr_status :: nat
  hr_content_type :: string
  hr_body :: string

definition write_handoff :: "nat \<Rightarrow> handoff_page \<Rightarrow> handoff_response" where
  "write_handoff status p =
     \<lparr>hr_status = status, hr_content_type = ''text/html; charset=utf-8'', hr_body = handoff_markup p\<rparr>"

section \<open>A value stays a value\<close>

definition delimiter :: "char \<Rightarrow> bool" where
  "delimiter c = (c = CHR ''<'' \<or> c = CHR ''>'' \<or> c = CHR 0x22 \<or> c = CHR 0x27)"

lemma escape_no_delimiter [simp]: "filter delimiter (escape_char c) = []"
  by (simp add: escape_char_def delimiter_def)

lemma html_escape_no_delimiter [simp]: "filter delimiter (html_escape s) = []"
  by (induction s) (simp_all add: html_escape_def)

lemma not_unreserved:
  "\<not> unreserved (CHR 0x00)" "\<not> unreserved (CHR 0x22)" "\<not> unreserved (CHR 0x27)" "\<not> unreserved (CHR ''&'')"
  "\<not> unreserved (CHR ''+'')" "\<not> unreserved (CHR ''<'')" "\<not> unreserved (CHR ''>'')" "\<not> unreserved (CHR ''%'')"
  "\<not> unreserved (CHR '':'')" "\<not> unreserved (CHR ''/'')"
  by code_simp+

lemma escape_char_plain: "unreserved c \<Longrightarrow> escape_char c = [c]"
  using not_unreserved by (auto simp: escape_char_def)

lemma html_escape_plain: "\<forall>c \<in> set s. unreserved c \<Longrightarrow> html_escape s = s"
  by (induction s) (simp_all add: html_escape_def escape_char_plain)

lemma url_attribute_no_delimiter [simp]: "filter delimiter (url_attribute s) = []"
  by (simp add: url_attribute_def)

text \<open>The name a reader takes from the front of an address: a letter, then letters, digits, \<open>+\<close>, \<open>-\<close>, \<open>.\<close>.\<close>

definition scheme_char :: "char \<Rightarrow> bool" where
  "scheme_char c = ((unreserved c \<and> c \<noteq> CHR ''_'' \<and> c \<noteq> CHR ''~'') \<or> c = CHR ''+'')"

definition scheme_of :: "string \<Rightarrow> string option" where
  "scheme_of s = (let p = cut_before (CHR '':'') s in
     if CHR '':'' \<in> set s \<and> list_all scheme_char p then Some (to_lower p) else None)"

lemma valid_escape_percent: "valid_escape c s \<Longrightarrow> c = CHR ''%''"
  by (cases "(c, s)" rule: valid_escape.cases) auto

lemma colon_kept: "url_kept (CHR '':'')" "\<not> url_kept (CHR ''%'')"
  by code_simp+

lemma hex_digit_not_colon: "n < 16 \<Longrightarrow> hex_digit n \<noteq> CHR '':''"
proof
  assume n: "n < 16" "hex_digit n = CHR '':''"
  then have "(of_char (hex_digit n) :: nat) = of_char (CHR '':'')" by simp
  with n(1) show False by (simp add: hex_digit_def split: if_splits)
qed

lemma valid_escape_cut: "valid_escape c (cut_before (CHR '':'') s) = valid_escape c s"
proof -
  have "hex_value (CHR '':'') = None" by code_simp
  then show ?thesis by (cases "(c, s)" rule: valid_escape.cases) (auto simp: cut_before_def)
qed

lemma escape_digits: "hex_digit (of_char (c :: char) div 16) \<noteq> CHR '':''" "hex_digit (of_char (c :: char) mod 16) \<noteq> CHR '':''"
  by (rule hex_digit_not_colon; simp)+

lemma normalize_cut:
  "cut_before (CHR '':'') (url_normalize s) = url_normalize (cut_before (CHR '':'') s)"
proof (induction s)
  case (Cons c s)
  then show ?case
    using escape_digits [of c] valid_escape_cut [of c s] colon_kept by (auto simp: cut_before_def)
qed (simp add: cut_before_def)

lemma normalize_colon:
  "CHR '':'' \<in> set (url_normalize s) \<longleftrightarrow> CHR '':'' \<in> set s"
proof (induction s)
  case (Cons c s)
  then show ?case using escape_digits [of c, symmetric] colon_kept by auto
qed simp

lemma normalize_plain: "CHR ''%'' \<notin> set (url_normalize s) \<Longrightarrow> url_normalize s = s"
  by (induction s) (auto split: if_splits)

lemma scheme_char_plain: "scheme_char c \<Longrightarrow> c \<noteq> CHR ''%'' \<and> c \<noteq> CHR ''/'' \<and> c \<noteq> CHR '':''"
  using not_unreserved by (auto simp: scheme_char_def)

lemma normalized_scheme:
  "scheme_of (url_normalize (url_filter u)) \<in> {None, Some ''http'', Some ''https'', Some ''mailto''}"
proof (cases "CHR '':'' \<in> set u \<and> safe_url u \<and> list_all scheme_char (cut_before (CHR '':'') (url_normalize u))")
  case True
  let ?p = "cut_before (CHR '':'') u"
  have "CHR ''%'' \<notin> set (url_normalize ?p)"
    using True scheme_char_plain by (auto simp: list_all_iff normalize_cut)
  then have n: "cut_before (CHR '':'') (url_normalize u) = ?p" unfolding normalize_cut by (rule normalize_plain)
  with True have "CHR ''/'' \<notin> set ?p" using scheme_char_plain by (auto simp: list_all_iff)
  with True have "to_lower ?p \<in> {''http'', ''https'', ''mailto''}"
    by (auto simp: safe_url_def equal_fold_def to_lower_def lower_char_def Let_def)
  with True n show ?thesis by (simp add: scheme_of_def url_filter_def Let_def)
next
  case False
  have "scheme_of (url_normalize ''#ZgotmplZ'') = None" by code_simp
  with False show ?thesis by (auto simp: scheme_of_def url_filter_def normalize_colon Let_def)
qed

lemma markup_shape:
  assumes "hp_logo_url p = [] \<longleftrightarrow> hp_logo_url q = []" and "hp_code p = [] \<longleftrightarrow> hp_code q = []" and "hp_warn p = hp_warn q"
  shows "filter delimiter (handoff_markup p) = filter delimiter (handoff_markup q)"
  by (simp only: handoff_markup_def logo_markup_def card_markup_def code_markup_def assms filter_append
      if_distrib [of "filter delimiter"] html_escape_no_delimiter url_attribute_no_delimiter)

lemma code_shown:
  assumes "hp_code p \<noteq> []" and "\<forall>c \<in> set (hp_code p). unreserved c"
  shows \<open>\<exists>before after. handoff_markup p = before @ ''<output id="c">'' @ hp_code p @ ''</output>'' @ after\<close>
proof -
  have \<open>\<exists>before after. code_markup p = before @ ''<output id="c">'' @ hp_code p @ ''</output>'' @ after\<close>
    unfolding code_markup_def html_escape_plain [OF assms(2)] using assms(1) by (simp only: if_True not_False_eq_True) blast
  then obtain b a where \<open>code_markup p = b @ ''<output id="c">'' @ hp_code p @ ''</output>'' @ a\<close> by blast
  then show ?thesis unfolding handoff_markup_def by (metis append_assoc)
qed

text \<open>
  C40: what a page is given cannot become markup. Two pages that agree on whether there is a logo, a
  code and a warning have the same angle brackets and quotes in the same order, whatever their texts
  hold; the address of a logo names no scheme but \<open>http\<close>, \<open>https\<close> or \<open>mailto\<close>; and a
  code of plain characters, as every token is, is shown as it is.
\<close>

theorem page_values_stay_text:
  assumes "hp_logo_url p = [] \<longleftrightarrow> hp_logo_url q = []" and "hp_code p = [] \<longleftrightarrow> hp_code q = []" and "hp_warn p = hp_warn q"
  shows \<open>filter delimiter (handoff_markup p) = filter delimiter (handoff_markup q) \<and>
    (hp_logo_url p \<noteq> [] \<longrightarrow> (\<exists>u. logo_markup p = ''<img src="'' @ html_escape u @ ''" alt="" onerror="this.remove()">'' \<and>
      scheme_of u \<in> {None, Some ''http'', Some ''https'', Some ''mailto''})) \<and>
    (hp_code p \<noteq> [] \<longrightarrow> (\<forall>c \<in> set (hp_code p). unreserved c) \<longrightarrow>
      (\<exists>before after. handoff_markup p = before @ ''<output id="c">'' @ hp_code p @ ''</output>'' @ after))\<close>
proof (intro conjI impI)
  show "filter delimiter (handoff_markup p) = filter delimiter (handoff_markup q)" by (rule markup_shape [OF assms])
  assume "hp_logo_url p \<noteq> []"
  then show \<open>\<exists>u. logo_markup p = ''<img src="'' @ html_escape u @ ''" alt="" onerror="this.remove()">'' \<and>
      scheme_of u \<in> {None, Some ''http'', Some ''https'', Some ''mailto''}\<close>
    using normalized_scheme [of "hp_logo_url p"] unfolding logo_markup_def url_attribute_def
    by (simp only: if_True not_False_eq_True) blast
qed (rule code_shown)

text \<open>A name that tries to open an element and a logo that is a script, beside a harmless page.\<close>

definition hostile_page :: handoff_page where
  \<open>hostile_page = \<lparr>hp_app_name = ''</title><script>x'', hp_logo_url = ''javascript:x()'', hp_heading = ''"'',
     hp_body = [], hp_hint = [], hp_code = ''k_1'', hp_warn = False\<rparr>\<close>

definition plain_page :: handoff_page where
  "plain_page = \<lparr>hp_app_name = ''App'', hp_logo_url = ''/logo.png'', hp_heading = ''Signed in'',
     hp_body = ''Paste'', hp_hint = [], hp_code = ''k_2'', hp_warn = False\<rparr>"

theorem page_values_stay_text_witness:
  \<open>filter delimiter (handoff_markup hostile_page) = filter delimiter (handoff_markup plain_page) \<and>
   html_escape (hp_app_name hostile_page) = ''&lt;/title&gt;&lt;script&gt;x'' \<and>
   logo_markup hostile_page = ''<img src="#ZgotmplZ" alt="" onerror="this.remove()">'' \<and>
   (\<exists>before after. handoff_markup hostile_page = before @ ''<output id="c">'' @ ''k_1'' @ ''</output>'' @ after)\<close>
proof -
  have u: "unreserved c" if "c \<in> set ''k_1''" for c
  proof -
    have "list_all unreserved ''k_1''" by code_simp
    with that show ?thesis by (auto simp: list_all_iff)
  qed
  have \<open>html_escape (hp_app_name hostile_page) = ''&lt;/title&gt;&lt;script&gt;x''\<close>
    \<open>logo_markup hostile_page = ''<img src="#ZgotmplZ" alt="" onerror="this.remove()">''\<close> by code_simp+
  moreover have "hp_logo_url hostile_page = [] \<longleftrightarrow> hp_logo_url plain_page = []" "hp_code hostile_page = [] \<longleftrightarrow> hp_code plain_page = []"
    "hp_warn hostile_page = hp_warn plain_page" "hp_code hostile_page = ''k_1''" "hp_code hostile_page \<noteq> []"
    by (simp_all add: hostile_page_def plain_page_def)
  ultimately show ?thesis using page_values_stay_text [of hostile_page plain_page] u by metis
qed

end
