(* ===== verification/Loopback.thy ===== *)
theory Loopback
  imports Handoff Oidc Password
begin

text \<open>
  The listener of a command-line login (\<open>loopback/*.go\<close>): the address the browser starts at, which
  callbacks are taken, how the wait ends, and the pages the browser is shown
  (\<open>Handoff\<close>). What the system answers when a socket is opened or closed or a program started is
  an argument; what the wait sees is a list of events in the order its \<open>select\<close> takes them.
\<close>

section \<open>The listener and the address\<close>

record listener =
  li_app_name :: string
  li_port :: int

text \<open>A socket that could be bound, with the address it carries.\<close>

datatype bound_address = TcpAddr int | OtherAddr string

definition listen :: "bound_address result \<Rightarrow> listener result" where
  "listen socket = (case socket of
     Inl e \<Rightarrow> Inl (Wrap ''loopback: cannot open the login listener'' e)
   | Inr (TcpAddr port) \<Rightarrow> Inr \<lparr>li_app_name = [], li_port = port\<rparr>
   | Inr (OtherAddr address) \<Rightarrow> Inl (Plain (''loopback: the login listener bound '' @ address @
       '', which carries no port to redirect to'')))"

datatype close_answer = Closed | AlreadyClosed | CloseFailed error

definition close_listener :: "close_answer \<Rightarrow> unit result" where
  "close_listener a = (case a of CloseFailed e \<Rightarrow> Inl e | _ \<Rightarrow> Inr ())"

definition mounted_at :: "string \<Rightarrow> string \<Rightarrow> string" where
  "mounted_at origin mount = (let at = trim_slashes mount in
     trim_right_slash origin @ (if at \<noteq> [] then ''/'' @ at else []))"

definition login_url :: "listener \<Rightarrow> string \<Rightarrow> string \<Rightarrow> string \<Rightarrow> string" where
  "login_url l origin mount state =
     (let query = values_set ''cli_state'' state (values_set ''port'' (format_int (li_port l)) (values_set ''flow'' ''cli'' [])) in
      mounted_at origin mount @ ''/auth/oidc?'' @ values_encode query)"

definition random_state :: "string option \<Rightarrow> string result" where
  "random_state entropy = (case entropy of
     None \<Rightarrow> Inl (Wrap ''loopback: cannot draw a login nonce'' (Plain ''rand''))
   | Some nonce \<Rightarrow> Inr (b64_encode (take 16 nonce)))"

text \<open>The command that opens the browser of a system; \<open>starts\<close> says which commands start.\<close>

definition browser_command :: "string \<Rightarrow> string \<Rightarrow> string list" where
  "browser_command goos url =
     (if goos = ''darwin'' then [''open'', url]
      else if goos = ''windows'' then [''cmd'', ''/C'', ''start'', [], url]
      else [''xdg-open'', url])"

definition open_browser :: "(string list \<Rightarrow> bool) \<Rightarrow> string \<Rightarrow> string \<Rightarrow> bool" where
  "open_browser starts goos url = starts (browser_command goos url)"

section \<open>The pages\<close>

definition hint_close :: string where
  "hint_close = ''You can close this tab and go back to your terminal.''"
definition hint_waiting :: string where
  "hint_waiting = ''The login started in your terminal is still waiting.''"
definition fallback_name :: string where "fallback_name = ''Sign-in''"

definition listener_page :: "listener \<Rightarrow> string \<Rightarrow> string \<Rightarrow> string \<Rightarrow> bool \<Rightarrow> handoff_page" where
  "listener_page l heading body hint warn =
     \<lparr>hp_app_name = (let name = trim_space (li_app_name l) in if name = [] then fallback_name else name),
       hp_logo_url = [], hp_heading = heading, hp_body = body, hp_hint = hint, hp_code = [], hp_warn = warn\<rparr>"

definition signed_in_line :: "listener \<Rightarrow> string" where
  "signed_in_line l = (let name = trim_space (li_app_name l) in
     if name \<noteq> [] then name @ '' has your login.'' else ''Your login is complete.'')"

definition accept_page :: "listener \<Rightarrow> nat \<times> handoff_page" where
  "accept_page l = (200, listener_page l ''Signed in'' (signed_in_line l) hint_close False)"

definition refuse_page :: "listener \<Rightarrow> string \<Rightarrow> string \<Rightarrow> nat \<times> handoff_page" where
  "refuse_page l heading body = (400, listener_page l heading body hint_waiting True)"

section \<open>The callback and the wait\<close>

datatype callback_answer = NoSuchPage | Refusal "nat \<times> handoff_page" | Acceptance "nat \<times> handoff_page" string

definition callback_page :: "listener \<Rightarrow> string \<Rightarrow> string \<Rightarrow> url_values \<Rightarrow> callback_answer" where
  "callback_page l state path q =
     (if path \<noteq> ''/'' then NoSuchPage
      else if values_get ''state'' q \<noteq> state
      then Refusal (refuse_page l ''That is not this login'' ''This callback does not belong to the login that is waiting.'')
      else if values_get ''code'' q = [] then Refusal (refuse_page l ''No login code'' ''This callback carries no login code.'')
      else Acceptance (accept_page l) (values_get ''code'' q))"

definition wait_timeout :: duration where "wait_timeout = 3 * minute"
definition err_wait_timeout :: error where
  "err_wait_timeout = Plain ''loopback: the browser did not finish the login in time''"

datatype wait_event = Visit string url_values | ServeFailed error | Cancelled error | DeadlinePassed

fun wait_for_code :: "listener \<Rightarrow> string \<Rightarrow> wait_event list \<Rightarrow> string result option" where
  "wait_for_code l state [] = None"
| "wait_for_code l state (Visit path q # es) = (case callback_page l state path q of
     Acceptance page code \<Rightarrow> Some (Inr code) | _ \<Rightarrow> wait_for_code l state es)"
| "wait_for_code l state (ServeFailed e # es) = Some (Inl (Wrap ''loopback: the login listener failed'' e))"
| "wait_for_code l state (Cancelled e # es) = Some (Inl e)"
| "wait_for_code l state (DeadlinePassed # es) = Some (Inl (Wrap ''gave up after 3m0s'' err_wait_timeout))"

definition foreign_visit :: "string \<Rightarrow> wait_event \<Rightarrow> bool" where
  "foreign_visit state e = (case e of
     Visit path q \<Rightarrow> path \<noteq> ''/'' \<or> values_get ''state'' q \<noteq> state \<or> values_get ''code'' q = []
   | _ \<Rightarrow> False)"

section \<open>The code page of the server\<close>

definition code_handoff :: "page \<Rightarrow> handoff_response" where
  "code_handoff p = (case p of
     CodePage name icon code ttl \<Rightarrow> write_handoff 200
       \<lparr>hp_app_name = name, hp_logo_url = icon, hp_heading = ''Signed in'', hp_body = ''Paste this code into your terminal.'',
         hp_hint = ''The code is valid for '' @ format_int (whole_seconds ttl) @ '' seconds and works once.'',
         hp_code = code, hp_warn = False\<rparr>
   | Found url \<Rightarrow> \<lparr>hr_status = 302, hr_content_type = [], hr_body = []\<rparr>)"

section \<open>What ends a wait\<close>

text \<open>
  A page the user has open can neither end a login it did not start nor hand it a session.
  Visits without the state of this login, to another path or without a code are as if they never
  came, and a wait that returns a code took it from a visit that carried the state.
\<close>

theorem wait_ignores_foreign_visits:
  "wait_for_code l state es = wait_for_code l state (filter (\<lambda>e. \<not> foreign_visit state e) es) \<and>
   (wait_for_code l state es = Some (Inr code) \<longrightarrow>
     (\<exists>q. Visit ''/'' q \<in> set es \<and> values_get ''state'' q = state \<and> values_get ''code'' q = code \<and> code \<noteq> []))"
proof (induction es)
  case (Cons e es)
  then show ?case
    by (cases e) (auto simp: callback_page_def foreign_visit_def)
qed simp

section \<open>From the terminal through the browser and back\<close>

definition raw_query :: "string \<Rightarrow> string" where
  "raw_query url = drop (Suc (length (cut_before (CHR ''?'') url))) url"

lemma raw_query_append: "CHR ''?'' \<notin> set base \<Longrightarrow> raw_query (base @ CHR ''?'' # q) = q"
proof -
  assume "CHR ''?'' \<notin> set base"
  then have "takeWhile (\<lambda>x. x \<noteq> CHR ''?'') (base @ CHR ''?'' # q) = base" by (subst takeWhile_append2) auto
  then show ?thesis by (simp add: raw_query_def cut_before_def)
qed

lemma set_trims: "set (trim_right_slash s) \<subseteq> set s" "set (trim_slashes s) \<subseteq> set s"
  by (auto simp: trim_right_slash_def trim_slashes_def dest!: set_dropWhileD)

lemma mounted_at_plain: "CHR ''?'' \<notin> set origin \<Longrightarrow> CHR ''?'' \<notin> set mount \<Longrightarrow> CHR ''?'' \<notin> set (mounted_at origin mount)"
  using set_trims by (auto simp: mounted_at_def Let_def)

lemma atoi_format: "0 \<le> n \<Longrightarrow> n < 2 ^ 63 \<Longrightarrow> atoi (format_int n) = Some n"
proof -
  assume n: "0 \<le> n" "n < 2 ^ 63"
  have d: "list_all Oidc_Flow.is_digit (dec (nat n))"
    using dec_digits by (auto simp: list_all_iff Oidc_Flow.is_digit_def)
  have "hd (dec (nat n)) \<in> set (dec (nat n))" by simp
  then have "48 \<le> (of_char (hd (dec (nat n))) :: nat)" using dec_digits by blast
  then have "hd (dec (nat n)) \<noteq> CHR ''-''" "hd (dec (nat n)) \<noteq> CHR ''+''" by auto
  with n d show ?thesis by (simp add: atoi_def format_int_def Let_def)
qed

lemma b64_digit_state: "n < 64 \<Longrightarrow> is_alnum (b64_digit n) \<or> b64_digit n = CHR ''-'' \<or> b64_digit n = CHR ''_''"
  by (auto simp: is_alnum_def Let_def of_char_b64_digit b64_digit_def)

lemma b64_state_chars: "c \<in> set (b64_encode s) \<Longrightarrow> is_alnum c \<or> c = CHR ''-'' \<or> c = CHR ''_''"
  using b64_digits [of c s] b64_digit_state by auto

lemma token_unreserved: "new_token entropy = Inr code \<Longrightarrow> \<forall>c \<in> set code. unreserved c"
  using b64_state_chars by (fastforce dest!: new_token_Inr simp: is_alnum_def unreserved_def Let_def)

text \<open>The page of a login without a port shows the very code that was stored, if its draw was not empty.\<close>

lemma code_page_shows_code:
  assumes "new_token (Some buffer) = Inr code" and "buffer \<noteq> []"
    and "issue_login_code k (Some buffer) now bound [] cstate s = ((page, True), s')"
  shows \<open>\<exists>before after. hr_body (code_handoff page) = before @ ''<output id="c">'' @ code @ ''</output>'' @ after\<close>
proof -
  have p: "page = code_page k code"
    using assms(1,3) by (auto simp: issue_login_code_def Let_def split: prod.splits sum.splits if_splits)
  obtain q where q: "hr_body (code_handoff page) = handoff_markup q" "hp_code q = code"
    unfolding p code_page_def code_handoff_def write_handoff_def
    by (simp only: page.case handoff_response.simps) (metis handoff_page.select_convs(6))
  have "code \<noteq> []" using assms(1,2) by (auto simp: new_token_def token_bytes_def)
  with code_shown [of q] token_unreserved [OF assms(1)] q show ?thesis by simp
qed

text \<open>What \<open>cmd\<close> is handed on Windows holds a bare \<open>&\<close>, which ends a command there.\<close>

lemma windows_login_separator:
  "browser_command ''windows'' (login_url l origin mount state) = [''cmd'', ''/C'', ''start'', [], login_url l origin mount state] \<and>
   CHR ''&'' \<in> set (login_url l origin mount state)"
proof -
  have "sorted_go [''cli_state'', ''port'', ''flow''] = [''cli_state'', ''flow'', ''port'']" by code_simp
  then show ?thesis
    by (simp add: browser_command_def login_url_def values_set_def values_encode_def encode_entry_def Let_def)
qed

lemma random_state_accepted: "random_state (Some nonce) = Inr state \<Longrightarrow> cli_state state = state"
proof -
  assume "random_state (Some nonce) = Inr state"
  then have s: "state = b64_encode (take 16 nonce)" by (simp add: random_state_def)
  have "length state \<le> max_cli_state" by (simp add: s b64_length max_cli_state_def)
  then show ?thesis using b64_state_chars by (auto simp: cli_state_def only_chars_iff s)
qed

text \<open>
  C31: the two halves of a command-line login agree. From the address a listener builds, \<open>handleLogin\<close>
  reads a flow that carries its port and its state as they are; and the address the browser is sent
  back to, with the port and the state of that flow, is one the listener takes the code from.
\<close>

theorem cli_login_round_trip:
  assumes "random_state (Some nonce) = Inr state" and "1024 \<le> li_port l" and "li_port l \<le> 65535" and "nonce \<noteq> []"
    and "CHR ''?'' \<notin> set origin" and "CHR ''?'' \<notin> set mount" and "code \<noteq> []"
  shows "\<exists>f. pending_login k base (\<lambda>n. values_get n (parse_query (raw_query (login_url l origin mount state)))) = Some f \<and>
    fl_cli f \<and> fl_port f = format_int (li_port l) \<and> fl_cli_state f = state \<and>
    callback_page l state ''/'' (parse_query (raw_query (loopback_url (fl_port f) code (fl_cli_state f)))) =
      Acceptance (accept_page l) code"
proof -
  have port: "loopback_port (format_int (li_port l)) = format_int (li_port l)"
    using atoi_format [of "li_port l"] assms(2,3) by (simp add: loopback_port_def)
  have "state \<noteq> []" using assms(1,4) by (auto simp: random_state_def)
  have out: "raw_query (login_url l origin mount state) =
      values_encode (single [(''cli_state'', state), (''port'', format_int (li_port l)), (''flow'', ''cli'')])"
    using raw_query_append [of "mounted_at origin mount @ ''/auth/oidc''"] mounted_at_plain [OF assms(5,6)]
    by (simp add: login_url_def values_set_def single_def Let_def)
  have "CHR ''?'' \<notin> set (''http://127.0.0.1:'' @ format_int (li_port l) @ ''/'')"
    using dec_digits [of "CHR ''?''" "nat (li_port l)"] assms(2) by (auto simp: format_int_def)
  then have inward: "raw_query (loopback_url (format_int (li_port l)) code state) =
      values_encode (single [(''state'', state), (''code'', code)])"
    using raw_query_append [of "''http://127.0.0.1:'' @ format_int (li_port l) @ ''/''"] \<open>state \<noteq> []\<close>
    by (simp add: loopback_url_def values_set_def single_def Let_def)
  show ?thesis
    using random_state_accepted [OF assms(1)] port assms(7)
    by (simp add: pending_login_def out inward values_round_trip callback_page_def)
qed

definition terminal_listener :: listener where
  "terminal_listener = \<lparr>li_app_name = ''Journal'', li_port = 49152\<rparr>"

theorem cli_login_round_trip_witness:
  "\<forall>(k :: unit oidc_kit) base. \<exists>f. pending_login k base (\<lambda>n. values_get n (parse_query (raw_query
       (login_url terminal_listener ''https://journal'' ''/api'' (b64_encode ''sixteen bytes!!!''))))) = Some f \<and>
     fl_port f = format_int 49152 \<and> fl_cli_state f = b64_encode ''sixteen bytes!!!''"
proof (intro allI)
  fix k :: "unit oidc_kit" and base
  have s: "random_state (Some ''sixteen bytes!!!'') = Inr (b64_encode ''sixteen bytes!!!'')"
    by (simp add: random_state_def)
  have p: "li_port terminal_listener = 49152" by (simp add: terminal_listener_def)
  have l: "1024 \<le> li_port terminal_listener" "li_port terminal_listener \<le> 65535"
    by (simp_all add: terminal_listener_def)
  have q: "CHR ''?'' \<notin> set ''https://journal''" "CHR ''?'' \<notin> set ''/api''" by simp_all
  from cli_login_round_trip [OF s l _ q, of "''code''" k base]
  obtain f where "pending_login k base (\<lambda>n. values_get n (parse_query (raw_query
      (login_url terminal_listener ''https://journal'' ''/api'' (b64_encode ''sixteen bytes!!!''))))) = Some f"
    and "fl_port f = format_int (li_port terminal_listener)" and "fl_cli_state f = b64_encode ''sixteen bytes!!!''"
    by blast
  then show "\<exists>f. pending_login k base (\<lambda>n. values_get n (parse_query (raw_query
      (login_url terminal_listener ''https://journal'' ''/api'' (b64_encode ''sixteen bytes!!!''))))) = Some f \<and>
      fl_port f = format_int 49152 \<and> fl_cli_state f = b64_encode ''sixteen bytes!!!''" using p by metis
qed

text \<open>A visit without the state, then the one of this login.\<close>

theorem wait_ignores_foreign_visits_witness:
  "wait_for_code terminal_listener ''s'' [Visit ''/'' [(''code'', [''x''])], Visit ''/'' [(''state'', [''s'']), (''code'', [''c''])]] =
     Some (Inr ''c'') \<and>
   (\<exists>q. Visit ''/'' q \<in> set [Visit ''/'' [(''code'', [''x''])], Visit ''/'' [(''state'', [''s'']), (''code'', [''c''])]] \<and>
     values_get ''state'' q = ''s'')"
proof -
  have r: "wait_for_code terminal_listener ''s''
      [Visit ''/'' [(''code'', [''x''])], Visit ''/'' [(''state'', [''s'']), (''code'', [''c''])]] = Some (Inr ''c'')" by code_simp
  from wait_ignores_foreign_visits [of terminal_listener "''s''" _ "''c''"] r show ?thesis by blast
qed

end
