(* ===== verification/Devicelogin.thy ===== *)
theory Devicelogin
  imports Directory Complex_Main
begin

text \<open>
  The default login of a command-line tool, the device grant of RFC 8628 (\<open>devicelogin/*.go\<close>): the
  discovery, the authorization, the poll with its schedule, the exchange, and \<open>Login\<close> that runs them.
  A JSON number is a rational; a document that is not an object is \<open>None\<close>. What the network answers,
  the clock, the timer and the context are functions of a world; \<open>net/url\<close> and \<open>encoding/json\<close> are
  fields of the same record. The poll may not end, so it is a partial function.
\<close>

section \<open>Documents and answers\<close>

datatype dl_json = DText string | DNumber rat | DList "dl_json list" | DOther

type_synonym dl_doc = "(string \<times> dl_json) list option"

record dl_url =
  du_scheme :: string
  du_host :: string
  du_hostname :: string

datatype dl_request =
    GetDoc string
  | PostForm string "(string \<times> string) list"
  | PostJson string "string option"

record 'w dl_net =
  dl_send :: "dl_request \<Rightarrow> 'w \<Rightarrow> exchange \<times> 'w"
  dl_sleep :: "duration \<Rightarrow> 'w \<Rightarrow> bool \<times> 'w"
  dl_now :: "'w \<Rightarrow> time"
  dl_ctx :: "'w \<Rightarrow> error option"
  dl_open :: "string \<Rightarrow> 'w \<Rightarrow> 'w"
  dl_parse :: "string \<Rightarrow> dl_url option"
  dl_json :: "string \<Rightarrow> dl_doc"
  dl_huge :: "rat \<Rightarrow> int"

definition doc_get :: "dl_doc \<Rightarrow> string \<Rightarrow> dl_json option" where
  "doc_get doc key = (case doc of None \<Rightarrow> None | Some entries \<Rightarrow> map_of entries key)"

definition doc_text :: "dl_doc \<Rightarrow> string \<Rightarrow> string" where
  "doc_text doc key = (case doc_get doc key of Some (DText s) \<Rightarrow> s | _ \<Rightarrow> [])"

text \<open>
  \<open>time.Duration(value) * time.Second\<close>: the conversion drops the fraction, one that does not fit 64
  bits is the machine's, and the product wraps around.
\<close>

definition wrap_duration :: "int \<Rightarrow> duration" where
  "wrap_duration n = (n + 2 ^ 63) mod 2 ^ 64 - 2 ^ 63"

definition doc_seconds :: "(rat \<Rightarrow> int) \<Rightarrow> dl_doc \<Rightarrow> string \<Rightarrow> duration \<Rightarrow> duration" where
  "doc_seconds huge doc key fallback =
     (case doc_get doc key of
        Some (DNumber v) \<Rightarrow>
          if v \<le> 0 then fallback else wrap_duration ((if v < 2 ^ 63 then \<lfloor>v\<rfloor> else huge v) * second)
      | _ \<Rightarrow> fallback)"

definition is_ok :: "int \<Rightarrow> bool" where
  "is_ok status = (200 \<le> status \<and> status \<le> 299)"

definition first_text :: "string list \<Rightarrow> dl_doc \<Rightarrow> string option" where
  "first_text ks doc = find (\<lambda>s. s \<noteq> []) (map (doc_text doc) ks)"

definition refusal_text :: "dl_doc \<Rightarrow> string" where
  "refusal_text doc = (case first_text [''error_description'', ''error'', ''message''] doc of
     Some s \<Rightarrow> s | None \<Rightarrow> ''no reason given'')"

definition max_body :: nat where "max_body = 2 ^ 20"

text \<open>
  \<open>send\<close>. A request that cannot be built is an error of its own, the context's error comes first when
  the transport failed, and a body past the limit is cut, not refused.
\<close>

definition send_request :: "'w dl_net \<Rightarrow> dl_request \<Rightarrow> 'w \<Rightarrow> (int \<times> dl_doc) result \<times> 'w" where
  "send_request net r w = (case dl_send net r w of
     (BadRequest, w1) \<Rightarrow> (Inl (Plain ''parse the url''), w1)
   | (NoAnswer, w1) \<Rightarrow> (Inl (case dl_ctx net w1 of Some e \<Rightarrow> e | None \<Rightarrow> Plain ''devicelogin: cannot reach''), w1)
   | (Answered status None, w1) \<Rightarrow> (Inl (Plain ''devicelogin: cannot read the answer''), w1)
   | (Answered status (Some body), w1) \<Rightarrow> (Inr (status, dl_json net (take max_body body)), w1))"

section \<open>Which URLs are trusted\<close>

definition is_loopback_host :: "string \<Rightarrow> bool" where
  "is_loopback_host host = (host = ''localhost'' \<or> host = ''127.0.0.1'' \<or> host = ''::1'')"

definition require_secure_url :: "'w dl_net \<Rightarrow> string \<Rightarrow> unit result" where
  "require_secure_url net raw = (case dl_parse net raw of
     None \<Rightarrow> Inl (Plain (raw @ '' is not an absolute URL''))
   | Some u \<Rightarrow>
       if du_host u = [] then Inl (Plain (raw @ '' is not an absolute URL''))
       else if du_scheme u = ''https'' then Inr ()
       else if du_scheme u = ''http''
       then (if is_loopback_host (du_hostname u) then Inr ()
         else Inl (Plain (raw @ '' is plaintext http, which only loopback may be'')))
       else Inl (Plain (raw @ '' is not an http or https URL'')))"

section \<open>Discovery\<close>

definition err_exchange_not_mounted :: error where
  "err_exchange_not_mounted = Plain ''devicelogin: this app does not serve the device exchange''"
definition err_account_not_linked :: error where
  "err_account_not_linked = Plain ''devicelogin: this account has never signed in to the app in a browser''"
definition err_no_device_grant :: error where
  "err_no_device_grant = Plain ''devicelogin: the identity provider does not offer the device grant''"
definition err_denied :: error where
  "err_denied = Plain ''devicelogin: the sign-in was refused at the identity provider''"
definition err_expired :: error where
  "err_expired = Plain ''devicelogin: the sign-in code expired before it was approved''"

definition grant_type :: string where "grant_type = ''urn:ietf:params:oauth:grant-type:device_code''"
definition discovery_path :: string where "discovery_path = ''/.well-known/openid-configuration''"

record dl_endpoints =
  de_authorization :: string
  de_token :: string

definition lists_device_grant :: "dl_doc \<Rightarrow> bool" where
  "lists_device_grant doc = (case doc_get doc ''grant_types_supported'' of
     Some (DList grants) \<Rightarrow> List.member grants (DText grant_type) | _ \<Rightarrow> True)"

definition endpoints_from :: "'w dl_net \<Rightarrow> dl_doc \<Rightarrow> dl_endpoints result" where
  "endpoints_from net doc =
     (let a = doc_text doc ''device_authorization_endpoint''; t = doc_text doc ''token_endpoint'' in
      if a = [] \<or> t = [] \<or> \<not> lists_device_grant doc then Inl err_no_device_grant
      else case require_secure_url net a of
        Inl e \<Rightarrow> Inl (Wrap ''devicelogin: the provider names an unusable endpoint'' e)
      | Inr _ \<Rightarrow> (case require_secure_url net t of
          Inl e \<Rightarrow> Inl (Wrap ''devicelogin: the provider names an unusable endpoint'' e)
        | Inr _ \<Rightarrow> Inr \<lparr>de_authorization = a, de_token = t\<rparr>))"

definition trim_end_slash :: "string \<Rightarrow> string" where
  "trim_end_slash s = rev (dropWhile (\<lambda>c. c = CHR ''/'') (rev s))"

definition discover_endpoints :: "'w dl_net \<Rightarrow> string \<Rightarrow> 'w \<Rightarrow> dl_endpoints result \<times> 'w" where
  "discover_endpoints net iss w = (case require_secure_url net iss of
     Inl e \<Rightarrow> (Inl (Wrap ''devicelogin: the issuer is not usable'' e), w)
   | Inr _ \<Rightarrow> (case send_request net (GetDoc (trim_end_slash iss @ discovery_path)) w of
       (Inl e, w1) \<Rightarrow> (Inl e, w1)
     | (Inr (status, doc), w1) \<Rightarrow>
         if \<not> is_ok status \<or> doc = None then (Inl (Plain ''devicelogin: served no OpenID configuration''), w1)
         else (endpoints_from net doc, w1)))"

section \<open>Authorization\<close>

definition default_poll_interval :: duration where "default_poll_interval = 5 * second"
definition default_expiry :: duration where "default_expiry = 10 * minute"

record dl_authorization =
  da_device_code :: string
  da_user_code :: string
  da_uri :: string
  da_uri_complete :: string
  da_interval :: duration
  da_expires_in :: duration

definition auth_link :: "dl_authorization \<Rightarrow> string" where
  "auth_link a = (if da_uri_complete a \<noteq> [] then da_uri_complete a else da_uri a)"

definition usable_auth :: "'w dl_net \<Rightarrow> dl_authorization \<Rightarrow> unit result" where
  "usable_auth net a =
     (if da_device_code a = [] \<or> da_user_code a = [] \<or> da_uri a = []
      then Inl (Plain ''devicelogin: the provider's device authorization is missing a field'')
      else case require_secure_url net (da_uri a) of
        Inl e \<Rightarrow> Inl (Wrap ''devicelogin: the provider's verification address is not usable'' e)
      | Inr _ \<Rightarrow>
          if da_uri_complete a = [] then Inr ()
          else (case require_secure_url net (da_uri_complete a) of
            Inl e \<Rightarrow> Inl (Wrap ''devicelogin: the provider's verification address is not usable'' e)
          | Inr _ \<Rightarrow> Inr ()))"

definition authorization_of :: "'w dl_net \<Rightarrow> dl_doc \<Rightarrow> dl_authorization" where
  "authorization_of net doc = \<lparr>da_device_code = doc_text doc ''device_code'', da_user_code = doc_text doc ''user_code'',
     da_uri = doc_text doc ''verification_uri'', da_uri_complete = doc_text doc ''verification_uri_complete'',
     da_interval = doc_seconds (dl_huge net) doc ''interval'' default_poll_interval,
     da_expires_in = doc_seconds (dl_huge net) doc ''expires_in'' default_expiry\<rparr>"

definition authorize :: "'w dl_net \<Rightarrow> dl_endpoints \<Rightarrow> string \<Rightarrow> string \<Rightarrow> 'w \<Rightarrow> dl_authorization result \<times> 'w" where
  "authorize net ep client scope w =
     (case send_request net (PostForm (de_authorization ep) [(''client_id'', client), (''scope'', scope)]) w of
        (Inl e, w1) \<Rightarrow> (Inl e, w1)
      | (Inr (status, doc), w1) \<Rightarrow>
          if \<not> is_ok status then (Inl (Plain (''devicelogin: the provider would not start a sign-in: '' @ refusal_text doc)), w1)
          else (case usable_auth net (authorization_of net doc) of
            Inl e \<Rightarrow> (Inl e, w1) | Inr _ \<Rightarrow> (Inr (authorization_of net doc), w1)))"

section \<open>The poll\<close>

definition slow_down_step :: duration where "slow_down_step = 5 * second"

record schedule =
  sc_interval :: duration
  sc_step :: duration
  sc_deadline :: time

definition sched_wait :: "'w dl_net \<Rightarrow> schedule \<Rightarrow> 'w \<Rightarrow> bool \<times> 'w" where
  "sched_wait net s w = (if \<not> dl_now net w < sc_deadline s then (False, w) else dl_sleep net (sc_interval s) w)"

definition slower :: "schedule \<Rightarrow> schedule" where
  "slower s = s\<lparr>sc_interval := wrap_duration (sc_interval s + sc_step s)\<rparr>"

text \<open>The token of a grant that completed, or whether to slow down, or the reason to stop.\<close>

definition read_poll :: "int \<Rightarrow> dl_doc \<Rightarrow> (string \<times> bool) result" where
  "read_poll status doc =
     (if is_ok status
      then (if doc_text doc ''access_token'' = []
        then Inl (Plain ''devicelogin: the provider approved the sign-in but sent no access token'')
        else Inr (doc_text doc ''access_token'', False))
      else let e = doc_text doc ''error'' in
        if e = ''authorization_pending'' then Inr ([], False)
        else if e = ''slow_down'' then Inr ([], True)
        else if e = ''access_denied'' then Inl err_denied
        else if e = ''expired_token'' then Inl err_expired
        else Inl (Plain (''devicelogin: the provider refused the device grant: '' @ refusal_text doc)))"

definition give_up :: "'w dl_net \<Rightarrow> 'w \<Rightarrow> error" where
  "give_up net w = (case dl_ctx net w of Some e \<Rightarrow> e | None \<Rightarrow> Wrap ''gave up'' err_expired)"

partial_function (option) poll_grant ::
  "'w dl_net \<Rightarrow> string \<Rightarrow> (string \<times> string) list \<Rightarrow> schedule \<Rightarrow> 'w \<Rightarrow> (string result \<times> 'w) option" where
  "poll_grant net target form s w = (case sched_wait net s w of
     (go_on, w1) \<Rightarrow>
       if \<not> go_on then Some (Inl (give_up net w1), w1)
       else (case send_request net (PostForm target form) w1 of
       (Inl e, w2) \<Rightarrow> poll_grant net target form s w2
     | (Inr (status, doc), w2) \<Rightarrow> (case read_poll status doc of
         Inl e \<Rightarrow> Some (Inl e, w2)
       | Inr (token, slow) \<Rightarrow>
           if token \<noteq> [] then Some (Inr token, w2)
           else poll_grant net target form (if slow then slower s else s) w2)))"

declare poll_grant.simps [code]

definition poll_device :: "'w dl_net \<Rightarrow> dl_endpoints \<Rightarrow> string \<Rightarrow> dl_authorization \<Rightarrow> 'w \<Rightarrow> (string result \<times> 'w) option" where
  "poll_device net ep client a w = poll_grant net (de_token ep)
     [(''grant_type'', grant_type), (''device_code'', da_device_code a), (''client_id'', client)]
     \<lparr>sc_interval = da_interval a, sc_step = slow_down_step, sc_deadline = dl_now net w + da_expires_in a\<rparr> w"

section \<open>The exchange\<close>

definition exchange_path :: string where "exchange_path = ''/auth/oidc/device/exchange''"

record dl_session =
  ds_token :: string
  ds_user :: string

definition exchange_url :: "string \<Rightarrow> string \<Rightarrow> string" where
  "exchange_url origin mount = (let under = trim_end_slash (dropWhile (\<lambda>c. c = CHR ''/'') mount) in
     trim_end_slash origin @ (if under \<noteq> [] then ''/'' @ under else []) @ exchange_path)"

text \<open>The body is the token the JSON document carries, if there is one.\<close>

definition post_exchange :: "'w dl_net \<Rightarrow> string \<Rightarrow> string \<Rightarrow> string option \<Rightarrow> 'w \<Rightarrow> (int \<times> dl_doc) result \<times> 'w" where
  "post_exchange net origin mount body w = (case require_secure_url net origin of
     Inl e \<Rightarrow> (Inl (Wrap ''devicelogin: the app origin is not usable'' e), w)
   | Inr _ \<Rightarrow> send_request net (PostJson (exchange_url origin mount) body) w)"

definition exchange_token :: "'w dl_net \<Rightarrow> string \<Rightarrow> string \<Rightarrow> string \<Rightarrow> 'w \<Rightarrow> dl_session result \<times> 'w" where
  "exchange_token net origin mount token w = (case post_exchange net origin mount (Some token) w of
     (Inl e, w1) \<Rightarrow> (Inl e, w1)
   | (Inr (status, doc), w1) \<Rightarrow>
       if status = 404 then (Inl err_exchange_not_mounted, w1)
       else if status = 401 then (Inl err_account_not_linked, w1)
       else if \<not> is_ok status then (Inl (Plain (''devicelogin: the app refused the exchange: '' @ refusal_text doc)), w1)
       else if doc_text doc ''token'' = []
       then (Inl (Plain ''devicelogin: the app accepted the exchange but sent no session token''), w1)
       else (Inr \<lparr>ds_token = doc_text doc ''token'', ds_user = doc_text doc ''user_id''\<rparr>, w1))"

definition exchange_mounted :: "'w dl_net \<Rightarrow> string \<Rightarrow> string \<Rightarrow> 'w \<Rightarrow> bool result \<times> 'w" where
  "exchange_mounted net origin mount w = (case post_exchange net origin mount None w of
     (Inl e, w1) \<Rightarrow> (Inl e, w1) | (Inr (status, doc), w1) \<Rightarrow> (Inr (status \<noteq> 404), w1))"

section \<open>Login\<close>

definition default_issuer :: string where "default_issuer = ''https://sso.facile.studio''"
definition default_client :: string where "default_client = ''facile-cli''"
definition default_scope :: string where "default_scope = ''openid email profile''"

record dl_options =
  dx_origin :: string
  dx_mount :: string
  dx_issuer :: string
  dx_client :: string
  dx_scope :: string

text \<open>Where to print and which browser to open are part of the world.\<close>

definition with_defaults :: "dl_options \<Rightarrow> dl_options" where
  "with_defaults x = x\<lparr>dx_issuer := (if dx_issuer x = [] then default_issuer else dx_issuer x),
     dx_client := (if dx_client x = [] then default_client else dx_client x),
     dx_scope := (if dx_scope x = [] then default_scope else dx_scope x)\<rparr>"

definition await_and_exchange :: "'w dl_net \<Rightarrow> dl_options \<Rightarrow> dl_endpoints \<Rightarrow> dl_authorization \<Rightarrow> 'w \<Rightarrow> (dl_session result \<times> 'w) option" where
  "await_and_exchange net x ep a w = (case poll_device net ep (dx_client x) a w of
     None \<Rightarrow> None
   | Some (Inl e, w1) \<Rightarrow> Some (Inl e, w1)
   | Some (Inr token, w1) \<Rightarrow> Some (exchange_token net (dx_origin x) (dx_mount x) token w1))"

definition device_login :: "'w dl_net \<Rightarrow> dl_options \<Rightarrow> 'w \<Rightarrow> (dl_session result \<times> 'w) option" where
  "device_login net given w = (let x = with_defaults given in
     case exchange_mounted net (dx_origin x) (dx_mount x) w of
       (Inl e, w1) \<Rightarrow> Some (Inl e, w1)
     | (Inr False, w1) \<Rightarrow> Some (Inl err_exchange_not_mounted, w1)
     | (Inr True, w1) \<Rightarrow> (case discover_endpoints net (dx_issuer x) w1 of
         (Inl e, w2) \<Rightarrow> Some (Inl e, w2)
       | (Inr ep, w2) \<Rightarrow> (case authorize net ep (dx_client x) (dx_scope x) w2 of
           (Inl e, w3) \<Rightarrow> Some (Inl e, w3)
         | (Inr a, w3) \<Rightarrow> await_and_exchange net x ep a (dl_open net (auth_link a) w3))))"

section \<open>A poll returns\<close>

text \<open>How many polls fit before the deadline at an interval of at least \<open>i\<close>.\<close>

definition polls_left :: "duration \<Rightarrow> int \<Rightarrow> int" where
  "polls_left i left = (if left \<le> 0 then 0 else (left - 1) div i + 1)"

lemma polls_left_step:
  assumes "0 < i" and "0 < left" and "left' \<le> left - i"
  shows "polls_left i left' + 1 \<le> polls_left i left"
proof (cases "left' \<le> 0")
  case True
  with assms show ?thesis by (simp add: polls_left_def pos_imp_zdiv_nonneg_iff)
next
  case False
  have "(left' - 1) div i \<le> (left - 1 - i) div i" using assms by (intro zdiv_mono1) auto
  also have "\<dots> = (left - 1) div i - 1"
    using assms(1) div_add_self2 [of i "left - 1 - i"] by simp
  finally show ?thesis using False assms(1,2) by (simp add: polls_left_def)
qed

lemma polls_left_ge_0 [simp]: "0 < i \<Longrightarrow> 0 \<le> polls_left i left"
  by (simp add: polls_left_def pos_imp_zdiv_nonneg_iff)

lemma wrap_duration_exact: "- (2 ^ 63) \<le> n \<Longrightarrow> n < 2 ^ 63 \<Longrightarrow> wrap_duration n = n"
  by (simp add: wrap_duration_def)

lemma send_request_snd: "snd (send_request net r w) = snd (dl_send net r w)"
  by (simp add: send_request_def split: prod.splits exchange.splits option.splits)

lemma poll_grant_returns:
  assumes sleeps: "\<And>d w w'. dl_sleep net d w = (True, w') \<Longrightarrow> dl_now net w + d \<le> dl_now net w'"
    and sends: "\<And>r w. dl_now net w \<le> dl_now net (snd (dl_send net r w))"
    and asks: "\<And>r w. asked (snd (dl_send net r w)) \<le> asked w + (1 :: int)"
    and idle: "\<And>d w. asked (snd (dl_sleep net d w)) = asked w"
    and i: "0 < i" and "i \<le> sc_interval s" and "0 \<le> sc_step s"
    and "sc_interval s + sc_step s * polls_left i (sc_deadline s - dl_now net w) < 2 ^ 63"
  shows "\<exists>r w'. poll_grant net target form s w = Some (r, w') \<and>
    asked w' \<le> asked w + polls_left i (sc_deadline s - dl_now net w)"
  using assms(6-8)
proof (induction "nat (polls_left i (sc_deadline s - dl_now net w))" arbitrary: s w rule: less_induct)
  case less
  obtain go_on w1 where wait: "sched_wait net s w = (go_on, w1)" by (cases "sched_wait net s w")
  have idle1: "asked w1 = asked w" using wait idle [of "sc_interval s" w] by (auto simp: sched_wait_def split: if_splits)
  show ?case
  proof (cases go_on)
    case False
    with wait idle1 i show ?thesis by (subst poll_grant.simps) simp
  next
    case True
    then have time: "dl_now net w < sc_deadline s" "dl_now net w + sc_interval s \<le> dl_now net w1"
      using wait sleeps [of "sc_interval s" w w1] by (auto simp: sched_wait_def split: if_splits)
    obtain sr w2 where send: "send_request net (PostForm target form) w1 = (sr, w2)"
      by (cases "send_request net (PostForm target form) w1")
    have w2: "dl_now net w1 \<le> dl_now net w2" "asked w2 \<le> asked w + 1"
      using sends [of w1 "PostForm target form"] asks [of "PostForm target form" w1] idle1
        send_request_snd [of net "PostForm target form" w1] send by simp_all
    let ?left = "\<lambda>w. polls_left i (sc_deadline s - dl_now net w)"
    have fewer: "?left w2 + 1 \<le> ?left w"
      using polls_left_step [OF i, of "sc_deadline s - dl_now net w" "sc_deadline s - dl_now net w2"] time w2 less.prems(1)
      by simp
    have again: "\<exists>r w'. poll_grant net target form t w2 = Some (r, w') \<and> asked w' \<le> asked w + ?left w"
      if t: "t \<in> {s, slower s}" for t
    proof -
      have step: "sc_step s * (?left w2 + 1) \<le> sc_step s * ?left w"
        by (rule mult_left_mono [OF fewer less.prems(2)])
      then have room: "sc_interval s + sc_step s + sc_step s * ?left w2 < 2 ^ 63"
        using less.prems(3) by (simp add: distrib_left)
      moreover have "0 \<le> sc_step s * ?left w2" using less.prems(2) i by simp
      ultimately have small: "sc_interval s + sc_step s < 2 ^ 63" by simp
      have sl: "slower s = s\<lparr>sc_interval := sc_interval s + sc_step s\<rparr>"
        using wrap_duration_exact [of "sc_interval s + sc_step s"] small less.prems(1,2) i by (simp add: slower_def)
      have d: "sc_deadline t = sc_deadline s" "i \<le> sc_interval t" "0 \<le> sc_step t"
        using t less.prems(1,2) by (auto simp: sl)
      have "sc_interval t + sc_step t * ?left w2 < 2 ^ 63"
        using t room less.prems(2) by (auto simp: sl)
      moreover have "nat (?left w2) < nat (?left w)" using fewer polls_left_ge_0 [OF i, of "sc_deadline s - dl_now net w2"]
        by linarith
      ultimately obtain r w' where "poll_grant net target form t w2 = Some (r, w')" "asked w' \<le> asked w2 + ?left w2"
        using less.hyps [of t w2] d by auto
      with w2(2) fewer show ?thesis by force
    qed
    have one: "asked w2 \<le> asked w + ?left w" using w2(2) fewer i polls_left_ge_0 [OF i, of "sc_deadline s - dl_now net w2"] by linarith
    show ?thesis
      using wait True send again [of s] again [of "slower s"] one
      by (subst poll_grant.simps) (auto split: sum.splits)
  qed
qed

text \<open>
  C30: the wait for an approval ends. As long as a timer that fires lets its duration pass and the
  authorization names a positive interval, the poll returns, and it asks the token endpoint no more
  often than the interval fits into the time the codes are valid, whatever the provider answers;
  \<open>slow_down\<close> only makes it fewer.
\<close>

theorem device_poll_bounded:
  assumes "\<And>d w w'. dl_sleep net d w = (True, w') \<Longrightarrow> dl_now net w + d \<le> dl_now net w'"
    and "\<And>r w. dl_now net w \<le> dl_now net (snd (dl_send net r w))"
    and "\<And>r w. asked (snd (dl_send net r w)) \<le> asked w + (1 :: int)"
    and "\<And>d w. asked (snd (dl_sleep net d w)) = asked w"
    and "0 < da_interval a"
    and "da_interval a + slow_down_step * polls_left (da_interval a) (da_expires_in a) < 2 ^ 63"
  shows "\<exists>r w'. poll_device net ep client a w = Some (r, w') \<and>
    asked w' \<le> asked w + polls_left (da_interval a) (da_expires_in a)"
  unfolding poll_device_def
  using poll_grant_returns [of net asked "da_interval a" "\<lparr>sc_interval = da_interval a, sc_step = slow_down_step,
      sc_deadline = dl_now net w + da_expires_in a\<rparr>" w, OF assms(1-5)] assms(6)
  by (simp add: slow_down_step_def second_def)

text \<open>An interval stated as a fraction of a second becomes none: the poll would not pause.\<close>

lemma fractional_interval:
  "0 < v \<Longrightarrow> v < 1 \<Longrightarrow> doc_seconds huge (Some [(key, DNumber v)]) key fallback = 0"
proof -
  assume v: "0 < v" "v < 1"
  then have "\<lfloor>v\<rfloor> = 0" by (simp add: floor_eq_iff)
  moreover have "v < 2 ^ 63" by (rule less_le_trans [OF v(2)]) simp
  ultimately show ?thesis using v by (simp add: doc_seconds_def doc_get_def wrap_duration_def)
qed

section \<open>Where a login goes\<close>

datatype dl_event = Sent dl_request | Opened string

definition secure :: "'w dl_net \<Rightarrow> string \<Rightarrow> bool" where
  "secure net u = (require_secure_url net u = Inr ())"

fun trusted_event :: "'w dl_net \<Rightarrow> dl_options \<Rightarrow> dl_event \<Rightarrow> bool" where
  "trusted_event net x (Sent (GetDoc u)) = (u = trim_end_slash (dx_issuer x) @ discovery_path \<and> secure net (dx_issuer x))"
| "trusted_event net x (Sent (PostForm u form)) = secure net u"
| "trusted_event net x (Sent (PostJson u body)) = (u = exchange_url (dx_origin x) (dx_mount x) \<and> secure net (dx_origin x))"
| "trusted_event net x (Opened u) = secure net u"

text \<open>What a step adds to the log of the world.\<close>

definition adds :: "('w \<Rightarrow> dl_event list) \<Rightarrow> (dl_event \<Rightarrow> bool) \<Rightarrow> 'w \<Rightarrow> 'w \<Rightarrow> bool" where
  "adds trail p w w' = (\<exists>es. trail w' = trail w @ es \<and> (\<forall>e \<in> set es. p e))"

lemma adds_refl [simp]: "adds trail p w w"
  by (simp add: adds_def)

lemma adds_trans: "adds trail p u v \<Longrightarrow> adds trail p v w \<Longrightarrow> adds trail p u w"
  unfolding adds_def by (metis append.assoc Un_iff set_append)

lemma adds_send:
  assumes "\<And>r w. trail (snd (dl_send net r w)) = trail w @ [Sent r]" and "send_request net r w = (res, w')" and "p (Sent r)"
  shows "adds trail p w w'"
  using assms(1) [of r w] assms(2,3) send_request_snd [of net r w] by (auto simp: adds_def)

lemma secure_Inr: "require_secure_url net u = Inr x \<longleftrightarrow> secure net u"
  by (simp add: secure_def)

lemma endpoints_secure:
  "endpoints_from net doc = Inr ep \<Longrightarrow> secure net (de_authorization ep) \<and> secure net (de_token ep)"
  by (auto simp: endpoints_from_def Let_def secure_Inr split: if_splits sum.splits)

lemma usable_secure: "usable_auth net a = Inr u \<Longrightarrow> secure net (auth_link a)"
  by (auto simp: usable_auth_def auth_link_def secure_Inr split: if_splits sum.splits)

lemma poll_grant_adds:
  assumes send: "\<And>r w. trail (snd (dl_send net r w)) = trail w @ [Sent r]"
    and sleep: "\<And>d w. trail (snd (dl_sleep net d w)) = trail w"
    and "poll_grant net target form s w = Some (r, w')" and p: "p (Sent (PostForm target form))"
  shows "adds trail p w w'"
proof -
  let ?P = "\<lambda>(n :: 'a dl_net) t (f :: (string \<times> string) list) (s :: schedule) (w :: 'a) (y :: string result \<times> 'a).
    n = net \<longrightarrow> t = target \<longrightarrow> f = form \<longrightarrow> adds trail p w (snd y)"
  have "?P net target form s w (r, w')"
  proof (rule poll_grant.raw_induct [of ?P net target form s w "(r, w')"])
    show "poll_grant net target form s w = Some (r, w')" by (rule assms(3))
  next
    fix g :: "'a dl_net \<Rightarrow> string \<Rightarrow> (string \<times> string) list \<Rightarrow> schedule \<Rightarrow> 'a \<Rightarrow> (string result \<times> 'a) option"
      and n t f s w y
    assume ih: "\<And>n t f s w y. g n t f s w = Some y \<Longrightarrow> ?P n t f s w y"
      and body: "(case sched_wait n s w of (go_on, w1) \<Rightarrow>
        if \<not> go_on then Some (Inl (give_up n w1), w1)
        else (case send_request n (PostForm t f) w1 of
          (Inl e, w2) \<Rightarrow> g n t f s w2
        | (Inr (status, doc), w2) \<Rightarrow> (case read_poll status doc of
            Inl e \<Rightarrow> Some (Inl e, w2)
          | Inr (token, slow) \<Rightarrow>
              if token \<noteq> [] then Some (Inr token, w2) else g n t f (if slow then slower s else s) w2))) = Some y"
    show "?P n t f s w y"
    proof (intro impI)
      assume eq: "n = net" "t = target" "f = form"
      obtain go_on w1 where w1: "sched_wait net s w = (go_on, w1)" by (cases "sched_wait net s w")
      have trail1: "trail w1 = trail w" using w1 sleep [of "sc_interval s" w] by (auto simp: sched_wait_def split: if_splits)
      obtain sr w2 where w2: "send_request net (PostForm target form) w1 = (sr, w2)"
        by (cases "send_request net (PostForm target form) w1")
      have a: "adds trail p w w2" using adds_send [where p = p and trail = trail, OF send w2] p trail1 by (simp add: adds_def)
      have nxt: "adds trail p w (snd y)" if "g net target form t w2 = Some y" for t
        using ih [OF that] a by (auto intro: adds_trans)
      show "adds trail p w (snd y)"
        using body w1 w2 a nxt trail1 unfolding eq
        by (auto simp: adds_def split: if_splits sum.splits prod.splits)
    qed
  qed
  then show ?thesis by simp
qed

lemma post_exchange_adds:
  assumes "\<And>r w. trail (snd (dl_send net r w)) = trail w @ [Sent r]"
    and "post_exchange net (dx_origin x) (dx_mount x) body w = (res, w')"
  shows "adds trail (trusted_event net x) w w'"
  using assms(2) adds_send [where trail = trail and net = net and p = "trusted_event net x", OF assms(1)]
  by (auto simp: post_exchange_def secure_Inr split: sum.splits)

lemma discover_adds:
  assumes "\<And>r w. trail (snd (dl_send net r w)) = trail w @ [Sent r]"
    and "discover_endpoints net (dx_issuer x) w = (res, w')"
  shows "adds trail (trusted_event net x) w w' \<and>
    (\<forall>ep. res = Inr ep \<longrightarrow> secure net (de_authorization ep) \<and> secure net (de_token ep))"
proof (cases "require_secure_url net (dx_issuer x)")
  case (Inl e)
  with assms(2) show ?thesis by (auto simp: discover_endpoints_def)
next
  case (Inr u)
  obtain sr w1 where s: "send_request net (GetDoc (trim_end_slash (dx_issuer x) @ discovery_path)) w = (sr, w1)"
    by (cases "send_request net (GetDoc (trim_end_slash (dx_issuer x) @ discovery_path)) w")
  have "adds trail (trusted_event net x) w w1"
    using adds_send [where trail = trail and p = "trusted_event net x", OF assms(1) s] Inr by (simp add: secure_Inr)
  with assms(2) Inr s show ?thesis
    by (auto simp: discover_endpoints_def endpoints_secure split: sum.splits if_splits)
qed

lemma authorize_adds:
  assumes "\<And>r w. trail (snd (dl_send net r w)) = trail w @ [Sent r]" and "secure net (de_authorization ep)"
    and "authorize net ep client scope w = (res, w')"
  shows "adds trail (trusted_event net x) w w' \<and> (\<forall>a. res = Inr a \<longrightarrow> secure net (auth_link a))"
proof -
  let ?r = "PostForm (de_authorization ep) [(''client_id'', client), (''scope'', scope)]"
  obtain sr w1 where s: "send_request net ?r w = (sr, w1)" by (cases "send_request net ?r w")
  have "adds trail (trusted_event net x) w w1"
    using adds_send [where trail = trail and p = "trusted_event net x", OF assms(1) s] assms(2) by simp
  with assms(3) s show ?thesis
    by (auto simp: authorize_def usable_secure split: sum.splits if_splits)
qed

lemma await_adds:
  assumes send: "\<And>r w. trail (snd (dl_send net r w)) = trail w @ [Sent r]"
    and sleep: "\<And>d w. trail (snd (dl_sleep net d w)) = trail w"
    and "secure net (de_token ep)" and "await_and_exchange net x ep a w = Some (res, w')"
  shows "adds trail (trusted_event net x) w w'"
proof -
  obtain pr w1 where p: "poll_device net ep (dx_client x) a w = Some (pr, w1)"
    using assms(4) by (auto simp: await_and_exchange_def split: option.splits)
  have a1: "adds trail (trusted_event net x) w w1"
    using poll_grant_adds [where p = "trusted_event net x" and trail = trail, OF send sleep p [unfolded poll_device_def]]
      assms(3) by simp
  show ?thesis
  proof (cases pr)
    case (Inl e)
    with assms(4) p a1 show ?thesis by (simp add: await_and_exchange_def)
  next
    case (Inr token)
    obtain xr w2 where x: "post_exchange net (dx_origin x) (dx_mount x) (Some token) w1 = (xr, w2)"
      by (cases "post_exchange net (dx_origin x) (dx_mount x) (Some token) w1")
    have "snd (exchange_token net (dx_origin x) (dx_mount x) token w1) = w2"
      by (simp add: exchange_token_def x split: sum.splits prod.splits)
    with assms(4) p Inr have "w' = w2" by (simp add: await_and_exchange_def)
    then show ?thesis using adds_trans [OF a1 post_exchange_adds [OF send x]] by simp
  qed
qed

lemma mounted_adds:
  assumes "\<And>r w. trail (snd (dl_send net r w)) = trail w @ [Sent r]"
    and "exchange_mounted net (dx_origin x) (dx_mount x) w = (res, w')"
  shows "adds trail (trusted_event net x) w w'"
proof -
  obtain mr w1 where m: "post_exchange net (dx_origin x) (dx_mount x) None w = (mr, w1)"
    by (cases "post_exchange net (dx_origin x) (dx_mount x) None w")
  have "snd (exchange_mounted net (dx_origin x) (dx_mount x) w) = w1"
    by (simp add: exchange_mounted_def m split: sum.splits prod.splits)
  with assms(2) post_exchange_adds [OF assms(1) m] show ?thesis by simp
qed


section \<open>A provider that approves at the first poll\<close>

definition demo_net :: "(time \<times> dl_event list) dl_net" where
  "demo_net = \<lparr>dl_send = (\<lambda>r w. (case r of
       GetDoc u \<Rightarrow> Answered 200 (Some ''d'')
     | PostForm u form \<Rightarrow> Answered 200 (Some (if u = ''https://i/t'' then ''t'' else ''a''))
     | PostJson u body \<Rightarrow> (if body = None then Answered 401 (Some []) else Answered 200 (Some ''s'')), (fst w, snd w @ [Sent r]))),
     dl_sleep = (\<lambda>d w. (True, (fst w + d, snd w))), dl_now = fst, dl_ctx = (\<lambda>w. None),
     dl_open = (\<lambda>u w. (fst w, snd w @ [Opened u])),
     dl_parse = (\<lambda>u. if take 8 u = ''https://'' then Some \<lparr>du_scheme = ''https'', du_host = ''i'', du_hostname = ''i''\<rparr> else None),
     dl_json = (\<lambda>b. if b = ''d'' then Some [(''device_authorization_endpoint'', DText ''https://i/a''), (''token_endpoint'', DText ''https://i/t'')]
       else if b = ''a'' then Some [(''device_code'', DText ''c''), (''user_code'', DText ''u''), (''verification_uri'', DText ''https://i/v'')]
       else if b = ''t'' then Some [(''access_token'', DText ''at'')]
       else if b = ''s'' then Some [(''token'', DText ''tok''), (''user_id'', DText ''7'')] else None),
     dl_huge = (\<lambda>v. 0)\<rparr>"

definition demo_options :: dl_options where
  "demo_options = \<lparr>dx_origin = ''https://app'', dx_mount = [], dx_issuer = ''https://i'', dx_client = [], dx_scope = []\<rparr>"

lemma demo_effects:
  "snd (dl_send demo_net r w) = (fst w, snd w @ [Sent r])"
  "dl_sleep demo_net d w = (True, (fst w + d, snd w))"
  "dl_open demo_net u w = (fst w, snd w @ [Opened u])"
  "dl_now demo_net w = fst w"
  by (simp_all add: demo_net_def)

theorem device_poll_bounded_witness:
  "\<exists>r w'. poll_device demo_net \<lparr>de_authorization = ''https://i/a'', de_token = ''https://i/x''\<rparr> ''cli''
      \<lparr>da_device_code = ''c'', da_user_code = ''u'', da_uri = ''https://i/v'', da_uri_complete = [],
       da_interval = default_poll_interval, da_expires_in = default_expiry\<rparr> (0, []) = Some (r, w') \<and>
    int (length (snd w')) \<le> 120"
  using device_poll_bounded [of demo_net "\<lambda>w. int (length (snd w))"
    "\<lparr>da_device_code = ''c'', da_user_code = ''u'', da_uri = ''https://i/v'', da_uri_complete = [],
       da_interval = default_poll_interval, da_expires_in = default_expiry\<rparr>"
    "\<lparr>de_authorization = ''https://i/a'', de_token = ''https://i/x''\<rparr>" "''cli''" "(0, [])"]
  by (simp add: demo_effects polls_left_def default_poll_interval_def default_expiry_def minute_def second_def
      slow_down_step_def split: prod.splits)

lemma demo_mounted: "exchange_mounted demo_net ''https://app'' [] (0, []) =
    (Inr True, (0, [Sent (PostJson (exchange_url ''https://app'' []) None)]))"
  by (simp add: exchange_mounted_def post_exchange_def require_secure_url_def send_request_def demo_net_def)

lemma demo_discovered: "discover_endpoints demo_net ''https://i'' (0, es) =
    (Inr \<lparr>de_authorization = ''https://i/a'', de_token = ''https://i/t''\<rparr>, (0, es @ [Sent (GetDoc (''https://i'' @ discovery_path))]))"
  by (simp add: discover_endpoints_def require_secure_url_def send_request_def demo_net_def max_body_def is_ok_def
      endpoints_from_def doc_text_def doc_get_def lists_device_grant_def trim_end_slash_def)

lemma demo_authorized: "\<exists>e. authorize demo_net \<lparr>de_authorization = ''https://i/a'', de_token = ''https://i/t''\<rparr> client scope (0, es) =
    (Inr \<lparr>da_device_code = ''c'', da_user_code = ''u'', da_uri = ''https://i/v'', da_uri_complete = [],
       da_interval = default_poll_interval, da_expires_in = default_expiry\<rparr>, (0, es @ [Sent e]))"
  by (simp add: authorize_def send_request_def demo_net_def max_body_def is_ok_def authorization_of_def doc_text_def doc_get_def
      doc_seconds_def usable_auth_def require_secure_url_def)

lemma demo_polled: "\<exists>e. poll_device demo_net \<lparr>de_authorization = ''https://i/a'', de_token = ''https://i/t''\<rparr> client
    \<lparr>da_device_code = ''c'', da_user_code = ''u'', da_uri = ''https://i/v'', da_uri_complete = [],
       da_interval = default_poll_interval, da_expires_in = default_expiry\<rparr> (0, es) =
    Some (Inr ''at'', (default_poll_interval, es @ [Sent e]))"
  unfolding poll_device_def
  by (subst poll_grant.simps) (simp add: sched_wait_def send_request_def demo_net_def max_body_def is_ok_def read_poll_def
      doc_text_def doc_get_def default_expiry_def minute_def second_def)

lemma demo_exchanged: "\<exists>e. exchange_token demo_net ''https://app'' [] ''at'' (t, es) =
    (Inr \<lparr>ds_token = ''tok'', ds_user = ''7''\<rparr>, (t, es @ [Sent e]))"
  by (simp add: exchange_token_def post_exchange_def require_secure_url_def send_request_def demo_net_def max_body_def is_ok_def
      doc_text_def doc_get_def)

lemma demo_login: "\<exists>es. device_login demo_net demo_options (0, []) =
    Some (Inr \<lparr>ds_token = ''tok'', ds_user = ''7''\<rparr>, (default_poll_interval, es)) \<and> Opened ''https://i/v'' \<in> set es"
proof -
  let ?ep = "\<lparr>de_authorization = ''https://i/a'', de_token = ''https://i/t''\<rparr>"
  let ?es = "[Sent (PostJson (exchange_url ''https://app'' []) None), Sent (GetDoc (''https://i'' @ discovery_path))]"
  obtain e1 where 1: "authorize demo_net ?ep default_client default_scope (0, ?es) =
    (Inr \<lparr>da_device_code = ''c'', da_user_code = ''u'', da_uri = ''https://i/v'', da_uri_complete = [],
       da_interval = default_poll_interval, da_expires_in = default_expiry\<rparr>, (0, ?es @ [Sent e1]))"
    using demo_authorized by blast
  let ?es3 = "?es @ [Sent e1] @ [Opened ''https://i/v'']"
  obtain e2 where 2: "poll_device demo_net ?ep default_client
    \<lparr>da_device_code = ''c'', da_user_code = ''u'', da_uri = ''https://i/v'', da_uri_complete = [],
       da_interval = default_poll_interval, da_expires_in = default_expiry\<rparr> (0, ?es3) =
    Some (Inr ''at'', (default_poll_interval, ?es3 @ [Sent e2]))"
    using demo_polled by blast
  obtain e3 where 3: "exchange_token demo_net ''https://app'' [] ''at'' (default_poll_interval, ?es3 @ [Sent e2]) =
    (Inr \<lparr>ds_token = ''tok'', ds_user = ''7''\<rparr>, (default_poll_interval, (?es3 @ [Sent e2]) @ [Sent e3]))"
    using demo_exchanged by blast
  have "with_defaults demo_options = \<lparr>dx_origin = ''https://app'', dx_mount = [], dx_issuer = ''https://i'',
      dx_client = default_client, dx_scope = default_scope\<rparr>"
    by (simp add: with_defaults_def demo_options_def)
  then show ?thesis
    using 1 2 3 by (simp add: device_login_def demo_mounted demo_discovered demo_effects auth_link_def await_and_exchange_def)
qed


end
