(* ===== verification/Space_Suite.thy ===== *)
theory Space_Suite
  imports Spaces "HOL-Library.Multiset"
begin

text \<open>
  The conformance suite of \<open>spaces/spacestest\<close> (\<open>conformance.go\<close>, \<open>invariants.go\<close>,
  \<open>content.go\<close>, \<open>assign.go\<close>) as a program over any store: the fixture it seeds, its six tests, and
  the comparison of two lists of rows. A test is true when it neither calls \<open>Fatal\<close> nor \<open>Error\<close>;
  an error out of the guard carries the zero \<open>Scope\<close>. The reference store passes the suite under
  every ladder with three ranks, and a store that passes is pinned to the rows it was given.
\<close>

section \<open>The fixture (conformance.go)\<close>

definition space_a :: string where "space_a = ''space-a''"
definition space_b :: string where "space_b = ''space-b''"
definition user_owner :: string where "user_owner = ''user-owner''"
definition user_admin :: string where "user_admin = ''user-admin''"
definition user_member :: string where "user_member = ''user-member''"
definition user_co_owner :: string where "user_co_owner = ''user-co-owner''"
definition user_outsider :: string where "user_outsider = ''user-outsider''"

lemmas fixture_names = space_a_def space_b_def user_owner_def user_admin_def user_member_def
  user_co_owner_def user_outsider_def

record 's fixture =
  fx_guard :: "'s guard"
  fx_rows :: "membership list"
  fx_top :: role
  fx_middle :: role
  fx_bottom :: role

definition member_row :: "string \<Rightarrow> string \<Rightarrow> role \<Rightarrow> membership" where
  "member_row space user r = \<lparr>m_space = space, m_user = user, m_role = r\<rparr>"

fun seed_all :: "(membership \<Rightarrow> 's \<Rightarrow> space_error + 's) \<Rightarrow> membership list \<Rightarrow> 's \<Rightarrow> space_error + 's" where
  "seed_all seed [] s = Inr s"
| "seed_all seed (m # ms) s = (case seed m s of Inl e \<Rightarrow> Inl e | Inr s' \<Rightarrow> seed_all seed ms s')"

definition fixture_of :: "'s space_store \<Rightarrow> ladder \<Rightarrow> 's fixture" where
  "fixture_of store l =
     (let roles = ascending l; t = roles ! (length roles - 1); m = roles ! (length roles - 2); b = roles ! 0 in
      \<lparr>fx_guard = \<lparr>g_store = store, g_ladder = l\<rparr>,
       fx_rows = [member_row space_a user_owner t, member_row space_a user_admin m, member_row space_a user_member b,
         member_row space_b user_owner t, member_row space_b user_co_owner t, member_row space_a user_co_owner b],
       fx_top = t, fx_middle = m, fx_bottom = b\<rparr>)"

text \<open>A store without the \<open>Seeder\<close> half fails the suite, as one that cannot be seeded does.\<close>

definition seeded ::
  "'s space_store \<Rightarrow> (membership \<Rightarrow> 's \<Rightarrow> space_error + 's) option \<Rightarrow> 's \<Rightarrow> ladder \<Rightarrow> ('s fixture \<times> 's) option" where
  "seeded store seeder s l = (case seeder of None \<Rightarrow> None
     | Some seed \<Rightarrow> (case seed_all seed (fx_rows (fixture_of store l)) s of
         Inl e \<Rightarrow> None | Inr s' \<Rightarrow> Some (fixture_of store l, s')))"

section \<open>The invariants (invariants.go)\<close>

definition test_only_key :: "'s fixture \<Rightarrow> 's \<Rightarrow> bool" where
  "test_only_key f s =
     (resolve (fx_guard f) user_outsider space_a s = Inl ErrNotMember \<and>
      require (fx_guard f) user_outsider space_a (fx_bottom f) s = Inl ErrNotMember \<and>
      (case require (fx_guard f) user_member space_a (fx_bottom f) s of
         Inl e \<Rightarrow> False | Inr sc \<Rightarrow> sc_role sc = fx_bottom f \<and> sc_resolved sc) \<and>
      require (fx_guard f) user_member space_a (fx_middle f) s = Inl ErrForbidden)"

definition zero_scope :: scope where
  "zero_scope = \<lparr>sc_user = [], sc_space = [], sc_role = [], sc_resolved = False\<rparr>"

definition test_space_id_is_scoped :: "'s fixture \<Rightarrow> 's \<Rightarrow> bool" where
  "test_space_id_is_scoped f s =
     ((case resolve (fx_guard f) user_admin space_a s of
         Inl e \<Rightarrow> False | Inr sc \<Rightarrow> sc_space sc = space_a \<and> sc_role sc = fx_middle f \<and> \<not> personal sc) \<and>
      resolve (fx_guard f) user_admin space_b s = Inl ErrNotMember)"

definition test_space_id_checked :: "'s fixture \<Rightarrow> 's \<Rightarrow> bool" where
  "test_space_id_checked f s =
     (\<not> (personal zero_scope \<or> sc_resolved zero_scope) \<and>
      (case resolve (fx_guard f) user_owner [] s of
         Inl e \<Rightarrow> False
       | Inr sc \<Rightarrow> personal sc \<and> sc_space sc = [] \<and> sc_role sc = [] \<and> sc_user sc = user_owner) \<and>
      resolve (fx_guard f) [] [] s = Inl ErrNotMember \<and>
      require (fx_guard f) user_owner [] (fx_bottom f) s = Inl ErrNotMember \<and>
      test_space_id_is_scoped f s)"

definition test_reachable_owner :: "'s fixture \<Rightarrow> 's \<Rightarrow> bool" where
  "test_reachable_owner f s =
     (can_leave (fx_guard f) user_owner space_a s = Some ErrSoleOwner \<and>
      can_leave (fx_guard f) user_owner space_b s = None \<and>
      can_leave (fx_guard f) user_member space_a s = None \<and>
      can_leave (fx_guard f) user_admin space_a s = None \<and>
      can_leave (fx_guard f) user_outsider space_a s = Some ErrNotMember \<and>
      can_leave (fx_guard f) user_owner [] s = Some ErrNotMember)"

section \<open>No escalation (assign.go)\<close>

definition forged :: "'s fixture \<Rightarrow> scope" where
  "forged f = \<lparr>sc_user = user_outsider, sc_space = space_a, sc_role = fx_top f, sc_resolved = False\<rparr>"

definition unranked_role :: role where "unranked_role = ''porte-conformance-unranked''"

text \<open>The actor, the role it wants to grant and whether it may.\<close>

definition assign_cases :: "'s fixture \<Rightarrow> scope \<Rightarrow> scope \<Rightarrow> scope \<Rightarrow> scope \<Rightarrow> (scope \<times> role \<times> bool) list" where
  "assign_cases f t m b own =
     [(m, fx_top f, False), (b, fx_middle f, False), (b, fx_top f, False), (m, fx_middle f, True),
      (m, fx_bottom f, True), (t, fx_top f, True), (t, unranked_role, False), (own, fx_bottom f, False),
      (zero_scope, fx_bottom f, False), (forged f, fx_top f, False)]"

definition test_no_demotion :: "'s fixture \<Rightarrow> 's \<Rightarrow> bool" where
  "test_no_demotion f s = (case resolve (fx_guard f) user_admin space_a s of
     Inl e \<Rightarrow> False
   | Inr m \<Rightarrow> \<not> assignable_over (fx_guard f) m (fx_top f) (fx_bottom f) \<and>
       assignable_over (fx_guard f) m (fx_bottom f) (fx_middle f))"

definition test_no_escalation :: "'s fixture \<Rightarrow> 's \<Rightarrow> bool" where
  "test_no_escalation f s =
     (case (resolve (fx_guard f) user_owner space_a s, resolve (fx_guard f) user_admin space_a s,
        resolve (fx_guard f) user_member space_a s, resolve (fx_guard f) user_owner [] s) of
       (Inr t, Inr m, Inr b, Inr own) \<Rightarrow>
         list_all (\<lambda>(actor, target, want). assignable_by (fx_guard f) actor target = want) (assign_cases f t m b own) \<and>
         test_no_demotion f s
     | _ \<Rightarrow> False)"

section \<open>What the store returns (content.go)\<close>

definition row_text :: "membership \<Rightarrow> string" where
  "row_text m = ''{'' @ m_space m @ '' '' @ m_user m @ '' '' @ m_role m @ ''}''"

fun rows_text :: "membership list \<Rightarrow> string" where
  "rows_text [] = []"
| "rows_text [m] = row_text m"
| "rows_text (m # n # ms) = row_text m @ '', '' @ rows_text (n # ms)"

definition describe_rows :: "membership list \<Rightarrow> string" where
  "describe_rows ms = (if ms = [] then ''no rows'' else ''['' @ rows_text ms @ '']'')"

text \<open>The loop of \<open>compare\<close>: every row that came back is taken off the count of those expected.\<close>

fun take_off :: "('r \<Rightarrow> nat) \<Rightarrow> 'r list \<Rightarrow> bool" where
  "take_off left [] = True"
| "take_off left (r # rs) = (if left r = 0 then False else take_off (left(r := left r - 1)) rs)"

definition compare_rows :: "membership list \<Rightarrow> membership list \<Rightarrow> string" where
  "compare_rows got want =
     (if \<not> take_off (count_list want) got
      then ''returned '' @ describe_rows got @ '', want exactly '' @ describe_rows want @
        ''; ids must be populated from the row and the role preserved''
      else if length got \<noteq> length want
      then ''returned '' @ describe_rows got @ '', want exactly '' @ describe_rows want
      else [])"

definition rows_for :: "'s fixture \<Rightarrow> string \<Rightarrow> membership list" where
  "rows_for f user = filter (\<lambda>m. m_user m = user) (fx_rows f)"

definition test_absence_is_error :: "'s fixture \<Rightarrow> 's \<Rightarrow> bool" where
  "test_absence_is_error f s =
     (let store = g_store (fx_guard f) in
      st_membership store space_a user_outsider s = Inl ErrNotMember \<and>
      st_membership store space_b user_admin s = Inl ErrNotMember \<and>
      st_count_role store space_b (fx_top f) s = Inr 2 \<and>
      st_count_role store space_a (fx_top f) s = Inr 1 \<and>
      spaces (fx_guard f) user_outsider s = Inr [])"

definition test_listed_rows :: "'s fixture \<Rightarrow> string \<Rightarrow> 's \<Rightarrow> bool" where
  "test_listed_rows f user s =
     ((case st_memberships (g_store (fx_guard f)) user s of
         Inl e \<Rightarrow> False | Inr listed \<Rightarrow> compare_rows listed (rows_for f user) = []) \<and>
      (case spaces (fx_guard f) user s of Inl e \<Rightarrow> False | Inr held \<Rightarrow> compare_rows held (rows_for f user) = []))"

definition test_rows_are_faithful :: "'s fixture \<Rightarrow> 's \<Rightarrow> bool" where
  "test_rows_are_faithful f s =
     (list_all (\<lambda>want. st_membership (g_store (fx_guard f)) (m_space want) (m_user want) s = Inr want) (fx_rows f) \<and>
      list_all (\<lambda>user. test_listed_rows f user s) [user_owner, user_admin, user_member, user_co_owner, user_outsider])"

section \<open>The suite\<close>

text \<open>Each test gets a store of its own, seeded again.\<close>

definition space_tests :: "('s fixture \<Rightarrow> 's \<Rightarrow> bool) list" where
  "space_tests = [test_only_key, test_space_id_checked, test_reachable_owner, test_no_escalation,
     test_absence_is_error, test_rows_are_faithful]"

definition space_conformance ::
  "'s space_store \<Rightarrow> (membership \<Rightarrow> 's \<Rightarrow> space_error + 's) option \<Rightarrow> 's \<Rightarrow> ladder \<Rightarrow> bool" where
  "space_conformance store seeder s0 l =
     (3 \<le> length (ascending l) \<and>
      list_all (\<lambda>test. case seeded store seeder s0 l of None \<Rightarrow> False | Some (f, s) \<Rightarrow> test f s) space_tests)"

section \<open>The comparison is equality of multisets\<close>

lemma take_off_count: "take_off (count M) got \<longleftrightarrow> mset got \<subseteq># M"
proof (induction got arbitrary: M)
  case (Cons r rs)
  show ?case
  proof (cases "count M r = 0")
    case True
    then show ?thesis by (auto dest: mset_subset_eq_insertD simp: count_eq_zero_iff)
  next
    case False
    then have r: "r \<in># M" by (metis count_eq_zero_iff)
    have less: "(count M)(r := count M r - 1) = count (M - {#r#})" by auto
    have "take_off (count M) (r # rs) = take_off ((count M)(r := count M r - 1)) rs"
      by (simp only: take_off.simps False if_False)
    also have "\<dots> \<longleftrightarrow> mset rs \<subseteq># M - {#r#}" unfolding less by (rule Cons.IH)
    finally show ?thesis using r by (simp add: insert_subset_eq_iff)
  qed
qed simp

text \<open>\<open>compare\<close> finds no difference exactly when the rows are those expected, duplicates counted.\<close>

lemma compare_rows_iff_mset: "compare_rows got want = [] \<longleftrightarrow> mset got = mset want"
proof -
  have "take_off (count_list want) got \<longleftrightarrow> mset got \<subseteq># mset want"
    using take_off_count [of "mset want" got] by (simp add: count_mset [abs_def])
  moreover have "mset got = mset want" if "mset got \<subseteq># mset want" "length got = length want"
    using that by (metis mset_subset_size nless_le size_mset subset_mset.le_imp_less_or_eq)
  ultimately show ?thesis by (auto simp: compare_rows_def dest: mset_eq_length)
qed

section \<open>The reference store passes\<close>

lemma index_nth_distinct: "distinct xs \<Longrightarrow> i < length xs \<Longrightarrow> index xs (xs ! i) = int i"
  by (metis index_bounds index_nonneg index_nth nat_eq_iff2 nat_less_iff nth_eq_iff_index_eq nth_mem)

lemma at_least_nth:
  "ladder_ok l \<Longrightarrow> i < length (ascending l) \<Longrightarrow> j < length (ascending l) \<Longrightarrow>
    at_least l (ascending l ! i) (ascending l ! j) \<longleftrightarrow> j \<le> i"
  by (simp add: at_least_iff valid_iff ladder_ok_def index_nth_distinct)

text \<open>The three ranks of the fixture.\<close>

lemma three_ranks:
  assumes "3 \<le> length (ascending (new_ladder rs))" and "f = fixture_of store (new_ladder rs)"
  shows "ladder_of (fx_guard f) = new_ladder rs" "g_store (fx_guard f) = store"
    "top_role (new_ladder rs) = fx_top f"
    "fx_top f \<noteq> []" "fx_middle f \<noteq> []" "fx_bottom f \<noteq> []"
    "fx_top f \<noteq> fx_middle f" "fx_top f \<noteq> fx_bottom f" "fx_middle f \<noteq> fx_bottom f"
    "valid (new_ladder rs) (fx_top f)" "valid (new_ladder rs) (fx_middle f)" "valid (new_ladder rs) (fx_bottom f)"
    "\<not> at_least (new_ladder rs) (fx_middle f) (fx_top f)" "\<not> at_least (new_ladder rs) (fx_bottom f) (fx_top f)"
    "\<not> at_least (new_ladder rs) (fx_bottom f) (fx_middle f)" "at_least (new_ladder rs) (fx_middle f) (fx_bottom f)"
    "at_least (new_ladder rs) (fx_middle f) (fx_middle f)" "at_least (new_ladder rs) (fx_top f) (fx_top f)"
    "at_least (new_ladder rs) (fx_bottom f) (fx_bottom f)"
proof -
  let ?l = "new_ladder rs"
  let ?n = "length (ascending ?l)"
  have ok: "ladder_ok ?l" by simp
  have r: "fx_top f = ascending ?l ! (?n - 1)" "fx_middle f = ascending ?l ! (?n - 2)" "fx_bottom f = ascending ?l ! 0"
    by (simp_all add: assms(2) fixture_of_def Let_def)
  have lt: "?n - 1 < ?n" "?n - 2 < ?n" "0 < ?n" using assms(1) by linarith+
  note al = at_least_nth [OF ok]
  show "ladder_of (fx_guard f) = ?l" "g_store (fx_guard f) = store"
    by (simp_all add: assms(2) fixture_of_def Let_def ladder_of_def new_ladder_def)
  show "top_role ?l = fx_top f" using lt(3) by (simp add: r top_role_def last_conv_nth)
  show v: "valid ?l (fx_top f)" "valid ?l (fx_middle f)" "valid ?l (fx_bottom f)"
    using lt by (simp_all add: r valid_iff)
  show "fx_top f \<noteq> []" "fx_middle f \<noteq> []" "fx_bottom f \<noteq> []" using v by (auto simp: valid_new_ladder)
  show down: "\<not> at_least ?l (fx_middle f) (fx_top f)" "\<not> at_least ?l (fx_bottom f) (fx_top f)"
    "\<not> at_least ?l (fx_bottom f) (fx_middle f)" "at_least ?l (fx_middle f) (fx_bottom f)"
    unfolding r al [OF lt(2,1)] al [OF lt(3,1)] al [OF lt(3,2)] al [OF lt(2,3)] using assms(1) by linarith+
  show "at_least ?l (fx_middle f) (fx_middle f)" "at_least ?l (fx_top f) (fx_top f)" "at_least ?l (fx_bottom f) (fx_bottom f)"
    using v by (simp_all add: at_least_refl)
  then show "fx_top f \<noteq> fx_middle f" "fx_top f \<noteq> fx_bottom f" "fx_middle f \<noteq> fx_bottom f" using down by metis+
qed

definition memory_seeder :: "(membership \<Rightarrow> memory \<Rightarrow> space_error + memory) option" where
  "memory_seeder = Some (\<lambda>m ms. Inr (memory_seed m ms))"

lemma fixture_rows:
  "fx_rows (fixture_of store l) = (let f = fixture_of store l in
    [member_row space_a user_owner (fx_top f), member_row space_a user_admin (fx_middle f),
     member_row space_a user_member (fx_bottom f), member_row space_b user_owner (fx_top f),
     member_row space_b user_co_owner (fx_top f), member_row space_a user_co_owner (fx_bottom f)])"
  by (simp add: fixture_of_def Let_def)

lemma memory_seeded:
  "seeded memory_store memory_seeder [] l = Some (fixture_of memory_store l, fx_rows (fixture_of memory_store l))"
  by (simp add: seeded_def memory_seeder_def fixture_rows Let_def member_row_def fixture_names)

text \<open>
  The reference store passes its own suite, under every ladder that ranks three roles and does
  not rank the one the suite keeps unranked.
\<close>

theorem space_suite_passes:
  assumes "3 \<le> length (ascending (new_ladder rs))" and "unranked_role \<notin> set rs"
  shows "space_conformance memory_store memory_seeder [] (new_ladder rs)"
proof -
  define f where "f = fixture_of memory_store (new_ladder rs)"
  note ranks = three_ranks [OF assms(1) f_def]
  have rows: "fx_rows f =
    [member_row space_a user_owner (fx_top f), member_row space_a user_admin (fx_middle f),
     member_row space_a user_member (fx_bottom f), member_row space_b user_owner (fx_top f),
     member_row space_b user_co_owner (fx_top f), member_row space_a user_co_owner (fx_bottom f)]"
    unfolding f_def by (simp add: fixture_rows Let_def)
  have st: "st_membership memory_store = memory_membership" "st_memberships memory_store = memory_memberships"
    "st_count_role memory_store = memory_count_role" by (simp_all add: memory_store_def)
  have un: "\<not> at_least (new_ladder rs) (fx_top f) unranked_role"
    using assms(2) by (auto dest: at_least_valid simp: valid_new_ladder)
  note ev = ranks rows st member_row_def fixture_names
  have t1: "test_only_key f (fx_rows f)" by (simp add: test_only_key_def guard_defs ev)
  have t2: "test_space_id_checked f (fx_rows f)"
    by (simp add: test_space_id_checked_def test_space_id_is_scoped_def guard_defs personal_def zero_scope_def ev)
  have t3: "test_reachable_owner f (fx_rows f)"
    by (simp add: test_reachable_owner_def guard_defs memory_count_role_def affected_Cons ev ranks(7-9) [symmetric])
  have t4: "test_no_escalation f (fx_rows f)"
    by (simp add: test_no_escalation_def test_no_demotion_def assign_cases_def forged_def zero_scope_def guard_defs personal_def un ev)
  have t5: "test_absence_is_error f (fx_rows f)"
    by (simp add: test_absence_is_error_def guard_defs memory_count_role_def memory_memberships_def affected_Cons Let_def ev
        ranks(7-9) [symmetric])
  have t6: "test_rows_are_faithful f (fx_rows f)"
    by (simp add: test_rows_are_faithful_def test_listed_rows_def rows_for_def compare_rows_iff_mset guard_defs
        memory_memberships_def ev)
  show ?thesis
    using assms(1) t1 t2 t3 t4 t5 t6
    by (simp add: space_conformance_def space_tests_def memory_seeded f_def [symmetric])
qed

theorem space_suite_passes_witness:
  "space_conformance memory_store memory_seeder [] (new_ladder [''viewer'', ''editor'', ''admin'', ''owner''])"
  by (rule space_suite_passes) (simp_all add: new_ladder_def unranked_role_def)

section \<open>A store that passes\<close>

text \<open>
  C35: a store that passes answers as the reference store does on what the suite seeded: the same row
  for every membership, the same rows for every user of the fixture up to their order, and the same
  refusal across spaces and for somebody who is a member of none.
\<close>

theorem passing_store_answers_as_reference:
  assumes "space_conformance store seeder s0 l"
  shows "\<exists>f s. seeded store seeder s0 l = Some (f, s) \<and>
    (\<forall>m \<in> set (fx_rows f). st_membership store (m_space m) (m_user m) s = memory_membership (m_space m) (m_user m) (fx_rows f)) \<and>
    (\<forall>u \<in> set [user_owner, user_admin, user_member, user_co_owner, user_outsider].
       \<exists>listed want. st_memberships store u s = Inr listed \<and> memory_memberships u (fx_rows f) = Inr want \<and> mset listed = mset want) \<and>
    st_membership store space_b user_admin s = memory_membership space_b user_admin (fx_rows f) \<and>
    st_membership store space_a user_outsider s = memory_membership space_a user_outsider (fx_rows f)"
proof -
  obtain f s where fs: "seeded store seeder s0 l = Some (f, s)"
    and absent: "test_absence_is_error f s" and faithful: "test_rows_are_faithful f s"
    using assms by (auto simp: space_conformance_def space_tests_def split: option.splits prod.splits)
  have f: "f = fixture_of store l" using fs by (auto simp: seeded_def split: option.splits sum.splits)
  have st: "g_store (fx_guard f) = store" by (simp add: f fixture_of_def Let_def)
  have "list_all (\<lambda>m. memory_membership (m_space m) (m_user m) (fx_rows f) = Inr m) (fx_rows f)"
    unfolding f by (simp add: fixture_rows Let_def member_row_def fixture_names)
  then have rows: "memory_membership (m_space m) (m_user m) (fx_rows f) = Inr m" if "m \<in> set (fx_rows f)" for m
    using that by (simp add: list_all_iff)
  have missing: "memory_membership space_b user_admin (fx_rows f) = Inl ErrNotMember"
    "memory_membership space_a user_outsider (fx_rows f) = Inl ErrNotMember"
    unfolding f by (simp_all add: fixture_rows Let_def member_row_def fixture_names)
  have listed: "\<exists>listed want. st_memberships store u s = Inr listed \<and> memory_memberships u (fx_rows f) = Inr want \<and>
      mset listed = mset want" if "u \<in> set [user_owner, user_admin, user_member, user_co_owner, user_outsider]" for u
    using that faithful
    by (auto simp: test_rows_are_faithful_def test_listed_rows_def st compare_rows_iff_mset memory_memberships_def rows_for_def
        split: sum.splits)
  show ?thesis
    using fs listed rows missing faithful absent
    by (intro exI [of _ f] exI [of _ s])
       (simp add: test_rows_are_faithful_def test_absence_is_error_def st list_all_iff Let_def)
qed

theorem passing_store_answers_as_reference_witness:
  "\<exists>f s. seeded memory_store memory_seeder [] default_ladder = Some (f, s) \<and>
    st_membership memory_store space_b user_admin s = memory_membership space_b user_admin (fx_rows f)"
proof -
  have "space_conformance memory_store memory_seeder [] default_ladder"
    by code_simp
  from passing_store_answers_as_reference [OF this] show ?thesis by blast
qed

text \<open>A lookup that is not scoped: the role it answers is that of the user, whatever space is asked.\<close>

definition unscoped_lookup :: "'s space_store \<Rightarrow> bool" where
  "unscoped_lookup store = (\<forall>u sp sp' s m m'. st_membership store sp u s = Inr m \<longrightarrow>
     st_membership store sp' u s = Inr m' \<longrightarrow> m_role m = m_role m')"

text \<open>
  The suite refuses a store whose lookup is not scoped to the space, also one that fills in the
  ids it was asked about: the co-owner holds two ranks.
\<close>

theorem suite_refuses_unscoped_lookup:
  assumes "unscoped_lookup store"
  shows "\<not> space_conformance store seeder s0 (new_ladder rs)"
proof
  assume passes: "space_conformance store seeder s0 (new_ladder rs)"
  define f where "f = fixture_of store (new_ladder rs)"
  obtain s where "test_rows_are_faithful f s" "3 \<le> length (ascending (new_ladder rs))"
    using passes by (auto simp: space_conformance_def space_tests_def seeded_def f_def split: option.splits sum.splits)
  then have "st_membership store space_b user_co_owner s = Inr (member_row space_b user_co_owner (fx_top f))"
    "st_membership store space_a user_co_owner s = Inr (member_row space_a user_co_owner (fx_bottom f))"
    "fx_top f \<noteq> fx_bottom f"
    using three_ranks [OF _ f_def]
    by (auto simp: test_rows_are_faithful_def f_def fixture_rows Let_def member_row_def)
  with assms have "fx_top f = fx_bottom f" unfolding unscoped_lookup_def by (fastforce simp: member_row_def)
  with \<open>fx_top f \<noteq> fx_bottom f\<close> show False by simp
qed

definition first_row_store :: "memory space_store" where
  "first_row_store = memory_store\<lparr>st_membership := (\<lambda>sp u ms. case find (\<lambda>m. m_user m = u) ms of
     None \<Rightarrow> Inl ErrNotMember | Some m \<Rightarrow> Inr (member_row sp u (m_role m)))\<rparr>"

theorem suite_refuses_unscoped_lookup_witness:
  "unscoped_lookup first_row_store \<and>
   \<not> space_conformance first_row_store memory_seeder [] (new_ladder [''member'', ''admin'', ''owner''])"
proof -
  have u: "unscoped_lookup first_row_store"
    by (auto simp: unscoped_lookup_def first_row_store_def member_row_def split: option.splits)
  from suite_refuses_unscoped_lookup [OF u] u show ?thesis by blast
qed

end
