(* ===== verification/Link_Suite.thy ===== *)
theory Link_Suite
  imports Link_Memory Pg_Identities
begin

text \<open>
  The conformance suite of \<open>magiclink/magiclinktest\<close> (\<open>conformance.go\<close>, \<open>concurrency.go\<close>,
  \<open>helpers.go\<close>) as a program over any link store. A test asks for its users and then runs checks one
  after the other; the first one that fails ends it. Calls that run at once are carried out in some
  order, because a store makes each of them atomic: equal consumes in the only order they have, and
  concurrent creates in an order that is an argument. A locale says what a store needs for the tests
  to find what they look for; it is interpreted on the reference store and on \<open>porte/pg\<close>.
\<close>

section \<open>Checks (helpers.go)\<close>

definition epoch :: time where "epoch = 63929131200 * second"
definition link_ttl :: duration where "link_ttl = 15 * minute"

definition suite_link :: "int \<Rightarrow> string \<Rightarrow> string \<Rightarrow> time \<Rightarrow> magic_link" where
  "suite_link user hash ip created = \<lparr>ml_token_hash = hash, ml_user = user, ml_created_at = created,
     ml_expires_at = created + link_ttl, ml_ip = ip\<rparr>"

datatype link_check =
    MustCreate magic_link
  | MustSpend "int option" string time
  | WantDead string time
  | WantCount link_key time int
  | WantSwept time int
  | WantUncounted link_key time
  | WantOneWinner "string list" time

text \<open>How many of some consumes succeed.\<close>

fun winners :: "'s magic_link_store_ops \<Rightarrow> string list \<Rightarrow> time \<Rightarrow> 's \<Rightarrow> nat \<times> 's" where
  "winners st [] now s = (0, s)"
| "winners st (h # hs) now s = (case mk_consume st h now s of
     (r, s1) \<Rightarrow> (case winners st hs now s1 of (n, s2) \<Rightarrow> ((case r of Inl e \<Rightarrow> n | Inr u \<Rightarrow> Suc n), s2)))"

fun run_check :: "'s magic_link_store_ops \<Rightarrow> link_check \<Rightarrow> 's \<Rightarrow> bool \<times> 's" where
  "run_check st (MustCreate l) s = (case mk_create st l s of (r, s1) \<Rightarrow> (r = Inr (), s1))"
| "run_check st (MustSpend want h now) s = (case mk_consume st h now s of
     (r, s1) \<Rightarrow> ((case r of Inl e \<Rightarrow> False | Inr u \<Rightarrow> want = None \<or> want = Some u), s1))"
| "run_check st (WantDead h now) s = (case mk_consume st h now s of
     (r, s1) \<Rightarrow> ((case r of Inl e \<Rightarrow> is_err e ErrNotFound | Inr u \<Rightarrow> False), s1))"
| "run_check st (WantCount k since want) s = (case mk_count_since st k since s of (r, s1) \<Rightarrow> (r = Inr want, s1))"
| "run_check st (WantSwept cutoff want) s = (case mk_delete_expired st cutoff s of (r, s1) \<Rightarrow> (r = Inr want, s1))"
| "run_check st (WantUncounted k since) s = (case mk_count_since st k since s of
     (r, s1) \<Rightarrow> ((case r of Inl e \<Rightarrow> True | Inr n \<Rightarrow> n = 0), s1))"
| "run_check st (WantOneWinner hs now) s = (case winners st hs now s of (n, s1) \<Rightarrow> (n = 1, s1))"

fun run_checks :: "'s magic_link_store_ops \<Rightarrow> link_check list \<Rightarrow> 's \<Rightarrow> 's option" where
  "run_checks st [] s = Some s"
| "run_checks st (c # cs) s = (case run_check st c s of (ok, s1) \<Rightarrow> if ok then run_checks st cs s1 else None)"

section \<open>The tests (conformance.go, concurrency.go)\<close>

definition test_single_use :: "int \<Rightarrow> link_check list" where
  "test_single_use user =
     [MustCreate (suite_link user ''h1'' [] epoch), MustSpend (Some user) ''h1'' (epoch + minute),
      WantDead ''h1'' (epoch + 2 * minute)]"

definition test_uniform_failure :: "int \<Rightarrow> link_check list" where
  "test_uniform_failure user =
     [MustCreate (suite_link user ''spent'' [] epoch), MustCreate (suite_link user ''live'' [] epoch),
      WantDead ''spent'' epoch, WantDead ''unknown'' epoch, WantDead ''live'' (epoch + (link_ttl + second))]"

definition test_expiry :: "int \<Rightarrow> link_check list" where
  "test_expiry user =
     [MustCreate (suite_link user ''edge'' [] epoch), WantDead ''edge'' (epoch + link_ttl),
      MustCreate (suite_link user ''inside'' [] epoch), MustSpend None ''inside'' (epoch + (link_ttl - second))]"

definition test_supersession :: "int \<Rightarrow> int \<Rightarrow> link_check list" where
  "test_supersession first second_user =
     [MustCreate (suite_link first ''old'' [] epoch), MustCreate (suite_link second_user ''other'' [] epoch),
      MustCreate (suite_link first ''new'' [] (epoch + minute)), WantDead ''old'' (epoch + 2 * minute),
      MustSpend None ''new'' (epoch + 2 * minute), MustSpend None ''other'' (epoch + 2 * minute)]"

definition test_concurrent_consume :: "int \<Rightarrow> link_check list" where
  "test_concurrent_consume user =
     [MustCreate (suite_link user ''race'' [] epoch), WantOneWinner (replicate 16 ''race'') (epoch + minute)]"

definition race_hashes :: "string list" where
  "race_hashes = [''c0'', ''c1'', ''c2'', ''c3'', ''c4'', ''c5'', ''c6'', ''c7'']"

definition test_concurrent_create :: "string list \<Rightarrow> int \<Rightarrow> link_check list" where
  "test_concurrent_create order user =
     map (\<lambda>h. MustCreate (suite_link user h [] epoch)) order @ [WantOneWinner race_hashes (epoch + minute)]"

definition link_key_of :: "int \<Rightarrow> string \<Rightarrow> link_key" where
  "link_key_of user ip = \<lparr>k_user = user, k_ip = ip\<rparr>"

definition test_counts :: "int \<Rightarrow> int \<Rightarrow> link_check list" where
  "test_counts first second_user =
     [MustCreate (suite_link first ''a'' ''10.0.0.1'' epoch),
      MustCreate (suite_link first ''b'' ''10.0.0.2'' (epoch + minute)),
      MustCreate (suite_link second_user ''c'' ''10.0.0.1'' (epoch + 2 * minute)),
      MustSpend None ''b'' (epoch + 3 * minute),
      WantCount (link_key_of first []) epoch 2, WantCount (link_key_of 0 ''10.0.0.1'') epoch 2,
      WantCount (link_key_of first ''10.0.0.1'') epoch 1, WantCount (link_key_of first []) (epoch + minute) 1,
      WantCount (link_key_of first []) (epoch + hour) 0, WantCount (link_key_of 0 []) epoch 0]"

definition test_sweep :: "int \<Rightarrow> int \<Rightarrow> link_check list" where
  "test_sweep user other =
     [MustCreate (suite_link user ''stale'' [] epoch), MustCreate (suite_link other ''live'' [] (epoch + hour)),
      WantSwept (epoch + 30 * minute) 1, MustSpend None ''live'' (epoch + (hour + minute)),
      WantUncounted (link_key_of user []) epoch]"

section \<open>The suite\<close>

datatype link_test = OneUser "int \<Rightarrow> link_check list" | TwoUsers "int \<Rightarrow> int \<Rightarrow> link_check list"

definition link_tests :: "string list \<Rightarrow> link_test list" where
  "link_tests order = [OneUser test_single_use, OneUser test_uniform_failure, OneUser test_expiry,
     TwoUsers test_supersession, OneUser test_concurrent_consume, OneUser (test_concurrent_create order),
     TwoUsers test_counts, TwoUsers test_sweep]"

text \<open>\<open>newUser\<close> is told how often it was called; a test starts from a fresh store.\<close>

fun run_test :: "'s magic_link_store_ops \<Rightarrow> (nat \<Rightarrow> 's \<Rightarrow> int result \<times> 's) \<Rightarrow> 's \<Rightarrow> link_test \<Rightarrow> bool" where
  "run_test st new_user s0 (OneUser t) = (case new_user 0 s0 of
     (Inl e, s1) \<Rightarrow> False | (Inr u, s1) \<Rightarrow> run_checks st (t u) s1 \<noteq> None)"
| "run_test st new_user s0 (TwoUsers t) = (case new_user 0 s0 of
     (Inl e, s1) \<Rightarrow> False
   | (Inr u, s1) \<Rightarrow> (case new_user 1 s1 of
       (Inl e, s2) \<Rightarrow> False | (Inr v, s2) \<Rightarrow> run_checks st (t u v) s2 \<noteq> None))"

definition link_conformance ::
  "'s magic_link_store_ops \<Rightarrow> (nat \<Rightarrow> 's \<Rightarrow> int result \<times> 's) \<Rightarrow> 's \<Rightarrow> string list \<Rightarrow> bool" where
  "link_conformance st new_user s0 order = list_all (run_test st new_user s0) (link_tests order)"

section \<open>The reference store\<close>

text \<open>Links of one user created at once: all but the last are spent at the moment they were made.\<close>

definition raced :: "int \<Rightarrow> string list \<Rightarrow> link_memory" where
  "raced user hs = map (\<lambda>h. \<lparr>mr_link = suite_link user h [] epoch, mr_consumed_at = epoch\<rparr>) (butlast hs) @
     (if hs = [] then [] else [\<lparr>mr_link = suite_link user (last hs) [] epoch, mr_consumed_at = 0\<rparr>])"

lemma epoch_pos [simp]: "epoch \<noteq> 0" "0 < epoch"
  by (simp_all add: epoch_def second_def)

lemma raced_create:
  "snd (memory_create (suite_link user h [] epoch) (raced user hs)) = raced user (hs @ [h])"
  by (cases hs rule: rev_cases) (auto simp: memory_create_def raced_def suite_link_def butlast_append comp_def)

lemma run_creates:
  "run_checks memory_links (map (\<lambda>h. MustCreate (suite_link user h [] epoch)) hs @ cs) (raced user gs) =
    run_checks memory_links cs (raced user (gs @ hs))"
proof (induction hs arbitrary: gs)
  case (Cons h hs)
  have "memory_create (suite_link user h [] epoch) (raced user gs) = (Inr (), raced user (gs @ [h]))"
    using raced_create [of user h gs] by (simp add: memory_create_def)
  with Cons show ?case by (simp add: memory_links_def)
qed simp

lemma dead_rows: "\<forall>r \<in> set rows. mr_consumed_at r \<noteq> 0 \<Longrightarrow> winners memory_links hs now rows = (0, rows)"
proof (induction hs)
  case (Cons h hs)
  have "memory_consume h now rows = (Inl (Sentinel ErrNotFound), rows)"
    using Cons.prems by (intro memory_consumes_none) (auto simp: live_link_def stored_of_def)
  with Cons show ?case by (simp add: memory_links_def)
qed simp

lemma winners_raced:
  assumes "now \<noteq> 0" and "now < epoch + link_ttl" and "hs \<noteq> []"
  shows "distinct ks \<Longrightarrow> fst (winners memory_links ks now (raced user hs)) = (if last hs \<in> set ks then 1 else 0)"
proof (induction ks)
  case (Cons k ks)
  obtain spent h where hs: "hs = spent @ [h]" using assms(3) by (cases hs rule: rev_cases) auto
  let ?old = "map (\<lambda>h. \<lparr>mr_link = suite_link user h [] epoch, mr_consumed_at = epoch\<rparr>) spent"
  have skip: "memory_consume k now (?old @ rows) = (case memory_consume k now rows of (r, rows') \<Rightarrow> (r, ?old @ rows'))" for rows
    by (induction spent) (auto split: prod.splits)
  show ?case
  proof (cases "k = h")
    case True
    then have "memory_consume k now (raced user hs) =
        (Inr user, ?old @ [\<lparr>mr_link = suite_link user h [] epoch, mr_consumed_at = now\<rparr>])"
      using assms(2) skip by (simp add: hs raced_def suite_link_def)
    moreover have "winners memory_links ks now (?old @ [\<lparr>mr_link = suite_link user h [] epoch, mr_consumed_at = now\<rparr>]) =
        (0, ?old @ [\<lparr>mr_link = suite_link user h [] epoch, mr_consumed_at = now\<rparr>])"
      using assms(1) by (intro dead_rows) auto
    ultimately show ?thesis using True by (simp add: memory_links_def hs)
  next
    case False
    then have "memory_consume k now (raced user hs) = (Inl (Sentinel ErrNotFound), raced user hs)"
      using skip by (simp add: hs raced_def suite_link_def)
    with False Cons show ?thesis by (auto simp: memory_links_def hs split: prod.splits)
  qed
qed simp


lemma mset_race: "mset order = mset race_hashes \<Longrightarrow> order \<noteq> [] \<and> last order \<in> set race_hashes"
  by (metis last_in_set mset_zero_iff race_hashes_def list.distinct(1) set_mset_mset mset.simps(1))

lemma memory_passes_two:
  assumes "u \<noteq> 0" and "v \<noteq> 0" and "u \<noteq> v"
  shows "run_checks memory_links (test_supersession u v) [] \<noteq> None"
    "run_checks memory_links (test_counts u v) [] \<noteq> None"
    "run_checks memory_links (test_sweep u v) [] \<noteq> None"
proof -
  note ev = memory_links_def memory_create_def suite_link_def link_ttl_def duration_units epoch_def
  show "run_checks memory_links (test_supersession u v) [] \<noteq> None"
    using assms(3) by (simp add: test_supersession_def ev)
  show "run_checks memory_links (test_counts u v) [] \<noteq> None"
    using assms(1-3) by (simp add: test_counts_def memory_count_since_def link_key_of_def ev)
  show "run_checks memory_links (test_sweep u v) [] \<noteq> None"
    using assms(1-3) by (simp add: test_sweep_def memory_count_since_def memory_delete_expired_def link_key_of_def ev)
qed

lemma memory_passes_one:
  assumes "mset order = mset race_hashes"
  shows "run_checks memory_links (test_single_use u) [] \<noteq> None"
    "run_checks memory_links (test_uniform_failure u) [] \<noteq> None"
    "run_checks memory_links (test_expiry u) [] \<noteq> None"
    "run_checks memory_links (test_concurrent_consume u) [] \<noteq> None"
    "run_checks memory_links (test_concurrent_create order u) [] \<noteq> None"
proof -
  note ev = memory_links_def memory_create_def suite_link_def link_ttl_def duration_units epoch_def
  show "run_checks memory_links (test_single_use u) [] \<noteq> None" by (simp add: test_single_use_def ev)
  show "run_checks memory_links (test_uniform_failure u) [] \<noteq> None" by (simp add: test_uniform_failure_def ev)
  show "run_checks memory_links (test_expiry u) [] \<noteq> None" by (simp add: test_expiry_def ev)
  have raced1: "run_check memory_links (MustCreate (suite_link u ''race'' [] epoch)) [] = (True, raced u [''race''])"
    by (simp add: memory_links_def memory_create_def raced_def)
  have "winners memory_links (replicate 16 ''race'') (epoch + minute) (raced u [''race'']) =
      (1, [\<lparr>mr_link = suite_link u ''race'' [] epoch, mr_consumed_at = epoch + minute\<rparr>])"
  proof -
    have "replicate 16 ''race'' = ''race'' # replicate 15 ''race''" by (simp add: numeral_eq_Suc)
    moreover have "memory_consume ''race'' (epoch + minute) (raced u [''race'']) =
        (Inr u, [\<lparr>mr_link = suite_link u ''race'' [] epoch, mr_consumed_at = epoch + minute\<rparr>])"
      by (simp add: raced_def suite_link_def link_ttl_def duration_units)
    moreover have "winners memory_links (replicate 15 ''race'') (epoch + minute)
        [\<lparr>mr_link = suite_link u ''race'' [] epoch, mr_consumed_at = epoch + minute\<rparr>] =
        (0, [\<lparr>mr_link = suite_link u ''race'' [] epoch, mr_consumed_at = epoch + minute\<rparr>])"
      by (rule dead_rows) (simp add: duration_units epoch_def)
    ultimately show ?thesis by (simp add: memory_links_def)
  qed
  then show "run_checks memory_links (test_concurrent_consume u) [] \<noteq> None"
    using raced1 by (simp add: test_concurrent_consume_def)
  have "fst (winners memory_links race_hashes (epoch + minute) (raced u order)) = 1"
    using mset_race [OF assms]
    by (subst winners_raced) (simp_all add: race_hashes_def duration_units epoch_def link_ttl_def)
  then show "run_checks memory_links (test_concurrent_create order u) [] \<noteq> None"
    using run_creates [of u order "[WantOneWinner race_hashes (epoch + minute)]" "[]"] mset_race [OF assms]
    by (cases "winners memory_links race_hashes (epoch + minute) (raced u order)")
       (simp add: test_concurrent_create_def raced_def [of u "[]"])
qed


section \<open>What the tests rely on\<close>

text \<open>
  A store that follows the reference store as long as nothing fails: \<open>sim\<close> relates its states to
  those of the memory, \<open>ready n us\<close> says that \<open>newUser\<close> was called \<open>n\<close> times and gave \<open>us\<close>.
\<close>

definition hashes :: "link_memory \<Rightarrow> string set" where
  "hashes rows = (\<lambda>r. ml_token_hash (mr_link r)) ` set rows"

locale steady_links =
  fixes st :: "'s magic_link_store_ops"
    and new_user :: "nat \<Rightarrow> 's \<Rightarrow> int result \<times> 's"
    and sim :: "'s \<Rightarrow> link_memory \<Rightarrow> bool"
    and ready :: "nat \<Rightarrow> int set \<Rightarrow> 's \<Rightarrow> bool"
  assumes user_created: "sim s rows \<Longrightarrow> ready n us s \<Longrightarrow>
      \<exists>u s'. new_user n s = (Inr u, s') \<and> sim s' rows \<and> ready (Suc n) (insert u us) s' \<and> u \<notin> us \<and> u \<noteq> 0"
    and created: "sim s rows \<Longrightarrow> ready n us s \<Longrightarrow> ml_user l \<in> us \<Longrightarrow> ml_token_hash l \<notin> hashes rows \<Longrightarrow>
      ml_created_at l \<noteq> 0 \<Longrightarrow>
      \<exists>s'. mk_create st l s = (Inr (), s') \<and> sim s' (snd (memory_create l rows)) \<and> ready n us s'"
    and consumed: "sim s rows \<Longrightarrow> ready n us s \<Longrightarrow> now \<noteq> 0 \<Longrightarrow>
      \<exists>s'. mk_consume st h now s = (fst (memory_consume h now rows), s') \<and> sim s' (snd (memory_consume h now rows)) \<and>
        ready n us s'"
    and counted: "sim s rows \<Longrightarrow> ready n us s \<Longrightarrow>
      \<exists>s'. mk_count_since st k since s = (fst (memory_count_since k since rows), s') \<and> sim s' rows \<and> ready n us s'"
    and swept: "sim s rows \<Longrightarrow> ready n us s \<Longrightarrow>
      \<exists>s'. mk_delete_expired st cutoff s = (fst (memory_delete_expired cutoff rows), s') \<and>
        sim s' (snd (memory_delete_expired cutoff rows)) \<and> ready n us s'"

text \<open>A script that names known users, fresh hashes and times of the clock.\<close>

fun script_ok :: "int set \<Rightarrow> string set \<Rightarrow> link_check list \<Rightarrow> bool" where
  "script_ok us hs [] = True"
| "script_ok us hs (MustCreate l # cs) = (ml_user l \<in> us \<and> ml_token_hash l \<notin> hs \<and> ml_created_at l \<noteq> 0 \<and>
     script_ok us (insert (ml_token_hash l) hs) cs)"
| "script_ok us hs (MustSpend want h now # cs) = (now \<noteq> 0 \<and> script_ok us hs cs)"
| "script_ok us hs (WantDead h now # cs) = (now \<noteq> 0 \<and> script_ok us hs cs)"
| "script_ok us hs (WantOneWinner ks now # cs) = (now \<noteq> 0 \<and> script_ok us hs cs)"
| "script_ok us hs (c # cs) = script_ok us hs cs"

lemma memory_consume_hashes: "hashes (snd (memory_consume h now rows)) = hashes rows"
  by (induction rows) (auto simp: hashes_def split: prod.splits)

lemma memory_create_hashes: "hashes (snd (memory_create l rows)) = insert (ml_token_hash l) (hashes rows)"
proof -
  have "(\<lambda>r. ml_token_hash (mr_link (if p r then r\<lparr>mr_consumed_at := at\<rparr> else r))) ` set rows = hashes rows" for p at
    by (auto simp: hashes_def image_iff)
  then show ?thesis by (simp add: memory_create_def hashes_def image_image del: if_image_distrib)
qed

lemma memory_sweep_hashes: "hashes (snd (memory_delete_expired cutoff rows)) \<subseteq> hashes rows"
  by (auto simp: memory_delete_expired_def hashes_def Let_def)

lemma memory_count_state [simp]: "snd (memory_count_since k since rows) = rows"
  by (simp add: memory_count_since_def)

lemma memory_ops [simp]:
  "mk_create memory_links = memory_create" "mk_consume memory_links = memory_consume"
  "mk_count_since memory_links = memory_count_since" "mk_delete_expired memory_links = memory_delete_expired"
  by (simp_all add: memory_links_def)

lemma winners_hashes: "hashes (snd (winners memory_links ks now rows)) = hashes rows"
proof (induction ks arbitrary: rows)
  case (Cons k ks)
  obtain r rows1 where "memory_consume k now rows = (r, rows1)" by (cases "memory_consume k now rows")
  with Cons [of rows1] memory_consume_hashes [of k now rows] show ?case
    by (cases "winners memory_links ks now rows1") simp
qed simp

context steady_links begin

lemma winners_sim:
  assumes "now \<noteq> 0"
  shows "sim s rows \<Longrightarrow> ready n us s \<Longrightarrow>
    \<exists>s'. winners st ks now s = (fst (winners memory_links ks now rows), s') \<and>
      sim s' (snd (winners memory_links ks now rows)) \<and> ready n us s'"
proof (induction ks arbitrary: s rows)
  case (Cons k ks)
  obtain r rows1 where r: "memory_consume k now rows = (r, rows1)" by (cases "memory_consume k now rows")
  obtain s1 where s1: "mk_consume st k now s = (r, s1)" "sim s1 rows1" "ready n us s1"
    using consumed [OF Cons.prems assms, of k] r by auto
  obtain s2 where "winners st ks now s1 = (fst (winners memory_links ks now rows1), s2)"
      "sim s2 (snd (winners memory_links ks now rows1))" "ready n us s2"
    using Cons.IH [OF s1(2,3)] by blast
  with r s1(1) show ?case by (cases "winners memory_links ks now rows1") auto
qed simp

lemma check_sim:
  assumes "sim s rows" and "ready n us s" and "script_ok us hs (c # cs)" and "hashes rows \<subseteq> hs"
    and "run_check memory_links c rows = (True, rows')"
  shows "\<exists>s' hs'. run_check st c s = (True, s') \<and> sim s' rows' \<and> ready n us s' \<and> script_ok us hs' cs \<and> hashes rows' \<subseteq> hs'"
proof (cases c)
  case (MustCreate l)
  then obtain s' where "mk_create st l s = (Inr (), s')" "sim s' rows'" "ready n us s'"
    using created [OF assms(1,2), of l] assms(3-5) by (auto split: prod.splits)
  moreover have "hashes rows' \<subseteq> insert (ml_token_hash l) hs"
    using MustCreate assms(4,5) memory_create_hashes [of l rows] by (auto split: prod.splits)
  ultimately show ?thesis using MustCreate assms(3) by auto
next
  case (MustSpend want h now)
  then obtain s' where "mk_consume st h now s = (fst (memory_consume h now rows), s')"
      "sim s' (snd (memory_consume h now rows))" "ready n us s'"
    using consumed [OF assms(1,2), of now h] assms(3) by auto
  with MustSpend assms(3-5) memory_consume_hashes [of h now rows] show ?thesis
    by (auto split: prod.splits intro!: exI [of _ hs])
next
  case (WantDead h now)
  then obtain s' where "mk_consume st h now s = (fst (memory_consume h now rows), s')"
      "sim s' (snd (memory_consume h now rows))" "ready n us s'"
    using consumed [OF assms(1,2), of now h] assms(3) by auto
  with WantDead assms(3-5) memory_consume_hashes [of h now rows] show ?thesis
    by (auto split: prod.splits intro!: exI [of _ hs])
next
  case (WantCount k since want)
  with counted [OF assms(1,2), of k since] assms(3-5) memory_count_state [of k since rows] show ?thesis
    by (auto split: prod.splits intro!: exI [of _ hs] simp del: memory_count_state)
next
  case (WantSwept cutoff want)
  with swept [OF assms(1,2), of cutoff] assms(3-5) memory_sweep_hashes [of cutoff rows] show ?thesis
    by (auto split: prod.splits intro!: exI [of _ hs])
next
  case (WantUncounted k since)
  with counted [OF assms(1,2), of k since] assms(3-5) memory_count_state [of k since rows] show ?thesis
    by (auto split: prod.splits intro!: exI [of _ hs] simp del: memory_count_state)
next
  case (WantOneWinner ks now)
  then obtain s' where "winners st ks now s = (fst (winners memory_links ks now rows), s')"
      "sim s' (snd (winners memory_links ks now rows))" "ready n us s'"
    using winners_sim [OF _ assms(1,2), of now ks] assms(3) by auto
  with WantOneWinner assms(3-5) winners_hashes [of ks now rows] show ?thesis
    by (auto split: prod.splits intro!: exI [of _ hs])
qed

lemma checks_sim:
  "sim s rows \<Longrightarrow> ready n us s \<Longrightarrow> script_ok us hs cs \<Longrightarrow> hashes rows \<subseteq> hs \<Longrightarrow>
    run_checks memory_links cs rows \<noteq> None \<Longrightarrow> run_checks st cs s \<noteq> None"
proof (induction cs arbitrary: s rows hs)
  case (Cons c cs)
  obtain rows' where m: "run_check memory_links c rows = (True, rows')"
    using Cons.prems(5) by (cases "run_check memory_links c rows") (auto split: if_splits)
  obtain s' hs' where s': "run_check st c s = (True, s')" "sim s' rows'" "ready n us s'" "script_ok us hs' cs" "hashes rows' \<subseteq> hs'"
    using check_sim [OF Cons.prems(1-4) m] by blast
  have "run_checks memory_links cs rows' \<noteq> None" using Cons.prems(5) m by simp
  then have "run_checks st cs s' \<noteq> None" by (rule Cons.IH [OF s'(2-5)])
  with s'(1) show ?case by simp
qed simp

lemma one_user_passes:
  assumes "sim s0 []" and "ready 0 {} s0"
    and "\<And>u. u \<noteq> 0 \<Longrightarrow> script_ok {u} {} (t u) \<and> run_checks memory_links (t u) [] \<noteq> None"
  shows "run_test st new_user s0 (OneUser t)"
proof -
  obtain u s1 where "new_user 0 s0 = (Inr u, s1)" "sim s1 []" "ready (Suc 0) {u} s1" "u \<noteq> 0"
    using user_created [OF assms(1,2)] by auto
  then show ?thesis using checks_sim [of s1 "[]" "Suc 0" "{u}" "{}" "t u"] assms(3) by (simp add: hashes_def)
qed

lemma two_users_pass:
  assumes "sim s0 []" and "ready 0 {} s0"
    and "\<And>u v. u \<noteq> 0 \<Longrightarrow> v \<noteq> 0 \<Longrightarrow> u \<noteq> v \<Longrightarrow> script_ok {v, u} {} (t u v) \<and> run_checks memory_links (t u v) [] \<noteq> None"
  shows "run_test st new_user s0 (TwoUsers t)"
proof -
  obtain u s1 where u: "new_user 0 s0 = (Inr u, s1)" "sim s1 []" "ready (Suc 0) {u} s1" "u \<noteq> 0"
    using user_created [OF assms(1,2)] by auto
  obtain v s2 where v: "new_user 1 s1 = (Inr v, s2)" "sim s2 []" "ready 2 {v, u} s2" "v \<noteq> 0" "u \<noteq> v"
    using user_created [OF u(2,3)] by (auto simp: numeral_2_eq_2)
  from u v show ?thesis using checks_sim [of s2 "[]" 2 "{v, u}" "{}" "t u v"] assms(3) by (simp add: hashes_def)
qed

end


section \<open>The stores that pass\<close>

text \<open>\<open>TestMemoryConforms\<close> counts its users.\<close>

definition counting_user :: "nat \<Rightarrow> link_memory \<Rightarrow> int result \<times> link_memory" where
  "counting_user n rows = (Inr (int n + 1), rows)"

interpretation mem_suite: steady_links memory_links counting_user "(=)" "\<lambda>n us rows. us = {1..int n}"
proof (unfold_locales, goal_cases)
  case (1 s rows n us)
  then show ?case by (auto simp: counting_user_def)
qed (auto simp: memory_create_def memory_count_since_def memory_delete_expired_def Let_def prod_eq_iff)

text \<open>On \<open>porte/pg\<close> a user is a row with an address of its own.\<close>

definition mail_user :: "(nat \<Rightarrow> string) \<Rightarrow> nat \<Rightarrow> db \<Rightarrow> int result \<times> db" where
  "mail_user emails n = create_from_password (emails n) []"

definition pg_ready :: "(nat \<Rightarrow> string) \<Rightarrow> nat \<Rightarrow> int set \<Rightarrow> db \<Rightarrow> bool" where
  "pg_ready emails n us d = (inj emails \<and> faults d = [] \<and> us \<subseteq> u_id ` set (users d) \<and>
     (\<forall>m \<ge> n. emails m \<notin> u_email ` set (users d)))"

lemma pg_user_created:
  assumes "agree d rows" and "pg_ready emails n us d"
  shows "\<exists>u d'. mail_user emails n d = (Inr u, d') \<and> agree d' rows \<and> pg_ready emails (Suc n) (insert u us) d' \<and> u \<notin> us \<and> u \<noteq> 0"
proof -
  let ?u = "user_seq d + 1"
  let ?d = "snd (mail_user emails n d)"
  have ok: "db_ok d" using assms(1) by (simp add: agree_def)
  have "\<not> has_row (\<lambda>u. u_email u = emails n) (users d)" using assms(2) by (auto simp: pg_ready_def fresh_image)
  then have d': "mail_user emails n d = (Inr ?u, ?d)" "users ?d = users d @ [last (users ?d)]"
      "u_id (last (users ?d)) = ?u" "u_email (last (users ?d)) = emails n" "links ?d = links d" "faults ?d = []"
    using assms(2) by (simp_all add: mail_user_def create_from_password_def pg_ready_def wrapping_def Let_def)
  have "db_ok ?d" using keeps_okD [OF keeps_create_from_password ok] by (simp add: mail_user_def)
  then have "agree ?d rows" using assms(1) d'(5) by (simp add: agree_def link_table_def)
  moreover have "emails m \<noteq> emails n" if "Suc n \<le> m" for m using assms(2) that inj_eq [of emails m n] by (simp add: pg_ready_def)
  then have "pg_ready emails (Suc n) (insert ?u us) ?d"
    using assms(2) d'(3,4,6) unfolding pg_ready_def by (subst (1 2) d'(2)) auto
  moreover have "?u \<notin> us" "?u \<noteq> 0" using ok assms(2) by (force simp: db_ok_defs pg_ready_def)+
  ultimately show ?thesis using d'(1) by blast
qed

lemma pg_link_created:
  assumes "faults d = []" and "ml_user l \<in> u_id ` set (users d)" and "ml_token_hash l \<notin> l_hash ` set (links d)"
  shows "\<exists>rows. link_create l d = (Inr (), d\<lparr>links := rows\<rparr>)"
proof -
  have "ml_token_hash l \<notin> l_hash ` set (update_where p (\<lambda>r. r\<lparr>l_consumed_at := x\<rparr>) (links d))" for p x
    using assms(3) by (auto simp: table_simps)
  then show ?thesis
    using assms(1,2)
    by (intro exI [of _ "update_where (\<lambda>r. l_user r = ml_user l \<and> l_consumed_at r = None)
          (\<lambda>r. r\<lparr>l_consumed_at := Some (ml_created_at l)\<rparr>) (links d) @ [link_row_of l]"])
       (simp add: link_create_def with_tx_def and_then_def lock_user_def lock_advisory_def wrapping_def insert_link_def
        link_row_of_def fresh_image user_exists_iff)
qed

lemma agree_hashes:
  assumes "agree d rows"
  shows "hashes rows = l_hash ` set (links d)"
proof -
  have "(\<lambda>l. ml_token_hash (fst l)) ` set (map scan_link (links d)) = (\<lambda>l. ml_token_hash (fst l)) ` set (map stored_of rows)"
    using assms by (simp add: agree_def link_table_def)
  then show ?thesis by (simp add: hashes_def image_image stored_of_def)
qed

lemma memory_consume_Inl: "memory_consume h now rows = (Inl e, rows') \<Longrightarrow> e = Sentinel ErrNotFound"
  by (induction rows arbitrary: rows') (auto split: if_splits prod.splits)

text \<open>A call that is answered leaves the two stores in agreement.\<close>

lemma pg_consumed:
  assumes "agree d rows" and "pg_ready emails n us d" and "now \<noteq> 0"
  shows "\<exists>d'. mk_consume pg_links h now d = (fst (memory_consume h now rows), d') \<and>
    agree d' (snd (memory_consume h now rows)) \<and> pg_ready emails n us d'"
proof -
  obtain r d' where r: "mk_consume pg_links h now d = (r, d')" by (cases "mk_consume pg_links h now d")
  obtain q rows' where q: "memory_consume h now rows = (q, rows')" by (cases "memory_consume h now rows")
  have d': "r = Inl (Sentinel ErrNotFound) \<or> (\<exists>u. r = Inr u)" "users d' = users d" "faults d' = []"
    using r assms(2) by (auto simp: pg_links_def link_consume_def pg_ready_def split: option.splits)
  obtain a where a: "ask_links pg_links (ConsumeLink h now) d = (a, d')" "a \<noteq> Broken"
      "r = Inl (Sentinel ErrNotFound) \<longleftrightarrow> a = Unknown" "\<And>u. r = Inr u \<longleftrightarrow> a = Spent u"
    using r d'(1) by (auto split: sum.splits)
  from agree_step [OF assms(1) _ a(1)] assms(3) a(2) q
  have "agree d' rows'" "fst (ask_links memory_links (ConsumeLink h now) rows) = a" by simp_all
  moreover have "q = r"
    using calculation(2) q d'(1) a(3) a(4) [THEN iffD2] memory_consume_Inl [of h now rows]
    by (cases q) (auto split: if_splits)
  ultimately show ?thesis using r q assms(2) d'(2,3) by (simp add: pg_ready_def)
qed

lemma pg_created:
  assumes "agree d rows" and "pg_ready emails n us d" and "ml_user l \<in> us" and "ml_token_hash l \<notin> hashes rows"
    and "ml_created_at l \<noteq> 0"
  shows "\<exists>d'. mk_create pg_links l d = (Inr (), d') \<and> agree d' (snd (memory_create l rows)) \<and> pg_ready emails n us d'"
proof -
  obtain ls where d': "link_create l d = (Inr (), d\<lparr>links := ls\<rparr>)"
    using pg_link_created [of d l] assms(2-4) agree_hashes [OF assms(1)] unfolding pg_ready_def by blast
  then have "ask_links pg_links (CreateLink l) d = (Stored, d\<lparr>links := ls\<rparr>)" by (simp add: pg_links_def)
  from agree_step [OF assms(1) _ this] assms(5) d' assms(2) show ?thesis
    by (simp add: pg_links_def pg_ready_def split: prod.splits)
qed

lemma pg_counted:
  assumes "agree d rows" and "pg_ready emails n us d"
  shows "\<exists>d'. mk_count_since pg_links k since d = (fst (memory_count_since k since rows), d') \<and> agree d' rows \<and> pg_ready emails n us d'"
proof -
  obtain m where m: "mk_count_since pg_links k since d = (Inr m, d)"
    using assms(2) that unfolding pg_ready_def
    by (cases "k_user k \<noteq> 0"; cases "k_ip k \<noteq> []") (simp_all add: pg_links_def link_count_since_def wrapping_def)
  from agree_step [OF assms(1), of "CountLinks k since"] m memory_counts [of k since rows] assms show ?thesis
    by (simp add: number_answer_def split: prod.splits)
qed

lemma pg_swept:
  assumes "agree d rows" and "pg_ready emails n us d"
  shows "\<exists>d'. mk_delete_expired pg_links cutoff d = (fst (memory_delete_expired cutoff rows), d') \<and>
    agree d' (snd (memory_delete_expired cutoff rows)) \<and> pg_ready emails n us d'"
proof -
  obtain m ls where m: "mk_delete_expired pg_links cutoff d = (Inr m, d\<lparr>links := ls\<rparr>)"
    using assms(2) by (auto simp: pg_links_def link_delete_expired_def pg_ready_def wrapping_def)
  from agree_step [OF assms(1), of "DeleteLinks cutoff"] m assms show ?thesis
    by (simp add: number_answer_def memory_delete_expired_def pg_ready_def Let_def split: prod.splits)
qed

interpretation pg_suite: steady_links pg_links "mail_user emails" agree "pg_ready emails" for emails
  by unfold_locales (fact pg_user_created pg_created pg_consumed pg_counted pg_swept)+

text \<open>The scripts of the suite, in any order of the concurrent creates.\<close>

lemma creates_script_ok:
  "distinct hs \<Longrightarrow> hs' \<inter> set hs = {} \<Longrightarrow> u \<in> us \<Longrightarrow>
    script_ok us hs' (map (\<lambda>h. MustCreate (suite_link u h [] epoch)) hs @ [WantOneWinner ks (epoch + minute)])"
  by (induction hs arbitrary: hs') (auto simp: suite_link_def epoch_def duration_units)

lemma scripts_ok:
  assumes "mset order = mset race_hashes"
  shows "script_ok {u} {} (test_single_use u)" "script_ok {u} {} (test_uniform_failure u)" "script_ok {u} {} (test_expiry u)"
    "script_ok {v, u} {} (test_supersession u v)" "script_ok {u} {} (test_concurrent_consume u)"
    "script_ok {u} {} (test_concurrent_create order u)" "script_ok {v, u} {} (test_counts u v)" "script_ok {v, u} {} (test_sweep u v)"
proof -
  have "distinct race_hashes" by (simp add: race_hashes_def)
  then have "distinct order" using assms mset_eq_imp_distinct_iff by blast
  then show "script_ok {u} {} (test_concurrent_create order u)"
    unfolding test_concurrent_create_def by (intro creates_script_ok) simp_all
qed (simp_all add: test_single_use_def test_uniform_failure_def test_expiry_def test_supersession_def
    test_concurrent_consume_def test_counts_def test_sweep_def suite_link_def epoch_def link_ttl_def duration_units)

context steady_links begin

lemma suite_passes:
  assumes "sim s0 []" and "ready 0 {} s0" and "mset order = mset race_hashes"
  shows "link_conformance st new_user s0 order"
  using scripts_ok [OF assms(3)] memory_passes_one [OF assms(3)] memory_passes_two
  by (simp add: link_conformance_def link_tests_def one_user_passes [OF assms(1,2)] two_users_pass [OF assms(1,2)]
      del: run_test.simps)

end

text \<open>
  C34: both stores pass the suite. Whatever order the concurrent creates take effect in, the reference
  store passes, and so does \<open>porte/pg\<close> from every well-formed database without links in which the
  addresses of the test users are free and no statement fails.
\<close>

theorem link_suite_passes:
  assumes "mset order = mset race_hashes"
    and "db_ok d" and "links d = []" and "faults d = []" and "inj emails" and "\<And>n. emails n \<notin> u_email ` set (users d)"
  shows "link_conformance memory_links counting_user [] order \<and> link_conformance pg_links (mail_user emails) d order"
proof
  show "link_conformance memory_links counting_user [] order"
    by (rule mem_suite.suite_passes) (simp_all add: assms(1))
  show "link_conformance pg_links (mail_user emails) d order"
    by (rule pg_suite.suite_passes) (use assms in \<open>simp_all add: agree_def link_table_def pg_ready_def\<close>)
qed

theorem link_suite_passes_witness:
  "link_conformance memory_links counting_user [] (rev race_hashes) \<and>
   link_conformance pg_links (mail_user (\<lambda>n. replicate n CHR ''a'')) empty_db (rev race_hashes)"
  by (rule link_suite_passes) (simp_all add: inj_def empty_db_def db_ok_defs)

end
