(* ===== verification/Avatarfs.thy ===== *)
theory Avatarfs
  imports Query
begin

text \<open>
  The avatar files of \<open>avatarfs/avatarfs.go\<close>: the key and extension rules, \<open>Put\<close> with its temp file
  and rename, \<open>Remove\<close> and the handler. The directory is a map from names to what they name; a
  \<open>Put\<close> gives the directories another process could see on the way. \<open>url.Parse\<close> is the parameter of
  the other theories; \<open>path.Clean\<close> of a rooted path and the check of \<open>http.ServeFile\<close> are written out.
\<close>

section \<open>path.Clean of a rooted path\<close>

text \<open>The elements so far, the last one first.\<close>

fun clean_elements :: "string list \<Rightarrow> string list \<Rightarrow> string list" where
  "clean_elements done [] = rev done"
| "clean_elements done (e # es) =
     (if e = [] \<or> e = ''.'' then clean_elements done es
      else if e = ''..'' then clean_elements (tl done) es
      else clean_elements (e # done) es)"

definition clean_path :: "string \<Rightarrow> string" where
  "clean_path p = ''/'' @ join_with ''/'' (clean_elements [] (split_on (CHR ''/'') p))"

section \<open>The store\<close>

definition extensions :: "(string \<times> string) list" where
  "extensions = [(''image/png'', ''png''), (''image/jpeg'', ''jpg''), (''image/gif'', ''gif''), (''image/webp'', ''webp'')]"

definition max_key_length :: nat where "max_key_length = 128"
definition avatar_cache_control :: string where "avatar_cache_control = ''public, max-age=300''"

record avatar_dir =
  av_dir :: string
  av_prefix :: string

definition new_avatar_store :: "string \<Rightarrow> string \<Rightarrow> error option \<Rightarrow> avatar_dir result" where
  "new_avatar_store dir url_prefix mkdir_error =
     (let prefix = ''/'' @ trim_slashes (trim_space url_prefix) in
      if trim_space dir = [] then Inl (Plain ''porte/avatarfs: the avatar directory is empty'')
      else if prefix = ''/'' then Inl (Plain ''porte/avatarfs: the URL prefix is empty'')
      else case mkdir_error of
        Some e \<Rightarrow> Inl (Wrap (''porte/avatarfs: creating '' @ dir) e)
      | None \<Rightarrow> Inr \<lparr>av_dir = dir, av_prefix = prefix\<rparr>)"

section \<open>Names\<close>

definition key_char :: "char \<Rightarrow> bool" where
  "key_char c = (let n = (of_char c :: nat) in (97 \<le> n \<and> n \<le> 122) \<or> (65 \<le> n \<and> n \<le> 90) \<or> (48 \<le> n \<and> n \<le> 57) \<or>
     c = CHR ''_'' \<or> c = CHR ''-'')"

definition validate_key :: "string \<Rightarrow> unit result" where
  "validate_key k =
     (if k = [] then Inl (Plain ''porte/avatarfs: the avatar key is empty'')
      else if max_key_length < length k then Inl (Plain ''porte/avatarfs: the avatar key is longer than 128 characters'')
      else if list_all key_char k then Inr ()
      else Inl (Plain ''porte/avatarfs: the avatar key is not a plain token''))"

definition known_extension :: "string \<Rightarrow> bool" where
  "known_extension ext = list_ex (\<lambda>known. snd known = ext) extensions"

definition avatar_filename :: "string \<Rightarrow> string \<Rightarrow> string result" where
  "avatar_filename key content_type = (case validate_key key of
     Inl e \<Rightarrow> Inl e
   | Inr _ \<Rightarrow> (case map_of extensions (to_lower (trim_space (cut_before (CHR '';'') content_type))) of
       None \<Rightarrow> Inl (Plain ''porte/avatarfs: unsupported avatar content type'')
     | Some ext \<Rightarrow> Inr (key @ ''.'' @ ext)))"

definition avatar_name :: "net_url \<Rightarrow> avatar_dir \<Rightarrow> string \<Rightarrow> string result" where
  "avatar_name nu s raw = (case nu_parse nu raw of
     None \<Rightarrow> Inl (Plain ''porte/avatarfs: not a URL'')
   | Some parsed \<Rightarrow>
       let p = url_path parsed; cleaned = clean_path (''/'' @ (if has_prefix p ''/'' then drop 1 p else p)); under = av_prefix s @ ''/'' in
       if \<not> has_prefix cleaned under then Inl (Plain ''porte/avatarfs: not under the prefix'')
       else let rest = drop (length under) cleaned; base = cut_before (CHR ''.'') rest; ext = drop (Suc (length base)) rest in
         if CHR ''.'' \<notin> set rest then Inl (Plain ''porte/avatarfs: no extension'')
         else case validate_key base of
           Inl e \<Rightarrow> Inl e
         | Inr _ \<Rightarrow> if \<not> known_extension ext then Inl (Plain ''porte/avatarfs: not an avatar extension'')
             else Inr (base @ ''.'' @ ext))"

section \<open>Put, Remove and the handler\<close>

text \<open>A name is a regular file, a directory (empty or not), or something else.\<close>

datatype node = File string | Folder bool | Special

type_synonym folder = "string \<Rightarrow> node option"

datatype put_call = CreateTemp | WriteTemp | ChmodTemp | CloseTemp | RenameTemp | DropTemp

text \<open>
  What the system makes of one \<open>Put\<close>: the calls that fail, the part of the temp file's name that
  \<open>CreateTemp\<close> draws, and how much of the data is there after each write but the last.
\<close>

record put_world =
  pw_fails :: "put_call \<Rightarrow> bool"
  pw_drawn :: string
  pw_chunks :: "nat list"

definition io_error :: error where "io_error = Plain ''input/output''"

definition temp_name :: "string \<Rightarrow> put_world \<Rightarrow> string" where
  "temp_name name w = ''.'' @ name @ ''.'' @ pw_drawn w"

definition put_avatar :: "avatar_dir \<Rightarrow> put_world \<Rightarrow> string \<Rightarrow> string \<Rightarrow> string \<Rightarrow> folder \<Rightarrow> string result \<times> folder list" where
  "put_avatar s w key data content_type d = (case avatar_filename key content_type of
     Inl e \<Rightarrow> (Inl e, [d])
   | Inr name \<Rightarrow>
       let temp = temp_name name w;
           started = map (\<lambda>n. d(temp \<mapsto> File (take n data))) (0 # pw_chunks w);
           written = d(temp \<mapsto> File data);
           drop_temp = (\<lambda>f. if pw_fails w DropTemp then f else f(temp := None)) in
       if pw_fails w CreateTemp then (Inl (Wrap ''porte/avatarfs: creating a temp file'' io_error), [d])
       else if pw_fails w WriteTemp
       then (Inl (Wrap ''porte/avatarfs: writing'' io_error), d # started @ [drop_temp (last started)])
       else if pw_fails w ChmodTemp
       then (Inl (Wrap ''porte/avatarfs: setting the mode'' io_error), d # started @ [written, drop_temp written])
       else if pw_fails w CloseTemp
       then (Inl (Wrap ''porte/avatarfs: closing'' io_error), d # started @ [written, drop_temp written])
       else if pw_fails w RenameTemp \<or> (\<exists>empty. d name = Some (Folder empty))
       then (Inl (Wrap ''porte/avatarfs: publishing'' io_error), d # started @ [written, drop_temp written])
       else (Inr (av_prefix s @ ''/'' @ name), d # started @ [written, d(temp := None, name \<mapsto> File data)]))"

definition remove_avatar :: "net_url \<Rightarrow> avatar_dir \<Rightarrow> bool \<Rightarrow> string \<Rightarrow> folder \<Rightarrow> unit result \<times> folder" where
  "remove_avatar nu s fails url d = (case avatar_name nu s url of
     Inl e \<Rightarrow> (Inl e, d)
   | Inr name \<Rightarrow> (case d name of
       None \<Rightarrow> (Inr (), d)
     | Some f \<Rightarrow>
         if fails \<or> f = Folder False then (Inl (Wrap (''porte/avatarfs: removing '' @ name) io_error), d)
         else (Inr (), d(name := None))))"

text \<open>
  The handler. \<open>ServeFile\<close> refuses a request path with a \<open>..\<close> element, a backslash counting as a
  slash, whatever file it is told to serve.
\<close>

definition contains_dot_dot :: "string \<Rightarrow> bool" where
  "contains_dot_dot p = List.member (split_on (CHR ''/'') (map (\<lambda>c. if c = CHR 0x5C then CHR ''/'' else c) p)) ''..''"

datatype served = MethodNotAllowed | NotFoundPage | InvalidPath | Bytes string string

definition serve_avatar :: "net_url \<Rightarrow> avatar_dir \<Rightarrow> string \<Rightarrow> string \<Rightarrow> folder \<Rightarrow> served" where
  "serve_avatar nu s verb path d =
     (if verb \<noteq> ''GET'' \<and> verb \<noteq> ''HEAD'' then MethodNotAllowed
      else case avatar_name nu s path of
        Inl e \<Rightarrow> NotFoundPage
      | Inr name \<Rightarrow> (case d name of
          Some (File bytes) \<Rightarrow> if contains_dot_dot path then InvalidPath else Bytes avatar_cache_control bytes
        | _ \<Rightarrow> NotFoundPage))"


section \<open>Names that Put could have written\<close>

definition plain_name :: "string \<Rightarrow> bool" where
  "plain_name n = (\<exists>k e. n = k @ ''.'' @ e \<and> validate_key k = Inr () \<and> known_extension e)"

lemma validate_key_Inr: "validate_key k = Inr () \<longleftrightarrow> k \<noteq> [] \<and> length k \<le> max_key_length \<and> (\<forall>c \<in> set k. key_char c)"
  by (auto simp: validate_key_def list_all_iff)

lemma key_char_plain: "key_char c \<Longrightarrow> c \<noteq> CHR ''.'' \<and> c \<noteq> CHR ''/'' \<and> c \<noteq> CHR 0x5C \<and> unreserved c"
  by (auto simp: key_char_def unreserved_def Let_def)

lemma unreserved_dot: "unreserved (CHR ''.'')" "\<not> unreserved (CHR 0x5C)"
  by code_simp+

lemma extension_known: "map_of extensions t = Some e \<Longrightarrow> known_extension e"
  by (auto simp: extensions_def known_extension_def split: if_splits)

lemma extension_plain: "known_extension e \<Longrightarrow> e \<noteq> [] \<and> (\<forall>c \<in> set e. key_char c)"
  by (auto simp: extensions_def known_extension_def key_char_def)

lemma filename_plain: "avatar_filename key t = Inr n \<Longrightarrow> plain_name n"
  by (auto simp: avatar_filename_def plain_name_def dest: extension_known split: sum.splits option.splits)

lemma cut_before_dot:
  assumes "CHR ''.'' \<in> set s"
  shows "s = cut_before (CHR ''.'') s @ ''.'' @ drop (Suc (length (cut_before (CHR ''.'') s))) s"
proof -
  let ?p = "\<lambda>x. x \<noteq> CHR ''.''"
  have ne: "dropWhile ?p s \<noteq> []" using assms by (simp add: dropWhile_eq_Nil_conv)
  then have "hd (dropWhile ?p s) = CHR ''.''" using hd_dropWhile [OF ne] by simp
  with ne have "dropWhile ?p s = CHR ''.'' # tl (dropWhile ?p s)" by (cases "dropWhile ?p s") simp_all
  moreover have "tl (dropWhile ?p s) = drop (Suc (length (takeWhile ?p s))) s"
    by (simp add: dropWhile_eq_drop drop_Suc tl_drop)
  ultimately show ?thesis by (simp add: cut_before_def) (metis takeWhile_dropWhile_id)
qed

lemma name_plain: "avatar_name nu s raw = Inr n \<Longrightarrow> plain_name n"
  by (auto simp: avatar_name_def Let_def plain_name_def split: option.splits if_splits sum.splits)

lemma plain_name_chars:
  assumes "plain_name n"
  shows "n \<noteq> []" "hd n \<noteq> CHR ''.''" "c \<in> set n \<Longrightarrow> c = CHR ''.'' \<or> key_char c" "CHR ''/'' \<notin> set n" "n \<noteq> ''..''"
proof -
  obtain k e where n: "n = k @ ''.'' @ e" "k \<noteq> []" "\<forall>c \<in> set k. key_char c" "\<forall>c \<in> set e. key_char c"
    using assms by (auto simp: plain_name_def validate_key_Inr dest: extension_plain)
  then show "n \<noteq> []" by simp
  have "hd n \<in> set k" using n(1,2) by simp
  then show hd: "hd n \<noteq> CHR ''.''" using n(3) key_char_plain by blast
  then show "n \<noteq> ''..''" by auto
  show c: "c \<in> set n \<Longrightarrow> c = CHR ''.'' \<or> key_char c" for c using n by auto
  show "CHR ''/'' \<notin> set n" using c key_char_plain by blast
qed

lemma temp_not_plain: "\<not> plain_name (temp_name name w)"
  using plain_name_chars(2) [of "temp_name name w"] by (auto simp: temp_name_def)

section \<open>What a reader sees while an avatar is written\<close>

text \<open>A page is what the plain names are.\<close>

lemma serve_plain:
  assumes "\<And>n. plain_name n \<Longrightarrow> d n = d' n"
  shows "serve_avatar nu s verb path d = serve_avatar nu s verb path d'"
proof (cases "avatar_name nu s path")
  case (Inr n)
  with assms [OF name_plain [OF Inr]] show ?thesis by (simp add: serve_avatar_def)
qed (simp add: serve_avatar_def)

lemma put_states:
  assumes "put_avatar s w key data t d = (r, ds)" and "d' \<in> set ds"
  shows "(\<forall>n. plain_name n \<longrightarrow> d' n = d n) \<or> (\<exists>url. r = Inr url \<and> d' = last ds)"
proof (cases "avatar_filename key t")
  case (Inr name)
  have t: "n \<noteq> temp_name name w" if "plain_name n" for n using temp_not_plain [of name w] that by auto
  have l: "d' = last ds \<or> d' \<in> set (butlast ds)" using assms(2) by (cases ds rule: rev_cases) auto
  from assms Inr l show ?thesis
    by (auto simp: put_avatar_def Let_def last_map t split: if_splits)
qed (use assms in \<open>auto simp: put_avatar_def\<close>)


text \<open>
  C37: an avatar is replaced in one step. Whatever fails and wherever a write is when a request comes,
  the handler answers it as it did before the \<open>Put\<close> or as it does after; after a \<open>Put\<close> that returned
  an error, as before.
\<close>

theorem put_is_atomic:
  assumes "put_avatar s w key data content_type d = (r, ds)" and "d' \<in> set ds"
  shows "serve_avatar nu s verb path d' = serve_avatar nu s verb path d \<or>
    (\<exists>url. r = Inr url) \<and> serve_avatar nu s verb path d' = serve_avatar nu s verb path (last ds)"
  using put_states [OF assms] serve_plain [of d' d nu s verb path] by auto

text \<open>
  C36: the store stays inside its directory. Whatever URL or path it is given, \<open>Remove\<close> deletes at
  most one name, the handler sends at most the regular file of one, and in both cases the name is a
  key of plain characters and a known extension: no separator, no leading dot, not the parent.
\<close>

theorem avatars_confined:
  "(\<forall>r d'. remove_avatar nu s fails url d = (r, d') \<longrightarrow>
     d' = d \<or> (\<exists>n. plain_name n \<and> n \<noteq> [] \<and> hd n \<noteq> CHR ''.'' \<and> CHR ''/'' \<notin> set n \<and> d' = d(n := None))) \<and>
   (\<forall>cache bytes. serve_avatar nu s verb url d = Bytes cache bytes \<longrightarrow>
     (\<exists>n. plain_name n \<and> n \<noteq> [] \<and> hd n \<noteq> CHR ''.'' \<and> CHR ''/'' \<notin> set n \<and> d n = Some (File bytes)))"
proof (cases "avatar_name nu s url")
  case (Inl e)
  then show ?thesis by (simp add: remove_avatar_def serve_avatar_def)
next
  case (Inr n)
  note p = name_plain [OF Inr]
  have "plain_name n \<and> n \<noteq> [] \<and> hd n \<noteq> CHR ''.'' \<and> CHR ''/'' \<notin> set n"
    using p plain_name_chars [OF p] by blast
  with Inr show ?thesis
    by (auto simp: remove_avatar_def serve_avatar_def split: option.splits node.splits if_splits)
qed

section \<open>From Put back to the file\<close>

definition proper :: "string \<Rightarrow> bool" where
  "proper e = (e \<noteq> [] \<and> e \<noteq> ''.'' \<and> e \<noteq> ''..'' \<and> CHR ''/'' \<notin> set e)"

lemma clean_proper: "\<forall>e \<in> set es. proper e \<Longrightarrow> clean_elements done es = rev done @ es"
  by (induction es arbitrary: "done") (auto simp: proper_def)

lemma clean_elements_proper:
  "\<forall>e \<in> set done. proper e \<Longrightarrow> \<forall>e \<in> set es. CHR ''/'' \<notin> set e \<Longrightarrow> \<forall>e \<in> set (clean_elements done es). proper e"
proof (induction "done" es rule: clean_elements.induct)
  case (2 dn e es)
  have tl: "\<forall>e \<in> set (tl dn). proper e" using 2(4) by (cases dn) simp_all
  have es: "\<forall>e \<in> set es. CHR ''/'' \<notin> set e" using 2(5) by simp
  consider (skip) "e = [] \<or> e = ''.''" | (up) "\<not> (e = [] \<or> e = ''.'')" "e = ''..''"
    | (push) "\<not> (e = [] \<or> e = ''.'')" "e \<noteq> ''..''" by blast
  then show ?case
  proof cases
    case skip
    show ?thesis unfolding clean_elements.simps if_P [OF skip] by (rule 2(1) [OF skip 2(4) es])
  next
    case up
    show ?thesis unfolding clean_elements.simps if_not_P [OF up(1)] if_P [OF up(2)] by (rule 2(2) [OF up tl es])
  next
    case push
    have "proper e" using push 2(5) by (simp add: proper_def)
    then have "\<forall>e \<in> set (e # dn). proper e" using 2(4) by simp
    then show ?thesis unfolding clean_elements.simps if_not_P [OF push(1)] if_not_P [OF push(2)] by (rule 2(3) [OF push _ es])
  qed
qed simp

lemma clean_path_elements: "\<exists>es. clean_path p = ''/'' @ join_with ''/'' es \<and> (\<forall>e \<in> set es. proper e)"
  using clean_elements_proper [of "[]" "split_on (CHR ''/'') p"] split_on_sep [of _ "CHR ''/''" p]
  by (intro exI [of _ "clean_elements [] (split_on (CHR ''/'') p)"]) (simp add: clean_path_def)

lemma split_rooted: "es \<noteq> [] \<Longrightarrow> \<forall>e \<in> set es. proper e \<Longrightarrow> split_on (CHR ''/'') (''/'' @ join_with ''/'' es) = [] # es"
  using split_on_join [of es "CHR ''/''"] by (auto simp: proper_def)

lemma clean_rooted: "es \<noteq> [] \<Longrightarrow> \<forall>e \<in> set es. proper e \<Longrightarrow> clean_path (''/'' @ join_with ''/'' es) = ''/'' @ join_with ''/'' es"
  unfolding clean_path_def split_rooted using clean_proper [of es "[]"] by simp

text \<open>A clean prefix of a store, by its elements.\<close>

lemma prefix_elements:
  assumes "clean_path pre = pre" and "pre \<noteq> ''/''"
  obtains es where "pre = ''/'' @ join_with ''/'' es" "es \<noteq> []" "\<forall>e \<in> set es. proper e"
  using clean_path_elements [of pre] assms by (metis append_Nil2 join_with.simps(1))

lemma name_of_put:
  assumes "clean_path (av_prefix s) = av_prefix s" and "av_prefix s \<noteq> ''/''" and "plain_name n"
    and "nu_parse nu u = Some p" and "url_path p = u" and "u = av_prefix s @ ''/'' @ n"
  shows "avatar_name nu s u = Inr n" and "\<forall>c \<in> set u. c \<noteq> CHR 0x5C \<Longrightarrow> \<not> contains_dot_dot u"
proof -
  obtain es where es: "av_prefix s = ''/'' @ join_with ''/'' es" "es \<noteq> []" "\<forall>e \<in> set es. proper e"
    using prefix_elements [OF assms(1,2)] .
  have pn: "proper n" using plain_name_chars [OF assms(3)] by (auto simp: proper_def)
  have u: "u = ''/'' @ join_with ''/'' (es @ [n])" using assms(6) es by (simp add: join_with_snoc)
  have all: "\<forall>e \<in> set (es @ [n]). proper e" using es(3) pn by auto
  have clean: "clean_path u = u" unfolding u by (rule clean_rooted [OF _ all]) simp
  obtain k e where n: "n = k @ ''.'' @ e" "validate_key k = Inr ()" "known_extension e"
    using assms(3) by (auto simp: plain_name_def)
  have "CHR ''.'' \<notin> set k" using n(2) key_char_plain by (auto simp: validate_key_Inr)
  then have base: "cut_before (CHR ''.'') n = k" unfolding n(1) cut_before_def by (subst takeWhile_append2) auto
  have "has_prefix u ''/''" "''/'' @ drop 1 u = u" using assms(6) es(1) by (simp_all add: has_prefix_def)
  then show "avatar_name nu s u = Inr n"
    using assms(4,5) clean base n by (simp add: avatar_name_def Let_def has_prefix_def assms(6))
  assume b: "\<forall>c \<in> set u. c \<noteq> CHR 0x5C"
  then have "map (\<lambda>c. if c = CHR 0x5C then CHR ''/'' else c) u = u" by (simp add: map_idI)
  moreover have "split_on (CHR ''/'') u = [] # es @ [n]" unfolding u by (rule split_rooted [OF _ all]) simp
  ultimately show "\<not> contains_dot_dot u" using all by (auto simp: contains_dot_dot_def proper_def)
qed

text \<open>What \<open>net/url\<close> makes of a path of unreserved characters: itself.\<close>

definition parses_paths :: "net_url \<Rightarrow> bool" where
  "parses_paths nu = (\<forall>u. (\<forall>c \<in> set u. unreserved c \<or> c = CHR ''/'') \<longrightarrow> has_prefix u ''/'' \<longrightarrow> \<not> has_prefix u ''//'' \<longrightarrow>
     (\<exists>p. nu_parse nu u = Some p \<and> url_path p = u))"

lemma trim_slashes_ends: "trim_slashes x \<noteq> [] \<Longrightarrow> hd (trim_slashes x) \<noteq> CHR ''/''"
proof -
  assume ne: "trim_slashes x \<noteq> []"
  let ?y = "dropWhile (\<lambda>c. c = CHR ''/'') x"
  obtain zs where "?y = trim_slashes x @ zs"
    unfolding trim_slashes_def trim_right_slash_def by (metis rev_append rev_rev_ident takeWhile_dropWhile_id)
  moreover have "?y \<noteq> []" using calculation ne by auto
  ultimately show ?thesis using hd_dropWhile [of "\<lambda>c. c = CHR ''/''" x] ne by (metis hd_append2)
qed

lemma new_store_prefix:
  assumes "new_avatar_store dir pre err = Inr s"
  shows "av_prefix s \<noteq> ''/'' \<and> has_prefix (av_prefix s) ''/'' \<and> \<not> has_prefix (av_prefix s @ x) ''//''"
proof -
  have s: "av_prefix s = ''/'' @ trim_slashes (trim_space pre)" "trim_slashes (trim_space pre) \<noteq> []"
    using assms by (auto simp: new_avatar_store_def Let_def split: if_splits option.splits)
  then show ?thesis using trim_slashes_ends [OF s(2)] by (cases "trim_slashes (trim_space pre)") (auto simp: has_prefix_def)
qed

text \<open>
  C38: what \<open>Put\<close> returns is the URL of what it wrote. Under a clean prefix the handler serves the data
  at that path, \<open>Remove\<close> of that URL takes the file away, after which the path is not found, and
  nothing else in the directory has changed.
\<close>

theorem put_then_serve_then_remove:
  assumes "new_avatar_store dir pre None = Inr s" and "clean_path (av_prefix s) = av_prefix s"
    and "\<forall>c \<in> set (av_prefix s). unreserved c \<or> c = CHR ''/''" and "parses_paths nu"
    and "put_avatar s w key data content_type d = (Inr url, ds)"
    and "\<And>name. d (temp_name name w) = None"
  shows "\<exists>n d'. avatar_filename key content_type = Inr n \<and>
    serve_avatar nu s ''GET'' url (last ds) = Bytes avatar_cache_control data \<and>
    remove_avatar nu s False url (last ds) = (Inr (), d') \<and> serve_avatar nu s ''GET'' url d' = NotFoundPage \<and>
    d' = d(n := None)"
proof -
  obtain n where n: "avatar_filename key content_type = Inr n" and url: "url = av_prefix s @ ''/'' @ n"
    and last: "last ds = d(temp_name n w := None, n \<mapsto> File data)"
    using assms(5) by (auto simp: put_avatar_def Let_def split: sum.splits if_splits)
  have pn: "plain_name n" by (rule filename_plain [OF n])
  have un: "\<forall>c \<in> set url. unreserved c \<or> c = CHR ''/''"
    using assms(3) plain_name_chars(3) [OF pn] key_char_plain unreserved_dot by (auto simp: url)
  note pre = new_store_prefix [OF assms(1)]
  have "has_prefix url ''/''" "\<not> has_prefix url ''//''" using pre [of "''/'' @ n"] by (cases "av_prefix s"; simp add: url has_prefix_def)+
  then obtain p where p: "nu_parse nu url = Some p" "url_path p = url" using assms(4) un unfolding parses_paths_def by blast
  note name = name_of_put [OF assms(2) _ pn p url]
  have "\<forall>c \<in> set url. c \<noteq> CHR 0x5C" using un unreserved_dot(2) by force
  then have served: "avatar_name nu s url = Inr n" "\<not> contains_dot_dot url" using name pre by auto
  have "temp_name n w \<noteq> n" using temp_not_plain pn by metis
  then have "last ds = d(n \<mapsto> File data)" using assms(6) [of n] by (auto simp: last fun_upd_twist)
  with served n show ?thesis by (simp add: serve_avatar_def remove_avatar_def)
qed

definition path_urls :: net_url where
  "path_urls = host_urls\<lparr>nu_parse := (\<lambda>u. Some \<lparr>url_scheme = [], url_host = [], url_path = u, url_raw_query = [], url_fragment = []\<rparr>)\<rparr>"

definition quiet_put :: put_world where
  "quiet_put = \<lparr>pw_fails = (\<lambda>c. False), pw_drawn = ''42'', pw_chunks = [1]\<rparr>"

theorem put_then_serve_then_remove_witness:
  "\<exists>s url ds. new_avatar_store ''/var/avatars'' '' avatars/'' None = Inr s \<and>
    put_avatar s quiet_put ''k1'' ''data'' ''Image/PNG; q=1'' (\<lambda>n. None) = (Inr url, ds) \<and>
    url = ''/avatars/k1.png'' \<and> serve_avatar path_urls s ''GET'' url (last ds) = Bytes avatar_cache_control ''data''"
proof -
  let ?s = "\<lparr>av_dir = ''/var/avatars'', av_prefix = ''/avatars''\<rparr>"
  have s: "new_avatar_store ''/var/avatars'' '' avatars/'' None = Inr ?s" by code_simp
  have f: "avatar_filename ''k1'' ''Image/PNG; q=1'' = Inr ''k1.png''" by code_simp
  then obtain ds where p: "put_avatar ?s quiet_put ''k1'' ''data'' ''Image/PNG; q=1'' (\<lambda>n. None) = (Inr ''/avatars/k1.png'', ds)"
    by (simp add: put_avatar_def quiet_put_def Let_def)
  have c: "clean_path (av_prefix ?s) = av_prefix ?s" by code_simp
  have u: "\<forall>c \<in> set (av_prefix ?s). unreserved c \<or> c = CHR ''/''" by code_simp
  have "parses_paths path_urls" by (simp add: parses_paths_def path_urls_def)
  from put_then_serve_then_remove [OF s c u this p] s p show ?thesis by auto
qed

section \<open>A prefix that is not clean\<close>

text \<open>
  A prefix that \<open>path.Clean\<close> would change is accepted by \<open>New\<close> and makes every avatar
  unreachable: the URL \<open>Put\<close> returns is neither served nor removed.
\<close>

theorem unclean_prefix_unreachable:
  assumes "new_avatar_store dir pre None = Inr s" and "clean_path (av_prefix s) \<noteq> av_prefix s"
  shows "(\<exists>e. avatar_name nu s raw = Inl e) \<and> serve_avatar nu s ''GET'' raw d = NotFoundPage \<and>
    (\<exists>e. remove_avatar nu s fails raw d = (Inl e, d))"
proof -
  have "\<exists>e. avatar_name nu s raw = Inl e"
  proof (rule ccontr)
    assume "\<not> ?thesis"
    then obtain p where "has_prefix (clean_path p) (av_prefix s @ ''/'')"
      by (cases "avatar_name nu s raw") (auto simp: avatar_name_def Let_def split: option.splits if_splits)
    then obtain rest where "clean_path p = (av_prefix s @ ''/'') @ rest"
      unfolding has_prefix_def by (metis append_take_drop_id)
    moreover obtain es where es: "clean_path p = ''/'' @ join_with ''/'' es" "\<forall>e \<in> set es. proper e"
      using clean_path_elements by blast
    moreover obtain q where q: "av_prefix s = ''/'' @ q"
      using new_store_prefix [OF assms(1)] by (cases "av_prefix s") (auto simp: has_prefix_def)
    ultimately have j: "join_with ''/'' es = q @ ''/'' @ rest" by simp
    then have "es \<noteq> []" by (cases es) auto
    then have "es = split_on (CHR ''/'') (join_with ''/'' es)"
      using split_on_join [of es "CHR ''/''"] es(2) by (auto simp: proper_def)
    also have "\<dots> = split_on (CHR ''/'') q @ split_on (CHR ''/'') rest"
      unfolding j using split_on_join_sep [of "CHR ''/''" q rest] by simp
    finally have "\<forall>e \<in> set (split_on (CHR ''/'') q). proper e" using es(2) by auto
    then have "clean_path (av_prefix s) = av_prefix s"
      using clean_rooted [of "split_on (CHR ''/'') q"] join_split_on [of "CHR ''/''" q] by (simp add: q)
    with assms(2) show False by contradiction
  qed
  then show ?thesis by (auto simp: serve_avatar_def remove_avatar_def)
qed

theorem unclean_prefix_unreachable_witness:
  "\<exists>s url ds. new_avatar_store ''d'' ''/api//avatars'' None = Inr s \<and>
    put_avatar s quiet_put ''k1'' ''data'' ''image/png'' (\<lambda>n. None) = (Inr url, ds) \<and>
    serve_avatar path_urls s ''GET'' url (last ds) = NotFoundPage"
proof -
  let ?s = "\<lparr>av_dir = ''d'', av_prefix = ''/api//avatars''\<rparr>"
  have s: "new_avatar_store ''d'' ''/api//avatars'' None = Inr ?s" by code_simp
  have c: "clean_path (av_prefix ?s) \<noteq> av_prefix ?s" by code_simp
  have f: "avatar_filename ''k1'' ''image/png'' = Inr ''k1.png''" by code_simp
  then obtain url ds where p: "put_avatar ?s quiet_put ''k1'' ''data'' ''image/png'' (\<lambda>n. None) = (Inr url, ds)"
    by (simp add: put_avatar_def quiet_put_def Let_def)
  from unclean_prefix_unreachable [OF s c] s p show ?thesis by blast
qed

text \<open>A full disk: the write fails after one byte and the temp file stays behind.\<close>

theorem put_is_atomic_witness:
  "\<exists>r ds d'. put_avatar \<lparr>av_dir = ''d'', av_prefix = ''/a''\<rparr> (quiet_put\<lparr>pw_fails := (\<lambda>c. c = WriteTemp \<or> c = DropTemp)\<rparr>)
      ''k1'' ''new'' ''image/png'' [''k1.png'' \<mapsto> File ''old''] = (r, ds) \<and> d' \<in> set ds \<and> d' ''.k1.png.42'' = Some (File ''n'') \<and>
    serve_avatar path_urls \<lparr>av_dir = ''d'', av_prefix = ''/a''\<rparr> ''GET'' ''/a/k1.png'' d' = Bytes avatar_cache_control ''old''"
proof -
  let ?s = "\<lparr>av_dir = ''d'', av_prefix = ''/a''\<rparr>"
  let ?w = "quiet_put\<lparr>pw_fails := (\<lambda>c. c = WriteTemp \<or> c = DropTemp)\<rparr>"
  let ?d = "[''k1.png'' \<mapsto> File ''old'']"
  let ?d' = "?d(''.k1.png.42'' \<mapsto> File ''n'')"
  have f: "avatar_filename ''k1'' ''image/png'' = Inr ''k1.png''" by code_simp
  then obtain e ds where p: "put_avatar ?s ?w ''k1'' ''new'' ''image/png'' ?d = (Inl e, ds)" "?d' \<in> set ds"
    by (simp add: put_avatar_def quiet_put_def Let_def temp_name_def)
  have "avatar_name path_urls ?s ''/a/k1.png'' = Inr ''k1.png''" by code_simp
  moreover have "\<not> contains_dot_dot ''/a/k1.png''" by code_simp
  ultimately have "serve_avatar path_urls ?s ''GET'' ''/a/k1.png'' ?d = Bytes avatar_cache_control ''old''"
    by (simp add: serve_avatar_def)
  with put_is_atomic [OF p, of path_urls "''GET''" "''/a/k1.png''"] p show ?thesis by fastforce
qed

text \<open>A path that climbs out and comes back is not sent; the plain one is served, then removed.\<close>

theorem avatars_confined_witness:
  "\<exists>s d d'. d = [''k1.png'' \<mapsto> File ''x'', ''k2.png'' \<mapsto> File ''y''] \<and>
    serve_avatar path_urls s ''GET'' ''/a/../a/k1.png'' d = InvalidPath \<and>
    serve_avatar path_urls s ''GET'' ''/a/k1.png'' d = Bytes avatar_cache_control ''x'' \<and>
    (\<exists>n. plain_name n \<and> d n = Some (File ''x'')) \<and>
    remove_avatar path_urls s False ''/a/k1.png'' d = (Inr (), d') \<and> d' \<noteq> d \<and>
    (\<exists>n. plain_name n \<and> CHR ''/'' \<notin> set n \<and> d' = d(n := None))"
proof -
  define s where "s = \<lparr>av_dir = ''d'', av_prefix = ''/a''\<rparr>"
  define d where "d = [''k1.png'' \<mapsto> File ''x'', ''k2.png'' \<mapsto> File ''y'']"
  have n: "avatar_name path_urls s ''/a/../a/k1.png'' = Inr ''k1.png''" "avatar_name path_urls s ''/a/k1.png'' = Inr ''k1.png''"
    unfolding s_def by code_simp+
  moreover have "contains_dot_dot ''/a/../a/k1.png''" "\<not> contains_dot_dot ''/a/k1.png''" by code_simp+
  ultimately have serve: "serve_avatar path_urls s ''GET'' ''/a/../a/k1.png'' d = InvalidPath"
    "serve_avatar path_urls s ''GET'' ''/a/k1.png'' d = Bytes avatar_cache_control ''x''"
    by (simp_all add: serve_avatar_def d_def)
  obtain d' where rem: "remove_avatar path_urls s False ''/a/k1.png'' d = (Inr (), d')" "d' \<noteq> d"
    using n(2) by (force simp: remove_avatar_def d_def dest: fun_cong [of _ _ "''k1.png''"])
  show ?thesis
    using avatars_confined [of path_urls s False "''/a/k1.png''" d "''GET''"] serve rem unfolding d_def by blast
qed

end
