(* ===== verification/Pg_Schema.thy ===== *)
theory Pg_Schema
  imports Database
begin

text \<open>
  \<open>EnsureSchema\<close> of \<open>pg/pg.go\<close>: the text of \<open>Schema\<close> and \<open>KeySchema\<close> as a list of statements over a
  catalogue (tables with their columns and defaults, and indexes) and over the rows of the one table
  it updates. PostgreSQL runs the text as one transaction, so a statement that fails leaves what was
  there. Types and constraints of a column are not part of the catalogue: no statement changes them.
\<close>

section \<open>Catalogue and statements\<close>

type_synonym column = "string \<times> string option"

record catalogue =
  ct_tables :: "string \<Rightarrow> column list option"
  ct_indexes :: "string list"
  ct_identities :: "identity_row list"

datatype schema_stmt =
    CreateTable string "column list"
  | CreateIndex string string "string list"
  | RekeyLocal
  | AddColumns string string "column list"
  | AddOrDefault string string string

definition column_names :: "column list \<Rightarrow> string set" where
  "column_names cs = fst ` set cs"

text \<open>
  The update of the password identities. Each row is checked against the primary key as it is when
  the row is written.
\<close>

definition stale_subject :: "identity_row \<Rightarrow> bool" where
  "stale_subject i = (i_provider i = provider_local \<and> i_subject i \<noteq> local_subject (i_user i))"

fun rekey :: "identity_row list \<Rightarrow> identity_row list \<Rightarrow> identity_row list option" where
  "rekey done [] = Some done"
| "rekey done (i # is) =
     (if stale_subject i
      then (if has_row (\<lambda>j. i_provider j = provider_local \<and> i_subject j = local_subject (i_user i)) (done @ is) then None
        else rekey (done @ [i\<lparr>i_subject := local_subject (i_user i)\<rparr>]) is)
      else rekey (done @ [i]) is)"

fun exec_schema :: "schema_stmt \<Rightarrow> catalogue \<Rightarrow> catalogue result" where
  "exec_schema (CreateTable t cs) d = Inr (case ct_tables d t of
     Some _ \<Rightarrow> d | None \<Rightarrow> d\<lparr>ct_tables := (ct_tables d)(t \<mapsto> cs)\<rparr>)"
| "exec_schema (CreateIndex i t cs) d =
     (if List.member (ct_indexes d) i then Inr d
      else case ct_tables d t of
        None \<Rightarrow> Inl SqlFault
      | Some have \<Rightarrow> if set cs \<subseteq> column_names have then Inr (d\<lparr>ct_indexes := i # ct_indexes d\<rparr>) else Inl SqlFault)"
| "exec_schema RekeyLocal d = (case rekey [] (ct_identities d) of
     None \<Rightarrow> Inl SqlConstraint | Some is \<Rightarrow> Inr (d\<lparr>ct_identities := is\<rparr>))"
| "exec_schema (AddColumns t guard cs) d = (case ct_tables d t of
     None \<Rightarrow> Inl SqlFault
   | Some have \<Rightarrow>
       if guard \<in> column_names have then Inr d
       else if column_names cs \<inter> column_names have \<noteq> {} then Inl SqlConstraint
       else Inr (d\<lparr>ct_tables := (ct_tables d)(t \<mapsto> have @ cs)\<rparr>))"
| "exec_schema (AddOrDefault t c v) d = (case ct_tables d t of
     None \<Rightarrow> Inl SqlFault
   | Some have \<Rightarrow>
       if c \<notin> column_names have then Inr (d\<lparr>ct_tables := (ct_tables d)(t \<mapsto> have @ [(c, Some v)])\<rparr>)
       else Inr (d\<lparr>ct_tables := (ct_tables d)(t \<mapsto> map (\<lambda>(n, def). (n, if n = c \<and> def = None then Some v else def)) have)\<rparr>))"

fun run_schema :: "schema_stmt list \<Rightarrow> catalogue \<Rightarrow> catalogue result" where
  "run_schema [] d = Inr d"
| "run_schema (s # ss) d = (case exec_schema s d of Inl e \<Rightarrow> Inl e | Inr d' \<Rightarrow> run_schema ss d')"

section \<open>The text\<close>

definition schema_text :: "schema_stmt list" where
  "schema_text =
    [CreateTable ''porte_users'' [(''id'', Some ''nextval''), (''facile_id'', None), (''email'', None), (''email_verified'', Some ''false''),
       (''name'', Some []), (''avatar_url'', Some []), (''avatar_source'', Some []),
       (''created_at'', Some ''now()''), (''updated_at'', Some ''now()'')],
     CreateTable ''porte_identities'' [(''user_id'', None), (''provider'', None), (''subject'', None), (''password_hash'', Some []),
       (''access_token'', Some []), (''refresh_token'', Some []), (''token_expiry'', None), (''roles'', None),
       (''roles_synced_at'', None), (''synced_at'', None), (''created_at'', Some ''now()'')],
     CreateIndex ''porte_identities_user_idx'' ''porte_identities'' [''user_id''],
     RekeyLocal,
     CreateTable ''porte_sessions'' [(''id'', Some ''nextval''), (''token_hash'', None), (''user_id'', None), (''label'', Some []),
       (''created_at'', Some ''now()''), (''last_used_at'', Some ''now()''), (''expires_at'', None)],
     CreateIndex ''porte_sessions_user_idx'' ''porte_sessions'' [''user_id''],
     CreateIndex ''porte_sessions_expiry_idx'' ''porte_sessions'' [''expires_at''],
     CreateTable ''porte_login_codes'' [(''code_hash'', None), (''user_id'', None), (''expires_at'', None), (''consumed_at'', None)],
     CreateTable ''porte_magic_links'' [(''token_hash'', None), (''user_id'', None), (''ip'', Some []), (''created_at'', None),
       (''expires_at'', None), (''consumed_at'', None)],
     CreateIndex ''porte_magic_links_user_idx'' ''porte_magic_links'' [''user_id'', ''created_at''],
     CreateIndex ''porte_magic_links_ip_idx'' ''porte_magic_links'' [''ip'', ''created_at''],
     CreateIndex ''porte_magic_links_expiry_idx'' ''porte_magic_links'' [''expires_at''],
     AddColumns ''porte_users'' ''locale'' [(''locale'', Some ''en'')],
     AddOrDefault ''porte_identities'' ''created_at'' ''now()'',
     AddColumns ''porte_login_codes'' ''consumed_at'' [(''consumed_at'', None)],
     AddColumns ''porte_login_codes'' ''provider'' [(''provider'', Some []), (''subject'', Some [])]]"

definition key_schema_text :: "schema_stmt list" where
  "key_schema_text =
    [CreateTable ''porte_api_keys'' [(''id'', Some ''nextval''), (''app'', None), (''kind'', Some ''secret''), (''prefix'', None),
       (''token_hash'', None), (''allowed_origins'', Some ''[]''), (''daily_quota'', Some ''0''), (''created_at'', Some ''now()''),
       (''revoked_at'', None)],
     CreateIndex ''porte_api_keys_app_idx'' ''porte_api_keys'' [''app''],
     CreateIndex ''porte_api_keys_token_hash_idx'' ''porte_api_keys'' [''token_hash'', ''revoked_at''],
     CreateTable ''porte_api_key_usage'' [(''api_key_id'', None), (''day'', Some ''CURRENT_DATE''), (''count'', Some ''0'')]]"

definition ensure_schema :: "catalogue \<Rightarrow> catalogue result" where
  "ensure_schema d = (case run_schema (schema_text @ key_schema_text) d of
     Inl e \<Rightarrow> Inl (Wrap ''porte/pg: ensure schema'' e) | Inr d' \<Rightarrow> Inr d')"

section \<open>Running the text twice\<close>

text \<open>What a statement leaves behind, under which it does nothing.\<close>

fun in_place :: "schema_stmt \<Rightarrow> catalogue \<Rightarrow> bool" where
  "in_place (CreateTable t cs) d = (ct_tables d t \<noteq> None)"
| "in_place (CreateIndex i t cs) d = List.member (ct_indexes d) i"
| "in_place RekeyLocal d = (\<forall>i \<in> set (ct_identities d). \<not> stale_subject i)"
| "in_place (AddColumns t guard cs) d = (\<exists>have. ct_tables d t = Some have \<and> guard \<in> column_names have)"
| "in_place (AddOrDefault t c v) d =
     (\<exists>have. ct_tables d t = Some have \<and> c \<in> column_names have \<and> (c, None) \<notin> set have)"

lemma column_nameI: "(c, v) \<in> set cs \<Longrightarrow> c \<in> column_names cs"
  by (force simp: column_names_def)

lemma column_names_simps [simp]:
  "column_names [] = {}" "column_names (x # xs) = insert (fst x) (column_names xs)"
  "column_names (xs @ ys) = column_names xs \<union> column_names ys"
  "column_names (map (\<lambda>(n, def). (n, f n def)) xs) = column_names xs"
  by (auto simp: column_names_def image_image case_prod_beta)

lemma rekey_fresh: "\<forall>i \<in> set rows. \<not> stale_subject i \<Longrightarrow> rekey done rows = Some (done @ rows)"
  by (induction rows arbitrary: "done") auto

lemma rekey_result:
  "rekey done is = Some js \<Longrightarrow>
    js = done @ map (\<lambda>i. if stale_subject i then i\<lparr>i_subject := local_subject (i_user i)\<rparr> else i) is"
  by (induction "done" "is" rule: rekey.induct) (auto split: if_splits)

lemma rekey_none_stale: "rekey [] is = Some js \<Longrightarrow> \<forall>i \<in> set js. \<not> stale_subject i"
  by (drule rekey_result) (auto simp: stale_subject_def split: if_splits)

lemma in_place_noop: "in_place s d \<Longrightarrow> exec_schema s d = Inr d"
proof (cases s)
  case (AddOrDefault t c v)
  assume "in_place s d"
  then obtain have' where h: "ct_tables d t = Some have'" "c \<in> column_names have'" "(c, None) \<notin> set have'"
    using AddOrDefault by auto
  then have "map (\<lambda>(n, def). (n, if n = c \<and> def = None then Some v else def)) have' = have'"
    by (intro map_idI) (auto, metis option.exhaust)
  with AddOrDefault h show ?thesis by (simp add: fun_upd_idem)
qed (auto simp: rekey_fresh)

fun guarded :: "schema_stmt \<Rightarrow> bool" where
  "guarded (AddColumns t g cs) = (g \<in> column_names cs)"
| "guarded s = True"

lemma exec_in_place: "exec_schema s d = Inr d' \<Longrightarrow> guarded s \<Longrightarrow> in_place s d'"
  by (cases s) (auto simp: rekey_none_stale split: option.splits if_splits dest: column_nameI)

text \<open>Tables and columns are only added, and a default is never taken back.\<close>

lemma exec_grows:
  assumes "exec_schema s d = Inr d'" and "ct_tables d t = Some have'"
  shows "\<exists>have''. ct_tables d' t = Some have'' \<and> column_names have' \<subseteq> column_names have'' \<and>
    (\<forall>c \<in> column_names have'. (c, None) \<notin> set have' \<longrightarrow> (c, None) \<notin> set have'')"
proof (cases s)
  case (AddColumns t' g cs)
  moreover have "(c, None) \<notin> set cs" if "c \<in> column_names have'" "column_names cs \<inter> column_names have' = {}" for c
    using that column_nameI by fastforce
  ultimately show ?thesis using assms by (auto split: option.splits if_splits)
next
  case (AddOrDefault t' c v)
  with assms show ?thesis by (auto split: option.splits if_splits dest: column_nameI)
qed (use assms in \<open>auto split: option.splits if_splits\<close>)

lemma exec_indexes: "exec_schema s d = Inr d' \<Longrightarrow> set (ct_indexes d) \<subseteq> set (ct_indexes d')"
  by (cases s) (auto split: option.splits if_splits)

lemma exec_identities: "exec_schema s d = Inr d' \<Longrightarrow> s \<noteq> RekeyLocal \<Longrightarrow> ct_identities d' = ct_identities d"
  by (cases s) (auto split: option.splits if_splits)

lemma in_place_stays:
  assumes "exec_schema s' d = Inr d'" and "in_place s d"
  shows "in_place s d'"
proof (cases s)
  case (CreateTable t cs)
  with assms exec_grows [OF assms(1), of t] show ?thesis by force
next
  case (CreateIndex i t cs)
  with assms exec_indexes [OF assms(1)] show ?thesis by auto
next
  case RekeyLocal
  show ?thesis
  proof (cases "s' = RekeyLocal")
    case True
    with assms(1) RekeyLocal show ?thesis by (auto split: option.splits dest: rekey_none_stale)
  next
    case False
    with exec_identities [OF assms(1)] assms(2) RekeyLocal show ?thesis by simp
  qed
next
  case (AddColumns t g cs)
  with assms exec_grows [OF assms(1), of t] show ?thesis by force
next
  case (AddOrDefault t c v)
  with assms exec_grows [OF assms(1), of t] show ?thesis by force
qed

lemma run_stays: "run_schema ss d = Inr d' \<Longrightarrow> in_place s d \<Longrightarrow> in_place s d'"
  by (induction ss arbitrary: d) (auto split: sum.splits dest: in_place_stays)

lemma run_in_place: "run_schema ss d = Inr d' \<Longrightarrow> \<forall>s \<in> set ss. guarded s \<Longrightarrow> s \<in> set ss \<Longrightarrow> in_place s d'"
proof (induction ss arbitrary: d)
  case (Cons s1 ss)
  obtain d1 where d1: "exec_schema s1 d = Inr d1" "run_schema ss d1 = Inr d'"
    using Cons.prems(1) by (auto split: sum.splits)
  show ?case
  proof (cases "s = s1")
    case True
    with run_stays [OF d1(2)] exec_in_place [OF d1(1)] Cons.prems(2) show ?thesis by simp
  qed (use Cons d1 in auto)
qed simp

lemma run_noop: "\<forall>s \<in> set ss. in_place s d \<Longrightarrow> run_schema ss d = Inr d"
  by (induction ss) (auto simp: in_place_noop)

section \<open>The re-keying\<close>

abbreviation is_local :: "identity_row \<Rightarrow> bool" where
  "is_local i \<equiv> i_provider i = provider_local"

abbreviation row_key :: "identity_row \<Rightarrow> string \<times> string" where
  "row_key i \<equiv> (i_provider i, i_subject i)"

text \<open>The subject of a password identity was an address, or is the account's id already.\<close>

definition subjects_ok :: "identity_row list \<Rightarrow> bool" where
  "subjects_ok rows = (\<forall>i \<in> set rows. is_local i \<longrightarrow> i_subject i = local_subject (i_user i) \<or> (\<forall>u. i_subject i \<noteq> local_subject u))"

lemma rekey_None_iff:
  "subjects_ok (done @ rows) \<Longrightarrow> \<forall>i \<in> set done. \<not> stale_subject i \<Longrightarrow> distinct (map row_key (done @ rows)) \<Longrightarrow>
    rekey done rows = None \<longleftrightarrow> \<not> distinct (map i_user (filter is_local (done @ rows)))"
proof (induction "done" rows rule: rekey.induct)
  case (1 dn)
  have "inj_on i_user (set (filter is_local dn))"
  proof (rule inj_onI)
    fix i j assume ij: "i \<in> set (filter is_local dn)" "j \<in> set (filter is_local dn)" "i_user i = i_user j"
    then have "row_key i = row_key j" using 1(2) by (simp add: stale_subject_def)
    with ij 1(3) inj_onD [of row_key "set dn" i j] show "i = j" by (simp add: distinct_map)
  qed
  moreover have "distinct dn" using 1(3) by (simp add: distinct_map)
  ultimately show ?case by (simp add: distinct_map)
next
  case (2 dn i rows)
  show ?case
  proof (cases "stale_subject i")
    case False
    with 2 show ?thesis by simp
  next
    case stale: True
    let ?i = "i\<lparr>i_subject := local_subject (i_user i)\<rparr>"
    let ?taken = "has_row (\<lambda>j. is_local j \<and> i_subject j = local_subject (i_user i)) (dn @ rows)"
    have i: "is_local i" using stale by (simp add: stale_subject_def)
    show ?thesis
    proof (cases ?taken)
      case True
      then obtain j where j: "j \<in> set (dn @ rows)" "is_local j" "i_subject j = local_subject (i_user i)"
        by (auto simp: table_simps)
      with 2(3) have "i_user j = i_user i" by (auto simp: subjects_ok_def)
      with j i have "\<not> distinct (map i_user (filter is_local (dn @ i # rows)))" by (auto simp: image_iff)
      with stale True show ?thesis by simp
    next
      case False
      have fresh: "row_key ?i \<notin> row_key ` set (dn @ rows)"
      proof
        assume "row_key ?i \<in> row_key ` set (dn @ rows)"
        then obtain j where j: "j \<in> set (dn @ rows)" "row_key ?i = row_key j" by (rule imageE) auto
        then have "is_local j \<and> i_subject j = local_subject (i_user i)" using i by simp
        with j(1) False show False unfolding has_row_iff by blast
      qed
      have "rekey (dn @ [?i]) rows = None \<longleftrightarrow> \<not> distinct (map i_user (filter is_local ((dn @ [?i]) @ rows)))"
      proof (rule 2(1) [OF stale False])
        show "subjects_ok ((dn @ [?i]) @ rows)" using 2(3) by (auto simp: subjects_ok_def)
        show "\<forall>j \<in> set (dn @ [?i]). \<not> stale_subject j" using 2(4) by (auto simp: stale_subject_def)
        show "distinct (map row_key ((dn @ [?i]) @ rows))" using 2(5) fresh by auto
      qed
      with stale False i show ?thesis by simp
    qed
  qed
qed

section \<open>Running it over an earlier database\<close>

text \<open>The columns a statement may add to a table that is there.\<close>

fun touched :: "schema_stmt \<Rightarrow> string \<Rightarrow> string set" where
  "touched (AddColumns t' g cs) t = (if t' = t then column_names cs else {})"
| "touched (AddOrDefault t' c v) t = (if t' = t then {c} else {})"
| "touched s t = {}"

definition no_clash :: "schema_stmt \<Rightarrow> schema_stmt list \<Rightarrow> bool" where
  "no_clash s ss = (\<forall>s' \<in> set ss. case s' of
     AddColumns t g cs \<Rightarrow> touched s t \<inter> column_names cs = {} \<and>
       (case s of CreateTable t' ds \<Rightarrow> t' = t \<longrightarrow> g \<in> column_names ds \<or> column_names cs \<inter> column_names ds = {} | _ \<Rightarrow> True)
   | _ \<Rightarrow> True)"

text \<open>
  A text that creates every table once, before the indexes and additions that name its columns, and
  adds no column twice. A column that a later statement adds when it is missing is not one that every
  version of the table had.
\<close>

fun later_columns :: "schema_stmt list \<Rightarrow> string \<Rightarrow> string set" where
  "later_columns [] t = {}"
| "later_columns (AddColumns t' g cs # ss) t = (if t' = t then {g} else {}) \<union> later_columns ss t"
| "later_columns (AddOrDefault t' c v # ss) t = (if t' = t then {c} else {}) \<union> later_columns ss t"
| "later_columns (s # ss) t = later_columns ss t"

definition schema_later :: "string \<Rightarrow> string set" where
  "schema_later = later_columns (schema_text @ key_schema_text)"

definition first_columns :: "string \<Rightarrow> column list \<Rightarrow> string set" where
  "first_columns t cs = column_names cs - schema_later t"

fun text_fits :: "(string \<times> string set) list \<Rightarrow> schema_stmt list \<Rightarrow> bool" where
  "text_fits made [] = True"
| "text_fits made (s # ss) = (no_clash s ss \<and> (case s of
     CreateTable t cs \<Rightarrow> t \<notin> fst ` set made \<and> text_fits ((t, first_columns t cs) # made) ss
   | CreateIndex i t cs \<Rightarrow> (\<exists>have \<in> set made. fst have = t \<and> set cs \<subseteq> snd have) \<and> text_fits made ss
   | RekeyLocal \<Rightarrow> text_fits made ss
   | AddColumns t g cs \<Rightarrow> t \<in> fst ` set made \<and> text_fits made ss
   | AddOrDefault t c v \<Rightarrow> t \<in> fst ` set made \<and> text_fits made ss))"

definition made_by :: "schema_stmt \<Rightarrow> (string \<times> string set) list" where
  "made_by s = (case s of CreateTable t cs \<Rightarrow> [(t, first_columns t cs)] | _ \<Rightarrow> [])"

lemma text_fits_made: "text_fits made (s # ss) \<Longrightarrow> text_fits (made_by s @ made) ss"
  by (cases s) (auto simp: made_by_def)

text \<open>
  A database an earlier version of the text, or none, has left: a table that is there has the columns
  every version created it with, and an addition is there as a whole or not at all.
\<close>

definition covers :: "(string \<times> string set) list \<Rightarrow> catalogue \<Rightarrow> bool" where
  "covers made d = (\<forall>(t, ns) \<in> set made. \<exists>have. ct_tables d t = Some have \<and> ns \<subseteq> column_names have)"

definition earlier_version :: "schema_stmt list \<Rightarrow> catalogue \<Rightarrow> bool" where
  "earlier_version ss d =
     ((\<forall>t cs have. CreateTable t cs \<in> set ss \<longrightarrow> ct_tables d t = Some have \<longrightarrow> first_columns t cs \<subseteq> column_names have) \<and>
      (\<forall>t g cs have. AddColumns t g cs \<in> set ss \<longrightarrow> ct_tables d t = Some have \<longrightarrow>
         g \<in> column_names have \<or> column_names cs \<inter> column_names have = {}))"

lemma exec_touched:
  assumes "exec_schema s d = Inr d'" and "ct_tables d' t = Some have'"
  shows "(\<exists>have. ct_tables d t = Some have \<and> column_names have \<subseteq> column_names have' \<and>
      column_names have' \<subseteq> column_names have \<union> touched s t) \<or>
    (ct_tables d t = None \<and> s = CreateTable t have')"
  using assms by (cases s) (auto split: option.splits if_splits)

lemma covers_exec: "exec_schema s d = Inr d' \<Longrightarrow> covers made d \<Longrightarrow> covers made d'"
  unfolding covers_def using exec_grows by fastforce

lemma exec_fits:
  assumes "covers made d" and "earlier_version (s # ss) d" and "text_fits made (s # ss)"
    and "rekey [] (ct_identities d) \<noteq> None"
  shows "\<exists>d'. exec_schema s d = Inr d' \<and> covers (made_by s @ made) d'"
proof (cases s)
  case (CreateTable t cs)
  then obtain d' where d': "exec_schema s d = Inr d'" by simp
  have "\<exists>have. ct_tables d' t = Some have \<and> first_columns t cs \<subseteq> column_names have"
    using d' CreateTable assms(2) by (auto simp: earlier_version_def first_columns_def split: option.splits)
  with covers_exec [OF d' assms(1)] d' CreateTable show ?thesis by (simp add: made_by_def covers_def)
next
  case (CreateIndex i t cs)
  with assms(3) obtain ns where m: "(t, ns) \<in> set made" "set cs \<subseteq> ns" by auto
  from bspec [OF assms(1) [unfolded covers_def] m(1)] m(2)
  obtain have' where "ct_tables d t = Some have'" "set cs \<subseteq> column_names have'" by auto
  with CreateIndex obtain d' where d': "exec_schema s d = Inr d'" by (cases "List.member (ct_indexes d) i") simp_all
  with covers_exec [OF d' assms(1)] CreateIndex show ?thesis by (simp add: made_by_def)
next
  case RekeyLocal
  with assms(1,4) show ?thesis by (auto simp: covers_def made_by_def)
next
  case (AddColumns t g cs)
  with assms(1,3) obtain have' where h: "ct_tables d t = Some have'" by (auto simp: covers_def)
  with assms(2) AddColumns have "g \<in> column_names have' \<or> column_names cs \<inter> column_names have' = {}"
    by (auto simp: earlier_version_def)
  with AddColumns h obtain d' where d': "exec_schema s d = Inr d'" by (cases "g \<in> column_names have'") auto
  with covers_exec [OF d' assms(1)] AddColumns show ?thesis by (simp add: made_by_def)
next
  case (AddOrDefault t c v)
  with assms(1,3) obtain have' where h: "ct_tables d t = Some have'" by (auto simp: covers_def)
  with AddOrDefault obtain d' where d': "exec_schema s d = Inr d'" by (cases "c \<in> column_names have'") auto
  with covers_exec [OF d' assms(1)] AddOrDefault show ?thesis by (simp add: made_by_def)
qed

lemma earlier_exec:
  assumes "earlier_version (s # ss) d" and "text_fits made (s # ss)" and "exec_schema s d = Inr d'"
  shows "earlier_version ss d'"
  unfolding earlier_version_def
proof (intro conjI allI impI)
  fix t cs have' assume c: "CreateTable t cs \<in> set ss" "ct_tables d' t = Some have'"
  have once: "t \<notin> fst ` set made'" if "text_fits made' ss" for made'
    using that c(1)
  proof (induction ss arbitrary: made')
    case (Cons s1 ss)
    show ?case
    proof (cases "CreateTable t cs = s1")
      case False
      with Cons.prems(2) Cons.IH [OF text_fits_made [OF Cons.prems(1)]] show ?thesis by auto
    next
      case True
      with Cons.prems(1) show ?thesis by (cases s1) auto
    qed
  qed simp
  have "s \<noteq> CreateTable t have'" using once [OF text_fits_made [OF assms(2)]] by (auto simp: made_by_def)
  with exec_touched [OF assms(3) c(2)] assms(1) c(1) show "first_columns t cs \<subseteq> column_names have'"
    by (fastforce simp: earlier_version_def)
next
  fix t g cs have' assume c: "AddColumns t g cs \<in> set ss" "ct_tables d' t = Some have'"
  have "no_clash s ss" using assms(2) by simp
  with c(1) have "case AddColumns t g cs of AddColumns t g cs \<Rightarrow> touched s t \<inter> column_names cs = {} \<and>
       (case s of CreateTable t' ds \<Rightarrow> t' = t \<longrightarrow> g \<in> column_names ds \<or> column_names cs \<inter> column_names ds = {} | _ \<Rightarrow> True)
     | _ \<Rightarrow> True" unfolding no_clash_def by blast
  then have "touched s t \<inter> column_names cs = {}"
    "\<And>ds. s = CreateTable t ds \<Longrightarrow> g \<in> column_names ds \<or> column_names cs \<inter> column_names ds = {}" by simp_all
  with exec_touched [OF assms(3) c(2)] assms(1) c(1) show "g \<in> column_names have' \<or> column_names cs \<inter> column_names have' = {}"
    by (fastforce simp: earlier_version_def)
qed

lemma exec_rekey: "exec_schema s d = Inr d' \<Longrightarrow> rekey [] (ct_identities d) = Some js \<Longrightarrow>
    rekey [] (ct_identities d') = Some js \<and> (s = RekeyLocal \<longrightarrow> ct_identities d' = js)"
  using exec_identities [of s d d'] rekey_none_stale [of "ct_identities d" js] rekey_fresh [of js "[]"]
  by (cases "s = RekeyLocal") auto

lemma run_fits:
  assumes "covers made d" and "earlier_version ss d" and "text_fits made ss" and "rekey [] (ct_identities d) = Some js"
  shows "\<exists>d'. run_schema ss d = Inr d' \<and> covers (concat (map made_by (rev ss)) @ made) d' \<and>
    (RekeyLocal \<in> set ss \<or> ct_identities d = js \<longrightarrow> ct_identities d' = js)"
  using assms
proof (induction ss arbitrary: d made)
  case (Cons s ss)
  obtain d1 where d1: "exec_schema s d = Inr d1" "covers (made_by s @ made) d1"
    using exec_fits [OF Cons.prems(1-3)] Cons.prems(4) by auto
  note rk = exec_rekey [OF d1(1) Cons.prems(4)]
  have same: "s \<noteq> RekeyLocal \<Longrightarrow> ct_identities d1 = ct_identities d" using exec_identities [OF d1(1)] .
  obtain d' where "run_schema ss d1 = Inr d'" "covers (concat (map made_by (rev ss)) @ made_by s @ made) d'"
      "RekeyLocal \<in> set ss \<or> ct_identities d1 = js \<longrightarrow> ct_identities d' = js"
    using Cons.IH [OF d1(2) earlier_exec [OF Cons.prems(2,3) d1(1)] text_fits_made [OF Cons.prems(3)] conjunct1 [OF rk]] by blast
  with d1(1) rk same show ?case by (cases "s = RekeyLocal") auto
qed simp

lemma run_rekey_fails:
  "RekeyLocal \<in> set ss \<Longrightarrow> rekey [] (ct_identities d) = None \<Longrightarrow> \<exists>e. run_schema ss d = Inl e"
proof (induction ss arbitrary: d)
  case (Cons s ss)
  show ?case
  proof (cases "s = RekeyLocal")
    case False
    with Cons exec_identities [of s d] show ?thesis by (cases "exec_schema s d") auto
  qed (use Cons in simp)
qed simp

lemma schema_text_fits: "text_fits [] (schema_text @ key_schema_text)"
  by code_simp

lemma later_in_place:
  "\<forall>s \<in> set ss. in_place s d \<Longrightarrow> ct_tables d t = Some have' \<Longrightarrow> later_columns ss t \<subseteq> column_names have'"
  by (induction ss t rule: later_columns.induct) auto

lemma schema_text_guarded: "\<forall>s \<in> set (schema_text @ key_schema_text). guarded s"
  by (simp add: schema_text_def key_schema_text_def)

text \<open>
  C33: the upgrade. Over what an earlier version left, or an empty catalogue, \<open>EnsureSchema\<close> fails only
  when an account holds two password identities. Otherwise it succeeds: every statement is in place,
  every table has its columns, exactly the password identities keyed by an address are re-keyed to
  their account, each account has one, and running it again changes nothing.
\<close>

theorem ensure_schema_upgrades:
  assumes "earlier_version (schema_text @ key_schema_text) d" and "subjects_ok (ct_identities d)"
    and "distinct (map (\<lambda>i. (i_provider i, i_subject i)) (ct_identities d))"
  shows "if distinct (map i_user (filter (\<lambda>i. i_provider i = provider_local) (ct_identities d)))
    then \<exists>d'. ensure_schema d = Inr d' \<and> ensure_schema d' = Inr d' \<and>
      (\<forall>s \<in> set (schema_text @ key_schema_text). in_place s d') \<and>
      (\<forall>t cs. CreateTable t cs \<in> set (schema_text @ key_schema_text) \<longrightarrow>
         (\<exists>have. ct_tables d' t = Some have \<and> column_names cs \<subseteq> column_names have)) \<and>
      ct_identities d' = map (\<lambda>i. if stale_subject i then i\<lparr>i_subject := local_subject (i_user i)\<rparr> else i) (ct_identities d)
    else \<exists>e. ensure_schema d = Inl e"
proof -
  let ?ss = "schema_text @ key_schema_text"
  have r: "RekeyLocal \<in> set ?ss" by (simp add: schema_text_def)
  have iff: "rekey [] (ct_identities d) = None \<longleftrightarrow> \<not> distinct (map i_user (filter is_local (ct_identities d)))"
    using rekey_None_iff [of "[]" "ct_identities d"] assms(2,3) by simp
  show ?thesis
  proof (cases "rekey [] (ct_identities d)")
    case None
    with iff run_rekey_fails [OF r None] show ?thesis by (auto simp: ensure_schema_def)
  next
    case (Some js)
    obtain d' where d': "run_schema ?ss d = Inr d'" "covers (concat (map made_by (rev ?ss))) d'" "ct_identities d' = js"
      using run_fits [OF _ assms(1) schema_text_fits Some] r by (auto simp: covers_def)
    have place: "\<forall>s \<in> set ?ss. in_place s d'" using run_in_place [OF d'(1) schema_text_guarded] by blast
    have "\<exists>have. ct_tables d' t = Some have \<and> column_names cs \<subseteq> column_names have" if "CreateTable t cs \<in> set ?ss" for t cs
    proof -
      have "(t, first_columns t cs) \<in> set (concat (map made_by (rev ?ss)))"
        unfolding set_concat set_map set_rev
        by (rule UnionI [OF imageI [OF imageI [OF that]]]) (simp add: made_by_def)
      from bspec [OF d'(2) [unfolded covers_def] this]
      obtain have' where h: "ct_tables d' t = Some have'" "first_columns t cs \<subseteq> column_names have'" by auto
      moreover have "schema_later t \<subseteq> column_names have'"
        using later_in_place [OF place] h(1) unfolding schema_later_def by blast
      ultimately show ?thesis by (auto simp: first_columns_def)
    qed
    moreover have "ensure_schema d = Inr d'" "ensure_schema d' = Inr d'"
      unfolding ensure_schema_def d'(1) run_noop [OF place] by simp_all
    moreover have "ct_identities d' = map (\<lambda>i. if stale_subject i then i\<lparr>i_subject := local_subject (i_user i)\<rparr> else i) (ct_identities d)"
      using rekey_result [OF Some] d'(3) by simp
    ultimately have "\<exists>d'. ensure_schema d = Inr d' \<and> ensure_schema d' = Inr d' \<and> (\<forall>s \<in> set ?ss. in_place s d') \<and>
      (\<forall>t cs. CreateTable t cs \<in> set ?ss \<longrightarrow> (\<exists>have. ct_tables d' t = Some have \<and> column_names cs \<subseteq> column_names have)) \<and>
      ct_identities d' = map (\<lambda>i. if stale_subject i then i\<lparr>i_subject := local_subject (i_user i)\<rparr> else i) (ct_identities d)"
      using place by blast
    moreover have "distinct (map i_user (filter is_local (ct_identities d)))" using iff Some by simp
    ultimately show ?thesis by (simp only: if_True)
  qed
qed


text \<open>
  An earlier version: no \<open>created_at\<close> on the identities, no \<open>consumed_at\<close>, \<open>provider\<close> and \<open>subject\<close>
  on the codes, one password identity keyed by its address.
\<close>

definition address_row :: identity_row where
  "address_row = \<lparr>i_user = 7, i_provider = provider_local, i_subject = ''a@b'', i_password_hash = ''h'', i_access_token = [],
     i_refresh_token = [], i_token_expiry = None, i_roles = None, i_roles_synced_at = None, i_synced_at = None\<rparr>"

definition old_catalogue :: catalogue where
  "old_catalogue = \<lparr>ct_tables = [''porte_identities'' \<mapsto> map (\<lambda>c. (c, None)) [''user_id'', ''provider'', ''subject'', ''password_hash'',
       ''access_token'', ''refresh_token'', ''token_expiry'', ''roles'', ''roles_synced_at'', ''synced_at''],
     ''porte_login_codes'' \<mapsto> map (\<lambda>c. (c, None)) [''code_hash'', ''user_id'', ''expires_at'']],
     ct_indexes = [], ct_identities = [address_row]\<rparr>"

lemma no_address_subject: "local_subject u \<noteq> ''a@b''"
proof
  assume "local_subject u = ''a@b''"
  then have "CHR ''@'' \<in> set (format_int u)" by (simp add: local_subject_def)
  then show False using dec_digits [of "CHR ''@''"] by (auto simp: format_int_def split: if_splits)
qed

theorem ensure_schema_upgrades_witness:
  "\<exists>d'. ensure_schema old_catalogue = Inr d' \<and> ensure_schema d' = Inr d' \<and>
    ct_identities d' = [address_row\<lparr>i_subject := local_subject 7\<rparr>]"
proof -
  have e: "earlier_version (schema_text @ key_schema_text) old_catalogue"
    by (simp add: earlier_version_def old_catalogue_def schema_text_def key_schema_text_def first_columns_def schema_later_def)
      (intro allI conjI impI; elim conjE; hypsubst; simp add: insert_Diff_if)
  have s: "subjects_ok (ct_identities old_catalogue)"
    using no_address_subject by (simp add: subjects_ok_def old_catalogue_def address_row_def) metis
  have "stale_subject address_row"
    using no_address_subject [of 7] by (simp add: stale_subject_def address_row_def)
  with ensure_schema_upgrades [OF e s] show ?thesis
    by (auto simp: old_catalogue_def address_row_def)
qed

end
