(* ===== verification/Pg_History.thy ===== *)
theory Pg_History
  imports Reseal
begin

text \<open>
  All the stores of \<open>porte/pg\<close> at work on one database: a step is one method, or one transaction of a
  method that runs several (an attempt of an erase, a batch or an update of a reseal), of any of the
  processes that share it, with statements that may fail. What the tables promise one another holds
  in every state such steps reach.
\<close>

inductive pg_step :: "token_sealer \<Rightarrow> db \<Rightarrow> db \<Rightarrow> bool" for sealer :: token_sealer where
  fate: "pg_step sealer d (d\<lparr>faults := fs, sql_now := t, table_cache := c\<rparr>)"
| create_session: "pg_step sealer d (snd (session_create x d))"
| find_session: "pg_step sealer d (snd (session_find h d))"
| touch_session: "pg_step sealer d (snd (session_touch h at d))"
| delete_session: "pg_step sealer d (snd (session_delete h d))"
| delete_sessions_of: "pg_step sealer d (snd (session_delete_by_user u d))"
| delete_logins_of: "pg_step sealer d (snd (session_delete_logins u i d))"
| list_sessions_of: "pg_step sealer d (snd (session_list_by_user u d))"
| delete_session_id: "pg_step sealer d (snd (session_delete_by_id u i d))"
| sweep_sessions: "pg_step sealer d (snd (session_delete_expired now d))"
| create_code: "pg_step sealer d (snd (code_create lc d))"
| consume_code: "pg_step sealer d (snd (code_consume now h d))"
| sweep_codes: "pg_step sealer d (snd (code_delete_expired now d))"
| create_link: "pg_step sealer d (snd (link_create l d))"
| consume_link: "pg_step sealer d (snd (link_consume h now d))"
| count_links: "pg_step sealer d (snd (link_count_since k since d))"
| sweep_links: "pg_step sealer d (snd (link_delete_expired cutoff d))"
| register_user: "pg_step sealer d (snd (create_from_password email name d))"
| find_user: "pg_step sealer d (snd (find_by_email email d))"
| upsert_user: "pg_step sealer d (snd (upsert_from_oidc claims d))"
| find_identity: "pg_step sealer d (snd (identity_find sealer prov subj d))"
| save_identity: "pg_step sealer d (snd (identity_save sealer entropy si d))"
| mark_roles: "pg_step sealer d (snd (mark_roles_synced prov subj at d))"
| list_identities: "pg_step sealer d (snd (identity_list_by_user sealer u d))"
| erase_read: "pg_step sealer d (snd (identity_owner prov subj d))"
| erase_attempt: "pg_step sealer d (snd (with_user_lock u False (erase_locked u prov subj) d))"
| reseal_read: "pg_step sealer d (snd (token_batch after d))"
| reseal_update: "pg_step sealer d (snd (reseal_row sealer draw row d))"

text \<open>A method that keeps the tables well-formed and draws numbers only upwards.\<close>

lemma tick_ok: "db_ok d \<Longrightarrow> d' \<in> {d, tick d} \<Longrightarrow> db_ok d'"
  by auto

lemma query_step_ok: "db_ok d \<Longrightarrow> db_ok (snd (query f d))"
  by (simp add: query_state)

lemma set_tokens_user [simp]: "i_user (set_tokens a r i) = i_user i"
  by (simp add: set_tokens_def)

lemma reseal_row_ok: "db_ok d \<Longrightarrow> db_ok (snd (reseal_row sealer draw row d))"
proof -
  assume d: "db_ok d"
  have "db_ok (d\<lparr>identities := update_where p (set_tokens a r) (identities d)\<rparr>)" if "db_ok d" for p a r d
    by (rule update_identities_ok [OF that]) (use db_ok_identities [OF that] in \<open>auto\<close>)
  from this [of "tick d"] d show ?thesis
    by (auto simp: reseal_row_def wrapping_def stmt_def split: prod.splits)
qed

lemma erase_attempt_ok: "db_ok d \<Longrightarrow> db_ok (snd (with_user_lock u False (erase_locked u prov subj) d))"
  using keeps_okD [OF keeps_with_user_lock [OF keeps_erase_locked]] by blast

lemma read_ok:
  assumes "db_ok d"
  shows "db_ok (snd (find_by_email email d))" "db_ok (snd (identity_find sealer prov subj d))"
    "db_ok (snd (identity_list_by_user sealer u d))" "db_ok (snd (identity_owner prov subj d))" "db_ok (snd (token_batch after d))"
  using assms
  by (auto simp: find_by_email_def identity_find_def identity_list_by_user_def identity_owner_def token_batch_def wrapping_def
      split: prod.splits sum.splits option.splits dest!: query_Inr query_Inl)

lemma pg_step_ok: "pg_step sealer d d' \<Longrightarrow> db_ok d \<Longrightarrow> db_ok d'"
proof (induction rule: pg_step.induct)
  case (fate d fs t c)
  then show ?case by (simp add: db_ok_defs)
next
  case (count_links d k since)
  then show ?case using link_count_state [of k since d] by (auto intro: tick_ok)
qed (simp_all add: session_create_ok session_methods_ok code_create_ok code_consume_ok code_delete_expired_ok
    keeps_okD [OF link_create_ok] keeps_okD [OF link_consume_ok] keeps_okD [OF link_delete_expired_ok]
    keeps_okD [OF keeps_create_from_password] keeps_okD [OF upsert_from_oidc_ok] keeps_okD [OF keeps_identity_save]
    keeps_okD [OF keeps_mark_roles_synced] read_ok erase_attempt_ok reseal_row_ok)

text \<open>The loops are paths of such steps, whatever other processes do in between.\<close>

lemma erase_is_steps:
  assumes "\<And>n e. (pg_step sealer)\<^sup>*\<^sup>* e (others n e)"
  shows "(pg_step sealer)\<^sup>*\<^sup>* d (snd (erase_identity others prov subj d))"
proof -
  have "(pg_step sealer)\<^sup>*\<^sup>* d (snd (erase_loop n others prov subj d))" for n d
  proof (induction n arbitrary: d)
    case (Suc n)
    obtain r d1 where r: "identity_owner prov subj d = (r, d1)" by (cases "identity_owner prov subj d")
    then have 1: "(pg_step sealer)\<^sup>*\<^sup>* d d1" using erase_read [of sealer d prov subj] by auto
    show ?case
    proof (cases "\<exists>u. r = Inr (Some u)")
      case True
      then obtain u where u: "r = Inr (Some u)" by blast
      obtain q d2 where q: "with_user_lock u False (erase_locked u prov subj) (others n d1) = (q, d2)"
        by (cases "with_user_lock u False (erase_locked u prov subj) (others n d1)")
      have "pg_step sealer (others n d1) d2" using erase_attempt [of sealer "others n d1" u prov subj] q by simp
      with 1 assms [of d1 n] have "(pg_step sealer)\<^sup>*\<^sup>* d d2" by auto
      with Suc.IH [of d2] r u q show ?thesis by (auto split: sum.splits)
    next
      case False
      with r 1 show ?thesis by (auto split: sum.splits option.splits)
    qed
  qed simp
  then show ?thesis by (simp add: erase_identity_def)
qed

lemma reseal_rows_is_steps:
  assumes "\<And>row e. (pg_step sealer)\<^sup>*\<^sup>* e (others row e)"
  shows "(pg_step sealer)\<^sup>*\<^sup>* d (snd (reseal_rows sealer draw others rows d))"
proof (induction rows arbitrary: d)
  case (Cons row rows)
  obtain r d1 where r: "reseal_row sealer draw row (others row d) = (r, d1)" by (cases "reseal_row sealer draw row (others row d)")
  have "pg_step sealer (others row d) d1" using reseal_update [of sealer "others row d" draw row] r by simp
  with assms [of d row] have 1: "(pg_step sealer)\<^sup>*\<^sup>* d d1" by auto
  with r Cons [of d1] show ?case by (cases r) (auto split: prod.splits)
qed simp



end
