(* ===== verification/Receiver_Run.thy ===== *)
theory Receiver_Run
  imports Erasure Directory Settings
begin

text \<open>
  The receiver as it runs: the three requests of the client (\<open>directory/directory.go\<close>,
  \<open>directory/deletions.go\<close>) over a network that answers, and \<open>Deletions.Run\<close>, which polls at once and
  then at every tick. Between two polls the world may change and Registre's list may grow.
\<close>

section \<open>The requests\<close>

record request =
  rq_method :: string
  rq_path :: string
  rq_body :: string

definition client_snapshot :: "(string \<Rightarrow> snapshot option) \<Rightarrow> (request \<Rightarrow> exchange) \<Rightarrow> snapshot result" where
  "client_snapshot json net =
     client_call json (net \<lparr>rq_method = ''GET'', rq_path = ''/api/directory/snapshot'', rq_body = []\<rparr>)"

text \<open>The body is what \<open>json.Marshal\<close> makes of the spaces, of which there is a list even when there are none.\<close>

definition client_import ::
  "(import_space list \<Rightarrow> string option) \<Rightarrow> (string \<Rightarrow> snapshot option) \<Rightarrow> (request \<Rightarrow> exchange) \<Rightarrow> import_space list \<Rightarrow> snapshot result" where
  "client_import marshal json net spaces = (case marshal spaces of
     None \<Rightarrow> Inl (Plain ''directory: encode the import'')
   | Some body \<Rightarrow> client_call json (net \<lparr>rq_method = ''POST'', rq_path = ''/api/directory/import'', rq_body = body\<rparr>))"

definition client_deletions ::
  "(time \<Rightarrow> string) \<Rightarrow> (string \<Rightarrow> deleted list option) \<Rightarrow> (request \<Rightarrow> exchange) \<Rightarrow> time \<Rightarrow> deleted list result" where
  "client_deletions rfc3339 json net since =
     (case client_fetch (net \<lparr>rq_method = ''GET'',
        rq_path = ''/api/directory/deletions?since='' @ query_escape (rfc3339 since), rq_body = []\<rparr>) of
       Inl e \<Rightarrow> Inl e
     | Inr body \<Rightarrow> (case json body of
         None \<Rightarrow> Inl (unavailable ''decode the deletions'') | Some deleted \<Rightarrow> Inr deleted))"

text \<open>What a caller may retry: every failure wraps \<open>ErrUnavailable\<close> but a request that cannot be built and a snapshot over the cap.\<close>

lemma unavailable_wraps [simp]: "wraps (unavailable why) err_unavailable"
  by (simp add: unavailable_def err_unavailable_def)

lemma client_fetch_cases:
  "client_fetch x = Inl e \<Longrightarrow> wraps e err_unavailable \<or> e = Plain ''directory: build the request''"
  "client_fetch x = Inr body \<Longrightarrow> x = Answered 200 (Some body) \<and> length body \<le> max_snapshot_bytes"
  by (auto simp: client_fetch_def client_do_def read_all_def Let_def min_def
      split: sum.splits option.splits exchange.splits if_splits)

lemma client_call_failures:
  "client_call decode x = Inl e \<Longrightarrow>
     wraps e err_unavailable \<or> e = Plain ''directory: build the request'' \<or> e = err_snapshot_too_large"
  by (auto simp: client_call_def client_do_def decode_snapshot_def Let_def
      split: sum.splits option.splits exchange.splits if_splits)

lemma client_deletions_cases:
  "client_deletions rfc3339 json net since = Inl e \<Longrightarrow> wraps e err_unavailable \<or> e = Plain ''directory: build the request''"
  "client_deletions rfc3339 json net since = Inr ps \<Longrightarrow>
    \<exists>rq body. net rq = Answered 200 (Some body) \<and> length body \<le> max_snapshot_bytes \<and> json body = Some ps"
  unfolding client_deletions_def
  by (force split: sum.splits option.splits dest: client_fetch_cases)+

section \<open>The loop\<close>

definition poll_interval :: "duration \<Rightarrow> duration" where
  "poll_interval interval = (if interval \<le> 0 then default_interval else interval)"

text \<open>
  \<open>Run\<close> over the polls it makes until its context ends: for each one what Registre lists during it
  and what happened in the world while the loop waited. The errors of a poll are only logged; those
  of the last one are kept to speak of them.
\<close>

fun run_receiver ::
  "'w deletions \<Rightarrow> ((time \<Rightarrow> 'w \<Rightarrow> deleted list result \<times> 'w) \<times> ('w \<Rightarrow> 'w)) list \<Rightarrow> error list \<times> 'w receiver
    \<Rightarrow> (error list \<times> 'w receiver) option" where
  "run_receiver d [] y = Some y"
| "run_receiver d ((listed, wait) # env) (errs, m, w) = (case poll (d\<lparr>dn_list := listed\<rparr>) (m, wait w) of
     None \<Rightarrow> None | Some y \<Rightarrow> run_receiver d env y)"

section \<open>What the pages of a poll keep\<close>

text \<open>A page is handled person by person, so what holds of one person's step holds of the page.\<close>

lemma handle_all_keeps:
  assumes "\<And>sub x r x'. handle_person d sub x = (r, x') \<Longrightarrow> P x \<Longrightarrow> P x'"
  shows "handle_all d ps r x = (r', x') \<Longrightarrow> P x \<Longrightarrow> P x'"
proof (induction ps arbitrary: r x)
  case (Cons p ps)
  obtain hr x1 where h: "handle_person d (de_subject p) x = (hr, x1)" by (cases "handle_person d (de_subject p) x")
  have "P x1" by (rule assms [OF h Cons.prems(2)])
  with Cons h show ?case by (cases hr) auto
qed simp

lemma handle_all_handled:
  "handle_all d ps r x = (r', x') \<Longrightarrow> set (pr_handled r') \<subseteq> set (pr_handled r) \<union> de_at ` set ps"
proof (induction ps arbitrary: r x)
  case (Cons p ps)
  obtain hr x1 where h: "handle_person d (de_subject p) x = (hr, x1)" by (cases "handle_person d (de_subject p) x")
  obtain r1 where r1: "handle_all d ps r1 x1 = (r', x')" "set (pr_handled r1) \<subseteq> set (pr_handled r) \<union> {de_at p}"
  proof (cases hr)
    case (Inl e)
    with Cons.prems h show ?thesis by (intro that [of "poll_fail (de_at p) e r"]) (auto simp: poll_fail_def)
  next
    case (Inr u)
    with Cons.prems h show ?thesis by (intro that [of "r\<lparr>pr_handled := pr_handled r @ [de_at p]\<rparr>"]) auto
  qed
  show ?case using Cons.IH [OF r1(1)] r1(2) by auto
qed simp

lemma drain_keeps:
  assumes listing: "\<And>since m w r w'. dn_list d since w = (r, w') \<Longrightarrow> P (m, w) \<Longrightarrow> P (m, w')"
    and handling: "\<And>sub x r x'. handle_person d sub x = (r, x') \<Longrightarrow> P x \<Longrightarrow> P x'"
    and persisting: "\<And>x r x'. persist_state d x = (r, x') \<Longrightarrow> P x \<Longrightarrow> P x'"
    and pages: "\<And>since w ps w'. dn_list d since w = (Inr ps, w') \<Longrightarrow> de_at ` set ps \<subseteq> T"
    and "drain_pages d since r x = Some y" and "P x" and "set (pr_handled r) \<subseteq> T"
  shows "P (snd y) \<and> set (pr_handled (fst y)) \<subseteq> T"
proof -
  let ?I = "\<lambda>(r :: poll_result) x. P x \<and> set (pr_handled r) \<subseteq> T"
  let ?Q = "\<lambda>(d' :: 'a deletions) (since :: time) (r :: poll_result) (x :: 'a receiver) y. d' = d \<longrightarrow> ?I r x \<longrightarrow> ?I (fst y) (snd y)"
  have errs: "pr_handled (poll_errors es r) = pr_handled r" for es r by (simp add: poll_errors_def)
  have "?Q d since r x y"
  proof (rule drain_pages.raw_induct [of ?Q "(((d, since), r), x)" y, unfolded prod.case])
    show "drain_pages d since r x = Some y" by (rule assms(5))
  next
    fix f :: "'a deletions \<Rightarrow> time \<Rightarrow> poll_result \<Rightarrow> 'a receiver \<Rightarrow> (poll_result \<times> 'a receiver) option"
      and d' since r x y
    assume ih: "\<And>d' since r x y. f d' since r x = Some y \<Longrightarrow> ?Q d' since r x y"
      and body: "(case dn_list d' since (snd x) of (Inl e, w1) \<Rightarrow> Some (poll_errors [e] r, (fst x, w1))
        | (Inr ps, w1) \<Rightarrow> (case handle_all d' ps r (fst x, w1) of (r1, x1) \<Rightarrow> (case persist_state d' x1 of
            (Inl e, x2) \<Rightarrow> Some (poll_errors [e] r1, x2)
          | (Inr _, x2) \<Rightarrow> (case next_page ps since of
              (None, es) \<Rightarrow> Some (poll_errors es r1, x2)
            | (Some nx, es) \<Rightarrow> f d' nx (poll_errors es r1) x2)))) = Some y"
    show "?Q d' since r x y"
    proof (intro impI)
      assume d: "d' = d" and x: "?I r x"
      obtain lr w1 where l: "dn_list d since (snd x) = (lr, w1)" by (cases "dn_list d since (snd x)")
      have w1: "P (fst x, w1)" using listing [OF l, of "fst x"] x by simp
      show "?I (fst y) (snd y)"
      proof (cases lr)
        case (Inl e)
        with body d l w1 x show ?thesis by (auto simp: errs)
      next
        case (Inr ps)
        obtain r1 x1 where h: "handle_all d ps r (fst x, w1) = (r1, x1)" by (cases "handle_all d ps r (fst x, w1)")
        have x1: "P x1" by (rule handle_all_keeps [of d P, OF handling h w1])
        have r1: "set (pr_handled r1) \<subseteq> T" using handle_all_handled [OF h] pages [of since "snd x" ps w1] l Inr x by auto
        obtain pr x2 where p: "persist_state d x1 = (pr, x2)" by (cases "persist_state d x1")
        have x2: "P x2" by (rule persisting [OF p x1])
        show ?thesis
          using body d l Inr h p x2 r1 ih by (cases pr) (auto simp: errs split: prod.splits option.splits)
      qed
    qed
  qed
  with assms(6,7) show ?thesis by simp
qed

section \<open>Where a receiver may go on from\<close>

text \<open>The cursor in memory, and the one a restart or a lost copy falls back to.\<close>

definition cursors :: "'a erase_world receiver \<Rightarrow> time set" where
  "cursors x = (case fst x of Some s \<Rightarrow> {dl_cursor s} | None \<Rightarrow> {}) \<union>
     (case decode_state (ew_saved (snd x)) of Inr s \<Rightarrow> {dl_cursor s} | Inl e \<Rightarrow> {})"

lemma cursors_record_done [simp]: "cursors (Some (record_done sub t s), w) = cursors (Some s, w)"
  by (simp add: cursors_def record_done_def)

text \<open>
  Records that name people who are gone; cursors that are times of the list, with everybody after
  \<open>L\<close> and up to the overlap before them gone; and everybody after \<open>L\<close> gone.
\<close>

definition sound :: "string \<Rightarrow> 'a erase_world receiver \<Rightarrow> bool" where
  "sound iss x = (trusts iss (snd x) \<and> (\<forall>s t. fst x = Some s \<longrightarrow> is_done s t \<longrightarrow> erased_for iss t (snd x)))"

definition caught_up :: "string \<Rightarrow> time \<Rightarrow> deleted list \<Rightarrow> 'a erase_world receiver \<Rightarrow> bool" where
  "caught_up iss L log x = (\<forall>c \<in> cursors x. c \<in> insert 0 (de_at ` set log) \<and>
     (c \<noteq> 0 \<longrightarrow> (\<forall>p \<in> set log. L < de_at p \<longrightarrow> de_at p \<le> c - overlap \<longrightarrow> erased_for iss (de_subject p) (snd x))))"

definition all_gone :: "string \<Rightarrow> time \<Rightarrow> deleted list \<Rightarrow> 'a erase_world receiver \<Rightarrow> bool" where
  "all_gone iss L log x = (\<forall>p \<in> set log. L < de_at p \<longrightarrow> erased_for iss (de_subject p) (snd x))"

context pg_receiver begin

abbreviation (input) "rcv \<equiv> receiver_on_pg iss listed callback others"

lemma load_cursors:
  assumes "load_state rcv x = (r, x1)"
  shows "cursors x1 \<subseteq> cursors x" and "\<forall>s. r = Inr s \<longrightarrow> fst x1 = Some s \<and> dl_cursor s \<in> cursors x" and "ew_now (snd x1) = ew_now (snd x)"
  using assms
  by (cases x; auto simp: load_state_def receiver_on_pg_def one_row_def cursors_def split: option.splits sum.splits)+

lemma persist_cursors:
  assumes "persist_state rcv x = (r, x')"
  shows "cursors x' \<subseteq> cursors x"
  using assms
  by (cases x; auto simp: persist_state_def save_state_def receiver_on_pg_def one_row_def cursors_def decode_state_def
      split: option.splits sum.splits if_splits)

lemma calm_cursors: "calm iss w w' \<Longrightarrow> cursors (m, w') = cursors (m, w)"
  by (simp add: calm_def cursors_def)

lemma handle_cursors:
  assumes "handle_person rcv sub x = (r, x')"
  shows "cursors x' \<subseteq> cursors x"
proof -
  obtain lr x1 where l: "load_state rcv x = (lr, x1)" by (cases "load_state rcv x")
  note l' = load_cursors [OF l]
  show ?thesis
  proof (cases lr)
    case (Inl e)
    with assms l l' show ?thesis by (auto simp: handle_person_def)
  next
    case (Inr s)
    obtain w1 where x1: "x1 = (Some s, w1)" using l'(2) Inr by (cases x1) auto
    obtain er w2 where e: "erase_person rcv sub w1 = (er, w2)" by (cases "erase_person rcv sub w1")
    have "cursors (m, w2) = cursors (m, w1)" for m using calm_erase_person [OF e] calm_cursors by blast
    with assms l l'(1) Inr x1 e show ?thesis by (auto simp: handle_person_def split: if_splits sum.splits)
  qed
qed

lemma drain_cursors:
  assumes "drain_pages rcv since no_result x = Some (r, x')"
    and "\<And>since w ps w'. listed since w = (Inr ps, w') \<Longrightarrow> set ps \<subseteq> set log"
  shows "cursors x' \<subseteq> cursors x \<and> set (pr_handled r) \<subseteq> de_at ` set log"
proof -
  have "cursors (snd (r, x')) \<subseteq> cursors x \<and> set (pr_handled (fst (r, x'))) \<subseteq> de_at ` set log"
  proof (rule drain_keeps [OF _ _ _ _ assms(1), of "\<lambda>y. cursors y \<subseteq> cursors x"])
    show "cursors (m, w') \<subseteq> cursors x" if "dn_list rcv since w = (lr, w')" "cursors (m, w) \<subseteq> cursors x" for since m w lr w'
      using that calm_list [of since w lr w'] calm_cursors [of w w' m] by (simp add: receiver_on_pg_def)
    show "de_at ` set ps \<subseteq> de_at ` set log" if "dn_list rcv since w = (Inr ps, w')" for since w ps w'
      using that assms(2) [of since w ps w'] by (auto simp: receiver_on_pg_def)
  qed (use handle_cursors persist_cursors in \<open>blast | simp add: no_result_def\<close>)+
  then show ?thesis by simp
qed

lemma poll_cursors:
  assumes "poll rcv x = Some (errs, x')" and "load_state rcv x = (Inr s, x1)" and "c \<in> cursors x'"
    and "\<And>since w ps w'. listed since w = (Inr ps, w') \<Longrightarrow> set ps \<subseteq> set log"
  shows "c \<in> cursors x \<or> (c \<in> insert 0 (de_at ` set log) \<and> dl_cursor s < c \<and> (\<exists>s'. fst x' = Some s' \<and> dl_cursor s' = c))"
proof -
  have cb: "dn_callback rcv \<noteq> None" by (simp add: receiver_on_pg_def)
  note l = load_cursors [OF assms(2)]
  obtain r m w2 where dr: "drain_pages rcv (since_of s (dn_now rcv (snd x1))) no_result x1 = Some (r, (m, w2))"
    using assms(1,2) cb by (auto simp: poll_def split: option.splits)
  have d: "cursors (m, w2) \<subseteq> cursors x1" "set (pr_handled r) \<subseteq> de_at ` set log"
    using drain_cursors [OF dr] assms(4) by blast+
  show ?thesis
  proof (cases m)
    case None
    with assms(1-3) cb dr d l(1) show ?thesis by (auto simp: poll_def)
  next
    case (Some s2)
    have s2: "dl_cursor s2 = dl_cursor s" using drain_cursor [OF dr] l(2) Some by auto
    let ?c = "cursor_after (pr_handled r) (pr_failed r)"
    show ?thesis
    proof (cases "dl_cursor s2 < ?c")
      case False
      with assms(1-3) cb dr d l(1) Some show ?thesis by (auto simp: poll_def Let_def)
    next
      case True
      obtain pr x3 where p: "persist_state rcv (Some (s2\<lparr>dl_cursor := ?c\<rparr>), w2) = (pr, x3)"
        by (cases "persist_state rcv (Some (s2\<lparr>dl_cursor := ?c\<rparr>), w2)")
      have x': "x' = x3" using assms(1,2) cb dr Some True p by (cases pr) (auto simp: poll_def Let_def)
      have log: "?c \<in> insert 0 (de_at ` set log)"
        using cursor_loop_cases [of "pr_failed r" "pr_handled r" 0] d by (auto simp: cursor_after_def)
      have old: "cursors (None, w2) \<subseteq> cursors x" using d l(1) Some by (auto simp: cursors_def)
      show ?thesis
      proof (cases pr)
        case (Inl e)
        then have "x3 = (None, w2)"
          using p by (auto simp: persist_state_def save_state_def receiver_on_pg_def one_row_def split: if_splits)
        with x' assms(3) old show ?thesis by auto
      next
        case (Inr u)
        then have "fst x3 = Some (s2\<lparr>dl_cursor := ?c\<rparr>)" using persist_cursor [OF p] by simp
        moreover have "c = ?c \<or> c \<in> cursors (None, w2)"
          using persist_cursors [OF p] assms(3) x' by (auto simp: cursors_def)
        ultimately show ?thesis using old log True s2 x' by auto
      qed
    qed
  qed
qed

text \<open>A state a poll may start from: its records name people who are gone.\<close>

lemma honest_iff: "honest x \<longleftrightarrow> sound iss x"
  by (simp add: honest_def sound_def)

lemma poll_step:
  assumes feed: "\<And>since w ps w'. listed since w = (Inr ps, w') \<Longrightarrow> ps = take list_limit (filter (\<lambda>p. since < de_at p) log)"
    and log: "sorted (map de_at log)" "\<forall>p \<in> set log. 0 < de_at p"
    and x: "sound iss x" "caught_up iss L log x" "ew_now (snd x) \<le> L + deletion_retention"
  shows "\<exists>errs x'. poll rcv x = Some (errs, x') \<and> sound iss x' \<and> caught_up iss L log x' \<and>
    (errs = [] \<longrightarrow> all_gone iss L log x')"
proof -
  have log': "\<And>since w ps w'. listed since w = (Inr ps, w') \<Longrightarrow> set ps \<subseteq> set log"
    using feed by (metis filter_is_subset order_trans set_take_subset)
  have "\<forall>p \<in> set ps. de_at p \<le> Max (de_at ` set log)" if "dn_list rcv since w = (Inr ps, w')" for since w ps w'
    using that log' [of since w ps w'] by (auto simp: receiver_on_pg_def)
  then obtain errs x' where p: "poll rcv x = Some (errs, x')" using poll_returns [of rcv] by metis
  obtain lr x1 where l: "load_state rcv x = (lr, x1)" by (cases "load_state rcv x")
  note l' = load_cursors [OF l]
  show ?thesis
  proof (cases lr)
    case (Inl e)
    have "dn_callback rcv \<noteq> None" by (simp add: receiver_on_pg_def)
    with p l Inl have "errs \<noteq> []" "x' = x1" by (auto simp: poll_def)
    moreover have "advances x x1" using honest_load [OF _ l] x(1) by (simp add: honest_iff)
    ultimately show ?thesis using p x(2) l'(1) by (auto simp: advances_def honest_iff caught_up_def)
  next
    case (Inr s)
    define start where "start = since_of s (ew_now (snd x))"
    have start': "start = since_of s (dn_now rcv (snd x1))" using l'(3) by (simp add: start_def receiver_on_pg_def)
    have feed': "\<And>since w ps w'. dn_list rcv since w = (Inr ps, w') \<Longrightarrow> ps = take list_limit (filter (\<lambda>p. since < de_at p) log)"
      using feed by (simp add: receiver_on_pg_def)
    have c: "advances x x' \<and> (errs = [] \<longrightarrow> (\<forall>p \<in> set log. start < de_at p \<longrightarrow> erased_for iss (de_subject p) (snd x'))) \<and>
      (\<forall>s'. fst x' = Some s' \<longrightarrow> dl_cursor s < dl_cursor s' \<longrightarrow>
        (\<forall>p \<in> set log. start < de_at p \<longrightarrow> de_at p < dl_cursor s' \<longrightarrow> erased_for iss (de_subject p) (snd x')))"
      by (rule poll_covers [OF _ log _ p l [unfolded Inr] start']) (use feed' x(1) honest_iff in blast)+
    have adv: "sound iss x'" "\<And>t. erased_for iss t (snd x) \<Longrightarrow> erased_for iss t (snd x')"
      using c by (auto simp: advances_def honest_iff)
    have early: "erased_for iss (de_subject q) (snd x')" if "q \<in> set log" "L < de_at q" "de_at q \<le> start" for q
    proof (cases "dl_cursor s = 0")
      case True
      with that x(3) show ?thesis by (simp add: start_def since_of_def)
    next
      case False
      with that x(2) l'(2) Inr adv(2) show ?thesis by (auto simp: start_def since_of_def caught_up_def)
    qed
    have "caught_up iss L log x'"
      unfolding caught_up_def
    proof (intro ballI impI conjI)
      fix k assume k: "k \<in> cursors x'"
      have cs: "k \<in> cursors x \<or> (k \<in> insert 0 (de_at ` set log) \<and> dl_cursor s < k \<and>
          (\<exists>s'. fst x' = Some s' \<and> dl_cursor s' = k))"
        using poll_cursors [OF p l [unfolded Inr] k] log' by blast
      show "k \<in> insert 0 (de_at ` set log)" using cs x(2) by (auto simp: caught_up_def)
      fix q assume q: "q \<in> set log" "L < de_at q" "de_at q \<le> k - overlap" and "k \<noteq> 0"
      show "erased_for iss (de_subject q) (snd x')"
      proof (cases "k \<in> cursors x")
        case True
        with x(2) q \<open>k \<noteq> 0\<close> adv(2) show ?thesis by (auto simp: caught_up_def)
      next
        case False
        then obtain s' where "fst x' = Some s'" "dl_cursor s' = k" "dl_cursor s < k" using cs by blast
        moreover have "de_at q < k" using q(3) by (simp add: overlap_def duration_units)
        ultimately show ?thesis using c early [OF q(1,2)] q(1) by (cases "start < de_at q") auto
      qed
    qed
    with p adv(1) c early show ?thesis by (auto simp: all_gone_def not_less)
  qed
qed

end

section \<open>A run over a list that grows\<close>

text \<open>
  What a poll of a run is asked of: what Registre lists is its log, oldest first and a thousand at
  most, neither the listing nor what happens while the loop waits brings an erased identity back or
  touches the saved state, and the clock has not passed \<open>T\<close>.
\<close>

definition steady ::
  "string \<Rightarrow> time \<Rightarrow> deleted list \<times> (time \<Rightarrow> 'a erase_world \<Rightarrow> deleted list result \<times> 'a erase_world) \<times>
    ('a erase_world \<Rightarrow> 'a erase_world) \<Rightarrow> bool" where
  "steady iss T e = (case e of (log, listed, wait) \<Rightarrow>
     sorted (map de_at log) \<and> (\<forall>p \<in> set log. 0 < de_at p) \<and>
     (\<forall>since w lr w'. listed since w = (lr, w') \<longrightarrow> calm iss w w' \<and>
        (\<forall>ps. lr = Inr ps \<longrightarrow> ps = take list_limit (filter (\<lambda>p. since < de_at p) log))) \<and>
     (\<forall>w. calm iss w (wait w) \<and> ew_now (wait w) \<le> T))"

text \<open>A log keeps its entries; a new one is dated at most the overlap before the latest of the old.\<close>

fun growing :: "deleted list \<Rightarrow> deleted list list \<Rightarrow> bool" where
  "growing old [] = True"
| "growing old (new # logs) = (set old \<subseteq> set new \<and>
     (\<forall>p \<in> set new. p \<in> set old \<or> (\<forall>q \<in> set old. de_at q < de_at p + overlap)) \<and> growing new logs)"

lemma wait_step:
  assumes "growing old (new # logs)" and "calm iss w w'" and "sound iss (m, w)" and "caught_up iss L old (m, w)"
  shows "sound iss (m, w')" and "caught_up iss L new (m, w')"
proof -
  show "sound iss (m, w')" using assms(2,3) by (auto simp: sound_def intro: calm_trusts) (auto simp: calm_def)
  have cs: "cursors (m, w') = cursors (m, w)" using assms(2) by (simp add: calm_def cursors_def)
  show "caught_up iss L new (m, w')"
    unfolding caught_up_def cs
  proof (intro ballI conjI impI)
    fix c assume c: "c \<in> cursors (m, w)"
    then show "c \<in> insert 0 (de_at ` set new)" using assms(1,4) by (auto simp: caught_up_def)
    fix p assume p: "p \<in> set new" "L < de_at p" "de_at p \<le> c - overlap" and "c \<noteq> 0"
    with c assms(4) obtain q where "q \<in> set old" "c = de_at q" by (auto simp: caught_up_def)
    with assms(1) p have "p \<in> set old" by force
    with c p \<open>c \<noteq> 0\<close> assms(2,4) show "erased_for iss (de_subject p) (snd (m, w'))"
      by (auto simp: caught_up_def calm_def)
  qed
qed

lemma run_keeps:
  assumes callback: "\<And>who w r w'. callback iss who w = (r, w') \<Longrightarrow> calm iss w w'"
    and others: "\<And>sub db n. owner_of iss sub db = None \<Longrightarrow> owner_of iss sub (others n db) = None"
  shows "list_all (steady iss T) script \<Longrightarrow> growing log (map fst script) \<Longrightarrow> sound iss x \<Longrightarrow>
    caught_up iss (T - deletion_retention) log x \<Longrightarrow> (errs0 = [] \<longrightarrow> all_gone iss (T - deletion_retention) log x) \<Longrightarrow>
    \<exists>errs x'. run_receiver (receiver_on_pg iss idle callback others) (map snd script) (errs0, x) = Some (errs, x') \<and>
      (errs = [] \<longrightarrow> all_gone iss (T - deletion_retention) (last (log # map fst script)) x')"
proof (induction script arbitrary: log errs0 x)
  case (Cons e script)
  obtain new listed wait where e: "e = (new, listed, wait)" by (cases e)
  obtain m w where x: "x = (m, w)" by (cases x)
  have e': "steady iss T (new, listed, wait)" using Cons.prems(1) e by simp
  have r: "pg_receiver iss listed callback others"
    using e' callback others by unfold_locales (auto simp: steady_def)
  have g: "growing log (new # map fst script)" using Cons.prems(2) e by simp
  have w: "calm iss w (wait w)" using e' by (simp add: steady_def)
  note y = wait_step [OF g w Cons.prems(3,4) [unfolded x]]
  have "\<exists>errs x'. poll (receiver_on_pg iss listed callback others) (m, wait w) = Some (errs, x') \<and> sound iss x' \<and>
      caught_up iss (T - deletion_retention) new x' \<and> (errs = [] \<longrightarrow> all_gone iss (T - deletion_retention) new x')"
    by (rule pg_receiver.poll_step [OF r _ _ _ y]) (use e' in \<open>auto simp: steady_def\<close>)
  then obtain errs x' where p: "poll (receiver_on_pg iss listed callback others) (m, wait w) = Some (errs, x')"
    and x': "sound iss x'" "caught_up iss (T - deletion_retention) new x'"
      "errs = [] \<longrightarrow> all_gone iss (T - deletion_retention) new x'" by blast
  have "(receiver_on_pg iss idle callback others)\<lparr>dn_list := listed\<rparr> = receiver_on_pg iss listed callback others"
    by (simp add: receiver_on_pg_def)
  with p have "run_receiver (receiver_on_pg iss idle callback others) (map snd (e # script)) (errs0, x) =
      run_receiver (receiver_on_pg iss idle callback others) (map snd script) (errs, x')"
    by (simp add: e x)
  moreover have "list_all (steady iss T) script" "growing new (map fst script)" using Cons.prems(1) g by simp_all
  ultimately show ?case using Cons.IH [OF _ _ x'] e by simp
qed simp

text \<open>
  C39: the receiver catches up. It starts with nothing saved, polls at every tick, and while it waits
  Registre's list grows and the world moves on. Whatever polls failed on the way, and wherever they
  left the cursor, once a poll reports nothing everybody Registre lists by then and erased within the
  retention has no porte identity left. Every poll returns.
\<close>

theorem run_catches_up:
  assumes "list_all (steady iss T) script" and "growing [] (map fst script)" and "script \<noteq> []" and "ew_saved w = NoState"
    and "\<And>who w r w'. callback iss who w = (r, w') \<Longrightarrow> calm iss w w'"
    and "\<And>sub db n. owner_of iss sub db = None \<Longrightarrow> owner_of iss sub (others n db) = None"
  shows "\<exists>errs x'. run_receiver (receiver_on_pg iss idle callback others) (map snd script) ([], None, w) = Some (errs, x') \<and>
    (errs = [] \<longrightarrow> (\<forall>p \<in> set (fst (last script)). T - deletion_retention < de_at p \<longrightarrow>
       erased_for iss (de_subject p) (snd x')))"
proof -
  have start: "sound iss (None, w)" "caught_up iss (T - deletion_retention) [] (None, w)"
    "([] :: error list) = [] \<longrightarrow> all_gone iss (T - deletion_retention) [] (None, w)"
    using assms(4) by (auto simp: sound_def trusts_def caught_up_def cursors_def all_gone_def decode_state_def is_done_def)
  have "last ([] # map fst script) = fst (last script)" using assms(3) by (simp add: last_map)
  with run_keeps [OF assms(5,6) assms(1,2) start] show ?thesis by (simp add: all_gone_def)
qed

text \<open>Registre does not answer the first poll.\<close>

definition two_polls ::
  "(deleted list \<times> (time \<Rightarrow> int list erase_world \<Rightarrow> deleted list result \<times> int list erase_world) \<times>
    (int list erase_world \<Rightarrow> int list erase_world)) list" where
  "two_polls = [(erased_log, (\<lambda>since w. (client_deletions (\<lambda>t. []) (\<lambda>b. None) (\<lambda>rq. NoAnswer) since, w)), (\<lambda>w. w\<lparr>ew_now := minute\<rparr>)),
     (erased_log, registre_page erased_log, (\<lambda>w. w\<lparr>ew_now := deletion_retention\<rparr>))]"

lemma two_polls_run:
  "map_option fst (run_receiver erasing_receiver (map snd two_polls) ([], None, erasing_world)) = Some []"
  by code_simp

theorem run_catches_up_witness:
  "\<exists>x'. run_receiver erasing_receiver (map snd two_polls) ([], None, erasing_world) = Some ([], x') \<and>
     \<not> erased_for ''local'' ''2'' erasing_world \<and> erased_for ''local'' ''2'' (snd x')"
proof -
  have s: "list_all (steady ''local'' deletion_retention) two_polls"
    using erasing_sorted
    by (auto simp: two_polls_def steady_def registre_page_def calm_def erased_for_def client_deletions_def client_fetch_def
        client_do_def deletion_retention_def duration_units)
  have g: "growing [] (map fst two_polls)" and n: "two_polls \<noteq> []" by (simp_all add: two_polls_def)
  have w: "ew_saved erasing_world = NoState" by (simp add: erasing_world_def)
  have "\<exists>errs x'. run_receiver (receiver_on_pg ''local'' (registre_page erased_log) drop_account (\<lambda>n d. d)) (map snd two_polls)
      ([], None, erasing_world) = Some (errs, x') \<and>
    (errs = [] \<longrightarrow> (\<forall>p \<in> set (fst (last two_polls)). deletion_retention - deletion_retention < de_at p \<longrightarrow>
       erased_for ''local'' (de_subject p) (snd x')))"
    by (rule run_catches_up [OF s g n w], erule erasing_calm(2), assumption)
  then obtain errs x' where r: "run_receiver erasing_receiver (map snd two_polls) ([], None, erasing_world) = Some (errs, x')"
    and e: "errs = [] \<longrightarrow> (\<forall>p \<in> set erased_log. 0 < de_at p \<longrightarrow> erased_for ''local'' (de_subject p) (snd x'))"
    by (auto simp: erasing_receiver_def two_polls_def)
  have "errs = []" using two_polls_run r by simp
  with e have "erased_for ''local'' ''2'' (snd x')" by (simp add: erased_log_def duration_units)
  moreover have "\<not> erased_for ''local'' ''2'' erasing_world" unfolding erased_for_def by code_simp
  ultimately show ?thesis using r \<open>errs = []\<close> by blast
qed

end
