(* ===== verification/Spec2Isabelle.thy ===== *)
theory Spec2Isabelle
  imports Spaces Magiclink Local Federated_Login Forfait Notices Pg_Keys Reseal Link_Memory Loopback Devicelogin
    Space_Suite Link_Suite Avatarfs Pg_Schema Pg_History Receiver_Run
begin

text \<open>
  A verification library for \<open>porte\<close>, the authentication library of the suite.

  The program. An app embeds \<open>porte\<close>: the root package states the contract (identities, sessions,
  tokens, the store interfaces), \<open>porte/pg\<close> keeps it in PostgreSQL, \<open>session\<close> mints and checks the
  one session token over a cookie or a bearer header, the kits \<open>local\<close>, \<open>magiclink\<close> and
  \<open>oidc\<close> are three ways to end up with such a session, and \<open>spaces\<close> decides what a member of a
  space may do. The kits call the stores only through the interfaces.

  How it is modelled. A Go function that returns \<open>(T, error)\<close> and writes through a store is a
  function from a state to a result (\<open>Inl\<close> the error, \<open>Inr\<close> the value) and the new state, which
  comes back on the error path as well. A Go interface is a record of such functions over any
  state type; what its comments promise is a locale over that record, and the locale is
  interpreted on the \<open>porte/pg\<close> model. Randomness, the clock and the answers of code that is not
  in the repository are arguments or fields of a kit.

  The theories, in the order they build on each other:

    \<^item> \<open>Prelude\<close>: error values (\<open>porte.go\<close>, \<open>magiclink.go\<close>), results, time, lists used as tables.
    \<^item> \<open>Gostd\<close>: what the code uses of Go's \<open>strings\<close>, \<open>strconv\<close>, \<open>hex\<close>, \<open>base64\<close>, \<open>sha256\<close>.
    \<^item> \<open>Porte\<close>: the contract's types and functions (\<open>porte.go\<close>, \<open>token.go\<close>, \<open>locale.go\<close>,
      \<open>identity.go\<close>, \<open>session.go\<close>, \<open>magiclink.go\<close>).
    \<^item> \<open>Stores\<close>: the store interfaces and the locales of their contracts.
    \<^item> \<open>Spaces\<close>: \<open>spaces/*.go\<close> with the memory store of \<open>spacestest/memory.go\<close>.
    \<^item> \<open>Database\<close>: the schema of \<open>pg/pg.go\<close>, statements that may fail, transactions, the
      well-formedness invariant of the tables.
    \<^item> \<open>Pg_Sessions\<close>, \<open>Pg_Codes\<close>, \<open>Pg_Identities\<close>: the stores of \<open>pg/pg.go\<close>, \<open>pg/bound.go\<close>,
      \<open>pg/magiclink.go\<close>, \<open>pg/linking.go\<close>, \<open>pg/takeover.go\<close>, \<open>pg/optional.go\<close>,
      \<open>pg/erase.go\<close>.
    \<^item> \<open>Sealer\<close>, \<open>Reseal\<close>: \<open>pg/sealer.go\<close> and \<open>pg/reseal.go\<close>, whose batches run between the
      writes of other processes.
    \<^item> \<open>Link_Memory\<close>: \<open>magiclink/magiclinktest/memory.go\<close>, the reference link store, which the
      one of \<open>porte/pg\<close> refines.
    \<^item> \<open>Session\<close>: \<open>session/*.go\<close>.
    \<^item> \<open>Magiclink\<close>: \<open>magiclink/*.go\<close>.
    \<^item> \<open>Password\<close>, \<open>Accounts\<close>, \<open>Local\<close>: \<open>local/password.go\<close>, the two account interfaces of
      \<open>identity.go\<close>, and \<open>local/local.go\<close>.
    \<^item> \<open>Settings\<close>: the functions of \<open>porte.go\<close> that read URLs and check a configuration.
    \<^item> \<open>Oidc_Flow\<close>, \<open>Oidc\<close>: \<open>oidc/cookie.go\<close>, \<open>oidc/normalize.go\<close>, \<open>oidc/oidc.go\<close>,
      \<open>oidc/handlers.go\<close>, \<open>oidc/middleware.go\<close>, \<open>oidc/bearer.go\<close>.
    \<^item> \<open>Avatar\<close>: \<open>oidc/avatar.go\<close>, with what it uses of Go's \<open>net.IP\<close>.
    \<^item> \<open>Federation\<close>, \<open>Federated_Login\<close>: what the OIDC kit relies on of its stores, interpreted on
      \<open>porte/pg\<close>, and the properties of the kit on that database.
    \<^item> \<open>Jwt\<close>: \<open>oidc/jwt/*.go\<close>, the verifier of bearer tokens and its key cache.
    \<^item> \<open>Directory\<close>: \<open>directory/directory.go\<close>, and the syncer of \<open>directory/syncer.go\<close> and
      \<open>directory/wait.go\<close> as a step relation.
    \<^item> \<open>Deletions\<close>, \<open>Erasure\<close>, \<open>Notices\<close>: \<open>directory/deletions*.go\<close>, the receiver whose erasure is
      that of \<open>porte/pg\<close>, and the pushed notices of \<open>directory/keys.go\<close> and \<open>directory/secevent.go\<close>.
    \<^item> \<open>Receiver_Run\<close>: the requests of the directory client and \<open>Deletions.Run\<close>, poll after poll.
    \<^item> \<open>Forfait\<close>: \<open>forfait/*.go\<close>, the plan values an app reads.
    \<^item> \<open>Keys\<close>, \<open>Pg_Keys\<close>: \<open>keys/*.go\<close>, the API keys and their middleware over a locale of key
      stores, and \<open>pg/keys.go\<close>, the store that interprets it.
    \<^item> \<open>Query\<close>, \<open>Handoff\<close>, \<open>Loopback\<close>: query strings there and back, the page of
      \<open>internal/handoff/handoff.go\<close> with its escapes, and \<open>loopback/*.go\<close>, the listener of a
      command-line login.
    \<^item> \<open>Devicelogin\<close>: \<open>devicelogin/*.go\<close>, the device grant of a command-line tool.
    \<^item> \<open>Avatarfs\<close>: \<open>avatarfs/avatarfs.go\<close>, the avatar files over a directory, with a write as the
      list of directories a reader may see meanwhile.
    \<^item> \<open>Space_Suite\<close>, \<open>Link_Suite\<close>: the conformance suites of \<open>spaces/spacestest\<close> and
      \<open>magiclink/magiclinktest\<close> as programs over any store.
    \<^item> \<open>Pg_Schema\<close>, \<open>Pg_History\<close>: the statements of the schema and \<open>EnsureSchema\<close> over a
      catalogue, and every method of the \<open>pg\<close> stores as a step on one database.

  What the lemmas show. For the stores: the effect of every method on its table, the frame it
  leaves alone, and that each keeps the database well-formed whichever statements fail. For a
  login resolved to an account: a takeover of an unproven address purges every credential the
  earlier holder left, an address the provider does not vouch for never reaches an account that
  exists, a failed login changes nothing. For the session manager: a token authenticates exactly
  when its row is stored, unexpired and of the right kind, a logout ends that session, a
  cross-site write is refused. For the kits: what a password or a link opens, that a link is
  spent once, that the answers do not tell accounts apart. For the OIDC kit: that a callback needs
  the flow cookie, the verifier and the nonce of its login, whom a code and a device token sign
  in, that a back-channel logout ends every session of the account, that an avatar fetch reaches
  no internal address. For the token verifier: what an accepted token carried, and how often the
  keys are fetched. For the receiver of deletions: a poll returns, skips nobody whatever fails, a
  run catches up after failed polls, and a notice is acknowledged only when it is signed and done. For the syncer: no nudge is lost and no
  version goes back. For \<open>forfait\<close>: the store answers as the newest snapshot does, across restarts.
  For the API keys: what a key that is let through was, that a revoked one stays out, and how far a
  quota can be overrun. For the reseal: it returns, and it rewrites exactly what is not sealed under
  the current key. For the command line: the listener and the server read each other's addresses, a
  device login goes to secure addresses only, its poll ends, and what a page is given stays text.
  For \<open>spaces\<close>: a guard allows exactly
  what the stored membership does, and a space keeps its owner. For the suites: the stores here pass
  them, and what a store that passes has shown. For the avatar files: a picture is replaced in one
  step, and no name outside the directory is reached. For the schema: when an upgrade succeeds, and
  that the tables stay well-formed in every history of the stores.

  Bounds. A token is 32 random bytes. Integers are unbounded except where a 64-bit overflow
  would change the answer; loops are structural recursions, so nothing needs fuel, but the
  redirects of an avatar fetch, which end because the client follows at most three requests, and
  the unwrapping of an address that embeds another, which shortens it. Three loops may not end and
  are partial functions. The pages of a poll of deletions: it returns whenever the times that are
  listed are bounded, because every further page starts later. The batches of a reseal: they return
  when the identities are drawn from finitely many keys, because the cursor moves up with every full
  batch. The poll of a device login: it returns when a timer lets its duration pass and the interval
  is positive.

  Not modelled, because the code only hands values to a library there: HTTP transport and logging,
  context values, the mail and the warnings an app is handed, accessors that return a field. What a
  browser or a shell makes of what it is given is not part of the code either.
\<close>

end
